(* ===== verification/MC_Prelude.thy ===== *)
theory MC_Prelude
  imports Main "HOL-Library.Char_ord" "HOL-Library.Sublist"
begin

text \<open>
  Shared vocabulary of the development: Python 2 byte strings as HOL strings (a \<open>char\<close> is a
  byte), the sum type that carries exceptions, decimal rendering of integers, substring search
  and the other string methods the sources use, shell patterns (\<open>fnmatch\<close>), and the generic
  contracts (queue, encoder, transition system) that several components share.
\<close>

named_theorems wf_intro \<open>preservation of the well-formedness invariants\<close>
named_theorems py_simps \<open>evaluation of the Python string and number helpers\<close>

section \<open>Results\<close>

text \<open>A Python call either raises (\<open>Inl\<close>) or returns (\<open>Inr\<close>).\<close>

definition bindR :: "('e + 'a) \<Rightarrow> ('a \<Rightarrow> 'e + 'b) \<Rightarrow> 'e + 'b" where
  "bindR r f = (case r of Inl e \<Rightarrow> Inl e | Inr a \<Rightarrow> f a)"

lemma bindR_simps [simp]:
  "bindR (Inl e) f = Inl e"
  "bindR (Inr a) f = f a"
  by (simp_all add: bindR_def)

lemma bindR_Inr_iff: "bindR r f = Inr b \<longleftrightarrow> (\<exists>a. r = Inr a \<and> f a = Inr b)"
  by (cases r) simp_all

lemma bindR_Inl_iff: "bindR r f = Inl e \<longleftrightarrow> r = Inl e \<or> (\<exists>a. r = Inr a \<and> f a = Inl e)"
  by (cases r) simp_all

fun mapR :: "('a \<Rightarrow> 'e + 'b) \<Rightarrow> 'a list \<Rightarrow> 'e + 'b list" where
  "mapR f [] = Inr []"
| "mapR f (x # xs) = bindR (f x) (\<lambda>y. bindR (mapR f xs) (\<lambda>ys. Inr (y # ys)))"

lemma mapR_Inr_length: "mapR f xs = Inr ys \<Longrightarrow> length ys = length xs"
  by (induction xs arbitrary: ys) (auto simp: bindR_Inr_iff)

lemma mapR_append: "mapR f (xs @ ys) = Inr zs \<longleftrightarrow>
    (\<exists>us vs. mapR f xs = Inr us \<and> mapR f ys = Inr vs \<and> zs = us @ vs)"
  by (induction xs arbitrary: zs) (auto simp: bindR_Inr_iff)

lemma mapR_map: "(\<And>x. x \<in> set xs \<Longrightarrow> f x = Inr (g x)) \<Longrightarrow> mapR f xs = Inr (map g xs)"
  by (induction xs) simp_all

section \<open>Bytes and decimal numbers\<close>

text \<open>\<open>ord\<close> and \<open>chr\<close> of Python 2; \<open>chr\<close> raises outside \<open>0..255\<close>, so callers check the range.\<close>

abbreviation ord :: "char \<Rightarrow> nat" where
  "ord \<equiv> of_char"

abbreviation chr :: "nat \<Rightarrow> char" where
  "chr \<equiv> char_of"

lemma ord_less [simp]: "ord c < 256"
  by simp

lemma ord_chr: "n < 256 \<Longrightarrow> ord (chr n) = n"
  by simp

lemma chr_eq_chr: "m < 256 \<Longrightarrow> n < 256 \<Longrightarrow> (chr m = chr n) = (m = n)"
proof
  assume "m < 256" "n < 256" "chr m = chr n"
  then have "ord (chr m) = ord (chr n)" by (simp only:)
  then show "m = n" using \<open>m < 256\<close> \<open>n < 256\<close> by simp
qed simp

lemma nul_eq_chr: "n < 256 \<Longrightarrow> (CHR 0x00 = chr n) = (n = 0)"
proof -
  assume "n < 256"
  have "chr 0 = CHR 0x00" by (simp add: char_of_eq_iff)
  then show ?thesis using chr_eq_chr [OF _ \<open>n < 256\<close>, of 0] by auto
qed

definition digit_char :: "nat \<Rightarrow> char" where
  "digit_char d = chr (48 + d)"

definition is_digit :: "char \<Rightarrow> bool" where
  "is_digit c \<longleftrightarrow> 48 \<le> ord c \<and> ord c \<le> 57"

function nat_str :: "nat \<Rightarrow> string" where
  "nat_str n = (if n < 10 then [digit_char n] else nat_str (n div 10) @ [digit_char (n mod 10)])"
  by pat_completeness auto
termination
  by (relation "measure id") auto

declare nat_str.simps [simp del]

definition int_str :: "int \<Rightarrow> string" where
  "int_str i = (if i < 0 then CHR ''-'' # nat_str (nat (- i)) else nat_str (nat i))"

fun str_nat_acc :: "nat \<Rightarrow> string \<Rightarrow> nat option" where
  "str_nat_acc a [] = Some a"
| "str_nat_acc a (c # cs) =
     (if is_digit c then str_nat_acc (10 * a + (ord c - 48)) cs else None)"

definition str_nat :: "string \<Rightarrow> nat option" where
  "str_nat s = (if s = [] then None else str_nat_acc 0 s)"

lemma digit_char_digit [simp]: "d < 10 \<Longrightarrow> is_digit (digit_char d)"
  by (simp add: is_digit_def digit_char_def)

lemma ord_digit_char [simp]: "d < 10 \<Longrightarrow> ord (digit_char d) = 48 + d"
  by (simp add: digit_char_def)

lemma digit_char_values [py_simps]:
  "digit_char 0 = CHR ''0''" "digit_char (Suc 0) = CHR ''1''" "digit_char 1 = CHR ''1''"
  "digit_char 2 = CHR ''2''" "digit_char 3 = CHR ''3''" "digit_char 4 = CHR ''4''"
  "digit_char 5 = CHR ''5''" "digit_char 6 = CHR ''6''" "digit_char 7 = CHR ''7''"
  "digit_char 8 = CHR ''8''" "digit_char 9 = CHR ''9''"
  by (simp_all add: digit_char_def char_of_eq_iff take_bit_eq_mod)

lemma nat_str_digits: "\<forall>c \<in> set (nat_str n). is_digit c"
proof (induction n rule: nat_str.induct)
  case (1 n)
  then show ?case by (subst nat_str.simps) auto
qed

lemma nat_str_nonempty [simp]: "nat_str n \<noteq> []"
  by (subst nat_str.simps) simp

lemma str_nat_acc_append:
  "str_nat_acc a (xs @ ys) = (case str_nat_acc a xs of None \<Rightarrow> None | Some b \<Rightarrow> str_nat_acc b ys)"
  by (induction xs arbitrary: a) auto

lemma str_nat_acc_nat_str: "str_nat_acc 0 (nat_str n) = Some n"
proof (induction n rule: nat_str.induct)
  case (1 n)
  show ?case
  proof (cases "n < 10")
    case True
    then show ?thesis by (subst nat_str.simps) simp
  next
    case False
    with 1 show ?thesis by (subst nat_str.simps) (simp add: str_nat_acc_append)
  qed
qed

lemma str_nat_nat_str [simp]: "str_nat (nat_str n) = Some n"
  by (simp add: str_nat_def str_nat_acc_nat_str)

lemma nat_str_inject [simp]: "nat_str m = nat_str n \<longleftrightarrow> m = n"
  using str_nat_nat_str by (metis option.inject)

lemma nat_str_no_minus [simp]:
  "nat_str n \<noteq> CHR ''-'' # s" "CHR ''-'' # s \<noteq> nat_str n"
proof -
  have "nat_str n = CHR ''-'' # s \<Longrightarrow> is_digit (CHR ''-'')" for s
    using nat_str_digits [of n] by simp
  then have "nat_str n \<noteq> CHR ''-'' # s" for s by (auto simp: is_digit_def)
  then show "nat_str n \<noteq> CHR ''-'' # s" "CHR ''-'' # s \<noteq> nat_str n" by metis+
qed

lemma int_str_inject [simp]: "int_str i = int_str j \<longleftrightarrow> i = j"
  by (auto simp: int_str_def)

lemma int_str_0 [simp]: "int_str 0 = ''0''"
  by (simp add: int_str_def nat_str.simps py_simps)

lemma int_str_nonempty [simp]: "int_str i \<noteq> []"
  by (simp add: int_str_def)

lemma int_str_chars: "c \<in> set (int_str i) \<Longrightarrow> is_digit c \<or> c = CHR ''-''"
  using nat_str_digits by (auto simp: int_str_def split: if_splits)

section \<open>Shared contracts\<close>

text \<open>
  A first-in first-out queue, read through the list of the items it holds: what the threads
  rely on when they hand requests to each other.
\<close>

locale fifo =
  fixes items :: "'q \<Rightarrow> 'a list"
    and put :: "'a \<Rightarrow> 'q \<Rightarrow> 'q"
    and get :: "'q \<Rightarrow> ('a \<times> 'q) option"
  assumes items_put: "items (put x q) = items q @ [x]"
    and get_None_iff: "get q = None \<longleftrightarrow> items q = []"
    and get_Some_items: "get q = Some (x, q') \<Longrightarrow> items q = x # items q'"
begin

lemma get_put_empty: "items q = [] \<Longrightarrow> get (put x q) = Some (y, q') \<Longrightarrow> y = x \<and> items q' = []"
  using get_Some_items [of "put x q" y q'] by (simp add: items_put)

lemma get_put_nonempty:
  "get q = Some (y, q') \<Longrightarrow> get (put x q) = Some (z, r) \<Longrightarrow> z = y \<and> items r = items q' @ [x]"
  using get_Some_items [of q y q'] get_Some_items [of "put x q" z r] by (simp add: items_put)

lemma get_shrinks: "get q = Some (x, q') \<Longrightarrow> length (items q) = Suc (length (items q'))"
  using get_Some_items [of q x q'] by simp

lemma put_not_empty: "get (put x q) \<noteq> None"
  by (simp add: get_None_iff items_put)

end

text \<open>An encoder and its decoder, on the values the encoder accepts.\<close>

locale codec =
  fixes enc :: "'a \<Rightarrow> 'b"
    and dec :: "'b \<Rightarrow> 'e + 'a"
    and valid :: "'a \<Rightarrow> bool"
  assumes dec_enc: "valid x \<Longrightarrow> dec (enc x) = Inr x"
begin

lemma enc_inject: "valid x \<Longrightarrow> valid y \<Longrightarrow> enc x = enc y \<longleftrightarrow> x = y"
  by (metis dec_enc sum.inject(2))

lemma dec_enc_all: "list_all valid xs \<Longrightarrow> mapR dec (map enc xs) = Inr xs"
  by (induction xs) (simp_all add: dec_enc)

end

text \<open>
  A field codec leaves the bytes after the field for the next reader; it is the shape of every
  field reader of the tag frames.
\<close>

locale field_codec =
  fixes wr :: "'a \<Rightarrow> string"
    and rd :: "string \<Rightarrow> 'e + 'a \<times> string"
    and valid :: "'a \<Rightarrow> bool"
  assumes rd_wr: "valid x \<Longrightarrow> rd (wr x @ rest) = Inr (x, rest)"
begin

lemma wr_prefix_free: "valid x \<Longrightarrow> valid y \<Longrightarrow> wr x @ r = wr y @ r' \<Longrightarrow> x = y \<and> r = r'"
  by (metis rd_wr sum.inject(2) prod.inject)

lemma wr_inject: "valid x \<Longrightarrow> valid y \<Longrightarrow> wr x = wr y \<longleftrightarrow> x = y"
  by (metis wr_prefix_free append_Nil2)

lemma rd_wr_exact: "valid x \<Longrightarrow> rd (wr x) = Inr (x, [])"
  using rd_wr [of x "[]"] by simp

end

text \<open>A transition system and the safety argument by an inductive invariant.\<close>

locale transition_system =
  fixes start :: "'s \<Rightarrow> bool"
    and step :: "'s \<Rightarrow> 's \<Rightarrow> bool"
    and inv :: "'s \<Rightarrow> bool"
  assumes inv_start: "start s \<Longrightarrow> inv s"
    and inv_step: "inv s \<Longrightarrow> step s t \<Longrightarrow> inv t"
begin

lemma inv_steps: "step\<^sup>*\<^sup>* s t \<Longrightarrow> inv s \<Longrightarrow> inv t"
  by (induction rule: rtranclp_induct) (auto intro: inv_step)

lemma inv_reachable: "start s \<Longrightarrow> step\<^sup>*\<^sup>* s t \<Longrightarrow> inv t"
  by (blast intro: inv_steps inv_start)

end

end
