(* ===== verification/Py_Strings.thy ===== *)
theory Py_Strings
  imports MC_Prelude
begin

text \<open>
  The methods of Python's \<open>str\<close> (Python 2: byte strings) that the sources call, and the shell
  patterns of the \<open>fnmatch\<close> module as the standard library translates them.
\<close>

section \<open>String methods\<close>

definition startswith :: "string \<Rightarrow> string \<Rightarrow> bool" where
  "startswith s p \<longleftrightarrow> take (length p) s = p"

definition endswith :: "string \<Rightarrow> string \<Rightarrow> bool" where
  "endswith s p \<longleftrightarrow> length p \<le> length s \<and> drop (length s - length p) s = p"

text \<open>\<open>s.find(sub, i)\<close>, with \<open>None\<close> for \<open>-1\<close> (and for the \<open>ValueError\<close> of \<open>index\<close>).\<close>

fun find_at :: "string \<Rightarrow> string \<Rightarrow> nat \<Rightarrow> nat option" where
  "find_at sub [] k = (if sub = [] then Some k else None)"
| "find_at sub (c # cs) k =
     (if startswith (c # cs) sub then Some k else find_at sub cs (Suc k))"

definition str_find :: "string \<Rightarrow> string \<Rightarrow> nat \<Rightarrow> nat option" where
  "str_find s sub i = (if i \<le> length s then find_at sub (drop i s) i else None)"

definition str_contains :: "string \<Rightarrow> string \<Rightarrow> bool" where
  "str_contains s sub \<longleftrightarrow> str_find s sub 0 \<noteq> None"

definition str_slice :: "string \<Rightarrow> nat \<Rightarrow> nat \<Rightarrow> string" where
  "str_slice s i j = drop i (take j s)"

text \<open>\<open>s.split(c)\<close> and \<open>s.split(c, 1)\<close> for a one-element separator.\<close>

fun str_split :: "'a \<Rightarrow> 'a list \<Rightarrow> 'a list list" where
  "str_split c [] = [[]]"
| "str_split c (x # xs) =
     (if x = c then [] # str_split c xs
      else (case str_split c xs of [] \<Rightarrow> [[x]] | y # ys \<Rightarrow> (x # y) # ys))"

fun str_split1 :: "'a \<Rightarrow> 'a list \<Rightarrow> ('a list \<times> 'a list) option" where
  "str_split1 c [] = None"
| "str_split1 c (x # xs) =
     (if x = c then Some ([], xs)
      else (case str_split1 c xs of None \<Rightarrow> None | Some (a, b) \<Rightarrow> Some (x # a, b)))"

definition str_strip :: "('a \<Rightarrow> bool) \<Rightarrow> 'a list \<Rightarrow> 'a list" where
  "str_strip p s = rev (dropWhile p (rev (dropWhile p s)))"

fun str_join :: "'a list \<Rightarrow> 'a list list \<Rightarrow> 'a list" where
  "str_join sep [] = []"
| "str_join sep [x] = x"
| "str_join sep (x # y # ys) = x @ sep @ str_join sep (y # ys)"

definition is_upper_char :: "char \<Rightarrow> bool" where
  "is_upper_char c \<longleftrightarrow> 65 \<le> ord c \<and> ord c \<le> 90"

definition is_lower_char :: "char \<Rightarrow> bool" where
  "is_lower_char c \<longleftrightarrow> 97 \<le> ord c \<and> ord c \<le> 122"

definition lower_char :: "char \<Rightarrow> char" where
  "lower_char c = (if is_upper_char c then chr (ord c + 32) else c)"

definition str_lower :: "string \<Rightarrow> string" where
  "str_lower = map lower_char"

definition str_isalnum :: "string \<Rightarrow> bool" where
  "str_isalnum s \<longleftrightarrow> s \<noteq> [] \<and> list_all (\<lambda>c. is_upper_char c \<or> is_lower_char c \<or> is_digit c) s"

definition str_isupper :: "string \<Rightarrow> bool" where
  "str_isupper s \<longleftrightarrow> list_ex is_upper_char s \<and> list_all (\<lambda>c. \<not> is_lower_char c) s"

definition str_isdigit :: "string \<Rightarrow> bool" where
  "str_isdigit s \<longleftrightarrow> s \<noteq> [] \<and> list_all is_digit s"

text \<open>Space characters of the C locale, the ones \<open>s.strip()\<close> removes.\<close>

definition is_space :: "char \<Rightarrow> bool" where
  "is_space c \<longleftrightarrow> ord c = 32 \<or> (9 \<le> ord c \<and> ord c \<le> 13)"

subsection \<open>Facts about the string methods\<close>

lemma startswith_append [simp]: "startswith (p @ s) p"
  by (simp add: startswith_def)

lemma startswith_Nil [simp]: "startswith s []"
  by (simp add: startswith_def)

lemma startswith_Cons [simp]: "startswith (c # cs) (d # ds) \<longleftrightarrow> c = d \<and> startswith cs ds"
  by (simp add: startswith_def)

lemma startswith_Nil_Cons [simp]: "\<not> startswith [] (d # ds)"
  by (simp add: startswith_def)

lemma startswith_iff: "startswith s p \<longleftrightarrow> (\<exists>t. s = p @ t)"
  unfolding startswith_def by (metis append_eq_conv_conj append_take_drop_id)

lemma endswith_append [simp]: "endswith (s @ p) p"
  by (simp add: endswith_def)

lemma endswith_iff: "endswith s p \<longleftrightarrow> (\<exists>t. s = t @ p)"
  unfolding endswith_def by (metis append_take_drop_id append_eq_conv_conj diff_add_inverse2
      le_add2 length_append)

lemma find_at_Some:
  "find_at sub s k = Some j \<Longrightarrow>
     k \<le> j \<and> j \<le> k + length s \<and> startswith (drop (j - k) s) sub
       \<and> (\<forall>i. k \<le> i \<and> i < j \<longrightarrow> \<not> startswith (drop (i - k) s) sub)"
proof (induction sub s k rule: find_at.induct)
  case (1 sub k)
  then show ?case by (auto split: if_splits)
next
  case (2 sub c cs k)
  show ?case
  proof (cases "startswith (c # cs) sub")
    case True
    with "2.prems" show ?thesis by auto
  next
    case False
    with 2 have IH: "Suc k \<le> j \<and> j \<le> Suc k + length cs \<and> startswith (drop (j - Suc k) cs) sub
       \<and> (\<forall>i. Suc k \<le> i \<and> i < j \<longrightarrow> \<not> startswith (drop (i - Suc k) cs) sub)" by simp
    have "\<not> startswith (drop (i - k) (c # cs)) sub" if "k \<le> i" "i < j" for i
      using that IH False by (cases "i = k") (auto simp: drop_Cons' Suc_diff_le)
    moreover have "drop (j - k) (c # cs) = drop (j - Suc k) cs"
      using IH by (simp add: drop_Cons')
    ultimately show ?thesis using IH by simp
  qed
qed

lemma find_at_None:
  "find_at sub s k = None \<Longrightarrow> i \<le> length s \<Longrightarrow> \<not> startswith (drop i s) sub"
proof (induction sub s k arbitrary: i rule: find_at.induct)
  case (1 sub k)
  then show ?case by (cases sub) (auto split: if_splits)
next
  case (2 sub c cs k)
  then show ?case by (cases i) (auto split: if_splits)
qed

lemma str_find_Some:
  "str_find s sub i = Some j \<Longrightarrow>
     i \<le> j \<and> j + length sub \<le> length s \<and> take (length sub) (drop j s) = sub
       \<and> (\<forall>m. i \<le> m \<and> m < j \<longrightarrow> \<not> startswith (drop m s) sub)"
proof -
  assume "str_find s sub i = Some j"
  then have le: "i \<le> length s" and f: "find_at sub (drop i s) i = Some j"
    by (auto simp: str_find_def split: if_splits)
  note F = find_at_Some [OF f]
  from F have 1: "take (length sub) (drop j s) = sub"
    by (auto simp: startswith_def)
  then have "length sub \<le> length s - j"
    by (metis length_drop length_take min.cobounded1 min.commute)
  with F le 1 show ?thesis by auto
qed

lemma str_find_None: "str_find s sub 0 = None \<Longrightarrow> s \<noteq> a @ sub @ b"
  using find_at_None [of sub s 0 "length a"] by (auto simp: str_find_def startswith_iff)

lemma str_contains_iff: "str_contains s sub \<longleftrightarrow> (\<exists>a b. s = a @ sub @ b)"
proof
  assume "str_contains s sub"
  then obtain j where "str_find s sub 0 = Some j" by (auto simp: str_contains_def)
  from str_find_Some [OF this] have "s = take j s @ sub @ drop (length sub) (drop j s)"
    by (metis append_take_drop_id)
  then show "\<exists>a b. s = a @ sub @ b" by blast
next
  assume "\<exists>a b. s = a @ sub @ b"
  then show "str_contains s sub" unfolding str_contains_def by (metis str_find_None)
qed

lemma str_find_byte: "c \<notin> set s \<Longrightarrow> str_find (s @ c # r) [c] 0 = Some (length s)"
proof -
  have "c \<notin> set s \<Longrightarrow> find_at [c] (s @ c # r) k = Some (k + length s)" for k
    by (induction s arbitrary: k) auto
  then show "c \<notin> set s \<Longrightarrow> ?thesis" by (simp add: str_find_def)
qed

lemma str_split_nonempty [simp]: "str_split c s \<noteq> []"
  by (cases s) (simp_all split: list.split)

lemma str_join_Cons: "ys \<noteq> [] \<Longrightarrow> str_join sep (x # ys) = x @ sep @ str_join sep ys"
  by (cases ys) simp_all

lemma str_join_Cons_Cons: "str_join sep ((a # y) # ys) = a # str_join sep (y # ys)"
  by (cases ys) simp_all

lemma str_join_split: "str_join [c] (str_split c s) = s"
proof (induction s)
  case (Cons x xs)
  obtain y ys where "str_split c xs = y # ys"
    by (cases "str_split c xs") simp_all
  with Cons show ?case by (simp add: str_join_Cons str_join_Cons_Cons)
qed simp

lemma str_split_no_sep: "c \<notin> set s \<Longrightarrow> str_split c s = [s]"
  by (induction s) auto

lemma str_split_append: "c \<notin> set s \<Longrightarrow> str_split c (s @ c # t) = s # str_split c t"
  by (induction s) auto

lemma str_split_join:
  "ss \<noteq> [] \<Longrightarrow> (\<forall>s \<in> set ss. c \<notin> set s) \<Longrightarrow> str_split c (str_join [c] ss) = ss"
proof (induction "[c]" ss rule: str_join.induct)
  case (2 x)
  then show ?case by (simp add: str_split_no_sep)
next
  case (3 x y ys)
  then show ?case by (simp add: str_split_append)
qed simp

lemma str_split1_None [simp]: "str_split1 c s = None \<longleftrightarrow> c \<notin> set s"
  by (induction s) (auto split: option.splits)

lemma str_split1_append [simp]: "c \<notin> set s \<Longrightarrow> str_split1 c (s @ c # t) = Some (s, t)"
  by (induction s) auto

lemma str_split1_Some: "str_split1 c s = Some (a, b) \<Longrightarrow> s = a @ c # b \<and> c \<notin> set a"
  by (induction s arbitrary: a) (auto split: option.splits if_splits)

lemma dropWhile_id: "s = [] \<or> \<not> p (hd s) \<Longrightarrow> dropWhile p s = s"
  by (cases s) auto

lemma str_strip_id: "s = [] \<or> (\<not> p (hd s) \<and> \<not> p (last s)) \<Longrightarrow> str_strip p s = s"
  by (auto simp: str_strip_def dropWhile_id hd_rev)

lemma str_strip_Nil_iff: "str_strip p s = [] \<longleftrightarrow> (\<forall>c \<in> set s. p c)"
  by (auto simp: str_strip_def dropWhile_eq_Nil_conv dest: set_dropWhileD)
    (metis dropWhile_eq_Nil_conv hd_dropWhile hd_in_set set_dropWhileD)

section \<open>Shell patterns\<close>

text \<open>
  \<open>fnmatch\<close> translates a pattern to a regular expression: \<open>*\<close> is any run of bytes, \<open>?\<close> one
  byte, \<open>[...]\<close> a class (negated by \<open>!\<close>; a first \<open>]\<close> is literal; an unclosed \<open>[\<close> is literal),
  everything else itself. A reversed range makes the regular expression invalid, which
  \<open>None\<close> stands for (\<open>re.error\<close> is raised).
\<close>

datatype glob_token = GStar | GAny | GChar char | GSet bool "(char \<times> char) list"

fun glob_class_items :: "string \<Rightarrow> (char \<times> char) list option" where
  "glob_class_items [] = Some []"
| "glob_class_items [c] = Some [(c, c)]"
| "glob_class_items [c, d] = Some [(c, c), (d, d)]"
| "glob_class_items (c # d # e # cs) =
     (if d = CHR ''-'' then
        (if ord e < ord c then None
         else map_option ((#) (c, e)) (glob_class_items cs))
      else map_option ((#) (c, c)) (glob_class_items (d # e # cs)))"

definition glob_class :: "string \<Rightarrow> glob_token option" where
  "glob_class stuff =
     (if startswith stuff ''!'' then map_option (GSet True) (glob_class_items (tl stuff))
      else map_option (GSet False) (glob_class_items stuff))"

definition glob_class_end :: "string \<Rightarrow> nat option" where
  "glob_class_end rest =
     (let j = (if startswith rest ''!'' then 1 else 0);
          k = (if startswith (drop j rest) '']'' then Suc j else j)
      in str_find rest '']'' k)"

function glob_compile :: "string \<Rightarrow> glob_token list option" where
  "glob_compile [] = Some []"
| "glob_compile (c # cs) =
     (if c = CHR ''*'' then map_option ((#) GStar) (glob_compile cs)
      else if c = CHR ''?'' then map_option ((#) GAny) (glob_compile cs)
      else if c = CHR ''['' then
        (case glob_class_end cs of
           None \<Rightarrow> map_option ((#) (GChar c)) (glob_compile cs)
         | Some j \<Rightarrow>
             (case glob_class (take j cs) of
                None \<Rightarrow> None
              | Some t \<Rightarrow> map_option ((#) t) (glob_compile (drop (Suc j) cs))))
      else map_option ((#) (GChar c)) (glob_compile cs))"
  by pat_completeness auto
termination
  by (relation "measure length") auto

fun glob_match :: "glob_token list \<Rightarrow> string \<Rightarrow> bool" where
  "glob_match [] s = (s = [])"
| "glob_match (GStar # ts) [] = glob_match ts []"
| "glob_match (GStar # ts) (c # cs) = (glob_match ts (c # cs) \<or> glob_match (GStar # ts) cs)"
| "glob_match (GAny # ts) s = (case s of [] \<Rightarrow> False | c # cs \<Rightarrow> glob_match ts cs)"
| "glob_match (GChar d # ts) s =
     (case s of [] \<Rightarrow> False | c # cs \<Rightarrow> c = d \<and> glob_match ts cs)"
| "glob_match (GSet neg rs # ts) s =
     (case s of [] \<Rightarrow> False
      | c # cs \<Rightarrow> (list_ex (\<lambda>(lo, hi). ord lo \<le> ord c \<and> ord c \<le> ord hi) rs \<noteq> neg)
                    \<and> glob_match ts cs)"

definition fnmatch :: "string \<Rightarrow> string \<Rightarrow> bool option" where
  "fnmatch name pat = map_option (\<lambda>ts. glob_match ts name) (glob_compile pat)"

definition glob_plain :: "string \<Rightarrow> bool" where
  "glob_plain pat \<longleftrightarrow> list_all (\<lambda>c. c \<notin> set ''*?['') pat"

lemma glob_compile_plain: "glob_plain pat \<Longrightarrow> glob_compile pat = Some (map GChar pat)"
  by (induction pat) (auto simp: glob_plain_def)

lemma glob_match_plain: "glob_match (map GChar pat) s \<longleftrightarrow> s = pat"
  by (induction pat arbitrary: s) (auto split: list.splits)

lemma fnmatch_plain: "glob_plain pat \<Longrightarrow> fnmatch name pat = Some (name = pat)"
  by (simp add: fnmatch_def glob_compile_plain glob_match_plain)

lemma glob_plain_int_str: "glob_plain (int_str i)"
  using int_str_chars by (fastforce simp: glob_plain_def list_all_iff is_digit_def)

lemma fnmatch_int_str [simp]: "fnmatch name (int_str i) = Some (name = int_str i)"
  by (simp add: fnmatch_plain glob_plain_int_str)

end
