(* ===== verification/Raspi_State.thy ===== *)
theory Raspi_State
  imports Py_Strings
begin

text \<open>
  The globals of \<open>RaspberryPi/RaspberryPi-Src/raspi.py\<close>: song identifiers and their playback
  states, the queues between the three threads, the message dictionaries the threads share by
  reference, and the requests the speaker sends to the server.

  Messages are dictionaries that are mutated after they were queued, so they live in an explicit
  store and the queues hold their addresses. A JSON text received from the server is represented
  by the value \<open>json.loads\<close> returns for it (\<open>None\<close> where it raises); the texts of the protocol are
  objects whose fields are atoms or objects of atoms.
\<close>

section \<open>Values\<close>

datatype pyval = PInt int | PStr string | PNone

fun py_str :: "pyval \<Rightarrow> string" where
  "py_str (PInt i) = int_str i"
| "py_str (PStr s) = s"
| "py_str PNone = ''None''"

datatype json_field = FVal pyval | FObj "(string \<times> pyval) list"

datatype json = JVal pyval | JObj "(string \<times> json_field) list"

datatype exn =
    TypeErr | KeyErr | ValueErr | PygameErr | RegexErr | IOErr | SocketTimeout | SocketErr
  | ResponseNotReady | CannotSendRequest | SystemExit

text \<open>The state constants; \<open>UNKNOWN\<close> is also the initial song and client identifier.\<close>

datatype song_state = S_UNKNOWN | PLAYING | STOPPED | DOWNLOADING | READY

fun state_code :: "song_state \<Rightarrow> int" where
  "state_code S_UNKNOWN = -1"
| "state_code PLAYING = 1"
| "state_code STOPPED = 2"
| "state_code DOWNLOADING = 3"
| "state_code READY = 4"

definition UNKNOWN :: pyval where
  "UNKNOWN = PInt (state_code S_UNKNOWN)"

record message =
  msg_id :: pyval
  msg_status :: string
  msg_position :: string

record request =
  rq_method :: string
  rq_url :: string
  rq_body :: "(string \<times> pyval) list"

record response =
  rs_status :: int
  rs_data :: string
  rs_json :: "json option"
  rs_will_close :: bool

section \<open>The shared state\<close>

record pi_state =
  client_id :: pyval
  current_song :: pyval
  current_song_state :: song_state
  next_song :: pyval
  next_song_state :: song_state
  keep_running :: bool
  server_playback_queue :: "json option list"
  playback_connection_queue :: "nat list"
  server_communication_ID_queue :: "pyval list"
  heap :: "message list"
  files :: "(string \<times> string) list"
  music :: "string option"
  sent :: "request list"

definition init_state :: "(string \<times> string) list \<Rightarrow> pi_state" where
  "init_state fs =
     \<lparr>client_id = UNKNOWN, current_song = UNKNOWN, current_song_state = S_UNKNOWN,
      next_song = UNKNOWN, next_song_state = S_UNKNOWN, keep_running = True,
      server_playback_queue = [], playback_connection_queue = [],
      server_communication_ID_queue = [], heap = [], files = fs, music = None, sent = []\<rparr>"

section \<open>Queues\<close>

definition q_put :: "'a \<Rightarrow> 'a list \<Rightarrow> 'a list" where
  "q_put x q = q @ [x]"

definition q_get :: "'a list \<Rightarrow> ('a \<times> 'a list) option" where
  "q_get q = (case q of [] \<Rightarrow> None | x # xs \<Rightarrow> Some (x, xs))"

interpretation rq: fifo "\<lambda>q. q" q_put q_get
  by unfold_locales (auto simp: q_put_def q_get_def split: list.splits)

lemma q_get_simps [simp]:
  "q_get [] = None"
  "q_get (x # xs) = Some (x, xs)"
  by (simp_all add: q_get_def)

lemma set_q_put [simp]: "set (q_put x q) = insert x (set q)"
  by (simp add: q_put_def)

lemma q_put_neq_Nil [simp]: "q_put x q \<noteq> []"
  by (simp add: q_put_def)

section \<open>Message dictionaries\<close>

text \<open>\<open>_message = {"id":"","status":"","position":""}\<close>: a fresh dictionary.\<close>

definition new_message :: "pi_state \<Rightarrow> nat \<times> pi_state" where
  "new_message s =
     (length (heap s),
      s\<lparr>heap := heap s @ [\<lparr>msg_id = PStr '''', msg_status = '''', msg_position = ''''\<rparr>]\<rparr>)"

definition set_message :: "nat \<Rightarrow> pyval \<Rightarrow> string \<Rightarrow> string \<Rightarrow> pi_state \<Rightarrow> pi_state" where
  "set_message a i st pos s =
     s\<lparr>heap := (heap s)[a := \<lparr>msg_id = i, msg_status = st, msg_position = pos\<rparr>]\<rparr>"

definition put_message :: "nat \<Rightarrow> pi_state \<Rightarrow> pi_state" where
  "put_message a s = s\<lparr>playback_connection_queue := q_put a (playback_connection_queue s)\<rparr>"

definition message_body :: "message \<Rightarrow> (string \<times> pyval) list" where
  "message_body m =
     [(''id'', msg_id m), (''status'', PStr (msg_status m)), (''position'', PStr (msg_position m))]"

section \<open>Files\<close>

text \<open>The working directory, in the order \<open>os.listdir\<close> yields it; writing a file truncates it.\<close>

fun write_file :: "string \<Rightarrow> string \<Rightarrow> (string \<times> string) list \<Rightarrow> (string \<times> string) list" where
  "write_file f d [] = [(f, d)]"
| "write_file f d ((g, e) # fs) = (if f = g then (g, d) # fs else (g, e) # write_file f d fs)"

definition has_file :: "string \<Rightarrow> pi_state \<Rightarrow> bool" where
  "has_file f s \<longleftrightarrow> f \<in> fst ` set (files s)"

lemma map_of_write_file: "map_of (write_file f d fs) = (map_of fs)(f \<mapsto> d)"
  by (induction f d fs rule: write_file.induct) (auto simp: fun_upd_twist)

lemma fst_write_file [simp]: "fst ` set (write_file f d fs) = insert f (fst ` set fs)"
  by (induction f d fs rule: write_file.induct) auto

section \<open>Well-formed states\<close>

text \<open>
  Every queued message is an allocated dictionary, the current song is never downloading or
  ready, and the next song is never playing or stopped.
\<close>

definition wf_pi :: "pi_state \<Rightarrow> bool" where
  "wf_pi s \<longleftrightarrow>
     (\<forall>a \<in> set (playback_connection_queue s). a < length (heap s))
   \<and> current_song_state s \<in> {S_UNKNOWN, PLAYING, STOPPED}
   \<and> next_song_state s \<in> {S_UNKNOWN, DOWNLOADING, READY}"

lemma wf_init [wf_intro]: "wf_pi (init_state fs)"
  by (simp add: wf_pi_def init_state_def)

lemma new_message_sel [simp]:
  "fst (new_message s) = length (heap s)"
  "heap (snd (new_message s)) =
     heap s @ [\<lparr>msg_id = PStr '''', msg_status = '''', msg_position = ''''\<rparr>]"
  "client_id (snd (new_message s)) = client_id s"
  "current_song (snd (new_message s)) = current_song s"
  "current_song_state (snd (new_message s)) = current_song_state s"
  "next_song (snd (new_message s)) = next_song s"
  "next_song_state (snd (new_message s)) = next_song_state s"
  "keep_running (snd (new_message s)) = keep_running s"
  "server_playback_queue (snd (new_message s)) = server_playback_queue s"
  "playback_connection_queue (snd (new_message s)) = playback_connection_queue s"
  "server_communication_ID_queue (snd (new_message s)) = server_communication_ID_queue s"
  "files (snd (new_message s)) = files s"
  "music (snd (new_message s)) = music s"
  "sent (snd (new_message s)) = sent s"
  by (simp_all add: new_message_def)

lemma set_message_sel [simp]:
  "heap (set_message a i st pos s) =
     (heap s)[a := \<lparr>msg_id = i, msg_status = st, msg_position = pos\<rparr>]"
  "client_id (set_message a i st pos s) = client_id s"
  "current_song (set_message a i st pos s) = current_song s"
  "current_song_state (set_message a i st pos s) = current_song_state s"
  "next_song (set_message a i st pos s) = next_song s"
  "next_song_state (set_message a i st pos s) = next_song_state s"
  "keep_running (set_message a i st pos s) = keep_running s"
  "server_playback_queue (set_message a i st pos s) = server_playback_queue s"
  "playback_connection_queue (set_message a i st pos s) = playback_connection_queue s"
  "server_communication_ID_queue (set_message a i st pos s) = server_communication_ID_queue s"
  "files (set_message a i st pos s) = files s"
  "music (set_message a i st pos s) = music s"
  "sent (set_message a i st pos s) = sent s"
  by (simp_all add: set_message_def)

lemma put_message_sel [simp]:
  "heap (put_message a s) = heap s"
  "client_id (put_message a s) = client_id s"
  "current_song (put_message a s) = current_song s"
  "current_song_state (put_message a s) = current_song_state s"
  "next_song (put_message a s) = next_song s"
  "next_song_state (put_message a s) = next_song_state s"
  "keep_running (put_message a s) = keep_running s"
  "server_playback_queue (put_message a s) = server_playback_queue s"
  "playback_connection_queue (put_message a s) = q_put a (playback_connection_queue s)"
  "server_communication_ID_queue (put_message a s) = server_communication_ID_queue s"
  "files (put_message a s) = files s"
  "music (put_message a s) = music s"
  "sent (put_message a s) = sent s"
  by (simp_all add: put_message_def)

lemma has_file_simps [simp]:
  "has_file f (snd (new_message s)) = has_file f s"
  "has_file f (set_message a i st pos s) = has_file f s"
  "has_file f (put_message a s) = has_file f s"
  by (simp_all add: has_file_def)

lemma wf_new_message [wf_intro]: "wf_pi s \<Longrightarrow> wf_pi (snd (new_message s))"
  by (auto simp: wf_pi_def less_Suc_eq)

lemma wf_set_message [wf_intro]: "wf_pi s \<Longrightarrow> wf_pi (set_message a i st pos s)"
  by (simp add: wf_pi_def)

lemma wf_put_message [wf_intro]:
  "wf_pi s \<Longrightarrow> a < length (heap s) \<Longrightarrow> wf_pi (put_message a s)"
  by (simp add: wf_pi_def)

end
