(* ===== verification/Raspi_Net.thy ===== *)
theory Raspi_Net
  imports Raspi_State
begin

text \<open>
  Requests to the server: \<open>create_url\<close> and \<open>send_request\<close> of \<open>raspi.py\<close>, over a model of what
  \<open>httplib.HTTPConnection\<close> does with a response that was not read. What the server answers is the
  function \<open>net\<close> from requests to responses or socket errors.
\<close>

definition server_url :: string where
  "server_url = ''klamath.dnsdynamic.com''"

definition server_port :: string where
  "server_port = ''5050''"

text \<open>The loop over \<open>query_vars.keys()\<close>; the list is the dictionary in its iteration order.\<close>

fun add_query_vars :: "nat \<Rightarrow> string \<Rightarrow> (string \<times> pyval) list \<Rightarrow> string" where
  "add_query_vars count url [] = url"
| "add_query_vars count url ((key, val) # kvs) =
     (let url = (if count \<noteq> 0 then url @ ''&'' else url)
      in add_query_vars (count + 1) (url @ key @ ''='' @ py_str val) kvs)"

definition create_url :: "string \<Rightarrow> (string \<times> pyval) list \<Rightarrow> string" where
  "create_url request query_vars =
     (let url = server_url @ '':'' @ server_port @ ''/speaker/'' @ request
      in if length query_vars > 0 then add_query_vars 0 (url @ ''?'') query_vars else url)"

text \<open>
  A connection remembers whether its last response is still unread and left the connection open:
  then the next request is written, but \<open>getresponse\<close> raises \<open>ResponseNotReady\<close>.
\<close>

record http_connection =
  unread :: bool

definition new_connection :: http_connection where
  "new_connection = \<lparr>unread = False\<rparr>"

lemma unread_new [simp]: "\<not> unread new_connection"
  by (simp add: new_connection_def)

type_synonym net = "request \<Rightarrow> exn + response"

text \<open>
  \<open>body_params.keys() != 0\<close> compares a list with a number and is always true in Python 2, so the
  body is the JSON text of \<open>body_params\<close> for every request, an empty dictionary included.
\<close>

definition send_request ::
  "net \<Rightarrow> http_connection \<Rightarrow> string \<Rightarrow> (string \<times> pyval) list \<Rightarrow> (string \<times> pyval) list \<Rightarrow> string
     \<Rightarrow> pi_state \<Rightarrow> (exn + response) \<times> http_connection \<times> pi_state" where
  "send_request net conn request query_vars body_params meth s =
     (let r = \<lparr>rq_method = meth, rq_url = create_url request query_vars, rq_body = body_params\<rparr>;
          s = s\<lparr>sent := sent s @ [r]\<rparr>
      in if unread conn then (Inl ResponseNotReady, conn, s)
         else (case net r of
                 Inl e \<Rightarrow> (Inl e, conn, s)
               | Inr resp \<Rightarrow> (Inr resp, \<lparr>unread = \<not> rs_will_close resp\<rparr>, s)))"

text \<open>\<open>response.read()\<close> consumes the body and frees the connection.\<close>

definition read_body :: "response \<Rightarrow> http_connection \<Rightarrow> string \<times> http_connection" where
  "read_body resp conn = (rs_data resp, conn\<lparr>unread := False\<rparr>)"

section \<open>The query string\<close>

lemma add_query_vars_Suc:
  "add_query_vars (Suc n) url kvs = url @ concat (map (\<lambda>(k, v). ''&'' @ k @ ''='' @ py_str v) kvs)"
  by (induction kvs arbitrary: n url) auto

definition query_pair :: "string \<times> pyval \<Rightarrow> string" where
  "query_pair kv = fst kv @ ''='' @ py_str (snd kv)"

lemma concat_amp_join:
  "query_pair kv @ concat (map (\<lambda>(k, v). ''&'' @ k @ ''='' @ py_str v) kvs)
     = str_join ''&'' (query_pair kv # map query_pair kvs)"
  by (induction kvs arbitrary: kv) (auto simp: query_pair_def split: prod.splits)

lemma add_query_vars_join:
  "kvs \<noteq> [] \<Longrightarrow> add_query_vars 0 url kvs = url @ str_join ''&'' (map query_pair kvs)"
proof (cases kvs)
  case (Cons kv kvs')
  then show ?thesis
    using concat_amp_join [of kv kvs']
    by (cases kv) (simp add: add_query_vars_Suc query_pair_def)
qed simp

definition url_query :: "string \<Rightarrow> (string \<times> string) list" where
  "url_query url =
     (case str_split1 CHR ''?'' url of
        None \<Rightarrow> []
      | Some (path, q) \<Rightarrow>
          map (\<lambda>p. case str_split1 CHR ''='' p of None \<Rightarrow> (p, '''') | Some kv \<Rightarrow> kv)
            (str_split CHR ''&'' q))"

definition url_safe :: "string \<Rightarrow> bool" where
  "url_safe t \<longleftrightarrow> (\<forall>c \<in> set t. c \<notin> set ''?&='')"

lemma url_safe_int_str [simp]: "url_safe (int_str i)"
  using int_str_chars by (fastforce simp: url_safe_def is_digit_def)

lemma url_query_create_url:
  assumes req: "url_safe request"
    and kvs: "\<forall>(k, v) \<in> set kvs. url_safe k \<and> url_safe (py_str v)"
  shows "url_query (create_url request kvs) = map (\<lambda>(k, v). (k, py_str v)) kvs"
proof (cases "kvs = []")
  case True
  have "CHR ''?'' \<notin> set (create_url request [])"
    using req by (auto simp: create_url_def server_url_def server_port_def url_safe_def)
  then have "str_split1 CHR ''?'' (create_url request []) = None"
    by (rule str_split1_None [THEN iffD2])
  with True show ?thesis by (simp only: url_query_def option.case list.map)
next
  case False
  define base where "base = server_url @ '':'' @ server_port @ ''/speaker/'' @ request"
  have base: "CHR ''?'' \<notin> set base"
    using req by (auto simp: base_def server_url_def server_port_def url_safe_def)
  have "create_url request kvs = base @ CHR ''?'' # str_join ''&'' (map query_pair kvs)"
    using False by (simp add: create_url_def base_def add_query_vars_join)
  then have split: "str_split1 CHR ''?'' (create_url request kvs)
      = Some (base, str_join ''&'' (map query_pair kvs))"
    using base by simp
  have "\<forall>p \<in> set (map query_pair kvs). CHR ''&'' \<notin> set p"
    using kvs by (fastforce simp: query_pair_def url_safe_def)
  then have pairs: "str_split CHR ''&'' (str_join ''&'' (map query_pair kvs)) = map query_pair kvs"
    using False by (intro str_split_join) auto
  have pair: "str_split1 CHR ''='' (query_pair kv) = Some (fst kv, py_str (snd kv))"
    if "kv \<in> set kvs" for kv
  proof -
    have "url_safe (fst kv)" using bspec [OF kvs that] by (simp add: case_prod_beta)
    then have "CHR ''='' \<notin> set (fst kv)" unfolding url_safe_def by force
    then show ?thesis by (simp add: query_pair_def)
  qed
  show ?thesis
    by (simp add: url_query_def split pairs pair case_prod_beta cong: map_cong)
qed

text \<open>What a request on a connection is answered, and what it leaves of the connection.\<close>

definition answer :: "net \<Rightarrow> http_connection \<Rightarrow> request \<Rightarrow> exn + response" where
  "answer net conn r = (if unread conn then Inl ResponseNotReady else net r)"

fun after_answer :: "http_connection \<Rightarrow> exn + response \<Rightarrow> http_connection" where
  "after_answer conn (Inl e) = conn"
| "after_answer conn (Inr resp) = \<lparr>unread = \<not> rs_will_close resp\<rparr>"

lemma send_request_eq:
  "send_request net conn request q b m s =
     (let r = \<lparr>rq_method = m, rq_url = create_url request q, rq_body = b\<rparr>
      in (answer net conn r, after_answer conn (answer net conn r), s\<lparr>sent := sent s @ [r]\<rparr>))"
  by (simp add: send_request_def answer_def Let_def split: sum.split)

lemma answer_new [simp]: "answer net new_connection r = net r"
  by (simp add: answer_def new_connection_def)

lemma wf_sent [simp]: "wf_pi (s\<lparr>sent := x\<rparr>) = wf_pi s"
  by (simp add: wf_pi_def)

lemma has_file_sent [simp]: "has_file f (s\<lparr>sent := x\<rparr>) = has_file f s"
  by (simp add: has_file_def)

end
