(* ===== verification/Raspi_Playback.thy ===== *)
theory Raspi_Playback
  imports Raspi_Net
begin

text \<open>
  The playback thread of \<open>raspi.py\<close>: \<open>check_for_song\<close>, the three command handlers and the body of
  the loop of \<open>playback_func\<close>. A handler returns the exception it raised, if any, together with
  the state it left behind: assignments made before an exception stay.

  PyGame is a C library: which file contents its mixer can decode and the position it reports
  are the parameter \<open>pg\<close>. Loading raises for a file that does not exist or does not decode, and
  leaves the mixer as it was.
\<close>

record pygame =
  pg_decodes :: "string \<Rightarrow> bool"
  pg_get_pos :: int

datatype event = SONG_END | OtherEvent

definition music_load :: "pygame \<Rightarrow> string \<Rightarrow> pi_state \<Rightarrow> exn option" where
  "music_load pg f s =
     (case map_of (files s) f of
        None \<Rightarrow> Some PygameErr
      | Some d \<Rightarrow> if pg_decodes pg d then None else Some PygameErr)"

section \<open>check_for_song\<close>

fun check_files :: "string \<Rightarrow> string list \<Rightarrow> int \<Rightarrow> exn + int" where
  "check_files pat [] found_song = Inr found_song"
| "check_files pat (f # fs) found_song =
     (case fnmatch f pat of
        None \<Rightarrow> Inl RegexErr
      | Some m \<Rightarrow> check_files pat fs (if m then 1 else found_song))"

definition check_for_song :: "pyval \<Rightarrow> pi_state \<Rightarrow> exn + int" where
  "check_for_song song_id s = check_files (py_str song_id) (map fst (files s)) 0"

section \<open>The handlers\<close>

definition handle_play_command ::
  "pygame \<Rightarrow> pyval \<Rightarrow> pi_state \<Rightarrow> exn option \<times> pi_state" where
  "handle_play_command pg song_id s0 =
     (let (m, s) = new_message s0
      in if song_id = current_song s then (None, s)
         else if song_id = next_song s \<and> current_song_state s \<noteq> PLAYING
                 \<and> next_song_state s = READY then
           (let s = s\<lparr>current_song := next_song s, current_song_state := PLAYING\<rparr>;
                s = s\<lparr>next_song := UNKNOWN, next_song_state := S_UNKNOWN\<rparr>
            in case music_load pg (py_str song_id) s of
                 Some e \<Rightarrow> (Some e, s)
               | None \<Rightarrow>
                   (let s = s\<lparr>music := Some (py_str song_id)\<rparr>;
                        s = set_message m (PStr (py_str (current_song s))) ''Playing''
                              (int_str 0) s
                    in (None, put_message m s)))
         else if song_id = next_song s \<and> next_song_state s = S_UNKNOWN then
           (None, put_message m
              (set_message m (PStr (py_str song_id)) ''need_song'' (int_str 0) s))
         else (None, s))"

definition handle_stop_command ::
  "pygame \<Rightarrow> pyval \<Rightarrow> pi_state \<Rightarrow> exn option \<times> pi_state" where
  "handle_stop_command pg song_id s0 =
     (let (m, s) = new_message s0
      in if song_id = current_song s then
           (if current_song_state s = PLAYING then
              (let s = s\<lparr>music := None\<rparr>;
                   s = set_message m (PStr (py_str song_id)) ''Stopped''
                         (int_str (pg_get_pos pg)) s;
                   s = s\<lparr>current_song_state := STOPPED\<rparr>
               in (None, put_message m s))
            else (None, s))
         else (None, s))"

definition handle_upcoming_song_update ::
  "pyval \<Rightarrow> pi_state \<Rightarrow> exn option \<times> pi_state" where
  "handle_upcoming_song_update song_id s0 =
     (let (m, s) = new_message s0
      in if song_id \<noteq> current_song s then
           (let (fetch_song, s) =
                  (if song_id \<noteq> next_song s then
                     (True, s\<lparr>next_song := song_id, next_song_state := S_UNKNOWN\<rparr>)
                   else if next_song_state s = S_UNKNOWN \<and> next_song s \<noteq> UNKNOWN then (True, s)
                   else (False, s))
            in if fetch_song then
                 (case check_for_song song_id s of
                    Inl e \<Rightarrow> (Some e, s)
                  | Inr found_song \<Rightarrow>
                      if found_song = 0 then
                        (None, put_message m
                           (set_message m (PStr (py_str song_id)) ''need_song'' (int_str 0) s))
                      else
                        (let s = s\<lparr>next_song_state := READY\<rparr>
                         in if current_song_state s \<noteq> PLAYING then
                              (None, put_message m
                                 (set_message m (PStr (py_str song_id)) ''Ready'' ''0'' s))
                            else (None, s)))
               else (None, s))
         else (None, s))"

section \<open>The loop of playback_func\<close>

text \<open>Before the loop: initialise PyGame (a failure ends the program) and build \<open>_message\<close>.\<close>

definition playback_start :: "bool \<Rightarrow> pi_state \<Rightarrow> nat \<times> pi_state" where
  "playback_start init_ok s = new_message (if init_ok then s else s\<lparr>keep_running := False\<rparr>)"

fun get_field :: "string \<Rightarrow> json \<Rightarrow> exn + json_field" where
  "get_field k (JVal v) = Inl TypeErr"
| "get_field k (JObj kvs) = (case map_of kvs k of None \<Rightarrow> Inl KeyErr | Some f \<Rightarrow> Inr f)"

fun get_atom :: "string \<Rightarrow> json_field \<Rightarrow> exn + pyval" where
  "get_atom k (FVal v) = Inl TypeErr"
| "get_atom k (FObj kvs) = (case map_of kvs k of None \<Rightarrow> Inl KeyErr | Some v \<Rightarrow> Inr v)"

definition playback_command ::
  "pygame \<Rightarrow> json \<Rightarrow> pi_state \<Rightarrow> exn option \<times> pi_state" where
  "playback_command pg response s =
     (case bindR (get_field ''values'' response) (\<lambda>values.
            bindR (get_atom ''id'' values) (\<lambda>song_id.
            bindR (get_atom ''command'' values) (\<lambda>command. Inr (song_id, command)))) of
        Inl e \<Rightarrow> (Some e, s)
      | Inr (song_id, command) \<Rightarrow>
          if command = PStr ''Play'' then handle_play_command pg song_id s
          else if command = PStr ''Stop'' then handle_stop_command pg song_id s
          else (case command of PStr c \<Rightarrow> (None, s) | _ \<Rightarrow> (Some TypeErr, s)))"

definition upcoming_song ::
  "json \<Rightarrow> pi_state \<Rightarrow> exn option \<times> pi_state" where
  "upcoming_song response s =
     (case bindR (get_field ''values'' response) (get_atom ''id'') of
        Inl e \<Rightarrow> (Some e, s)
      | Inr song_id \<Rightarrow> handle_upcoming_song_update song_id s)"

definition process_update ::
  "pygame \<Rightarrow> json option \<Rightarrow> pi_state \<Rightarrow> exn option \<times> pi_state" where
  "process_update pg update_body s =
     (case update_body of
        None \<Rightarrow> (Some ValueErr, s)
      | Some response \<Rightarrow>
          (case get_field ''update_type'' response of
             Inl e \<Rightarrow> (Some e, s)
           | Inr (FVal (PStr update_type)) \<Rightarrow>
               if update_type = ''playback_command'' then playback_command pg response s
               else if update_type = ''upcoming_song'' then upcoming_song response s
               else (None, s)
           | Inr _ \<Rightarrow> (Some TypeErr, s)))"

text \<open>
  One iteration of the loop: an update if the queue holds one, else (\<open>Queue.Empty\<close> after the
  timeout) one PyGame event while a song plays. Exceptions of the update branch are logged and
  the loop goes on; \<open>m\<close> is the address of the thread's \<open>_message\<close>.
\<close>

definition playback_iteration ::
  "pygame \<Rightarrow> event \<Rightarrow> nat \<Rightarrow> pi_state \<Rightarrow> pi_state" where
  "playback_iteration pg event m s =
     (case q_get (server_playback_queue s) of
        Some (update_body, q) \<Rightarrow>
          snd (process_update pg update_body (s\<lparr>server_playback_queue := q\<rparr>))
      | None \<Rightarrow>
          if current_song_state s = PLAYING \<and> event = SONG_END then
            (let s = s\<lparr>current_song_state := STOPPED, music := None\<rparr>
             in put_message m
                  (set_message m (current_song s) ''Stopped'' (int_str (pg_get_pos pg)) s))
          else s)"

section \<open>check_for_song finds exactly the file named after the song\<close>

lemma check_files_plain:
  "glob_plain pat \<Longrightarrow> check_files pat fs b = Inr (if pat \<in> set fs then 1 else b)"
  by (induction pat fs b rule: check_files.induct) (auto simp: fnmatch_plain)

lemma check_for_song_plain:
  "glob_plain (py_str v) \<Longrightarrow>
     check_for_song v s = Inr (if has_file (py_str v) s then 1 else 0)"
  by (simp add: check_for_song_def check_files_plain has_file_def)

lemma check_for_song_int [simp]:
  "check_for_song (PInt i) s = Inr (if has_file (int_str i) s then 1 else 0)"
  by (simp add: check_for_song_plain glob_plain_int_str)

lemma check_files_found: "check_files pat fs b = Inr r \<Longrightarrow> r = 1 \<or> r = b"
  by (induction pat fs b rule: check_files.induct) (auto split: option.splits if_splits)

section \<open>The handlers keep the state well formed\<close>

lemmas handler_defs =
  handle_play_command_def handle_stop_command_def handle_upcoming_song_update_def

lemma wf_handle_play [wf_intro]: "wf_pi s \<Longrightarrow> wf_pi (snd (handle_play_command pg song_id s))"
  by (simp add: handle_play_command_def wf_pi_def Let_def case_prod_beta less_Suc_eq
      split: option.split)

lemma wf_handle_stop [wf_intro]: "wf_pi s \<Longrightarrow> wf_pi (snd (handle_stop_command pg song_id s))"
  by (auto simp: handle_stop_command_def wf_pi_def Let_def case_prod_beta less_Suc_eq)

lemma wf_handle_upcoming [wf_intro]:
  "wf_pi s \<Longrightarrow> wf_pi (snd (handle_upcoming_song_update song_id s))"
  by (auto simp: handle_upcoming_song_update_def wf_pi_def Let_def case_prod_beta less_Suc_eq
      split: sum.split)

lemma wf_playback_command [wf_intro]: "wf_pi s \<Longrightarrow> wf_pi (snd (playback_command pg r s))"
  by (auto simp: playback_command_def intro: wf_intro split: sum.split prod.split pyval.split)

lemma wf_upcoming_song [wf_intro]: "wf_pi s \<Longrightarrow> wf_pi (snd (upcoming_song r s))"
  by (auto simp: upcoming_song_def intro: wf_intro split: sum.split)

lemma wf_process_update [wf_intro]: "wf_pi s \<Longrightarrow> wf_pi (snd (process_update pg b s))"
  by (auto simp: process_update_def intro: wf_intro
      split: option.split sum.split json_field.split pyval.split)

lemma wf_dequeue [simp]: "wf_pi (s\<lparr>server_playback_queue := q\<rparr>) = wf_pi s"
  by (simp add: wf_pi_def)

lemma heap_mono_play: "length (heap s) \<le> length (heap (snd (handle_play_command pg i s)))"
  by (simp add: handle_play_command_def Let_def case_prod_beta split: option.split)

lemma heap_mono_stop: "length (heap s) \<le> length (heap (snd (handle_stop_command pg i s)))"
  by (simp add: handle_stop_command_def Let_def case_prod_beta)

lemma heap_mono_upcoming:
  "length (heap s) \<le> length (heap (snd (handle_upcoming_song_update i s)))"
  by (simp add: handle_upcoming_song_update_def Let_def case_prod_beta split: sum.split)

lemma heap_mono_process: "length (heap s) \<le> length (heap (snd (process_update pg b s)))"
  by (auto simp: process_update_def playback_command_def upcoming_song_def
      intro: heap_mono_play heap_mono_stop heap_mono_upcoming
      split: option.split sum.split json_field.split pyval.split prod.split)

lemma wf_playback_iteration [wf_intro]:
  "wf_pi s \<Longrightarrow> m < length (heap s) \<Longrightarrow> wf_pi (playback_iteration pg ev m s)"
  by (auto simp: playback_iteration_def Let_def split: option.split intro!: wf_intro)
    (simp add: wf_pi_def)

end
