(* ===== verification/Raspi_Comm.thy ===== *)
theory Raspi_Comm
  imports Raspi_Playback
begin

text \<open>
  The communication thread (\<open>communicate_func\<close>, \<open>handle_need_song\<close>) and the update thread
  (\<open>update_func\<close>) of \<open>raspi.py\<close>, cut at the points where they block: waiting for a queue or for the
  network. Between two such points the other threads may run; a program counter says where the
  thread stands. An exception that leaves the thread function ends the thread (\<open>C_Dead\<close>,
  \<open>U_Dead\<close>).
\<close>

section \<open>The communication thread\<close>

datatype comm_pc =
    C_Idle
  | C_Got nat
  | C_Dispatch nat
  | C_Fetch pyval
  | C_SendReady pyval http_connection
  | C_Post nat
  | C_PostReady nat http_connection
  | C_Exit
  | C_Dead exn

text \<open>Names that \<open>open(name, 'w')\<close> can create in the working directory.\<close>

definition openable :: "string \<Rightarrow> bool" where
  "openable f \<longleftrightarrow> f \<noteq> [] \<and> f \<noteq> ''.'' \<and> f \<noteq> ''..'' \<and> CHR ''/'' \<notin> set f \<and> CHR 0x00 \<notin> set f"

text \<open>\<open>handle_need_song\<close> up to the request: the next song counts as downloading.\<close>

definition need_song_begin :: "pyval \<Rightarrow> pi_state \<Rightarrow> comm_pc \<times> pi_state" where
  "need_song_begin song_id s = (C_Fetch song_id, s\<lparr>next_song_state := DOWNLOADING\<rparr>)"

text \<open>
  The request for the song data and the handling of its response. While a song plays nothing is
  sent: the call only logs and returns to the loop, and the update follows when that song stops.
\<close>

definition need_song_fetch :: "net \<Rightarrow> pyval \<Rightarrow> pi_state \<Rightarrow> comm_pc \<times> pi_state" where
  "need_song_fetch net song_id s =
     (case send_request net new_connection ''request_song''
             [(''clientID'', client_id s), (''songID'', song_id)] [] ''GET'' s of
        (Inl e, conn, s) \<Rightarrow> (C_Dead e, s)
      | (Inr song_response, conn, s) \<Rightarrow>
          if rs_status song_response = 200 then
            (let (song_data, conn) = read_body song_response conn
             in if \<not> openable (py_str song_id) then (C_Dead IOErr, s)
                else
                  (let s = s\<lparr>files := write_file (py_str song_id) song_data (files s)\<rparr>;
                       s = s\<lparr>next_song_state := READY\<rparr>
                   in if current_song_state s \<noteq> PLAYING then (C_SendReady song_id conn, s)
                      else (C_Idle, s)))
          else (C_Idle, s\<lparr>next_song_state := S_UNKNOWN\<rparr>))"

text \<open>The status update that tells the server the song is ready.\<close>

definition need_song_ready ::
  "net \<Rightarrow> pyval \<Rightarrow> http_connection \<Rightarrow> pi_state \<Rightarrow> comm_pc \<times> pi_state" where
  "need_song_ready net song_id conn s =
     (case send_request net conn ''status_update'' [(''clientID'', client_id s)]
             [(''id'', song_id), (''position'', PInt 0), (''status'', PStr ''Ready'')]
             ''POST'' s of
        (Inl e, conn, s) \<Rightarrow> (C_Dead e, s)
      | (Inr resp, conn, s) \<Rightarrow> (C_Idle, s))"

text \<open>The head of the loop: leave when \<open>keep_running\<close> is false, else take a message.\<close>

definition comm_take :: "pi_state \<Rightarrow> comm_pc \<times> pi_state" where
  "comm_take s =
     (if \<not> keep_running s then (C_Exit, s)
      else (case q_get (playback_connection_queue s) of
              None \<Rightarrow> (C_Idle, s)
            | Some (a, q) \<Rightarrow> (C_Got a, s\<lparr>playback_connection_queue := q\<rparr>)))"

text \<open>
  The client identifier, from the queue when the global is not set yet: \<open>None\<close> while the
  (untimed) \<open>get\<close> blocks.
\<close>

definition comm_client_id :: "nat \<Rightarrow> pi_state \<Rightarrow> (comm_pc \<times> pi_state) option" where
  "comm_client_id a s =
     (if client_id s = UNKNOWN then
        (case q_get (server_communication_ID_queue s) of
           None \<Rightarrow> None
         | Some (i, q) \<Rightarrow>
             Some (C_Dispatch a, s\<lparr>client_id := i, server_communication_ID_queue := q\<rparr>))
      else Some (C_Dispatch a, s))"

definition comm_dispatch :: "nat \<Rightarrow> pi_state \<Rightarrow> comm_pc \<times> pi_state" where
  "comm_dispatch a s =
     (if msg_status (heap s ! a) = ''need_song'' then need_song_begin (msg_id (heap s ! a)) s
      else (C_Post a, s))"

text \<open>
  A status update, and after a \<open>Stopped\<close> one the announcement of, or the request for, the next
  song, in the same dictionary.
\<close>

definition comm_post :: "net \<Rightarrow> nat \<Rightarrow> pi_state \<Rightarrow> comm_pc \<times> pi_state" where
  "comm_post net a s =
     (case send_request net new_connection ''status_update'' [(''clientID'', client_id s)]
             (message_body (heap s ! a)) ''POST'' s of
        (Inl e, conn, s) \<Rightarrow> (C_Dead e, s)
      | (Inr resp, conn, s) \<Rightarrow>
          if msg_status (heap s ! a) = ''Stopped'' \<and> next_song s \<noteq> UNKNOWN then
            (case check_for_song (next_song s) s of
               Inl e \<Rightarrow> (C_Dead e, s)
             | Inr found_song \<Rightarrow>
                 if next_song_state s = READY then
                   (C_PostReady a conn, set_message a (next_song s) ''Ready'' ''0'' s)
                 else if next_song_state s = S_UNKNOWN then
                   (C_Idle, put_message a (set_message a (next_song s) ''need_song'' ''0'' s))
                 else (C_Idle, s))
          else (C_Idle, s))"

definition comm_post_ready ::
  "net \<Rightarrow> nat \<Rightarrow> http_connection \<Rightarrow> pi_state \<Rightarrow> comm_pc \<times> pi_state" where
  "comm_post_ready net a conn s =
     (case send_request net conn ''status_update'' [(''clientID'', client_id s)]
             (message_body (heap s ! a)) ''POST'' s of
        (Inl e, conn, s) \<Rightarrow> (C_Dead e, s)
      | (Inr resp, conn, s) \<Rightarrow> (C_Idle, s))"

fun comm_step :: "net \<Rightarrow> comm_pc \<Rightarrow> pi_state \<Rightarrow> (comm_pc \<times> pi_state) option" where
  "comm_step net C_Idle s = Some (comm_take s)"
| "comm_step net (C_Got a) s = comm_client_id a s"
| "comm_step net (C_Dispatch a) s = Some (comm_dispatch a s)"
| "comm_step net (C_Fetch song_id) s = Some (need_song_fetch net song_id s)"
| "comm_step net (C_SendReady song_id conn) s = Some (need_song_ready net song_id conn s)"
| "comm_step net (C_Post a) s = Some (comm_post net a s)"
| "comm_step net (C_PostReady a conn) s = Some (comm_post_ready net a conn s)"
| "comm_step net C_Exit s = None"
| "comm_step net (C_Dead e) s = None"

text \<open>The thread alone, for a number of its steps: what it does when no other thread runs.\<close>

fun comm_run :: "nat \<Rightarrow> net \<Rightarrow> comm_pc \<Rightarrow> pi_state \<Rightarrow> comm_pc \<times> pi_state" where
  "comm_run 0 net pc s = (pc, s)"
| "comm_run (Suc n) net pc s =
     (case comm_step net pc s of
        None \<Rightarrow> (pc, s)
      | Some (pc', s') \<Rightarrow> comm_run n net pc' s')"

text \<open>\<open>handle_need_song\<close> as one uninterrupted call.\<close>

definition handle_need_song :: "net \<Rightarrow> pyval \<Rightarrow> pi_state \<Rightarrow> comm_pc \<times> pi_state" where
  "handle_need_song net song_id s =
     (case need_song_begin song_id s of
        (_, s) \<Rightarrow>
          (case need_song_fetch net song_id s of
             (C_SendReady i conn, s) \<Rightarrow> need_song_ready net i conn s
           | r \<Rightarrow> r))"

section \<open>The update thread\<close>

datatype update_pc = U_Auth | U_Loop bool | U_Poll | U_Deauth bool | U_Exit | U_Dead exn

text \<open>
  The \<open>id\<close> of the authentication response; the protocol sends an atom.
\<close>

definition auth_id :: "json option \<Rightarrow> exn + pyval" where
  "auth_id j =
     (case j of
        None \<Rightarrow> Inl ValueErr
      | Some server_response \<Rightarrow>
          bindR (get_field ''id'' server_response)
            (\<lambda>f. case f of FVal v \<Rightarrow> Inr v | FObj _ \<Rightarrow> Inl TypeErr))"

text \<open>
  Authentication. \<open>sys.exit()\<close> raises \<open>SystemExit\<close>, which \<open>except Exception\<close> does not catch: the
  thread ends and \<open>keep_running\<close> stays true. Any other failure stops the program.
\<close>

definition update_auth :: "net \<Rightarrow> pi_state \<Rightarrow> update_pc \<times> pi_state" where
  "update_auth net s =
     (case send_request net new_connection ''authenticate'' [] [(''pin'', PInt 1234)] ''POST'' s of
        (Inl e, conn, s) \<Rightarrow> (U_Loop False, s\<lparr>keep_running := False\<rparr>)
      | (Inr server_response, conn, s) \<Rightarrow>
          if rs_status server_response \<noteq> 200 then (U_Dead SystemExit, s)
          else (case auth_id (rs_json server_response) of
                  Inl e \<Rightarrow> (U_Loop False, s\<lparr>keep_running := False\<rparr>)
                | Inr i \<Rightarrow>
                    (U_Loop False,
                     s\<lparr>client_id := i,
                       server_communication_ID_queue :=
                         q_put i (server_communication_ID_queue s)\<rparr>)))"

text \<open>
  One long poll. After a timeout the connection object stays in the middle of its request, which
  the flag of \<open>U_Loop\<close> records; any other exception ends the thread.
\<close>

definition update_poll :: "net \<Rightarrow> pi_state \<Rightarrow> update_pc \<times> pi_state" where
  "update_poll net s =
     (case send_request net new_connection ''request_update'' [(''clientID'', client_id s)] []
             ''GET'' s of
        (Inl e, conn, s) \<Rightarrow>
          if e = SocketTimeout then (U_Loop True, s) else (U_Dead SystemExit, s)
      | (Inr update_response, conn, s) \<Rightarrow>
          if rs_status update_response = 200 then
            (U_Loop False,
             s\<lparr>server_playback_queue :=
                 q_put (rs_json update_response) (server_playback_queue s)\<rparr>)
          else (U_Loop False, s))"

text \<open>\<open>stale\<close>: \<open>httplib\<close> refuses a request on a connection whose last request is unfinished.\<close>

definition update_deauth :: "net \<Rightarrow> bool \<Rightarrow> pi_state \<Rightarrow> update_pc \<times> pi_state" where
  "update_deauth net stale s =
     (if stale then (U_Dead CannotSendRequest, s)
      else (case send_request net new_connection ''deauthenticate''
                   [(''clientID'', client_id s)] [(''id'', client_id s)] ''POST'' s of
              (Inl e, conn, s) \<Rightarrow> (U_Dead e, s)
            | (Inr resp, conn, s) \<Rightarrow> (U_Exit, s)))"

fun update_step :: "net \<Rightarrow> update_pc \<Rightarrow> pi_state \<Rightarrow> (update_pc \<times> pi_state) option" where
  "update_step net U_Auth s = Some (update_auth net s)"
| "update_step net (U_Loop stale) s =
     Some (if keep_running s then U_Poll else U_Deauth stale, s)"
| "update_step net U_Poll s = Some (update_poll net s)"
| "update_step net (U_Deauth stale) s = Some (update_deauth net stale s)"
| "update_step net U_Exit s = None"
| "update_step net (U_Dead e) s = None"

end
