(* ===== verification/Raspi_System.thy ===== *)
theory Raspi_System
  imports Raspi_Comm
begin

text \<open>
  The three threads of \<open>raspi.py\<close> over the shared globals, interleaved at their blocking points,
  and the invariants of every reachable state. The network answers differ from step to step; the
  predicate \<open>env\<close> restricts them where a property relies on the server.
\<close>

datatype playback_pc = P_Start | P_Loop nat | P_Exit

fun playback_step ::
  "pygame \<Rightarrow> event \<Rightarrow> bool \<Rightarrow> playback_pc \<Rightarrow> pi_state \<Rightarrow> (playback_pc \<times> pi_state) option" where
  "playback_step pg event init_ok P_Start s =
     (case playback_start init_ok s of (m, s) \<Rightarrow> Some (P_Loop m, s))"
| "playback_step pg event init_ok (P_Loop m) s =
     Some (if keep_running s then (P_Loop m, playback_iteration pg event m s) else (P_Exit, s))"
| "playback_step pg event init_ok P_Exit s = None"

record sys =
  shared :: pi_state
  update_thread :: update_pc
  playback_thread :: playback_pc
  communicate_thread :: comm_pc

definition main_start :: "(string \<times> string) list \<Rightarrow> sys" where
  "main_start fs =
     \<lparr>shared = init_state fs, update_thread = U_Auth, playback_thread = P_Start,
      communicate_thread = C_Idle\<rparr>"

text \<open>\<open>interrupt\<close> is the \<open>KeyboardInterrupt\<close> handler at the end of the file.\<close>

inductive sys_step :: "(net \<Rightarrow> bool) \<Rightarrow> sys \<Rightarrow> sys \<Rightarrow> bool" for env where
  update: "env net \<Longrightarrow> update_step net (update_thread y) (shared y) = Some (u, s) \<Longrightarrow>
     sys_step env y (y\<lparr>shared := s, update_thread := u\<rparr>)"
| playback: "playback_step pg event init_ok (playback_thread y) (shared y) = Some (p, s) \<Longrightarrow>
     sys_step env y (y\<lparr>shared := s, playback_thread := p\<rparr>)"
| communicate: "env net \<Longrightarrow> comm_step net (communicate_thread y) (shared y) = Some (c, s) \<Longrightarrow>
     sys_step env y (y\<lparr>shared := s, communicate_thread := c\<rparr>)"
| interrupt: "sys_step env y (y\<lparr>shared := (shared y)\<lparr>keep_running := False\<rparr>\<rparr>)"

inductive_cases sys_stepE: "sys_step env y z"

section \<open>Schedules\<close>

text \<open>
  A schedule says which thread moves next and what its environment does; running one computes
  the state it leads to, and the states schedules reach are exactly the reachable ones.
\<close>

datatype move = MUpdate net | MPlayback pygame event bool | MComm net | MInterrupt

fun move_ok :: "(net \<Rightarrow> bool) \<Rightarrow> move \<Rightarrow> bool" where
  "move_ok env (MUpdate net) = env net"
| "move_ok env (MComm net) = env net"
| "move_ok env _ = True"

fun sys_move :: "move \<Rightarrow> sys \<Rightarrow> sys option" where
  "sys_move (MUpdate net) y =
     map_option (\<lambda>(u, s). y\<lparr>shared := s, update_thread := u\<rparr>)
       (update_step net (update_thread y) (shared y))"
| "sys_move (MPlayback pg event init_ok) y =
     map_option (\<lambda>(p, s). y\<lparr>shared := s, playback_thread := p\<rparr>)
       (playback_step pg event init_ok (playback_thread y) (shared y))"
| "sys_move (MComm net) y =
     map_option (\<lambda>(c, s). y\<lparr>shared := s, communicate_thread := c\<rparr>)
       (comm_step net (communicate_thread y) (shared y))"
| "sys_move MInterrupt y = Some (y\<lparr>shared := (shared y)\<lparr>keep_running := False\<rparr>\<rparr>)"

fun run_schedule :: "move list \<Rightarrow> sys \<Rightarrow> sys option" where
  "run_schedule [] y = Some y"
| "run_schedule (mv # mvs) y =
     (case sys_move mv y of None \<Rightarrow> None | Some z \<Rightarrow> run_schedule mvs z)"

lemma sys_move_step: "sys_move mv y = Some z \<Longrightarrow> move_ok env mv \<Longrightarrow> sys_step env y z"
  by (cases mv) (auto intro: sys_step.intros)

lemma sys_step_move: "sys_step env y z \<Longrightarrow> \<exists>mv. move_ok env mv \<and> sys_move mv y = Some z"
proof (erule sys_stepE)
  fix net u s
  assume "z = y\<lparr>shared := s, update_thread := u\<rparr>" "env net"
    "update_step net (update_thread y) (shared y) = Some (u, s)"
  then show ?thesis by (intro exI [of _ "MUpdate net"]) simp
next
  fix pg ev ok p s
  assume "z = y\<lparr>shared := s, playback_thread := p\<rparr>"
    "playback_step pg ev ok (playback_thread y) (shared y) = Some (p, s)"
  then show ?thesis by (intro exI [of _ "MPlayback pg ev ok"]) simp
next
  fix net c s
  assume "z = y\<lparr>shared := s, communicate_thread := c\<rparr>" "env net"
    "comm_step net (communicate_thread y) (shared y) = Some (c, s)"
  then show ?thesis by (intro exI [of _ "MComm net"]) simp
next
  assume "z = y\<lparr>shared := (shared y)\<lparr>keep_running := False\<rparr>\<rparr>"
  then show ?thesis by (intro exI [of _ MInterrupt]) simp
qed

lemma run_schedule_append:
  "run_schedule (a @ b) y = (case run_schedule a y of None \<Rightarrow> None | Some z \<Rightarrow> run_schedule b z)"
  by (induction a arbitrary: y) (auto split: option.split)

lemma run_schedule_reaches:
  "run_schedule mvs y = Some z \<Longrightarrow> list_all (move_ok env) mvs \<Longrightarrow> (sys_step env)\<^sup>*\<^sup>* y z"
  by (induction mvs arbitrary: y)
    (auto split: option.splits intro: converse_rtranclp_into_rtranclp sys_move_step)

lemma reached_by_schedule:
  "(sys_step env)\<^sup>*\<^sup>* y z \<Longrightarrow> \<exists>mvs. list_all (move_ok env) mvs \<and> run_schedule mvs y = Some z"
proof (induction rule: rtranclp_induct)
  case base
  show ?case by (intro exI [of _ "[]"]) simp
next
  case (step z w)
  then obtain mvs mv where "list_all (move_ok env) mvs" "run_schedule mvs y = Some z"
    "move_ok env mv" "sys_move mv z = Some w" using sys_step_move by blast
  then show ?case by (intro exI [of _ "mvs @ [mv]"]) (simp add: run_schedule_append)
qed

section \<open>Well-formedness\<close>

fun comm_addr :: "comm_pc \<Rightarrow> nat option" where
  "comm_addr (C_Got a) = Some a"
| "comm_addr (C_Dispatch a) = Some a"
| "comm_addr (C_Post a) = Some a"
| "comm_addr (C_PostReady a conn) = Some a"
| "comm_addr _ = None"

definition wf_sys :: "sys \<Rightarrow> bool" where
  "wf_sys y \<longleftrightarrow> wf_pi (shared y)
     \<and> pred_option (\<lambda>a. a < length (heap (shared y))) (comm_addr (communicate_thread y))
     \<and> (\<forall>m. playback_thread y = P_Loop m \<longrightarrow> m < length (heap (shared y)))"

lemma wf_update_ops:
  "wf_pi s \<Longrightarrow> wf_pi (snd (update_auth net s))"
  "wf_pi s \<Longrightarrow> wf_pi (snd (update_poll net s))"
  "wf_pi s \<Longrightarrow> wf_pi (snd (update_deauth net stale s))"
  "heap (snd (update_auth net s)) = heap s"
  "heap (snd (update_poll net s)) = heap s"
  "heap (snd (update_deauth net stale s)) = heap s"
  by (simp_all add: update_auth_def update_poll_def update_deauth_def send_request_eq Let_def
      wf_pi_def split: sum.split)

lemma update_step_wf:
  "wf_pi s \<Longrightarrow> pred_option (\<lambda>r. wf_pi (snd r) \<and> heap (snd r) = heap s) (update_step net u s)"
  by (cases u) (simp_all add: wf_update_ops)

lemma wf_update_step:
  "update_step net u s = Some (u', s') \<Longrightarrow> wf_pi s \<Longrightarrow> wf_pi s' \<and> heap s' = heap s"
  using update_step_wf [of s net u] by simp

lemma heap_playback_iteration:
  "length (heap s) \<le> length (heap (playback_iteration pg ev m s))"
  by (auto simp: playback_iteration_def Let_def split: option.split
      intro: order.trans [OF _ heap_mono_process])

lemma wf_playback_start:
  "wf_pi s \<Longrightarrow> wf_pi (snd (playback_start ok s))"
  "fst (playback_start ok s) < length (heap (snd (playback_start ok s)))"
  "length (heap s) \<le> length (heap (snd (playback_start ok s)))"
  by (auto simp: playback_start_def wf_pi_def less_Suc_eq)

lemma wf_playback_step:
  assumes step: "playback_step pg ev ok p s = Some (p', s')" and wf: "wf_pi s"
    and m: "\<And>m. p = P_Loop m \<Longrightarrow> m < length (heap s)"
  shows "wf_pi s' \<and> length (heap s) \<le> length (heap s') \<and>
     (\<forall>m. p' = P_Loop m \<longrightarrow> m < length (heap s'))"
proof (cases p)
  case P_Start
  with step have "p' = P_Loop (fst (playback_start ok s))" "s' = snd (playback_start ok s)"
    by (auto simp: case_prod_beta)
  then show ?thesis using wf wf_playback_start [where s = s and ok = ok] by simp
next
  case (P_Loop k)
  then have "k < length (heap s)" by (rule m)
  with P_Loop step wf show ?thesis
    using heap_playback_iteration [of s pg ev k]
      wf_playback_iteration [where s = s and m = k and pg = pg and ev = ev]
    by (auto split: if_split_asm)
next
  case P_Exit
  with step show ?thesis by simp
qed

definition comm_wf :: "pi_state \<Rightarrow> comm_pc \<times> pi_state \<Rightarrow> bool" where
  "comm_wf s r \<longleftrightarrow> wf_pi (snd r) \<and> length (heap (snd r)) = length (heap s)
     \<and> pred_option (\<lambda>a. a < length (heap s)) (comm_addr (fst r))"

lemma comm_wf_take: "wf_pi s \<Longrightarrow> comm_wf s (comm_take s)"
  by (cases "playback_connection_queue s") (auto simp: comm_wf_def comm_take_def wf_pi_def)

lemma comm_wf_client_id:
  "wf_pi s \<Longrightarrow> a < length (heap s) \<Longrightarrow> pred_option (comm_wf s) (comm_client_id a s)"
  by (cases "server_communication_ID_queue s")
    (simp_all add: comm_wf_def comm_client_id_def wf_pi_def)

lemma comm_wf_dispatch: "wf_pi s \<Longrightarrow> a < length (heap s) \<Longrightarrow> comm_wf s (comm_dispatch a s)"
  by (simp add: comm_wf_def comm_dispatch_def need_song_begin_def wf_pi_def)

lemma comm_wf_fetch: "wf_pi s \<Longrightarrow> comm_wf s (need_song_fetch net i s)"
  by (auto simp: comm_wf_def need_song_fetch_def send_request_eq Let_def read_body_def wf_pi_def
      split: sum.split option.split)

lemma comm_wf_ready: "wf_pi s \<Longrightarrow> comm_wf s (need_song_ready net i conn s)"
  by (simp add: comm_wf_def need_song_ready_def send_request_eq Let_def split: sum.split)

lemma comm_wf_post: "wf_pi s \<Longrightarrow> a < length (heap s) \<Longrightarrow> comm_wf s (comm_post net a s)"
  by (auto simp: comm_wf_def comm_post_def send_request_eq Let_def wf_pi_def
      split: sum.split option.split)

lemma comm_wf_post_ready: "wf_pi s \<Longrightarrow> comm_wf s (comm_post_ready net a conn s)"
  by (simp add: comm_wf_def comm_post_ready_def send_request_eq Let_def split: sum.split)

lemma comm_step_wf:
  "wf_pi s \<Longrightarrow> pred_option (\<lambda>a. a < length (heap s)) (comm_addr c) \<Longrightarrow>
     pred_option (comm_wf s) (comm_step net c s)"
  by (cases c) (simp_all add: comm_wf_take comm_wf_client_id comm_wf_dispatch comm_wf_fetch
      comm_wf_ready comm_wf_post comm_wf_post_ready)

lemma wf_comm_step:
  "comm_step net c s = Some (c', s') \<Longrightarrow> wf_pi s \<Longrightarrow>
     pred_option (\<lambda>a. a < length (heap s)) (comm_addr c) \<Longrightarrow>
     wf_pi s' \<and> length (heap s') = length (heap s) \<and>
     pred_option (\<lambda>a. a < length (heap s')) (comm_addr c')"
  using comm_step_wf [of s c net] by (simp add: comm_wf_def)

lemma wf_main_start: "wf_sys (main_start fs)"
  by (simp add: wf_sys_def main_start_def wf_init)

lemma wf_sys_step: "wf_sys y \<Longrightarrow> sys_step env y z \<Longrightarrow> wf_sys z"
proof (erule sys_stepE)
  fix net u s
  assume "wf_sys y" "update_step net (update_thread y) (shared y) = Some (u, s)"
    "z = y\<lparr>shared := s, update_thread := u\<rparr>"
  then show "wf_sys z" using wf_update_step [of net "update_thread y" "shared y" u s]
    by (auto simp: wf_sys_def)
next
  fix pg ev ok p s
  assume "wf_sys y" "playback_step pg ev ok (playback_thread y) (shared y) = Some (p, s)"
    "z = y\<lparr>shared := s, playback_thread := p\<rparr>"
  then show "wf_sys z"
    using wf_playback_step [of pg ev ok "playback_thread y" "shared y" p s]
    by (auto simp: wf_sys_def option.pred_mono_strong elim!: option.pred_mono_strong)
next
  fix net c s
  assume "wf_sys y" "comm_step net (communicate_thread y) (shared y) = Some (c, s)"
    "z = y\<lparr>shared := s, communicate_thread := c\<rparr>"
  then show "wf_sys z"
    using wf_comm_step [of net "communicate_thread y" "shared y" c s]
    by (auto simp: wf_sys_def)
next
  assume "wf_sys y" "z = y\<lparr>shared := (shared y)\<lparr>keep_running := False\<rparr>\<rparr>"
  then show "wf_sys z" by (simp add: wf_sys_def wf_pi_def)
qed

interpretation wfs: transition_system "\<lambda>y. \<exists>fs. y = main_start fs" "sys_step env" wf_sys
  by unfold_locales (auto intro: wf_main_start wf_sys_step)

section \<open>Once stopped, the program stays stopped\<close>

lemma keep_running_handlers [simp]:
  "keep_running (snd (handle_play_command pg i s)) = keep_running s"
  "keep_running (snd (handle_stop_command pg i s)) = keep_running s"
  "keep_running (snd (handle_upcoming_song_update i s)) = keep_running s"
  by (simp_all add: handler_defs Let_def case_prod_beta split: option.split sum.split)

lemma keep_running_process [simp]: "keep_running (snd (process_update pg b s)) = keep_running s"
  by (simp add: process_update_def playback_command_def upcoming_song_def
      split: option.split sum.split json_field.split pyval.split prod.split)

lemma keep_running_iteration [simp]:
  "keep_running (playback_iteration pg ev m s) = keep_running s"
  by (simp add: playback_iteration_def Let_def split: option.split prod.split)

lemma keep_running_comm_ops [simp]:
  "keep_running (snd (comm_take s)) = keep_running s"
  "pred_option (\<lambda>r. keep_running (snd r) = keep_running s) (comm_client_id a s)"
  "keep_running (snd (comm_dispatch a s)) = keep_running s"
  "keep_running (snd (need_song_fetch net i s)) = keep_running s"
  "keep_running (snd (need_song_ready net i conn s)) = keep_running s"
  "keep_running (snd (comm_post net a s)) = keep_running s"
  "keep_running (snd (comm_post_ready net a conn s)) = keep_running s"
  by (simp_all add: comm_take_def comm_client_id_def comm_dispatch_def need_song_begin_def
      need_song_fetch_def need_song_ready_def comm_post_def comm_post_ready_def read_body_def
      send_request_eq Let_def split: sum.split option.split)

lemma keep_running_comm:
  "comm_step net c s = Some (c', s') \<Longrightarrow> keep_running s' = keep_running s"
proof -
  have "pred_option (\<lambda>r. keep_running (snd r) = keep_running s) (comm_step net c s)"
    by (cases c) simp_all
  then show "comm_step net c s = Some (c', s') \<Longrightarrow> keep_running s' = keep_running s" by simp
qed

lemma keep_running_update:
  "update_step net u s = Some (u', s') \<Longrightarrow> keep_running s' \<Longrightarrow> keep_running s"
proof -
  have "pred_option (\<lambda>r. keep_running (snd r) \<longrightarrow> keep_running s) (update_step net u s)"
    by (cases u) (simp_all add: update_auth_def update_poll_def update_deauth_def
        send_request_eq Let_def split: sum.split)
  then show "update_step net u s = Some (u', s') \<Longrightarrow> keep_running s' \<Longrightarrow> keep_running s" by simp
qed

lemma keep_running_playback:
  "playback_step pg ev ok p s = Some (p', s') \<Longrightarrow> keep_running s' \<Longrightarrow> keep_running s"
  by (cases p) (auto simp: playback_start_def new_message_def split: if_splits)

lemma keep_running_step:
  "sys_step env y z \<Longrightarrow> keep_running (shared z) \<Longrightarrow> keep_running (shared y)"
  by (erule sys_stepE)
    (auto dest: keep_running_comm keep_running_update keep_running_playback)

interpretation stopped: transition_system
  "\<lambda>y. \<not> keep_running (shared y)" "sys_step env" "\<lambda>y. \<not> keep_running (shared y)"
  by unfold_locales (auto dest: keep_running_step)

end
