(* ===== verification/Raspi_Safety.thy ===== *)
theory Raspi_Safety
  imports Raspi_System
begin

text \<open>
  Safety of the three threads together: no message exists before the speaker is authenticated,
  and a song marked ready is on disk unless a download completed for a song that was no longer the
  next one.
\<close>

section \<open>Authentication comes first\<close>

definition quiet :: "pi_state \<Rightarrow> bool" where
  "quiet s \<longleftrightarrow> server_playback_queue s = [] \<and> playback_connection_queue s = []
     \<and> current_song_state s = S_UNKNOWN"

fun update_silent :: "update_pc \<Rightarrow> pi_state \<Rightarrow> bool" where
  "update_silent (U_Loop stale) s = (\<not> keep_running s)"
| "update_silent U_Poll s = False"
| "update_silent _ s = True"

definition auth_inv :: "sys \<Rightarrow> bool" where
  "auth_inv y \<longleftrightarrow> client_id (shared y) \<noteq> UNKNOWN
     \<or> (quiet (shared y) \<and> communicate_thread y \<in> {C_Idle, C_Exit}
        \<and> update_silent (update_thread y) (shared y))"

text \<open>A server that never hands out the identifier that stands for "none".\<close>

definition assigns_ids :: "net \<Rightarrow> bool" where
  "assigns_ids net \<longleftrightarrow>
     (\<forall>r resp i. net r = Inr resp \<longrightarrow> auth_id (rs_json resp) = Inr i \<longrightarrow> i \<noteq> UNKNOWN)"

lemma client_id_handlers [simp]:
  "client_id (snd (handle_play_command pg i s)) = client_id s"
  "client_id (snd (handle_stop_command pg i s)) = client_id s"
  "client_id (snd (handle_upcoming_song_update i s)) = client_id s"
  by (simp_all add: handler_defs Let_def case_prod_beta split: option.split sum.split)

lemma client_id_playback [simp]:
  "client_id (snd (process_update pg b s)) = client_id s"
  "client_id (playback_iteration pg ev m s) = client_id s"
  by (simp_all add: process_update_def playback_command_def upcoming_song_def
      playback_iteration_def Let_def
      split: option.split sum.split json_field.split pyval.split prod.split)

lemma client_id_comm:
  "client_id s \<noteq> UNKNOWN \<Longrightarrow>
     pred_option (\<lambda>r. client_id (snd r) = client_id s) (comm_step net c s)"
  by (cases c) (simp_all add: comm_take_def comm_client_id_def comm_dispatch_def
      need_song_begin_def need_song_fetch_def need_song_ready_def comm_post_def
      comm_post_ready_def read_body_def send_request_eq Let_def split: sum.split option.split)

lemma client_id_update:
  "assigns_ids net \<Longrightarrow> client_id s \<noteq> UNKNOWN \<Longrightarrow>
     pred_option (\<lambda>r. client_id (snd r) \<noteq> UNKNOWN) (update_step net u s)"
  by (cases u) (auto simp: update_auth_def update_poll_def update_deauth_def assigns_ids_def
      send_request_eq Let_def split: sum.split)

lemma quiet_iteration: "quiet s \<Longrightarrow> playback_iteration pg ev m s = s"
  by (simp add: quiet_def playback_iteration_def)

lemma quiet_start: "quiet s \<Longrightarrow> quiet (snd (playback_start ok s))"
  by (simp add: quiet_def playback_start_def)

lemma update_silent_cong:
  "(keep_running s' \<longrightarrow> keep_running s) \<Longrightarrow> update_silent u s \<Longrightarrow> update_silent u s'"
  by (cases u) auto

lemma quiet_playback_step:
  "playback_step pg ev ok p s = Some (p', s') \<Longrightarrow> quiet s \<Longrightarrow> quiet s'"
  by (cases p) (auto simp: case_prod_beta quiet_iteration quiet_start split: if_splits)

lemma client_id_playback_step:
  "playback_step pg ev ok p s = Some (p', s') \<Longrightarrow> client_id s' = client_id s"
  by (cases p) (auto simp: case_prod_beta playback_start_def split: if_splits)

lemma quiet_update_step:
  assumes env: "assigns_ids net" and s: "quiet s" "update_silent u s"
  shows "pred_option (\<lambda>r. client_id (snd r) \<noteq> UNKNOWN
           \<or> (quiet (snd r) \<and> update_silent (fst r) (snd r))) (update_step net u s)"
  using s env
  by (cases u) (auto simp: update_auth_def update_deauth_def quiet_def assigns_ids_def
      send_request_eq Let_def split: sum.split)

lemma quiet_comm_step:
  "quiet s \<Longrightarrow> c \<in> {C_Idle, C_Exit} \<Longrightarrow> comm_step net c s = Some (c', s') \<Longrightarrow>
     s' = s \<and> c' \<in> {C_Idle, C_Exit}"
  by (auto simp: quiet_def comm_take_def split: if_splits)

lemma auth_inv_step:
  assumes inv: "auth_inv y" and step: "sys_step assigns_ids y z"
  shows "auth_inv z"
proof (rule sys_stepE [OF step])
  fix net u s
  assume "z = y\<lparr>shared := s, update_thread := u\<rparr>" "assigns_ids net"
    "update_step net (update_thread y) (shared y) = Some (u, s)"
  with inv show ?thesis
    using client_id_update [of net "shared y" "update_thread y"]
      quiet_update_step [of net "shared y" "update_thread y"]
    by (auto simp: auth_inv_def)
next
  fix pg ev ok p s
  assume z: "z = y\<lparr>shared := s, playback_thread := p\<rparr>"
    and st: "playback_step pg ev ok (playback_thread y) (shared y) = Some (p, s)"
  show ?thesis
    using inv client_id_playback_step [OF st] quiet_playback_step [OF st]
      keep_running_playback [OF st] update_silent_cong [of s "shared y"]
    by (auto simp: auth_inv_def z)
next
  fix net c s
  assume z: "z = y\<lparr>shared := s, communicate_thread := c\<rparr>"
    and st: "comm_step net (communicate_thread y) (shared y) = Some (c, s)"
  show ?thesis
    using inv client_id_comm [of "shared y" net "communicate_thread y"]
      quiet_comm_step [OF _ _ st] st
    by (auto simp: auth_inv_def z)
next
  assume "z = y\<lparr>shared := (shared y)\<lparr>keep_running := False\<rparr>\<rparr>"
  with inv show ?thesis
    by (cases "update_thread y") (auto simp: auth_inv_def quiet_def)
qed

lemma auth_inv_start: "auth_inv (main_start fs)"
  by (simp add: auth_inv_def main_start_def init_state_def quiet_def)

interpretation authi: transition_system
  "\<lambda>y. \<exists>fs. y = main_start fs" "sys_step assigns_ids" auth_inv
  by unfold_locales (auto intro: auth_inv_start auth_inv_step)

section \<open>A ready song is on disk\<close>

definition ready_on_disk :: "pi_state \<Rightarrow> bool" where
  "ready_on_disk s \<longleftrightarrow>
     (next_song_state s = READY \<longrightarrow> has_file (py_str (next_song s)) s)"

text \<open>
  A step that completes a download, leaving the next song marked ready, completes the download
  of that next song.
\<close>

fun download_done :: "comm_pc \<Rightarrow> bool" where
  "download_done C_Idle = True"
| "download_done (C_SendReady song_id conn) = True"
| "download_done _ = False"

fun fetch_current :: "comm_pc \<Rightarrow> comm_pc \<Rightarrow> pi_state \<Rightarrow> bool" where
  "fetch_current (C_Fetch song_id) c s =
     (download_done c \<and> next_song_state s = READY \<longrightarrow> py_str song_id = py_str (next_song s))"
| "fetch_current _ c s = True"

lemma has_file_update [simp]:
  "has_file f (s\<lparr>current_song := a\<rparr>) = has_file f s"
  "has_file f (s\<lparr>current_song_state := b\<rparr>) = has_file f s"
  "has_file f (s\<lparr>next_song := c\<rparr>) = has_file f s"
  "has_file f (s\<lparr>next_song_state := d\<rparr>) = has_file f s"
  "has_file f (s\<lparr>music := e\<rparr>) = has_file f s"
  "has_file f (s\<lparr>client_id := i\<rparr>) = has_file f s"
  "has_file f (s\<lparr>keep_running := k\<rparr>) = has_file f s"
  "has_file f (s\<lparr>server_playback_queue := q\<rparr>) = has_file f s"
  "has_file f (s\<lparr>playback_connection_queue := pq\<rparr>) = has_file f s"
  "has_file f (s\<lparr>server_communication_ID_queue := iq\<rparr>) = has_file f s"
  by (simp_all add: has_file_def)

lemma ready_play: "ready_on_disk s \<Longrightarrow> ready_on_disk (snd (handle_play_command pg i s))"
  by (auto simp: handle_play_command_def ready_on_disk_def Let_def case_prod_beta
      split: option.split)

lemma ready_stop: "ready_on_disk s \<Longrightarrow> ready_on_disk (snd (handle_stop_command pg i s))"
  by (auto simp: handle_stop_command_def ready_on_disk_def Let_def case_prod_beta)

lemma check_for_song_snd [simp]: "check_for_song i (snd (new_message s)) = check_for_song i s"
  by (simp add: check_for_song_def)

lemma check_for_song_upd [simp]:
  "check_for_song i (s\<lparr>next_song := a, next_song_state := b\<rparr>) = check_for_song i s"
  by (simp add: check_for_song_def)

lemma ready_upcoming:
  "ready_on_disk s \<Longrightarrow> glob_plain (py_str (next_song (snd (handle_upcoming_song_update i s)))) \<Longrightarrow>
     ready_on_disk (snd (handle_upcoming_song_update i s))"
  by (auto simp: handle_upcoming_song_update_def ready_on_disk_def Let_def case_prod_beta
      check_for_song_plain split: if_splits sum.splits)

lemma ready_process:
  "ready_on_disk s \<Longrightarrow> glob_plain (py_str (next_song (snd (process_update pg b s)))) \<Longrightarrow>
     ready_on_disk (snd (process_update pg b s))"
  by (auto simp: process_update_def playback_command_def upcoming_song_def
      intro: ready_play ready_stop ready_upcoming
      split: option.splits sum.splits json_field.splits pyval.splits prod.splits if_splits)

lemma ready_playback_step:
  "playback_step pg ev ok p s = Some (p', s') \<Longrightarrow> ready_on_disk s \<Longrightarrow>
     glob_plain (py_str (next_song s')) \<Longrightarrow> ready_on_disk s'"
proof (cases p)
  case P_Start
  assume "playback_step pg ev ok p s = Some (p', s')" "ready_on_disk s"
  with P_Start show ?thesis
    by (auto simp: playback_start_def case_prod_beta ready_on_disk_def split: if_splits)
next
  case (P_Loop m)
  assume st: "playback_step pg ev ok p s = Some (p', s')" and r: "ready_on_disk s"
    and g: "glob_plain (py_str (next_song s'))"
  show ?thesis
  proof (cases "q_get (server_playback_queue s)")
    case None
    with st r P_Loop show ?thesis
      by (auto simp: playback_iteration_def Let_def ready_on_disk_def split: if_splits)
  next
    case (Some bq)
    obtain b q where bq: "bq = (b, q)" by (cases bq)
    have "ready_on_disk (s\<lparr>server_playback_queue := q\<rparr>)"
      using r by (simp add: ready_on_disk_def)
    from ready_process [OF this, of pg b] st r g P_Loop Some bq show ?thesis
      by (auto simp: playback_iteration_def split: if_splits)
  qed
qed simp

lemma ready_comm_ops:
  "ready_on_disk s \<Longrightarrow> ready_on_disk (snd (comm_take s))"
  "ready_on_disk s \<Longrightarrow> pred_option (\<lambda>r. ready_on_disk (snd r)) (comm_client_id a s)"
  "ready_on_disk s \<Longrightarrow> ready_on_disk (snd (comm_dispatch a s))"
  "ready_on_disk s \<Longrightarrow> ready_on_disk (snd (need_song_ready net i conn s))"
  "ready_on_disk s \<Longrightarrow> ready_on_disk (snd (comm_post net a s))"
  "ready_on_disk s \<Longrightarrow> ready_on_disk (snd (comm_post_ready net a conn s))"
  by (auto simp: ready_on_disk_def comm_take_def comm_client_id_def comm_dispatch_def
      need_song_begin_def need_song_ready_def comm_post_def comm_post_ready_def
      send_request_eq Let_def split: sum.split option.split)

lemma ready_fetch:
  "ready_on_disk s \<Longrightarrow>
     fetch_current (C_Fetch i) (fst (need_song_fetch net i s)) (snd (need_song_fetch net i s)) \<Longrightarrow>
     ready_on_disk (snd (need_song_fetch net i s))"
  by (auto simp: ready_on_disk_def need_song_fetch_def send_request_eq Let_def read_body_def
      has_file_def split: sum.splits if_splits)

lemma ready_comm_step:
  "ready_on_disk s \<Longrightarrow> comm_step net c s = Some (c', s') \<Longrightarrow> fetch_current c c' s' \<Longrightarrow>
     ready_on_disk s'"
proof (cases c)
  case (C_Fetch i)
  assume "ready_on_disk s" "comm_step net c s = Some (c', s')" "fetch_current c c' s'"
  with C_Fetch ready_fetch [of s i net] show ?thesis by (simp del: fetch_current.simps)
next
  case (C_Got a)
  assume "ready_on_disk s" "comm_step net c s = Some (c', s')"
  with C_Got ready_comm_ops(2) [of s a] show ?thesis by simp
qed (use ready_comm_ops [of s] in \<open>auto simp: prod_eq_iff\<close>)

lemma ready_update_step:
  "ready_on_disk s \<Longrightarrow> pred_option (\<lambda>r. ready_on_disk (snd r)) (update_step net u s)"
  by (cases u) (auto simp: ready_on_disk_def update_auth_def update_poll_def update_deauth_def
      send_request_eq Let_def split: sum.split)

lemma ready_on_disk_step:
  assumes r: "ready_on_disk (shared y)" and step: "sys_step env y z"
    and cur: "fetch_current (communicate_thread y) (communicate_thread z) (shared z)"
    and plain: "glob_plain (py_str (next_song (shared z)))"
  shows "ready_on_disk (shared z)"
proof (rule sys_stepE [OF step])
  fix net u s
  assume "z = y\<lparr>shared := s, update_thread := u\<rparr>"
    "update_step net (update_thread y) (shared y) = Some (u, s)"
  then show ?thesis using ready_update_step [OF r, of net "update_thread y"] by simp
next
  fix pg ev ok p s
  assume "z = y\<lparr>shared := s, playback_thread := p\<rparr>"
    "playback_step pg ev ok (playback_thread y) (shared y) = Some (p, s)"
  then show ?thesis using ready_playback_step [OF _ r] plain by simp
next
  fix net c s
  assume "z = y\<lparr>shared := s, communicate_thread := c\<rparr>"
    "comm_step net (communicate_thread y) (shared y) = Some (c, s)"
  then show ?thesis using ready_comm_step [OF r] cur by simp
next
  assume "z = y\<lparr>shared := (shared y)\<lparr>keep_running := False\<rparr>\<rparr>"
  with r show ?thesis by (simp add: ready_on_disk_def)
qed

text \<open>
  Steps that complete only downloads of the next song, with a next song whose name holds no shell
  pattern.
\<close>

definition steady_step :: "(net \<Rightarrow> bool) \<Rightarrow> sys \<Rightarrow> sys \<Rightarrow> bool" where
  "steady_step env y z \<longleftrightarrow> sys_step env y z
     \<and> fetch_current (communicate_thread y) (communicate_thread z) (shared z)
     \<and> glob_plain (py_str (next_song (shared z)))"

lemma ready_on_disk_start: "ready_on_disk (shared (main_start fs))"
  by (simp add: main_start_def init_state_def ready_on_disk_def)

interpretation readyi: transition_system
  "\<lambda>y. \<exists>fs. y = main_start fs" "steady_step env" "\<lambda>y. ready_on_disk (shared y)"
  by unfold_locales (auto simp only: steady_step_def ready_on_disk_start intro: ready_on_disk_step)

fun run_steady :: "move list \<Rightarrow> sys \<Rightarrow> sys option" where
  "run_steady [] y = Some y"
| "run_steady (mv # mvs) y =
     (case sys_move mv y of
        None \<Rightarrow> None
      | Some z \<Rightarrow>
          if fetch_current (communicate_thread y) (communicate_thread z) (shared z)
             \<and> glob_plain (py_str (next_song (shared z)))
          then run_steady mvs z else None)"

lemma run_steady_reaches:
  "run_steady mvs y = Some z \<Longrightarrow> list_all (move_ok env) mvs \<Longrightarrow> (steady_step env)\<^sup>*\<^sup>* y z"
proof (induction mvs arbitrary: y)
  case (Cons mv mvs)
  then obtain w where "sys_move mv y = Some w" "run_steady mvs w = Some z"
    "fetch_current (communicate_thread y) (communicate_thread w) (shared w)"
    "glob_plain (py_str (next_song (shared w)))" "move_ok env mv" "list_all (move_ok env) mvs"
    by (auto split: option.splits if_splits)
  moreover from this have "steady_step env y w"
    by (auto simp: steady_step_def intro: sys_move_step)
  ultimately show ?case using Cons.IH by (blast intro: converse_rtranclp_into_rtranclp)
qed simp

end
