(* ===== verification/Raspi_Speaker.thy ===== *)
theory Raspi_Speaker
  imports Raspi_Safety
begin

text \<open>
  What the speaker promises, without dictionaries and addresses: an abstract speaker with an
  outbox of message contents, and the proof that the handlers of the playback thread implement
  it. The abstraction reads the queued dictionaries, so it also says that a handler never touches
  a message that is already queued.
\<close>

record speaker =
  sp_song :: pyval
  sp_state :: song_state
  sp_next :: pyval
  sp_next_state :: song_state
  sp_mixer :: "string option"
  sp_disk :: "string \<Rightarrow> string option"
  sp_outbox :: "message list"

definition speaker_of :: "pi_state \<Rightarrow> speaker" where
  "speaker_of s =
     \<lparr>sp_song = current_song s, sp_state = current_song_state s,
      sp_next = next_song s, sp_next_state = next_song_state s,
      sp_mixer = music s, sp_disk = map_of (files s),
      sp_outbox = map ((!) (heap s)) (playback_connection_queue s)\<rparr>"

definition notify :: "pyval \<Rightarrow> string \<Rightarrow> string \<Rightarrow> speaker \<Rightarrow> speaker" where
  "notify i st pos sp =
     sp\<lparr>sp_outbox := sp_outbox sp @ [\<lparr>msg_id = i, msg_status = st, msg_position = pos\<rparr>]\<rparr>"

definition speaker_play :: "(string \<Rightarrow> bool) \<Rightarrow> pyval \<Rightarrow> speaker \<Rightarrow> speaker" where
  "speaker_play decodes i sp =
     (if i = sp_song sp then sp
      else if i = sp_next sp \<and> sp_next_state sp = READY \<and> sp_state sp \<noteq> PLAYING then
        (let sp' = sp\<lparr>sp_song := i, sp_state := PLAYING, sp_next := UNKNOWN,
                      sp_next_state := S_UNKNOWN\<rparr>
         in case sp_disk sp (py_str i) of
              Some d \<Rightarrow>
                if decodes d then
                  notify (PStr (py_str i)) ''Playing'' ''0'' (sp'\<lparr>sp_mixer := Some (py_str i)\<rparr>)
                else sp'
            | None \<Rightarrow> sp')
      else if i = sp_next sp \<and> sp_next_state sp = S_UNKNOWN then
        notify (PStr (py_str i)) ''need_song'' ''0'' sp
      else sp)"

definition speaker_stop :: "int \<Rightarrow> pyval \<Rightarrow> speaker \<Rightarrow> speaker" where
  "speaker_stop pos i sp =
     (if i = sp_song sp \<and> sp_state sp = PLAYING then
        notify (PStr (py_str i)) ''Stopped'' (int_str pos)
          (sp\<lparr>sp_state := STOPPED, sp_mixer := None\<rparr>)
      else sp)"

definition speaker_upcoming :: "pyval \<Rightarrow> speaker \<Rightarrow> speaker" where
  "speaker_upcoming i sp =
     (if i = sp_song sp
         \<or> (i = sp_next sp \<and> (sp_next_state sp \<noteq> S_UNKNOWN \<or> i = UNKNOWN)) then sp
      else
        (let sp = sp\<lparr>sp_next := i, sp_next_state := S_UNKNOWN\<rparr>
         in if sp_disk sp (py_str i) = None then notify (PStr (py_str i)) ''need_song'' ''0'' sp
            else
              (let sp = sp\<lparr>sp_next_state := READY\<rparr>
               in if sp_state sp = PLAYING then sp
                  else notify (PStr (py_str i)) ''Ready'' ''0'' sp)))"

definition speaker_song_end :: "int \<Rightarrow> speaker \<Rightarrow> speaker" where
  "speaker_song_end pos sp =
     notify (sp_song sp) ''Stopped'' (int_str pos)
       (sp\<lparr>sp_state := STOPPED, sp_mixer := None\<rparr>)"

section \<open>Queued dictionaries and fresh ones\<close>

lemma queue_heap_fresh:
  "(\<forall>a \<in> set q. a < length h) \<Longrightarrow> map ((!) (h @ [x])) q = map ((!) h) q"
  by (simp add: nth_append)

lemma queue_heap_update:
  "m \<notin> set q \<Longrightarrow> map ((!) (h[m := x])) q = map ((!) h) q"
  by (metis map_cong nth_list_update_neq)

lemma has_file_map_of: "has_file f s \<longleftrightarrow> map_of (files s) f \<noteq> None"
  by (simp add: has_file_def map_of_eq_None_iff)

lemma speaker_of_fresh: "wf_pi s \<Longrightarrow> speaker_of (snd (new_message s)) = speaker_of s"
  by (simp add: speaker_of_def queue_heap_fresh wf_pi_def)

lemma speaker_of_play:
  "wf_pi s \<Longrightarrow>
     speaker_of (snd (handle_play_command pg i s)) = speaker_play (pg_decodes pg) i (speaker_of s)"
  by (auto simp: handle_play_command_def speaker_play_def speaker_of_def music_load_def notify_def
      Let_def case_prod_beta q_put_def queue_heap_fresh wf_pi_def nth_append
      split: option.split)

lemma speaker_of_stop:
  "wf_pi s \<Longrightarrow>
     speaker_of (snd (handle_stop_command pg i s)) = speaker_stop (pg_get_pos pg) i (speaker_of s)"
  by (auto simp: handle_stop_command_def speaker_stop_def speaker_of_def notify_def
      Let_def case_prod_beta q_put_def queue_heap_fresh wf_pi_def nth_append)

lemma speaker_of_upcoming:
  "wf_pi s \<Longrightarrow> glob_plain (py_str i) \<Longrightarrow>
     speaker_of (snd (handle_upcoming_song_update i s)) = speaker_upcoming i (speaker_of s)"
  by (auto simp: handle_upcoming_song_update_def speaker_upcoming_def speaker_of_def notify_def
      check_for_song_plain has_file_map_of
      Let_def case_prod_beta q_put_def queue_heap_fresh wf_pi_def nth_append)

lemma speaker_of_song_end:
  assumes "m < length (heap s)" "m \<notin> set (playback_connection_queue s)"
    and "server_playback_queue s = []" "current_song_state s = PLAYING"
  shows "speaker_of (playback_iteration pg SONG_END m s)
           = speaker_song_end (pg_get_pos pg) (speaker_of s)"
  using assms
  by (simp add: playback_iteration_def speaker_song_end_def speaker_of_def notify_def Let_def
      q_put_def queue_heap_update)

end
