(* ===== verification/Raspi_Props.thy ===== *)
theory Raspi_Props
  imports Raspi_Speaker
begin

text \<open>
  The properties of the speaker program \<open>raspi.py\<close>: the contracts its handlers keep, and the
  interleavings and server answers under which it goes wrong. The witnesses run the handlers on
  small concrete states.
\<close>

section \<open>A concrete speaker and server for the witnesses\<close>

definition pg_demo :: pygame where
  "pg_demo = \<lparr>pg_decodes = (\<lambda>d. d \<noteq> []), pg_get_pos = 0\<rparr>"

definition net_demo :: "bool \<Rightarrow> net" where
  "net_demo close r =
     Inr \<lparr>rs_status = 200, rs_data = ''mp3'', rs_json = Some (JObj [(''id'', FVal (PInt 7))]),
          rs_will_close = close\<rparr>"

definition demo :: "pyval \<Rightarrow> song_state \<Rightarrow> pyval \<Rightarrow> song_state \<Rightarrow> pi_state" where
  "demo cur st nxt nst =
     (init_state [(''1'', ''abc'')])
       \<lparr>client_id := PInt 7, current_song := cur, current_song_state := st,
        next_song := nxt, next_song_state := nst\<rparr>"

lemma demo_sel [simp]:
  "client_id (demo c st n nst) = PInt 7" "current_song (demo c st n nst) = c"
  "current_song_state (demo c st n nst) = st" "next_song (demo c st n nst) = n"
  "next_song_state (demo c st n nst) = nst" "keep_running (demo c st n nst)"
  "server_playback_queue (demo c st n nst) = []"
  "playback_connection_queue (demo c st n nst) = []"
  "server_communication_ID_queue (demo c st n nst) = []"
  "heap (demo c st n nst) = []" "files (demo c st n nst) = [(''1'', ''abc'')]"
  "music (demo c st n nst) = None" "sent (demo c st n nst) = []"
  by (simp_all add: demo_def init_state_def)

lemma wf_demo:
  "st \<in> {S_UNKNOWN, PLAYING, STOPPED} \<Longrightarrow> nst \<in> {S_UNKNOWN, DOWNLOADING, READY} \<Longrightarrow>
     wf_pi (demo c st n nst)"
  by (simp add: wf_pi_def)

lemma int_str_small [py_simps]: "int_str 1 = ''1''" "int_str 2 = ''2''" "int_str 3 = ''3''"
  by (simp_all add: int_str_def nat_str.simps py_simps)

lemma UNKNOWN_eq [simp]: "UNKNOWN = PInt (- 1)"
  by (simp add: UNKNOWN_def)

section \<open>What the handlers promise\<close>

text \<open>
  C2. The three command handlers implement the abstract speaker: on every branch the songs,
  their states, the mixer and the files change as the abstract operation says, and the queued
  messages, read through their dictionaries, are the earlier ones unchanged followed by at most
  one new message with exactly the given content.
\<close>

theorem handlers_refine_speaker:
  assumes "wf_pi s"
  shows "speaker_of (snd (handle_play_command pg i s)) = speaker_play (pg_decodes pg) i (speaker_of s)
    \<and> speaker_of (snd (handle_stop_command pg i s)) = speaker_stop (pg_get_pos pg) i (speaker_of s)
    \<and> (glob_plain (py_str i) \<longrightarrow>
         speaker_of (snd (handle_upcoming_song_update i s)) = speaker_upcoming i (speaker_of s))"
  using assms by (simp add: speaker_of_play speaker_of_stop speaker_of_upcoming)

theorem handlers_refine_speaker_witness:
  "speaker_of (snd (handle_upcoming_song_update (PInt 2) (demo UNKNOWN S_UNKNOWN UNKNOWN S_UNKNOWN)))
     = speaker_upcoming (PInt 2) (speaker_of (demo UNKNOWN S_UNKNOWN UNKNOWN S_UNKNOWN))"
proof -
  have "wf_pi (demo UNKNOWN S_UNKNOWN UNKNOWN S_UNKNOWN)" by (rule wf_demo) simp_all
  from handlers_refine_speaker [OF this, where i = "PInt 2"] show ?thesis
    by (simp add: glob_plain_int_str)
qed

text \<open>
  When a song ends and the dictionary of the playback thread is not queued, the program
  reports exactly one \<open>Stopped\<close> for the song that played, after the messages already pending.
\<close>

theorem song_end_refines_speaker:
  assumes "m < length (heap s)" and "m \<notin> set (playback_connection_queue s)"
    and "server_playback_queue s = []" and "current_song_state s = PLAYING"
  shows "speaker_of (playback_iteration pg SONG_END m s)
           = speaker_song_end (pg_get_pos pg) (speaker_of s)"
  using assms by (rule speaker_of_song_end)

theorem song_end_refines_speaker_witness:
  "sp_outbox (speaker_of (playback_iteration pg_demo SONG_END 0
       (snd (new_message (demo (PInt 1) PLAYING UNKNOWN S_UNKNOWN)))))
     = [\<lparr>msg_id = PInt 1, msg_status = ''Stopped'', msg_position = ''0''\<rparr>]"
proof -
  let ?s = "snd (new_message (demo (PInt 1) PLAYING UNKNOWN S_UNKNOWN))"
  have "speaker_of (playback_iteration pg_demo SONG_END 0 ?s)
      = speaker_song_end (pg_get_pos pg_demo) (speaker_of ?s)"
    by (rule song_end_refines_speaker) simp_all
  then show ?thesis
    by (simp add: speaker_song_end_def notify_def speaker_of_def pg_demo_def)
qed

text \<open>
  The playback thread owns one dictionary for all its end-of-song messages. When a song ends
  while that dictionary is still queued, every pending entry for it turns into the message of the
  song that ended now: the earlier notification is lost and the new one is delivered twice.
\<close>

theorem song_end_overwrites_pending:
  assumes m: "m < length (heap s)" "m \<in> set (playback_connection_queue s)"
    and q: "server_playback_queue s = []" and p: "current_song_state s = PLAYING"
  shows "let new = \<lparr>msg_id = current_song s, msg_status = ''Stopped'',
                    msg_position = int_str (pg_get_pos pg)\<rparr>;
             out = sp_outbox (speaker_of (playback_iteration pg SONG_END m s));
             n = length (playback_connection_queue s)
         in length out = Suc n \<and> out ! n = new
            \<and> (\<forall>k < n. playback_connection_queue s ! k = m \<longrightarrow> out ! k = new)"
  using assms by (simp add: playback_iteration_def speaker_of_def Let_def q_put_def nth_append)

definition demo_shared :: pi_state where
  "demo_shared =
     (demo (PInt 2) PLAYING UNKNOWN S_UNKNOWN)
       \<lparr>heap := [\<lparr>msg_id = PInt 1, msg_status = ''Stopped'', msg_position = ''0''\<rparr>],
        playback_connection_queue := [0]\<rparr>"

theorem song_end_overwrites_pending_witness:
  "sp_outbox (speaker_of demo_shared)
     = [\<lparr>msg_id = PInt 1, msg_status = ''Stopped'', msg_position = ''0''\<rparr>]
   \<and> sp_outbox (speaker_of (playback_iteration pg_demo SONG_END 0 demo_shared)) ! 0
     = \<lparr>msg_id = PInt 2, msg_status = ''Stopped'', msg_position = ''0''\<rparr>"
proof -
  have h: "0 < length (heap demo_shared)" "0 \<in> set (playback_connection_queue demo_shared)"
    "server_playback_queue demo_shared = []" "current_song_state demo_shared = PLAYING"
    by (simp_all add: demo_shared_def)
  show ?thesis
    using song_end_overwrites_pending [OF h, of pg_demo]
    by (simp add: Let_def demo_shared_def speaker_of_def pg_demo_def)
qed

text \<open>
  A duplicate announcement of a song that is downloading or ready changes nothing the
  speaker promises, while an absent song announced twice before its download starts is requested
  twice.
\<close>

theorem upcoming_duplicate:
  assumes wf: "wf_pi s" and plain: "glob_plain (py_str i)" and i: "i \<noteq> UNKNOWN"
  shows "(i = next_song s \<and> next_song_state s \<noteq> S_UNKNOWN \<longrightarrow>
            speaker_of (snd (handle_upcoming_song_update i s)) = speaker_of s)
    \<and> (i \<noteq> current_song s \<and> i \<noteq> next_song s \<and> \<not> has_file (py_str i) s \<longrightarrow>
         (let s1 = snd (handle_upcoming_song_update i s);
              s2 = snd (handle_upcoming_song_update i s1);
              need = \<lparr>msg_id = PStr (py_str i), msg_status = ''need_song'', msg_position = ''0''\<rparr>
          in sp_outbox (speaker_of s2) = sp_outbox (speaker_of s) @ [need, need]))"
proof -
  have wf1: "wf_pi (snd (handle_upcoming_song_update i s))"
    by (rule wf_handle_upcoming [OF wf])
  note up = speaker_of_upcoming [OF wf plain] speaker_of_upcoming [OF wf1 plain]
  show ?thesis
    using i unfolding up Let_def
    by (auto simp: speaker_upcoming_def notify_def speaker_of_def has_file_map_of)
qed

theorem upcoming_duplicate_witness:
  "sp_outbox (speaker_of (snd (handle_upcoming_song_update (PInt 2)
      (snd (handle_upcoming_song_update (PInt 2) (demo UNKNOWN S_UNKNOWN UNKNOWN S_UNKNOWN))))))
     = replicate 2 \<lparr>msg_id = PStr ''2'', msg_status = ''need_song'', msg_position = ''0''\<rparr>"
proof -
  let ?s = "demo UNKNOWN S_UNKNOWN UNKNOWN S_UNKNOWN"
  have h: "wf_pi ?s" "glob_plain (py_str (PInt 2))" "PInt 2 \<noteq> UNKNOWN"
    by (simp_all add: wf_demo glob_plain_int_str)
  show ?thesis
    using upcoming_duplicate [OF h]
    by (simp add: Let_def has_file_def speaker_of_def py_simps numeral_2_eq_2)
qed

text \<open>The mixer plays exactly the current song, and only while the state says so.\<close>

definition mixer_agrees :: "pi_state \<Rightarrow> bool" where
  "mixer_agrees s \<longleftrightarrow>
     (if current_song_state s = PLAYING then music s = Some (py_str (current_song s))
      else music s = None)"

lemma mixer_play:
  "mixer_agrees s \<Longrightarrow> ready_on_disk s \<Longrightarrow> (\<forall>d. pg_decodes pg d) \<Longrightarrow>
     mixer_agrees (snd (handle_play_command pg i s))"
  by (auto simp: mixer_agrees_def handle_play_command_def music_load_def ready_on_disk_def
      has_file_map_of Let_def case_prod_beta split: option.split)

lemma mixer_stop: "mixer_agrees s \<Longrightarrow> mixer_agrees (snd (handle_stop_command pg i s))"
  by (simp add: mixer_agrees_def handle_stop_command_def Let_def case_prod_beta)

lemma mixer_upcoming: "mixer_agrees s \<Longrightarrow> mixer_agrees (snd (handle_upcoming_song_update i s))"
  by (simp add: mixer_agrees_def handle_upcoming_song_update_def Let_def case_prod_beta
      split: sum.split)

lemma mixer_process:
  "mixer_agrees s \<Longrightarrow> ready_on_disk s \<Longrightarrow> (\<forall>d. pg_decodes pg d) \<Longrightarrow>
     mixer_agrees (snd (process_update pg b s))"
  by (auto simp: process_update_def playback_command_def upcoming_song_def
      intro: mixer_play mixer_stop mixer_upcoming
      split: option.split sum.split json_field.split pyval.split prod.split)

text \<open>
  While a song plays, the mixer plays that song: every update and every end-of-song event
  keeps this, provided ready songs are on disk and every file decodes.
\<close>

theorem playing_song_is_in_mixer:
  assumes "mixer_agrees s" and "ready_on_disk s" and "\<forall>d. pg_decodes pg d"
  shows "mixer_agrees (playback_iteration pg ev m s)"
proof (cases "server_playback_queue s")
  case Nil
  with assms show ?thesis by (simp add: playback_iteration_def mixer_agrees_def Let_def)
next
  case (Cons b q)
  from assms have "mixer_agrees (s\<lparr>server_playback_queue := q\<rparr>)"
    "ready_on_disk (s\<lparr>server_playback_queue := q\<rparr>)"
    by (simp_all add: mixer_agrees_def ready_on_disk_def)
  from mixer_process [OF this assms(3)] Cons show ?thesis
    by (simp add: playback_iteration_def)
qed

definition play_body :: "int \<Rightarrow> json option" where
  "play_body i =
     Some (JObj [(''update_type'', FVal (PStr ''playback_command'')),
                 (''values'', FObj [(''id'', PInt i), (''command'', PStr ''Play'')])])"

theorem playing_song_is_in_mixer_witness:
  "let s = (demo UNKNOWN S_UNKNOWN (PInt 1) READY)\<lparr>server_playback_queue := [play_body 1]\<rparr>;
       t = playback_iteration \<lparr>pg_decodes = (\<lambda>d. True), pg_get_pos = 0\<rparr> OtherEvent 0 s
   in current_song_state t = PLAYING \<and> mixer_agrees t"
proof -
  let ?s = "(demo UNKNOWN S_UNKNOWN (PInt 1) READY)\<lparr>server_playback_queue := [play_body 1]\<rparr>"
  let ?pg = "\<lparr>pg_decodes = (\<lambda>d. True), pg_get_pos = 0\<rparr>"
  have "mixer_agrees (playback_iteration ?pg OtherEvent 0 ?s)"
    by (rule playing_song_is_in_mixer)
      (simp_all add: mixer_agrees_def ready_on_disk_def has_file_def py_simps)
  moreover have "current_song_state (playback_iteration ?pg OtherEvent 0 ?s) = PLAYING"
    by (simp add: playback_iteration_def process_update_def playback_command_def play_body_def
        handle_play_command_def music_load_def Let_def case_prod_beta py_simps)
  ultimately show ?thesis by (simp add: Let_def)
qed

section \<open>Downloads\<close>

text \<open>
  A download that the server answers with 200 leaves exactly the received bytes in the file
  named after the song, every other file untouched and the next song marked ready; any other
  status leaves the files alone and forgets the download.
\<close>

theorem download_stores_song:
  assumes "net \<lparr>rq_method = ''GET'',
                rq_url = create_url ''request_song'' [(''clientID'', client_id s), (''songID'', i)],
                rq_body = []\<rparr> = Inr resp"
    and "openable (py_str i)"
  shows "let s' = snd (need_song_fetch net i s)
         in if rs_status resp = 200
            then map_of (files s') = (map_of (files s))(py_str i \<mapsto> rs_data resp)
                 \<and> next_song_state s' = READY
            else files s' = files s \<and> next_song_state s' = S_UNKNOWN
                 \<and> fst (need_song_fetch net i s) = C_Idle"
  using assms
  by (simp add: need_song_fetch_def send_request_eq Let_def read_body_def map_of_write_file
      split: option.split)

lemma openable_int_str [simp]: "openable (int_str i)"
proof -
  have "c \<in> set (int_str i) \<Longrightarrow> c \<noteq> CHR ''/'' \<and> c \<noteq> CHR 0x00 \<and> c \<noteq> CHR ''.''" for c
    using int_str_chars [of c i] by (auto simp: is_digit_def)
  then show ?thesis by (auto simp: openable_def)
qed

theorem download_stores_song_witness:
  "map_of (files (snd (need_song_fetch (net_demo True) (PInt 2)
       (demo UNKNOWN S_UNKNOWN (PInt 2) DOWNLOADING)))) ''2'' = Some ''mp3''"
proof -
  let ?s = "demo UNKNOWN S_UNKNOWN (PInt 2) DOWNLOADING"
  show ?thesis
    using download_stores_song [of "net_demo True" ?s "PInt 2", OF net_demo_def]
      openable_int_str [of 2]
    by (simp add: Let_def py_simps)
qed

text \<open>
  The blocking points of the communication thread around \<open>handle_need_song\<close> add up to the
  call: without interference two steps of the thread (three when a \<open>Ready\<close> update follows)
  compute exactly what the sequential function does.
\<close>

theorem need_song_phases:
  assumes "msg_status (heap s ! a) = ''need_song''"
  shows "comm_run
           (case fst (need_song_fetch net (msg_id (heap s ! a)) (s\<lparr>next_song_state := DOWNLOADING\<rparr>)) of
              C_SendReady i conn \<Rightarrow> 3 | _ \<Rightarrow> 2)
           net (C_Dispatch a) s
         = handle_need_song net (msg_id (heap s ! a)) s"
proof -
  let ?f = "need_song_fetch net (msg_id (heap s ! a)) (s\<lparr>next_song_state := DOWNLOADING\<rparr>)"
  obtain c t where f: "?f = (c, t)" by (cases ?f)
  show ?thesis
    by (cases c) (simp_all add: f eval_nat_numeral comm_dispatch_def need_song_begin_def assms
        handle_need_song_def case_prod_beta)
qed

definition demo_need :: pi_state where
  "demo_need =
     (demo UNKNOWN S_UNKNOWN (PInt 2) S_UNKNOWN)
       \<lparr>heap := [\<lparr>msg_id = PInt 2, msg_status = ''need_song'', msg_position = ''0''\<rparr>]\<rparr>"

theorem need_song_phases_witness:
  "comm_run 3 (net_demo True) (C_Dispatch 0) demo_need
     = handle_need_song (net_demo True) (PInt 2) demo_need"
proof -
  have h: "msg_status (heap demo_need ! 0) = ''need_song''" and i: "msg_id (heap demo_need ! 0) = PInt 2"
    by (simp_all add: demo_need_def)
  have "fst (need_song_fetch (net_demo True) (PInt 2)
      (demo_need\<lparr>next_song_state := DOWNLOADING\<rparr>)) = C_SendReady (PInt 2) \<lparr>unread = False\<rparr>"
    using openable_int_str [of 2]
    by (simp add: demo_need_def need_song_fetch_def send_request_eq net_demo_def Let_def
        read_body_def)
  with need_song_phases [OF h, of "net_demo True", unfolded i] show ?thesis by simp
qed

section \<open>The hand-over to the next song\<close>

text \<open>
  C40. A song announced while another plays is prefetched and follows on: the communication
  thread downloads it, stores the received bytes, marks it ready, sends nothing and returns to its
  loop; when the playing song ends, the thread reports it as stopped and then announces the
  prefetched song as ready. Exactly these three requests are sent, in this order. This needs idle
  queues at the announcement, a song that is neither current nor next nor on disk, and a server
  that answers with 200 and closes each connection.
\<close>

theorem prefetch_hands_over:
  assumes playing: "current_song_state s = PLAYING"
    and q: "playback_connection_queue s = []" "server_playback_queue s = []"
    and run: "keep_running s" "client_id s \<noteq> UNKNOWN" and m: "m < length (heap s)"
    and i: "PInt i \<noteq> current_song s" "PInt i \<noteq> next_song s" "\<not> has_file (int_str i) s"
      "PInt i \<noteq> UNKNOWN"
    and net: "\<And>r. net r = Inr (resp r) \<and> rs_status (resp r) = 200 \<and> rs_will_close (resp r)"
  shows "let s1 = snd (handle_upcoming_song_update (PInt i) s);
             (c2, s2) = comm_run 4 net C_Idle s1;
             (c4, s4) = comm_run 5 net c2 (playback_iteration pg SONG_END m s2);
             fetch = \<lparr>rq_method = ''GET'', rq_url = create_url ''request_song''
                        [(''clientID'', client_id s), (''songID'', PStr (int_str i))], rq_body = []\<rparr>;
             update = (\<lambda>id status position. \<lparr>rq_method = ''POST'',
                        rq_url = create_url ''status_update'' [(''clientID'', client_id s)],
                        rq_body = [(''id'', id), (''status'', PStr status), (''position'', PStr position)]\<rparr>)
         in c2 = C_Idle \<and> next_song s2 = PInt i \<and> next_song_state s2 = READY
            \<and> map_of (files s2) = (map_of (files s))(int_str i \<mapsto> rs_data (resp fetch))
            \<and> sent s2 = sent s @ [fetch] \<and> c4 = C_Idle
            \<and> sent s4 = sent s @ [fetch, update (current_song s) ''Stopped'' (int_str (pg_get_pos pg)),
                                   update (PInt i) ''Ready'' ''0'']"
proof -
  define s1 where "s1 = snd (handle_upcoming_song_update (PInt i) s)"
  define a where "a = length (heap s)"
  have s1: "playback_connection_queue s1 = [a]" "server_playback_queue s1 = []"
    "heap s1 = heap s @ [\<lparr>msg_id = PStr (int_str i), msg_status = ''need_song'', msg_position = ''0''\<rparr>]"
    "keep_running s1" "client_id s1 = client_id s" "next_song s1 = PInt i" "current_song s1 = current_song s"
    "current_song_state s1 = PLAYING" "files s1 = files s" "sent s1 = sent s"
    using assms by (simp_all add: s1_def a_def handle_upcoming_song_update_def Let_def case_prod_beta
        q_put_def nth_append has_file_def)
  define fetch where "fetch = \<lparr>rq_method = ''GET'', rq_url = create_url ''request_song''
     [(''clientID'', client_id s), (''songID'', PStr (int_str i))], rq_body = []\<rparr>"
  define s2 where "s2 = s1\<lparr>playback_connection_queue := [], next_song_state := READY,
     files := write_file (int_str i) (rs_data (resp fetch)) (files s), sent := sent s @ [fetch]\<rparr>"
  have run2: "comm_run 4 net C_Idle s1 = (C_Idle, s2)"
    using s1 net [of fetch] run(2)
    by (simp add: eval_nat_numeral comm_take_def comm_client_id_def
        comm_dispatch_def need_song_begin_def need_song_fetch_def send_request_eq Let_def
        read_body_def a_def fetch_def s2_def)
  define s3 where "s3 = playback_iteration pg SONG_END m s2"
  have s3: "playback_connection_queue s3 = [m]" "heap s3 ! m = \<lparr>msg_id = current_song s,
      msg_status = ''Stopped'', msg_position = int_str (pg_get_pos pg)\<rparr>" "m < length (heap s3)"
    "keep_running s3" "client_id s3 = client_id s" "next_song s3 = PInt i"
    "next_song_state s3 = READY" "sent s3 = sent s @ [fetch]"
    using s1 m by (simp_all add: s3_def s2_def playback_iteration_def Let_def q_put_def)
  define s4 where "s4 = snd (comm_run 2 net (C_Post m) (s3\<lparr>playback_connection_queue := []\<rparr>))"
  have run3: "comm_run 5 net C_Idle s3 = comm_run 2 net (C_Post m) (s3\<lparr>playback_connection_queue := []\<rparr>)"
    using s3 run(2) by (simp add: eval_nat_numeral comm_take_def comm_client_id_def comm_dispatch_def)
  have post: "comm_run 2 net (C_Post m) (s3\<lparr>playback_connection_queue := []\<rparr>) = (C_Idle, s4)"
    "sent s4 = sent s @ [fetch,
       \<lparr>rq_method = ''POST'', rq_url = create_url ''status_update'' [(''clientID'', client_id s)],
        rq_body = [(''id'', current_song s), (''status'', PStr ''Stopped''),
                   (''position'', PStr (int_str (pg_get_pos pg)))]\<rparr>,
       \<lparr>rq_method = ''POST'', rq_url = create_url ''status_update'' [(''clientID'', client_id s)],
        rq_body = [(''id'', PInt i), (''status'', PStr ''Ready''), (''position'', PStr ''0'')]\<rparr>]"
    using s3 net i(4) by (simp_all add: s4_def eval_nat_numeral comm_post_def comm_post_ready_def
        send_request_eq Let_def message_body_def answer_def)
  show ?thesis
    using s1 net run3 post
    by (simp add: s1_def [symmetric] run2 Let_def s3_def [symmetric])
      (simp add: s2_def fetch_def map_of_write_file)
qed

theorem prefetch_hands_over_witness:
  "let s = snd (new_message (demo (PInt 1) PLAYING UNKNOWN S_UNKNOWN));
       s2 = snd (comm_run 4 (net_demo True) C_Idle (snd (handle_upcoming_song_update (PInt 2) s)));
       s4 = snd (comm_run 5 (net_demo True) C_Idle (playback_iteration pg_demo SONG_END 0 s2))
   in next_song_state s2 = READY \<and> map_of (files s2) ''2'' = Some ''mp3''
      \<and> map rq_body (sent s4) =
          [[], [(''id'', PInt 1), (''status'', PStr ''Stopped''), (''position'', PStr ''0'')],
           [(''id'', PInt 2), (''status'', PStr ''Ready''), (''position'', PStr ''0'')]]"
proof -
  let ?s = "snd (new_message (demo (PInt 1) PLAYING UNKNOWN S_UNKNOWN))"
  let ?r = "\<lparr>rs_status = 200, rs_data = ''mp3'',
             rs_json = Some (JObj [(''id'', FVal (PInt 7))]), rs_will_close = True\<rparr>"
  have h: "current_song_state ?s = PLAYING" "playback_connection_queue ?s = []"
    "server_playback_queue ?s = []" "keep_running ?s" "client_id ?s \<noteq> UNKNOWN" "0 < length (heap ?s)"
    "PInt 2 \<noteq> current_song ?s" "PInt 2 \<noteq> next_song ?s" "\<not> has_file (int_str 2) ?s"
    "PInt 2 \<noteq> UNKNOWN"
    by (simp_all add: has_file_def py_simps)
  have "net_demo True r = Inr ?r \<and> rs_status ?r = 200 \<and> rs_will_close ?r" for r
    by (simp add: net_demo_def)
  from prefetch_hands_over [OF h, where net = "net_demo True" and resp = "\<lambda>r. ?r" and pg = pg_demo, OF this]
  show ?thesis by (auto simp: Let_def case_prod_beta pg_demo_def py_simps)
qed

text \<open>
  After a song ends and the next one is on disk, the \<open>Stopped\<close> update and the \<open>Ready\<close> update
  go over one connection and the first response is never read: the hand-over succeeds exactly
  when the server closes the connection after the first response (and answers the second
  request); a kept-alive connection ends the communication thread. Both requests are written in
  any case.
\<close>

theorem next_song_handover:
  assumes st: "msg_status (heap s ! a) = ''Stopped''" and a: "a < length (heap s)"
    and nxt: "next_song s \<noteq> UNKNOWN" "next_song_state s = READY"
      "glob_plain (py_str (next_song s))"
    and first: "net \<lparr>rq_method = ''POST'',
         rq_url = create_url ''status_update'' [(''clientID'', client_id s)],
         rq_body = message_body (heap s ! a)\<rparr> = Inr resp"
  shows "let ready = \<lparr>rq_method = ''POST'',
               rq_url = create_url ''status_update'' [(''clientID'', client_id s)],
               rq_body = [(''id'', next_song s), (''status'', PStr ''Ready''),
                          (''position'', PStr ''0'')]\<rparr>;
             (c, s') = comm_run 2 net (C_Post a) s
         in c = (if \<not> rs_will_close resp then C_Dead ResponseNotReady
                 else case net ready of Inl e \<Rightarrow> C_Dead e | Inr _ \<Rightarrow> C_Idle)
            \<and> last (sent s') = ready \<and> length (sent s') = length (sent s) + 2"
  using assms
  by (simp add: eval_nat_numeral comm_post_def comm_post_ready_def send_request_eq Let_def
      check_for_song_plain message_body_def answer_def split: sum.split)

definition demo_handover :: pi_state where
  "demo_handover =
     (demo (PInt 2) STOPPED (PInt 1) READY)
       \<lparr>heap := [\<lparr>msg_id = PInt 2, msg_status = ''Stopped'', msg_position = ''0''\<rparr>]\<rparr>"

theorem next_song_handover_witness:
  "fst (comm_run 2 (net_demo True) (C_Post 0) demo_handover) = C_Idle
   \<and> fst (comm_run 2 (net_demo False) (C_Post 0) demo_handover) = C_Dead ResponseNotReady"
proof -
  have h: "msg_status (heap demo_handover ! 0) = ''Stopped''" "0 < length (heap demo_handover)"
    "next_song demo_handover \<noteq> UNKNOWN" "next_song_state demo_handover = READY"
    "glob_plain (py_str (next_song demo_handover))"
    by (simp_all add: demo_handover_def glob_plain_int_str)
  show ?thesis
    using next_song_handover [OF h, where net = "net_demo True", OF net_demo_def]
      next_song_handover [OF h, where net = "net_demo False", OF net_demo_def]
    by (simp add: Let_def case_prod_beta net_demo_def)
qed

section \<open>A race of announcement and download\<close>

text \<open>
  C39. Let no song be playing, and let \<open>j\<close> be neither the current nor the next song, with no file on
  disk. If \<open>j\<close> is announced while another song \<open>i\<close> downloads, and the server answers that download
  with 200, then \<open>j\<close> is marked ready although its file is missing. A \<open>Play\<close> for \<open>j\<close> then raises inside
  the mixer, after the state was set to playing and without any message to the server. (While a
  song plays, a \<open>Play\<close> for another one falls through every branch.)
\<close>

theorem stale_download_race:
  assumes neq: "i \<noteq> j" and nof: "\<not> has_file (int_str j) s"
    and cur: "PInt j \<noteq> current_song s" "PInt j \<noteq> next_song s" "current_song_state s \<noteq> PLAYING"
    and net: "\<And>r. \<exists>resp. net r = Inr resp \<and> rs_status resp = 200"
  shows "let s1 = snd (need_song_begin (PStr (int_str i)) s);
             s2 = snd (handle_upcoming_song_update (PInt j) s1);
             s3 = snd (need_song_fetch net (PStr (int_str i)) s2);
             (raised, s4) = handle_play_command pg (PInt j) s3
         in next_song s3 = PInt j \<and> next_song_state s3 = READY \<and> \<not> has_file (int_str j) s3
            \<and> raised = Some PygameErr \<and> current_song_state s4 = PLAYING
            \<and> playback_connection_queue s4 = playback_connection_queue s3"
proof -
  define s2 where "s2 = snd (handle_upcoming_song_update (PInt j) (snd (need_song_begin (PStr (int_str i)) s)))"
  have s2: "next_song s2 = PInt j" "current_song s2 = current_song s"
    "current_song_state s2 = current_song_state s" "files s2 = files s"
    using assms by (simp_all add: s2_def need_song_begin_def handle_upcoming_song_update_def
        Let_def case_prod_beta)
  obtain resp where resp: "net \<lparr>rq_method = ''GET'',
      rq_url = create_url ''request_song'' [(''clientID'', client_id s2), (''songID'', PStr (int_str i))],
      rq_body = []\<rparr> = Inr resp" "rs_status resp = 200" using net by blast
  define s3 where "s3 = snd (need_song_fetch net (PStr (int_str i)) s2)"
  have s3: "next_song s3 = PInt j" "next_song_state s3 = READY" "current_song s3 = current_song s"
    "current_song_state s3 \<noteq> PLAYING" "map_of (files s3) (int_str j) = None"
    using s2 resp neq nof cur(3)
    by (simp_all add: s3_def need_song_fetch_def send_request_eq Let_def read_body_def
        map_of_write_file has_file_map_of)
  show ?thesis
    using s3 cur
    by (simp add: s3_def [symmetric] s2_def [symmetric] Let_def case_prod_beta has_file_map_of
        handle_play_command_def music_load_def)
qed

theorem stale_download_race_witness:
  "let s1 = snd (need_song_begin (PStr (int_str 2)) (demo UNKNOWN S_UNKNOWN (PInt 2) S_UNKNOWN));
       s2 = snd (handle_upcoming_song_update (PInt 3) s1);
       s3 = snd (need_song_fetch (net_demo True) (PStr (int_str 2)) s2);
       (raised, s4) = handle_play_command pg_demo (PInt 3) s3
   in next_song s3 = PInt 3 \<and> next_song_state s3 = READY \<and> \<not> has_file (int_str 3) s3
      \<and> raised = Some PygameErr \<and> current_song_state s4 = PLAYING
      \<and> playback_connection_queue s4 = playback_connection_queue s3"
  by (rule stale_download_race) (simp_all add: has_file_def net_demo_def py_simps)

section \<open>Every reachable state\<close>

text \<open>
  C3. In every state the three threads can reach, whatever the server answers, every queued
  message and every message a thread works on is an allocated dictionary, the current song is
  never downloading or ready, and the next song is never playing or stopped.
\<close>

theorem reachable_well_formed:
  assumes "(sys_step env)\<^sup>*\<^sup>* (main_start fs) y"
  shows "wf_sys y"
  using assms by (blast intro: wfs.inv_reachable)

theorem reachable_well_formed_witness:
  "wf_sys ((main_start [])\<lparr>shared := (shared (main_start []))\<lparr>keep_running := False\<rparr>\<rparr>)"
  by (rule reachable_well_formed [where env = "\<lambda>net. True" and fs = "[]"])
    (intro r_into_rtranclp sys_step.interrupt)

text \<open>
  Once \<open>keep_running\<close> is false no thread ever sets it again, and a communication thread at
  the head of its loop then leaves.
\<close>

theorem stop_is_final:
  assumes "\<not> keep_running (shared y)" and "(sys_step env)\<^sup>*\<^sup>* y z"
  shows "\<not> keep_running (shared z) \<and> comm_step net C_Idle (shared z) = Some (C_Exit, shared z)"
proof -
  have "\<not> keep_running (shared z)" by (rule stopped.inv_steps [OF assms(2,1)])
  then show ?thesis by (simp add: comm_take_def)
qed

theorem stop_is_final_witness:
  "let y = (main_start [])\<lparr>shared := (shared (main_start []))\<lparr>keep_running := False\<rparr>\<rparr>
   in \<not> keep_running (shared y) \<and> comm_step (net_demo True) C_Idle (shared y) = Some (C_Exit, shared y)"
  unfolding Let_def
  by (rule stop_is_final [where env = "\<lambda>net. True" and y = "(main_start [])
        \<lparr>shared := (shared (main_start []))\<lparr>keep_running := False\<rparr>\<rparr>"]) simp_all

text \<open>
  C11. The speaker is authenticated before anything else happens: with a server that never assigns
  the identifier -1, a communication thread that holds a message always finds the client
  identifier set, so it never waits for the identifier queue.
\<close>

theorem authenticated_before_messages:
  assumes "(sys_step assigns_ids)\<^sup>*\<^sup>* (main_start fs) y" and "communicate_thread y = C_Got a"
  shows "client_id (shared y) \<noteq> UNKNOWN
    \<and> comm_step net (communicate_thread y) (shared y) = Some (C_Dispatch a, shared y)"
proof -
  have "auth_inv y" using assms(1) by (blast intro: authi.inv_reachable)
  with assms(2) have "client_id (shared y) \<noteq> UNKNOWN" by (simp add: auth_inv_def)
  then show ?thesis using assms(2) by (simp add: comm_client_id_def)
qed

definition net_upcoming :: "int \<Rightarrow> net" where
  "net_upcoming i r =
     Inr \<lparr>rs_status = 200, rs_data = [],
          rs_json = Some (JObj [(''update_type'', FVal (PStr ''upcoming_song'')),
                                (''values'', FObj [(''id'', PInt i)])]),
          rs_will_close = True\<rparr>"

text \<open>The threads start, authenticate, and receive an announcement.\<close>

definition demo_schedule :: "int \<Rightarrow> move list" where
  "demo_schedule i =
     [MPlayback pg_demo OtherEvent True, MUpdate (net_demo True), MUpdate (net_demo True),
      MUpdate (net_upcoming i), MPlayback pg_demo OtherEvent True]"

lemma demo_schedule_env: "list_all (move_ok assigns_ids) (demo_schedule i)"
  by (auto simp: demo_schedule_def assigns_ids_def net_demo_def net_upcoming_def auth_id_def)

lemmas demo_run_simps =
  demo_schedule_def main_start_def init_state_def playback_start_def new_message_def
  update_auth_def update_poll_def send_request_eq Let_def auth_id_def net_demo_def net_upcoming_def
  playback_iteration_def process_update_def upcoming_song_def handle_upcoming_song_update_def
  set_message_def put_message_def q_put_def has_file_def

lemma demo_run_absent:
  "\<exists>y. run_schedule (demo_schedule 2 @ [MComm (net_demo True)]) (main_start []) = Some y
     \<and> communicate_thread y = C_Got 1 \<and> client_id (shared y) = PInt 7"
  by (simp add: demo_run_simps comm_take_def)

theorem authenticated_before_messages_witness:
  "\<exists>y. (sys_step assigns_ids)\<^sup>*\<^sup>* (main_start []) y \<and> communicate_thread y = C_Got 1
     \<and> client_id (shared y) \<noteq> UNKNOWN"
proof -
  obtain y where y: "run_schedule (demo_schedule 2 @ [MComm (net_demo True)]) (main_start []) = Some y"
    "communicate_thread y = C_Got 1" using demo_run_absent by blast
  have "(sys_step assigns_ids)\<^sup>*\<^sup>* (main_start []) y"
    by (rule run_schedule_reaches [OF y(1)])
      (use demo_schedule_env [of 2] in \<open>auto simp: assigns_ids_def net_demo_def auth_id_def\<close>)
  with authenticated_before_messages [OF this y(2)] y(2) show ?thesis by blast
qed

text \<open>
  C9. In a run where every download that completes is the download of the song that is then the
  next one, and where the text of the next song's identifier holds no shell pattern character, a
  song marked ready is on disk in every reachable state. A download of another song completes when
  a different song is announced meanwhile, or when the same absent song is requested twice and
  played between the two downloads; such runs are excluded.
\<close>

theorem steady_ready_is_on_disk:
  assumes "(steady_step env)\<^sup>*\<^sup>* (main_start fs) y" and "next_song_state (shared y) = READY"
  shows "has_file (py_str (next_song (shared y))) (shared y)"
proof -
  have "ready_on_disk (shared y)" using assms(1) by (blast intro: readyi.inv_reachable)
  with assms(2) show ?thesis by (simp add: ready_on_disk_def)
qed

lemma demo_run_present:
  "\<exists>y. run_steady (demo_schedule 1) (main_start [(''1'', ''abc'')]) = Some y
     \<and> next_song (shared y) = PInt 1 \<and> next_song_state (shared y) = READY"
  using glob_plain_int_str [of 1] glob_plain_int_str [of "-1"]
  by (simp add: demo_run_simps py_simps)

theorem steady_ready_is_on_disk_witness:
  "\<exists>y. (steady_step assigns_ids)\<^sup>*\<^sup>* (main_start [(''1'', ''abc'')]) y
     \<and> next_song_state (shared y) = READY \<and> next_song (shared y) = PInt 1
     \<and> has_file (py_str (next_song (shared y))) (shared y)"
proof -
  obtain y where y: "run_steady (demo_schedule 1) (main_start [(''1'', ''abc'')]) = Some y"
    "next_song_state (shared y) = READY" "next_song (shared y) = PInt 1"
    using demo_run_present by blast
  have "(steady_step assigns_ids)\<^sup>*\<^sup>* (main_start [(''1'', ''abc'')]) y"
    by (rule run_steady_reaches [OF y(1) demo_schedule_env])
  with steady_ready_is_on_disk [OF this y(2)] y show ?thesis by blast
qed

section \<open>Requests\<close>

text \<open>
  The query string of a request carries exactly the given variables: reading the URL back
  yields every key with the text of its value, in order, when none of them contains a separator
  (numbers never do).
\<close>

theorem create_url_query:
  assumes "url_safe request" and "\<forall>(k, v) \<in> set kvs. url_safe k \<and> url_safe (py_str v)"
  shows "url_query (create_url request kvs) = map (\<lambda>(k, v). (k, py_str v)) kvs"
  using assms by (rule url_query_create_url)

theorem create_url_query_witness:
  "url_query (create_url ''request_song'' [(''clientID'', PInt 3), (''songID'', PInt 2)])
     = [(''clientID'', ''3''), (''songID'', ''2'')]"
  using create_url_query [of "''request_song''" "[(''clientID'', PInt 3), (''songID'', PInt 2)]"]
    url_safe_int_str [of 2] url_safe_int_str [of 3]
  by (simp add: url_safe_def py_simps)

end
