(* ===== verification/Raspi_Liveness.thy ===== *)
theory Raspi_Liveness
  imports Raspi_Safety
begin

text \<open>
  Shutting the speaker down: once \<open>keep_running\<close> is false every thread has a bounded number of
  steps left, whatever the network, the music and the scheduler do.
\<close>

section \<open>Steps a thread has left after the stop\<close>

fun update_rank :: "update_pc \<Rightarrow> nat" where
  "update_rank U_Auth = 3"
| "update_rank U_Poll = 3"
| "update_rank (U_Loop stale) = 2"
| "update_rank (U_Deauth stale) = 1"
| "update_rank _ = 0"

fun playback_rank :: "playback_pc \<Rightarrow> nat" where
  "playback_rank P_Start = 2"
| "playback_rank (P_Loop m) = 1"
| "playback_rank P_Exit = 0"

fun comm_rank :: "comm_pc \<Rightarrow> nat" where
  "comm_rank (C_Got a) = 5"
| "comm_rank (C_Dispatch a) = 4"
| "comm_rank (C_Fetch i) = 3"
| "comm_rank (C_Post a) = 3"
| "comm_rank (C_SendReady i conn) = 2"
| "comm_rank (C_PostReady a conn) = 2"
| "comm_rank C_Idle = 1"
| "comm_rank _ = 0"

definition steps_left :: "sys \<Rightarrow> nat" where
  "steps_left y = update_rank (update_thread y) + playback_rank (playback_thread y)
     + comm_rank (communicate_thread y)"

fun thread_move :: "move \<Rightarrow> bool" where
  "thread_move MInterrupt = False"
| "thread_move _ = True"

section \<open>Ends of a shutdown\<close>

definition threads_ended :: "sys \<Rightarrow> bool" where
  "threads_ended y \<longleftrightarrow> update_rank (update_thread y) = 0 \<and> playback_rank (playback_thread y) = 0
     \<and> comm_rank (communicate_thread y) = 0"

text \<open>The untimed \<open>server_communication_ID_queue.get()\<close>, with no thread left to fill the queue.\<close>

definition waits_for_id :: "sys \<Rightarrow> bool" where
  "waits_for_id y \<longleftrightarrow> (\<exists>a. communicate_thread y = C_Got a) \<and> client_id (shared y) = UNKNOWN
     \<and> q_get (server_communication_ID_queue (shared y)) = None
     \<and> update_rank (update_thread y) = 0 \<and> playback_rank (playback_thread y) = 0"

lemma steps_left_bound: "steps_left y \<le> 10"
  by (cases "update_thread y"; cases "playback_thread y"; cases "communicate_thread y")
    (simp_all add: steps_left_def)

section \<open>Every step uses one up\<close>

lemma update_step_rank:
  "\<not> keep_running s \<Longrightarrow> pred_option (\<lambda>r. update_rank (fst r) < update_rank u) (update_step net u s)"
  by (cases u) (simp_all add: update_auth_def update_poll_def update_deauth_def send_request_eq
      Let_def split: sum.split)

lemma playback_step_rank:
  "\<not> keep_running s \<Longrightarrow>
     pred_option (\<lambda>r. playback_rank (fst r) < playback_rank p) (playback_step pg ev ok p s)"
  by (cases p) (simp_all split: prod.split)

lemma comm_step_rank:
  assumes "\<not> keep_running s"
  shows "pred_option (\<lambda>r. comm_rank (fst r) < comm_rank c) (comm_step net c s)"
proof (cases c)
  case C_Idle
  then show ?thesis using assms by (simp add: comm_take_def)
next
  case (C_Got a)
  then show ?thesis by (cases "server_communication_ID_queue s") (simp_all add: comm_client_id_def)
qed (simp_all add: comm_dispatch_def need_song_begin_def need_song_fetch_def need_song_ready_def
    comm_post_def comm_post_ready_def send_request_eq read_body_def Let_def
    split: sum.split option.split)

lemma thread_move_rank:
  assumes "\<not> keep_running (shared y)" "sys_move mv y = Some z"
  shows "(if thread_move mv then Suc (steps_left z) \<le> steps_left y else steps_left z = steps_left y)"
proof (cases mv)
  case (MUpdate net)
  then show ?thesis using assms update_step_rank [of "shared y" "update_thread y" net]
    by (auto simp: steps_left_def)
next
  case (MPlayback pg ev ok)
  then show ?thesis using assms playback_step_rank [of "shared y" "playback_thread y" pg ev ok]
    by (auto simp: steps_left_def)
next
  case (MComm net)
  then show ?thesis using assms comm_step_rank [of "shared y" "communicate_thread y" net]
    by (auto simp: steps_left_def)
next
  case MInterrupt
  then show ?thesis using assms by (auto simp: steps_left_def)
qed

lemma sys_move_stopped:
  "\<not> keep_running (shared y) \<Longrightarrow> sys_move mv y = Some z \<Longrightarrow> \<not> keep_running (shared z)"
  using sys_move_step [of mv y z "\<lambda>_. True"] keep_running_step
  by (cases mv) auto

lemma run_rank:
  "\<not> keep_running (shared y) \<Longrightarrow> run_schedule mvs y = Some z \<Longrightarrow>
     length (filter thread_move mvs) + steps_left z \<le> steps_left y \<and> \<not> keep_running (shared z)"
proof (induction mvs arbitrary: y)
  case (Cons mv mvs)
  then obtain x where x: "sys_move mv y = Some x" "run_schedule mvs x = Some z"
    by (auto split: option.splits)
  show ?case
    using Cons.IH [OF sys_move_stopped [OF Cons.prems(1) x(1)] x(2)] thread_move_rank [OF Cons.prems(1) x(1)]
    by (auto split: if_splits)
qed simp

section \<open>A thread that can move, moves\<close>

lemma update_step_moves: "update_rank u \<noteq> 0 \<Longrightarrow> \<exists>r. update_step net u s = Some r"
  by (cases u) auto

lemma playback_step_moves: "playback_rank p \<noteq> 0 \<Longrightarrow> \<exists>r. playback_step pg ev ok p s = Some r"
  by (cases p) (auto split: prod.split)

lemma comm_step_moves:
  "comm_rank c \<noteq> 0 \<Longrightarrow> comm_step net c s = None \<Longrightarrow>
     (\<exists>a. c = C_Got a) \<and> client_id s = UNKNOWN \<and> q_get (server_communication_ID_queue s) = None"
  by (cases c) (auto simp: comm_client_id_def split: if_splits option.splits)

lemma stuck_iff:
  "(\<forall>mv. thread_move mv \<longrightarrow> sys_move mv y = None) \<longleftrightarrow> threads_ended y \<or> waits_for_id y"
proof
  assume stuck: "\<forall>mv. thread_move mv \<longrightarrow> sys_move mv y = None"
  have "update_step net (update_thread y) (shared y) = None" for net
    using stuck [rule_format, of "MUpdate net"] by simp
  moreover have "playback_step pg ev ok (playback_thread y) (shared y) = None" for pg ev ok
    using stuck [rule_format, of "MPlayback pg ev ok"] by simp
  moreover have "comm_step net (communicate_thread y) (shared y) = None" for net
    using stuck [rule_format, of "MComm net"] by simp
  ultimately show "threads_ended y \<or> waits_for_id y"
    using update_step_moves [of "update_thread y" undefined "shared y"]
      playback_step_moves [of "playback_thread y" undefined undefined undefined "shared y"]
      comm_step_moves [of "communicate_thread y" undefined "shared y"]
    by (auto simp: threads_ended_def waits_for_id_def)
next
  assume ends: "threads_ended y \<or> waits_for_id y"
  have "update_step net (update_thread y) (shared y) = None" for net
    using ends by (cases "update_thread y") (auto simp: threads_ended_def waits_for_id_def)
  moreover have "playback_step pg ev ok (playback_thread y) (shared y) = None" for pg ev ok
    using ends by (cases "playback_thread y") (auto simp: threads_ended_def waits_for_id_def)
  moreover have "comm_step net (communicate_thread y) (shared y) = None" for net
    using ends by (cases "communicate_thread y")
      (auto simp: threads_ended_def waits_for_id_def comm_client_id_def)
  ultimately have "sys_move mv y = None" if "thread_move mv" for mv
    using that by (cases mv) auto
  then show "\<forall>mv. thread_move mv \<longrightarrow> sys_move mv y = None" by blast
qed

lemma shutdown_reached:
  "\<not> keep_running (shared y) \<Longrightarrow>
     \<exists>mvs z. list_all thread_move mvs \<and> run_schedule mvs y = Some z \<and> (threads_ended z \<or> waits_for_id z)"
proof (induction "steps_left y" arbitrary: y rule: less_induct)
  case less
  show ?case
  proof (cases "threads_ended y \<or> waits_for_id y")
    case True
    then show ?thesis by (intro exI [of _ "[]"] exI [of _ y]) simp
  next
    case False
    then obtain mv x where x: "thread_move mv" "sys_move mv y = Some x"
      using stuck_iff [of y] by auto
    then have "steps_left x < steps_left y" using thread_move_rank [OF less.prems x(2)] by simp
    from less.hyps [OF this sys_move_stopped [OF less.prems x(2)]]
    obtain mvs z where "list_all thread_move mvs" "run_schedule mvs x = Some z"
      "threads_ended z \<or> waits_for_id z" by blast
    then show ?thesis using x by (intro exI [of _ "mv # mvs"] exI [of _ z]) simp
  qed
qed

lemma reached_has_id: "(sys_step assigns_ids)\<^sup>*\<^sup>* (main_start fs) y \<Longrightarrow> \<not> waits_for_id y"
proof -
  assume "(sys_step assigns_ids)\<^sup>*\<^sup>* (main_start fs) y"
  then have "auth_inv y" by (blast intro: authi.inv_reachable)
  then show ?thesis by (auto simp: auth_inv_def waits_for_id_def)
qed

text \<open>
  C10. Shutting down ends. Once \<open>keep_running\<close> is false, the three threads together make at most ten
  more steps in any schedule, whatever the network, the decoder and further interrupts do. A state
  in which no thread can step is one where all three have ended, or where the communication thread
  waits, without a time limit, for a client id that nobody will send any more; such a state can
  always be reached. The wait does not happen with a server that never assigns the identifier -1.
\<close>

theorem shutdown_ends:
  assumes "\<not> keep_running (shared y)"
  shows "(run_schedule mvs y = Some z \<longrightarrow> length (filter thread_move mvs) \<le> 10)
       \<and> ((\<forall>mv. thread_move mv \<longrightarrow> sys_move mv y = None) \<longleftrightarrow> threads_ended y \<or> waits_for_id y)
       \<and> (\<exists>mvs z. list_all thread_move mvs \<and> run_schedule mvs y = Some z
              \<and> (threads_ended z \<or> waits_for_id z))
       \<and> ((sys_step assigns_ids)\<^sup>*\<^sup>* (main_start fs) y \<longrightarrow> \<not> waits_for_id y)"
  using run_rank [OF assms, of mvs z] steps_left_bound [of y] stuck_iff [of y] shutdown_reached [OF assms]
    reached_has_id [of fs y] by auto

theorem shutdown_ends_witness:
  "\<exists>mvs z. run_schedule mvs ((main_start [])\<lparr>shared := (init_state [])\<lparr>keep_running := False\<rparr>\<rparr>) = Some z
         \<and> (threads_ended z \<or> waits_for_id z)"
proof -
  let ?y = "(main_start [])\<lparr>shared := (init_state [])\<lparr>keep_running := False\<rparr>\<rparr>"
  have "\<not> keep_running (shared ?y)" by simp
  from shutdown_ends [OF this] show ?thesis by blast
qed

end
