(* ===== verification/Mut_Bits.thy ===== *)
theory Mut_Bits
  imports Py_Strings
begin

unbundle bit_operations_syntax

text \<open>
  \<open>mutagen/_id3util.py\<close>: the exception classes of the tag library, the unsynchronisation scheme,
  and the padded integers of ID3 (seven significant bits in every byte, or eight).

  Values are natural numbers: every integer the library builds from bytes is one. \<open>bits\<close> is
  positive (the callers pass 7 or 8); \<open>to_str\<close> does not return for a negative value or for
  \<open>bits = 0\<close>.
\<close>

section \<open>Exceptions\<close>

datatype merr =
    ValueError | EOFError | StructError | TypeError | IndexError | AttributeError | KeyError
  | IOError | AssertionError | UnicodeDecodeError | UnicodeEncodeError | NotImplementedError
  | ZeroDivisionError | OverflowError | MemoryError | NonTermination
  | ID3NoHeaderError | ID3BadUnsynchData | ID3BadCompressedData | ID3TagError
  | ID3UnsupportedVersionError | ID3EncryptionUnsupportedError | ID3JunkFrameError
  | HeaderNotFoundError | TrueAudioHeaderError | ID3Error
  | UnboundLocalError | VorbisError | VorbisUnsetFrameError | VorbisEncodingError
  | OggError | OggVorbisHeaderError | OggSpeexHeaderError | OggTheoraHeaderError | OggOpusHeaderError
  | APENoHeaderError | APEBadItemError | MonkeysAudioHeaderError | OptimFROGHeaderError
  | WavPackHeaderError | MusepackHeaderError | FlacError | FLACNoHeaderError | FLACVorbisError
  | OggFLACHeaderError

text \<open>The class \<open>error\<close> of \<open>_id3util\<close> itself is \<open>ID3Error\<close>. The classes below it, below \<open>ValueError\<close> and \<open>NotImplementedError\<close>.\<close>

fun is_id3_error :: "merr \<Rightarrow> bool" where
  "is_id3_error ID3NoHeaderError = True"
| "is_id3_error ID3BadUnsynchData = True"
| "is_id3_error ID3BadCompressedData = True"
| "is_id3_error ID3TagError = True"
| "is_id3_error ID3UnsupportedVersionError = True"
| "is_id3_error ID3EncryptionUnsupportedError = True"
| "is_id3_error ID3JunkFrameError = True"
| "is_id3_error ID3Error = True"
| "is_id3_error _ = False"

fun is_value_error :: "merr \<Rightarrow> bool" where
  "is_value_error ValueError = True"
| "is_value_error UnicodeDecodeError = True"
| "is_value_error UnicodeEncodeError = True"
| "is_value_error ID3NoHeaderError = True"
| "is_value_error ID3BadUnsynchData = True"
| "is_value_error ID3BadCompressedData = True"
| "is_value_error ID3TagError = True"
| "is_value_error ID3JunkFrameError = True"
| "is_value_error APENoHeaderError = True"
| "is_value_error APEBadItemError = True"
| "is_value_error FLACVorbisError = True"
| "is_value_error _ = False"

fun is_not_implemented :: "merr \<Rightarrow> bool" where
  "is_not_implemented NotImplementedError = True"
| "is_not_implemented ID3UnsupportedVersionError = True"
| "is_not_implemented ID3EncryptionUnsupportedError = True"
| "is_not_implemented _ = False"

section \<open>Unsynchronisation\<close>

fun unsynch_dec :: "bool \<Rightarrow> string \<Rightarrow> merr + string" where
  "unsynch_dec safe [] = (if safe then Inr [] else Inl ValueError)"
| "unsynch_dec safe (val # vs) =
     (if safe then
        bindR (unsynch_dec (val \<noteq> CHR 0xFF) vs) (\<lambda>output. Inr (val # output))
      else if ord val \<ge> 0xE0 then Inl ValueError
      else
        bindR (unsynch_dec True vs)
          (\<lambda>output. Inr (if val \<noteq> CHR 0x00 then val # output else output)))"

definition unsynch_decode :: "string \<Rightarrow> merr + string" where
  "unsynch_decode value = unsynch_dec True value"

fun unsynch_enc :: "bool \<Rightarrow> string \<Rightarrow> string" where
  "unsynch_enc safe [] = (if safe then [] else [CHR 0x00])"
| "unsynch_enc safe (val # vs) =
     (if safe then val # unsynch_enc (val \<noteq> CHR 0xFF) vs
      else if val = CHR 0x00 \<or> ord val \<ge> 0xE0 then
        CHR 0x00 # val # unsynch_enc (val \<noteq> CHR 0xFF) vs
      else val # unsynch_enc True vs)"

definition unsynch_encode :: "string \<Rightarrow> string" where
  "unsynch_encode value = unsynch_enc True value"

lemma unsynch_dec_enc: "unsynch_dec safe (unsynch_enc safe x) = Inr x"
proof (induction x arbitrary: safe)
  case (Cons a x)
  then show ?case by (cases safe) auto
qed simp

interpretation unsynch: codec unsynch_encode unsynch_decode "\<lambda>_. True"
  by unfold_locales (simp add: unsynch_encode_def unsynch_decode_def unsynch_dec_enc)

text \<open>No false synchronisation: a byte \<open>FF\<close> is followed by a byte below \<open>E0\<close>.\<close>

fun sync_free :: "string \<Rightarrow> bool" where
  "sync_free [] = True"
| "sync_free [c] = (c \<noteq> CHR 0xFF)"
| "sync_free (c # d # cs) = ((c = CHR 0xFF \<longrightarrow> ord d < 0xE0) \<and> sync_free (d # cs))"

lemma sync_free_safe_Cons:
  "c \<noteq> CHR 0xFF \<Longrightarrow> sync_free (c # cs) = sync_free cs"
  by (cases cs) auto

lemma sync_free_enc_both:
  "sync_free (unsynch_enc True x) \<and> sync_free (CHR 0xFF # unsynch_enc False x)"
proof (induction x)
  case (Cons a x)
  then show ?case
    by (cases "a = CHR 0xFF") (auto simp: sync_free_safe_Cons)
qed simp

lemmas sync_free_enc = sync_free_enc_both [THEN conjunct1]

lemma unsynch_dec_length: "unsynch_dec safe x = Inr y \<Longrightarrow> length y \<le> length x"
  by (induction safe x arbitrary: y rule: unsynch_dec.induct)
    (auto simp: bindR_Inr_iff split: if_splits intro: le_SucI)

section \<open>Padded integers\<close>

lemma div_pow2_less: "0 < bits \<Longrightarrow> 0 < v \<Longrightarrow> v div 2 ^ bits < (v::nat)"
  by (rule div_less_dividend) (simp_all add: one_less_power del: One_nat_def)

text \<open>\<open>BitPaddedInt(str)\<close>: the loop over the bytes, least significant first.\<close>

fun bpi_loop :: "nat \<Rightarrow> string \<Rightarrow> nat \<Rightarrow> nat \<Rightarrow> nat" where
  "bpi_loop bits [] shift numeric_value = numeric_value"
| "bpi_loop bits (byte # bs) shift numeric_value =
     bpi_loop bits bs (shift + bits) (numeric_value + push_bit shift (ord byte AND mask bits))"

definition bit_padded_int :: "nat \<Rightarrow> bool \<Rightarrow> string \<Rightarrow> nat" where
  "bit_padded_int bits bigendian value =
     bpi_loop bits (if bigendian then rev value else value) 0 0"

text \<open>\<open>BitPaddedInt(int)\<close>: the same over the bytes of a number.\<close>

function bpi_int_loop :: "nat \<Rightarrow> nat \<Rightarrow> nat \<Rightarrow> nat \<Rightarrow> nat" where
  "bpi_int_loop bits value shift numeric_value =
     (if value = 0 then numeric_value
      else bpi_int_loop bits (value div 2 ^ 8) (shift + bits)
             (numeric_value + push_bit shift (value AND mask bits)))"
  by pat_completeness auto
termination
  by (relation "measure (\<lambda>(bits, value, shift, n). value)") auto

declare bpi_int_loop.simps [simp del]

definition bit_padded_of_int :: "nat \<Rightarrow> nat \<Rightarrow> nat" where
  "bit_padded_of_int bits value = bpi_int_loop bits value 0 0"

text \<open>\<open>to_str\<close> with a fixed width: writing past the end of the \<open>bytearray\<close> raises.\<close>

function to_str_fixed :: "nat \<Rightarrow> nat list \<Rightarrow> nat \<Rightarrow> nat \<Rightarrow> merr + nat list" where
  "to_str_fixed bits buf index value =
     (if value = 0 then Inr buf
      else if index < length buf then
        to_str_fixed bits (buf[index := value AND mask bits]) (Suc index) (value div 2 ^ bits)
      else Inl ValueError)"
  by pat_completeness auto
termination
  by (relation "measure (\<lambda>(bits, buf, index, value). length buf - index)") auto

declare to_str_fixed.simps [simp del]

text \<open>\<open>to_str\<close> with \<open>width = -1\<close>: the growing counters of PCNT and POPM.\<close>

function to_str_growing :: "nat \<Rightarrow> nat list \<Rightarrow> nat \<Rightarrow> nat list" where
  "to_str_growing bits buf value =
     (if value = 0 \<or> bits = 0 then buf
      else to_str_growing bits (buf @ [value AND mask bits]) (value div 2 ^ bits))"
  by pat_completeness auto
termination
  by (relation "measure (\<lambda>(bits, buf, value). value)") (auto intro: div_pow2_less)

declare to_str_growing.simps [simp del]

definition bytes_str :: "bool \<Rightarrow> nat list \<Rightarrow> string" where
  "bytes_str bigendian buf = map chr (if bigendian then rev buf else buf)"

definition to_str_width :: "nat \<Rightarrow> nat \<Rightarrow> bool \<Rightarrow> nat \<Rightarrow> merr + string" where
  "to_str_width bits width bigendian value =
     bindR (to_str_fixed bits (replicate width 0) 0 value)
       (\<lambda>buf. Inr (bytes_str bigendian buf))"

definition to_str_min :: "nat \<Rightarrow> nat \<Rightarrow> bool \<Rightarrow> nat \<Rightarrow> string" where
  "to_str_min bits minwidth bigendian value =
     (let buf = to_str_growing bits [] value
      in bytes_str bigendian (buf @ replicate (minwidth - length buf) 0))"

text \<open>\<open>has_valid_padding\<close> of a string and of a number.\<close>

definition padding_mask :: "nat \<Rightarrow> nat" where
  "padding_mask bits = push_bit bits (mask (8 - bits))"

definition has_valid_padding :: "nat \<Rightarrow> string \<Rightarrow> bool" where
  "has_valid_padding bits value = list_all (\<lambda>byte. ord byte AND padding_mask bits = 0) value"

function has_valid_padding_int :: "nat \<Rightarrow> nat \<Rightarrow> bool" where
  "has_valid_padding_int bits value =
     (if value = 0 then True
      else if value AND padding_mask bits \<noteq> 0 then False
      else has_valid_padding_int bits (value div 2 ^ 8))"
  by pat_completeness auto
termination
  by (relation "measure snd") auto

declare has_valid_padding_int.simps [simp del]

subsection \<open>Positional values\<close>

fun pos_value :: "nat \<Rightarrow> nat list \<Rightarrow> nat" where
  "pos_value bits [] = 0"
| "pos_value bits (d # ds) = d + 2 ^ bits * pos_value bits ds"

lemma and_mask_mod: "(x::nat) AND mask bits = x mod 2 ^ bits"
  by (simp add: take_bit_eq_mask [symmetric] take_bit_eq_mod)

lemma bpi_loop_value:
  "bpi_loop bits bs shift n
     = n + 2 ^ shift * pos_value bits (map (\<lambda>c. ord c mod 2 ^ bits) bs)"
  by (induction bs arbitrary: shift n)
    (simp_all add: and_mask_mod push_bit_eq_mult power_add algebra_simps)

lemma bit_padded_int_value:
  "bit_padded_int bits be s =
     pos_value bits (map (\<lambda>c. ord c mod 2 ^ bits) (if be then rev s else s))"
  by (simp add: bit_padded_int_def bpi_loop_value)

lemma pos_value_bound:
  "(\<forall>d \<in> set ds. d < 2 ^ bits) \<Longrightarrow> pos_value bits ds < 2 ^ (bits * length ds)"
proof (induction ds)
  case (Cons d ds)
  then have "d < 2 ^ bits" "pos_value bits ds < 2 ^ (bits * length ds)" by auto
  then have "d + 2 ^ bits * pos_value bits ds < 2 ^ bits + 2 ^ bits * pos_value bits ds" by simp
  also have "\<dots> = 2 ^ bits * Suc (pos_value bits ds)" by simp
  also have "\<dots> \<le> 2 ^ bits * 2 ^ (bits * length ds)"
    using \<open>pos_value bits ds < _\<close> by (intro mult_le_mono2) simp
  finally show ?case by (simp add: power_add)
qed simp

lemma pos_value_append:
  "pos_value bits (xs @ ys) = pos_value bits xs + 2 ^ (bits * length xs) * pos_value bits ys"
  by (induction xs) (simp_all add: power_add algebra_simps)

lemma pos_value_zeros [simp]: "pos_value bits (replicate n 0) = 0"
  by (induction n) simp_all

text \<open>The low \<open>n\<close> digits of a number in base \<open>2 ^ bits\<close>, least significant first.\<close>

fun digits :: "nat \<Rightarrow> nat \<Rightarrow> nat \<Rightarrow> nat list" where
  "digits bits 0 v = []"
| "digits bits (Suc n) v = (v mod 2 ^ bits) # digits bits n (v div 2 ^ bits)"

lemma length_digits [simp]: "length (digits bits n v) = n"
  by (induction n arbitrary: v) simp_all

lemma digits_bound: "d \<in> set (digits bits n v) \<Longrightarrow> d < 2 ^ bits"
  by (induction n arbitrary: v) auto

lemma digits_zero [simp]: "digits bits n 0 = replicate n 0"
  by (induction n) simp_all

lemma pos_value_digits: "pos_value bits (digits bits n v) = v mod 2 ^ (bits * n)"
  by (induction n arbitrary: v) (simp_all add: power_add mod_mult2_eq algebra_simps)

lemma digits_pos_value:
  "\<forall>d \<in> set ds. d < 2 ^ bits \<Longrightarrow> digits bits (length ds) (pos_value bits ds) = ds"
  by (induction ds) auto

lemma to_str_fixed_digits:
  "to_str_fixed bits (ds @ replicate n 0) (length ds) v =
     (if v < 2 ^ (bits * n) then Inr (ds @ digits bits n v) else Inl ValueError)"
proof (induction n arbitrary: ds v)
  case 0
  then show ?case by (subst to_str_fixed.simps) auto
next
  case (Suc n)
  have upd: "(ds @ replicate (Suc n) 0)[length ds := x] = (ds @ [x]) @ replicate n (0::nat)" for x
    by simp
  have *: "v < 2 ^ (bits * Suc n) \<longleftrightarrow> v div 2 ^ bits < 2 ^ (bits * n)"
    by (simp only: mult_Suc_right power_add) (simp add: div_less_iff_less_mult mult.commute)
  show ?case
    using Suc.IH [of "ds @ [v mod 2 ^ bits]" "v div 2 ^ bits"]
    by (subst to_str_fixed.simps)
      (simp del: replicate_Suc mult_Suc_right add: upd and_mask_mod *, simp)
qed

lemma to_str_growing_digits:
  assumes "0 < bits"
  shows "\<exists>n. to_str_growing bits ds v = ds @ digits bits n v \<and> v < 2 ^ (bits * n)
           \<and> (\<forall>m < n. 2 ^ (bits * m) \<le> v)"
proof (induction v arbitrary: ds rule: less_induct)
  case (less v)
  show ?case
  proof (cases "v = 0")
    case True
    then show ?thesis by (subst to_str_growing.simps) (auto intro!: exI [of _ 0])
  next
    case False
    then have lt: "v div 2 ^ bits < v" using assms by (auto intro: div_pow2_less)
    from less [OF lt, of "ds @ [v mod 2 ^ bits]"] obtain n where n:
      "to_str_growing bits (ds @ [v mod 2 ^ bits]) (v div 2 ^ bits)
         = (ds @ [v mod 2 ^ bits]) @ digits bits n (v div 2 ^ bits)"
      "v div 2 ^ bits < 2 ^ (bits * n)" "\<forall>m < n. 2 ^ (bits * m) \<le> v div 2 ^ bits" by blast
    have "2 ^ (bits * m) \<le> v" if "m < Suc n" for m
    proof (cases m)
      case (Suc k)
      then have "2 ^ (bits * k) \<le> v div 2 ^ bits" using n that by simp
      then have "2 ^ bits * 2 ^ (bits * k) \<le> 2 ^ bits * (v div 2 ^ bits)" by simp
      also have "\<dots> \<le> v" by simp
      finally show ?thesis by (simp add: Suc power_add)
    qed (use False in simp)
    moreover have "v < 2 ^ (bits * Suc n)"
      using n(2) by (simp add: power_add div_less_iff_less_mult algebra_simps)
    ultimately show ?thesis using n(1) False assms
      by (subst to_str_growing.simps) (auto simp: and_mask_mod intro!: exI [of _ "Suc n"])
  qed
qed

lemma bit_padded_bytes_str:
  assumes "bits \<le> 8" "\<forall>d \<in> set ds. d < 2 ^ bits"
  shows "bit_padded_int bits be (bytes_str be ds) = pos_value bits ds"
proof -
  have "(2::nat) ^ bits \<le> 2 ^ 8" using assms(1) by (intro power_increasing) simp_all
  then have "\<forall>d \<in> set ds. ord (chr d) mod 2 ^ bits = d" using assms(2) by auto
  then have "map (\<lambda>c. ord c mod 2 ^ bits) (map chr ds) = ds"
    by (simp add: comp_def map_idI)
  then show ?thesis
    by (simp add: bit_padded_int_value bytes_str_def rev_map)
qed

lemma to_str_width_digits:
  "to_str_width bits n be v =
     (if v < 2 ^ (bits * n) then Inr (bytes_str be (digits bits n v)) else Inl ValueError)"
  using to_str_fixed_digits [of bits "[]" n v] by (simp add: to_str_width_def)

lemma length_bytes_str [simp]: "length (bytes_str be ds) = length ds"
  by (simp add: bytes_str_def)

lemma bit_padded_to_str_width:
  assumes "bits \<le> 8" "to_str_width bits n be v = Inr out"
  shows "length out = n \<and> bit_padded_int bits be out = v"
proof -
  have out: "out = bytes_str be (digits bits n v)" and v: "v < 2 ^ (bits * n)"
    using assms(2) by (auto simp: to_str_width_digits split: if_splits)
  show ?thesis
    using bit_padded_bytes_str [OF assms(1), of "digits bits n v" be] digits_bound v
    by (auto simp: out pos_value_digits)
qed

lemma bit_padded_to_str_min:
  assumes "0 < bits" "bits \<le> 8"
  shows "bit_padded_int bits be (to_str_min bits m be v) = v \<and> m \<le> length (to_str_min bits m be v)"
proof -
  obtain n where n: "to_str_growing bits [] v = digits bits n v" "v < 2 ^ (bits * n)"
    using to_str_growing_digits [OF assms(1), of "[]" v] by auto
  let ?ds = "digits bits n v @ replicate (m - n) 0"
  have "\<forall>d \<in> set ?ds. d < 2 ^ bits" using digits_bound by auto
  from bit_padded_bytes_str [OF assms(2) this, of be] show ?thesis
    using n by (simp add: to_str_min_def Let_def pos_value_append pos_value_digits)
qed

text \<open>Padding bits: a byte has none of the high bits exactly when it is below \<open>2 ^ bits\<close>.\<close>

lemma and_high_bits:
  fixes x :: nat
  assumes "bits \<le> 8" "x < 256"
  shows "x AND padding_mask bits = 0 \<longleftrightarrow> x < 2 ^ bits"
proof -
  have "x < 2 ^ bits \<longleftrightarrow> drop_bit bits x = 0"
    by (simp add: drop_bit_eq_div div_eq_0_iff)
  moreover have "x AND padding_mask bits = push_bit bits (drop_bit bits x AND mask (8 - bits))"
    by (rule bit_eqI) (auto simp: padding_mask_def bit_simps)
  moreover have "drop_bit bits x < 2 ^ (8 - bits)"
  proof -
    have "(2::nat) ^ (8 - bits) * 2 ^ bits = 256" using assms(1) by (simp flip: power_add)
    then show ?thesis using assms(2)
      by (simp add: drop_bit_eq_div div_less_iff_less_mult)
  qed
  then have "drop_bit bits x AND mask (8 - bits) = drop_bit bits x"
    by (simp add: and_mask_mod)
  ultimately show ?thesis by simp
qed

lemma has_valid_padding_iff:
  "bits \<le> 8 \<Longrightarrow> has_valid_padding bits s \<longleftrightarrow> (\<forall>c \<in> set s. ord c < 2 ^ bits)"
  by (simp add: has_valid_padding_def list_all_iff and_high_bits)

lemma has_valid_padding_bytes_str:
  assumes "bits \<le> 8" "\<forall>d \<in> set ds. d < 2 ^ bits"
  shows "has_valid_padding bits (bytes_str be ds)"
proof -
  have "(2::nat) ^ bits \<le> 2 ^ 8" using assms(1) by (intro power_increasing) simp_all
  then show ?thesis using assms
    by (auto simp: has_valid_padding_iff bytes_str_def)
qed

text \<open>The padded value of a number is that of its bytes, for a zero tail adds nothing.\<close>

lemma bpi_loop_zeros: "\<forall>c \<in> set bs. c = CHR 0x00 \<Longrightarrow> bpi_loop bits bs shift n = n"
  by (induction bs arbitrary: shift n) simp_all

lemma pos_value_zero_iff: "pos_value bits ds = 0 \<longleftrightarrow> (\<forall>d \<in> set ds. d = 0)"
  by (induction ds) auto

lemma bpi_int_loop_bytes:
  assumes "bits \<le> 8"
  shows "bpi_int_loop bits (pos_value 8 (map ord bs)) shift n = bpi_loop bits bs shift n"
proof (induction bs arbitrary: shift n)
  case Nil
  then show ?case by (simp add: bpi_int_loop.simps)
next
  case (Cons c bs)
  let ?v = "pos_value 8 (map ord (c # bs))"
  have div: "?v div 256 = pos_value 8 (map ord bs)" using ord_less [of c] by simp
  show ?case
  proof (cases "?v = 0")
    case True
    then have "\<forall>b \<in> set (c # bs). ord b = 0" unfolding pos_value_zero_iff by simp
    then have "\<forall>b \<in> set (c # bs). b = CHR 0x00" by (metis char_of_char nul_eq_chr ord_less)
    then show ?thesis using True bpi_loop_zeros [of "c # bs"]
      by (subst bpi_int_loop.simps) simp
  next
    case False
    have "(2::nat) ^ bits dvd 256" using le_imp_power_dvd [OF assms, of "2::nat"] by simp
    then have "?v mod 2 ^ bits = ord c mod 2 ^ bits"
      using mod_mod_cancel [of "2 ^ bits" 256 ?v] by simp
    then show ?thesis using False Cons div
      by (subst bpi_int_loop.simps) (auto simp: and_mask_mod)
  qed
qed

end
