(* ===== verification/Mut_Util.thy ===== *)
theory Mut_Util
  imports Mut_Bits "HOL-Library.AList"
begin

text \<open>
  \<open>mutagen/_util.py\<close>, the part that is not about files: \<open>DictMixin\<close> (the dictionary interface
  over \<open>keys\<close> and the item methods), \<open>DictProxy\<close>, the \<open>struct\<close> conversions of \<open>cdata\<close>, and
  \<open>dict_match\<close>.

  \<open>DictMixin\<close> is written against four methods of its subclass; its operations are definitions
  over those four, and what they promise is proved in the locale \<open>item_methods\<close>, which
  \<open>DictProxy\<close> interprets. The order in which a Python 2 dictionary lists its keys is the
  insertion order of the model; no lemma depends on it.
\<close>

section \<open>DictMixin\<close>

definition dm_has_key :: "('s \<Rightarrow> 'k \<Rightarrow> merr + 'v) \<Rightarrow> 's \<Rightarrow> 'k \<Rightarrow> merr + bool" where
  "dm_has_key getitem self key =
     (case getitem self key of
        Inl KeyError \<Rightarrow> Inr False
      | Inl e \<Rightarrow> Inl e
      | Inr _ \<Rightarrow> Inr True)"

definition dm_values :: "('s \<Rightarrow> 'k \<Rightarrow> merr + 'v) \<Rightarrow> ('s \<Rightarrow> 'k list) \<Rightarrow> 's \<Rightarrow> merr + 'v list" where
  "dm_values getitem keys self = mapR (getitem self) (keys self)"

definition dm_items ::
  "('s \<Rightarrow> 'k \<Rightarrow> merr + 'v) \<Rightarrow> ('s \<Rightarrow> 'k list) \<Rightarrow> 's \<Rightarrow> merr + ('k \<times> 'v) list" where
  "dm_items getitem keys self =
     bindR (dm_values getitem keys self) (\<lambda>vs. Inr (zip (keys self) vs))"

fun dm_del_all :: "('s \<Rightarrow> 'k \<Rightarrow> merr + 's) \<Rightarrow> 's \<Rightarrow> 'k list \<Rightarrow> merr + 's" where
  "dm_del_all delitem self [] = Inr self"
| "dm_del_all delitem self (k # ks) =
     bindR (delitem self k) (\<lambda>self'. dm_del_all delitem self' ks)"

definition dm_clear :: "('s \<Rightarrow> 'k \<Rightarrow> merr + 's) \<Rightarrow> ('s \<Rightarrow> 'k list) \<Rightarrow> 's \<Rightarrow> merr + 's" where
  "dm_clear delitem keys self = dm_del_all delitem self (keys self)"

text \<open>\<open>args\<close> are the positional arguments after the key.\<close>

definition dm_pop ::
  "('s \<Rightarrow> 'k \<Rightarrow> merr + 'v) \<Rightarrow> ('s \<Rightarrow> 'k \<Rightarrow> merr + 's) \<Rightarrow> 's \<Rightarrow> 'k \<Rightarrow> 'v list \<Rightarrow> merr + 'v \<times> 's"
  where
  "dm_pop getitem delitem self key args =
     (if 1 < length args then Inl TypeError
      else case getitem self key of
        Inl KeyError \<Rightarrow> (case args of a # _ \<Rightarrow> Inr (a, self) | [] \<Rightarrow> Inl KeyError)
      | Inl e \<Rightarrow> Inl e
      | Inr value \<Rightarrow> bindR (delitem self key) (\<lambda>self'. Inr (value, self')))"

definition dm_popitem ::
  "('s \<Rightarrow> 'k \<Rightarrow> merr + 'v) \<Rightarrow> ('s \<Rightarrow> 'k \<Rightarrow> merr + 's) \<Rightarrow> ('s \<Rightarrow> 'k list) \<Rightarrow> 's
     \<Rightarrow> merr + ('k \<times> 'v) \<times> 's" where
  "dm_popitem getitem delitem keys self =
     (case keys self of
        [] \<Rightarrow> Inl KeyError
      | key # _ \<Rightarrow>
          (case dm_pop getitem delitem self key [] of
             Inl IndexError \<Rightarrow> Inl KeyError
           | Inl e \<Rightarrow> Inl e
           | Inr (value, self') \<Rightarrow> Inr ((key, value), self')))"

definition dm_set_all :: "('s \<Rightarrow> 'k \<Rightarrow> 'v \<Rightarrow> 's) \<Rightarrow> 's \<Rightarrow> ('k \<times> 'v) list \<Rightarrow> 's" where
  "dm_set_all setitem self items = foldl (\<lambda>s (k, v). setitem s k v) self items"

text \<open>
  \<open>other\<close> is a dictionary or an iterable of pairs, given here by its items: both branches of the
  \<open>try\<close> set the same items in the same order.
\<close>

definition dm_update ::
  "('s \<Rightarrow> 'k \<Rightarrow> 'v \<Rightarrow> 's) \<Rightarrow> 's \<Rightarrow> ('k \<times> 'v) list option \<Rightarrow> ('k \<times> 'v) list \<Rightarrow> 's" where
  "dm_update setitem self other kwargs =
     (case other of
        None \<Rightarrow> dm_set_all setitem (dm_set_all setitem self kwargs) []
      | Some items \<Rightarrow> dm_set_all setitem self items)"

definition dm_setdefault ::
  "('s \<Rightarrow> 'k \<Rightarrow> merr + 'v) \<Rightarrow> ('s \<Rightarrow> 'k \<Rightarrow> 'v \<Rightarrow> 's) \<Rightarrow> 's \<Rightarrow> 'k \<Rightarrow> 'v \<Rightarrow> merr + 'v \<times> 's" where
  "dm_setdefault getitem setitem self key dflt =
     (case getitem self key of
        Inl KeyError \<Rightarrow> Inr (dflt, setitem self key dflt)
      | Inl e \<Rightarrow> Inl e
      | Inr v \<Rightarrow> Inr (v, self))"

definition dm_get :: "('s \<Rightarrow> 'k \<Rightarrow> merr + 'v) \<Rightarrow> 's \<Rightarrow> 'k \<Rightarrow> 'v \<Rightarrow> merr + 'v" where
  "dm_get getitem self key dflt =
     (case getitem self key of Inl KeyError \<Rightarrow> Inr dflt | Inl e \<Rightarrow> Inl e | Inr v \<Rightarrow> Inr v)"

definition dm_len :: "('s \<Rightarrow> 'k list) \<Rightarrow> 's \<Rightarrow> nat" where
  "dm_len keys self = length (keys self)"

text \<open>
  What the subclass promises: \<open>contents\<close> is the finite map it stores, and the four methods read
  and write it.
\<close>

locale item_methods =
  fixes getitem :: "'s \<Rightarrow> 'k \<Rightarrow> merr + 'v"
    and setitem :: "'s \<Rightarrow> 'k \<Rightarrow> 'v \<Rightarrow> 's"
    and delitem :: "'s \<Rightarrow> 'k \<Rightarrow> merr + 's"
    and keys :: "'s \<Rightarrow> 'k list"
    and contents :: "'s \<Rightarrow> 'k \<Rightarrow> 'v option"
    and ok :: "'s \<Rightarrow> bool"
  assumes getitem_eq: "ok s \<Longrightarrow>
      getitem s k = (case contents s k of None \<Rightarrow> Inl KeyError | Some v \<Rightarrow> Inr v)"
    and ok_setitem: "ok s \<Longrightarrow> ok (setitem s k v)"
    and contents_setitem: "ok s \<Longrightarrow> contents (setitem s k v) = (contents s)(k \<mapsto> v)"
    and delitem_missing: "ok s \<Longrightarrow> contents s k = None \<Longrightarrow> delitem s k = Inl KeyError"
    and delitem_present: "ok s \<Longrightarrow> contents s k = Some v \<Longrightarrow>
      \<exists>s'. delitem s k = Inr s' \<and> ok s' \<and> contents s' = (contents s)(k := None)"
    and keys_dom: "ok s \<Longrightarrow> set (keys s) = dom (contents s)"
    and keys_distinct: "ok s \<Longrightarrow> distinct (keys s)"
begin

lemma has_key: "ok s \<Longrightarrow> dm_has_key getitem s k = Inr (contents s k \<noteq> None)"
  by (simp add: dm_has_key_def getitem_eq split: option.split)

lemma get: "ok s \<Longrightarrow> dm_get getitem s k d = Inr (case contents s k of None \<Rightarrow> d | Some v \<Rightarrow> v)"
  by (simp add: dm_get_def getitem_eq split: option.split)

lemma len: "ok s \<Longrightarrow> dm_len keys s = card (dom (contents s))"
  by (simp add: dm_len_def distinct_card [OF keys_distinct, symmetric] keys_dom)

lemma items:
  assumes "ok s"
  obtains its where "dm_items getitem keys s = Inr its" "map_of its = contents s"
    "distinct (map fst its)"
proof -
  let ?g = "\<lambda>k. the (contents s k)"
  have "mapR (getitem s) (keys s) = Inr (map ?g (keys s))"
    using keys_dom [OF assms] by (intro mapR_map) (auto simp: getitem_eq [OF assms])
  then have eq: "dm_items getitem keys s = Inr (zip (keys s) (map ?g (keys s)))"
    by (simp add: dm_items_def dm_values_def)
  have "map_of (zip (keys s) (map ?g (keys s))) k = contents s k" for k
    using keys_dom [OF assms] by (cases "contents s k") (auto simp: map_of_zip_map)
  then show ?thesis
    using that [OF eq] keys_distinct [OF assms] by auto
qed

lemma del_all:
  "ok s \<Longrightarrow> distinct ks \<Longrightarrow> set ks \<subseteq> dom (contents s) \<Longrightarrow>
     \<exists>s'. dm_del_all delitem s ks = Inr s' \<and> ok s' \<and> contents s' = contents s |` (- set ks)"
proof (induction ks arbitrary: s)
  case (Cons k ks)
  then obtain v where "contents s k = Some v" by auto
  from delitem_present [OF Cons.prems(1) this] obtain s' where
    s': "delitem s k = Inr s'" "ok s'" "contents s' = (contents s)(k := None)" by blast
  have "set ks \<subseteq> dom (contents s')" using Cons.prems s' by auto
  then obtain t where "dm_del_all delitem s' ks = Inr t" "ok t"
    "contents t = contents s' |` (- set ks)"
    using Cons.IH [OF s'(2)] Cons.prems by auto
  then show ?case using s' by (auto simp: restrict_map_def fun_eq_iff)
qed (simp add: restrict_map_def)

lemma clear: "ok s \<Longrightarrow> \<exists>s'. dm_clear delitem keys s = Inr s' \<and> ok s' \<and> contents s' = Map.empty"
  using del_all [of s "keys s"] keys_distinct [of s] keys_dom [of s]
  by (auto simp: dm_clear_def restrict_map_def fun_eq_iff dom_def)

lemma pop_present:
  assumes "ok s" "contents s k = Some v" "length args \<le> 1"
  obtains s' where "dm_pop getitem delitem s k args = Inr (v, s')" "ok s'"
    "contents s' = (contents s)(k := None)"
  using delitem_present [OF assms(1,2)] assms getitem_eq [OF assms(1), of k]
  by (auto simp: dm_pop_def)

lemma pop_missing:
  "ok s \<Longrightarrow> contents s k = None \<Longrightarrow> dm_pop getitem delitem s k [] = Inl KeyError"
  "ok s \<Longrightarrow> contents s k = None \<Longrightarrow> dm_pop getitem delitem s k [d] = Inr (d, s)"
  by (simp_all add: dm_pop_def getitem_eq)

lemma popitem:
  assumes "ok s"
  shows "(contents s = Map.empty \<longrightarrow> dm_popitem getitem delitem keys s = Inl KeyError)
       \<and> (contents s \<noteq> Map.empty \<longrightarrow>
            (\<exists>k v s'. dm_popitem getitem delitem keys s = Inr ((k, v), s') \<and> ok s'
               \<and> contents s k = Some v \<and> contents s' = (contents s)(k := None)))"
proof (cases "keys s")
  case Nil
  then have "contents s = Map.empty" using keys_dom [OF assms] by auto
  then show ?thesis using Nil by (simp add: dm_popitem_def)
next
  case (Cons k ks)
  then obtain v where v: "contents s k = Some v" using keys_dom [OF assms] by auto
  obtain s' where "dm_pop getitem delitem s k [] = Inr (v, s')" "ok s'"
    "contents s' = (contents s)(k := None)"
    using pop_present [OF assms v, of "[]"] by auto
  then show ?thesis using v Cons by (auto simp: dm_popitem_def)
qed

lemma set_all: "ok s \<Longrightarrow> ok (dm_set_all setitem s its)
    \<and> contents (dm_set_all setitem s its) = contents s ++ map_of (rev its)"
proof (induction its arbitrary: s)
  case (Cons kv its)
  obtain k v where [simp]: "kv = (k, v)" by (cases kv)
  from Cons.IH [OF ok_setitem [OF Cons.prems, of k v]]
  show ?case using contents_setitem [OF Cons.prems, of k v]
    by (simp add: dm_set_all_def map_add_def fun_eq_iff split: option.split)
qed (simp add: dm_set_all_def)

lemma setdefault:
  "ok s \<Longrightarrow> contents s k = Some v \<Longrightarrow> dm_setdefault getitem setitem s k d = Inr (v, s)"
  "ok s \<Longrightarrow> contents s k = None \<Longrightarrow>
     dm_setdefault getitem setitem s k d = Inr (d, setitem s k d)"
  by (simp_all add: dm_setdefault_def getitem_eq)

end

section \<open>DictProxy\<close>

type_synonym ('k, 'v) dict_proxy = "('k \<times> 'v) list"

definition dp_getitem :: "('k, 'v) dict_proxy \<Rightarrow> 'k \<Rightarrow> merr + 'v" where
  "dp_getitem d key = (case map_of d key of None \<Rightarrow> Inl KeyError | Some v \<Rightarrow> Inr v)"

definition dp_setitem :: "('k, 'v) dict_proxy \<Rightarrow> 'k \<Rightarrow> 'v \<Rightarrow> ('k, 'v) dict_proxy" where
  "dp_setitem d key value = AList.update key value d"

definition dp_delitem :: "('k, 'v) dict_proxy \<Rightarrow> 'k \<Rightarrow> merr + ('k, 'v) dict_proxy" where
  "dp_delitem d key = (if map_of d key = None then Inl KeyError else Inr (AList.delete key d))"

definition dp_keys :: "('k, 'v) dict_proxy \<Rightarrow> 'k list" where
  "dp_keys d = map fst d"

definition wf_dict :: "('k, 'v) dict_proxy \<Rightarrow> bool" where
  "wf_dict d \<longleftrightarrow> distinct (map fst d)"

lemma wf_dict_Nil [simp]: "wf_dict []"
  by (simp add: wf_dict_def)

lemma wf_dict_setitem [wf_intro]: "wf_dict d \<Longrightarrow> wf_dict (dp_setitem d k v)"
  by (simp add: wf_dict_def dp_setitem_def distinct_update)

lemma wf_dict_delitem [wf_intro]: "wf_dict d \<Longrightarrow> dp_delitem d k = Inr d' \<Longrightarrow> wf_dict d'"
  by (auto simp: wf_dict_def dp_delitem_def distinct_delete split: if_splits)

interpretation proxy: item_methods dp_getitem dp_setitem dp_delitem dp_keys map_of wf_dict
proof unfold_locales
  fix s :: "('k, 'v) dict_proxy" and k v
  assume wf: "wf_dict s"
  show "dp_getitem s k = (case map_of s k of None \<Rightarrow> Inl KeyError | Some v \<Rightarrow> Inr v)"
    by (simp add: dp_getitem_def)
  show "wf_dict (dp_setitem s k v)" using wf by (rule wf_dict_setitem)
  show "map_of (dp_setitem s k v) = (map_of s)(k \<mapsto> v)"
    by (simp add: dp_setitem_def update_conv' )
  show "map_of s k = None \<Longrightarrow> dp_delitem s k = Inl KeyError"
    by (simp add: dp_delitem_def)
  show "map_of s k = Some v \<Longrightarrow>
      \<exists>s'. dp_delitem s k = Inr s' \<and> wf_dict s' \<and> map_of s' = (map_of s)(k := None)"
    using wf by (auto simp: dp_delitem_def wf_dict_def distinct_delete delete_conv')
  show "set (dp_keys s) = dom (map_of s)"
    by (simp add: dp_keys_def dom_map_of_conv_image_fst)
  show "distinct (dp_keys s)"
    using wf by (simp add: dp_keys_def wf_dict_def)
qed

section \<open>cdata\<close>

text \<open>The \<open>struct\<close> formats of standard size: \<open>n\<close> bytes, big or little endian, signed or not.\<close>

definition struct_value :: "bool \<Rightarrow> string \<Rightarrow> nat" where
  "struct_value big data = pos_value 8 (map ord (if big then rev data else data))"

definition struct_bytes :: "bool \<Rightarrow> nat \<Rightarrow> nat \<Rightarrow> string" where
  "struct_bytes big n v = map chr (if big then rev (digits 8 n v) else digits 8 n v)"

definition unpack_u :: "bool \<Rightarrow> nat \<Rightarrow> string \<Rightarrow> merr + int" where
  "unpack_u big n data =
     (if length data = n then Inr (int (struct_value big data)) else Inl StructError)"

definition unpack_s :: "bool \<Rightarrow> nat \<Rightarrow> string \<Rightarrow> merr + int" where
  "unpack_s big n data =
     bindR (unpack_u big n data)
       (\<lambda>v. Inr (if v < 2 ^ (8 * n - 1) then v else v - 2 ^ (8 * n)))"

definition pack_u :: "bool \<Rightarrow> nat \<Rightarrow> int \<Rightarrow> merr + string" where
  "pack_u big n v =
     (if 0 \<le> v \<and> v < 2 ^ (8 * n) then Inr (struct_bytes big n (nat v)) else Inl StructError)"

definition pack_s :: "bool \<Rightarrow> nat \<Rightarrow> int \<Rightarrow> merr + string" where
  "pack_s big n v =
     (if - (2 ^ (8 * n - 1)) \<le> v \<and> v < 2 ^ (8 * n - 1)
      then Inr (struct_bytes big n (nat (v mod 2 ^ (8 * n)))) else Inl StructError)"

lemma map_ord_chr: "\<forall>d \<in> set ds. d < 256 \<Longrightarrow> map ord (map chr ds) = ds"
  by (induction ds) auto

lemma struct_value_bytes: "struct_value big (struct_bytes big n v) = v mod 2 ^ (8 * n)"
proof -
  have "\<forall>d \<in> set (digits 8 n v). d < 256" using digits_bound [of _ 8] by simp
  then have "map ord (map chr (digits 8 n v)) = digits 8 n v" by (rule map_ord_chr)
  then show ?thesis
    by (cases big) (simp_all add: struct_value_def struct_bytes_def rev_map pos_value_digits
        flip: map_map)
qed

lemma length_struct_bytes [simp]: "length (struct_bytes big n v) = n"
  by (simp add: struct_bytes_def)

lemma struct_value_bound: "struct_value big data < 2 ^ (8 * length data)"
  using pos_value_bound [of "map ord (if big then rev data else data)" 8]
  by (simp add: struct_value_def split: if_splits)

lemma struct_bytes_value: "struct_bytes big (length data) (struct_value big data) = data"
proof (cases big)
  case True
  then show ?thesis
    using digits_pos_value [of "map ord (rev data)" 8]
    by (simp add: struct_bytes_def struct_value_def rev_map comp_def)
next
  case False
  then show ?thesis
    using digits_pos_value [of "map ord data" 8]
    by (simp add: struct_bytes_def struct_value_def comp_def)
qed

definition u_fits :: "nat \<Rightarrow> int \<Rightarrow> bool" where
  "u_fits n v \<longleftrightarrow> 0 \<le> v \<and> v < 2 ^ (8 * n)"

definition s_fits :: "nat \<Rightarrow> int \<Rightarrow> bool" where
  "s_fits n v \<longleftrightarrow> - (2 ^ (8 * n - 1)) \<le> v \<and> v < 2 ^ (8 * n - 1)"

lemma unpack_pack_u: "u_fits n v \<Longrightarrow> bindR (pack_u big n v) (unpack_u big n) = Inr v"
  by (simp add: pack_u_def unpack_u_def u_fits_def struct_value_bytes nat_less_iff)

lemma unpack_pack_s:
  assumes "0 < n" "s_fits n v"
  shows "bindR (pack_s big n v) (unpack_s big n) = Inr v"
proof -
  define h :: int where "h = 2 ^ (8 * n - 1)"
  have two: "2 ^ (8 * n) = 2 * h" using assms(1) by (simp add: h_def flip: power_Suc)
  have h: "0 < h" by (simp add: h_def)
  have v: "- h \<le> v" "v < h" using assms(2) by (simp_all add: s_fits_def h_def)
  let ?u = "v mod (2 * h)"
  have u: "0 \<le> ?u" "?u < 2 * h" using h by simp_all
  have "nat ?u < nat (2 * h)" using u h by simp
  then have "nat ?u mod nat (2 * h) = nat ?u" by simp
  moreover have "(2::nat) ^ (8 * n) = nat (2 * h)" using two
    by (metis nat_2 nat_power_eq numeral_2_eq_2 zero_le_numeral)
  ultimately have "int (nat ?u mod 2 ^ (8 * n)) = ?u" using u by simp
  moreover have "(if ?u < h then ?u else ?u - 2 * h) = v"
  proof (cases "0 \<le> v")
    case True
    then show ?thesis using v by simp
  next
    case False
    then have "(v + 2 * h) mod (2 * h) = v + 2 * h"
      using v by (intro mod_pos_pos_trivial) simp_all
    then have "?u = v + 2 * h" by simp
    then show ?thesis using v False by simp
  qed
  ultimately show ?thesis
    using v by (simp add: pack_s_def unpack_s_def unpack_u_def struct_value_bytes two
        del: One_nat_def flip: h_def split: if_splits)
qed

definition short_le :: "string \<Rightarrow> merr + int" where "short_le = unpack_s False 2"
definition ushort_le :: "string \<Rightarrow> merr + int" where "ushort_le = unpack_u False 2"
definition short_be :: "string \<Rightarrow> merr + int" where "short_be = unpack_s True 2"
definition ushort_be :: "string \<Rightarrow> merr + int" where "ushort_be = unpack_u True 2"
definition int_le :: "string \<Rightarrow> merr + int" where "int_le = unpack_s False 4"
definition uint_le :: "string \<Rightarrow> merr + int" where "uint_le = unpack_u False 4"
definition int_be :: "string \<Rightarrow> merr + int" where "int_be = unpack_s True 4"
definition uint_be :: "string \<Rightarrow> merr + int" where "uint_be = unpack_u True 4"
definition longlong_le :: "string \<Rightarrow> merr + int" where "longlong_le = unpack_s False 8"
definition ulonglong_le :: "string \<Rightarrow> merr + int" where "ulonglong_le = unpack_u False 8"
definition longlong_be :: "string \<Rightarrow> merr + int" where "longlong_be = unpack_s True 8"
definition ulonglong_be :: "string \<Rightarrow> merr + int" where "ulonglong_be = unpack_u True 8"
definition to_short_le :: "int \<Rightarrow> merr + string" where "to_short_le = pack_s False 2"
definition to_ushort_le :: "int \<Rightarrow> merr + string" where "to_ushort_le = pack_u False 2"
definition to_short_be :: "int \<Rightarrow> merr + string" where "to_short_be = pack_s True 2"
definition to_ushort_be :: "int \<Rightarrow> merr + string" where "to_ushort_be = pack_u True 2"
definition to_int_le :: "int \<Rightarrow> merr + string" where "to_int_le = pack_s False 4"
definition to_uint_le :: "int \<Rightarrow> merr + string" where "to_uint_le = pack_u False 4"
definition to_int_be :: "int \<Rightarrow> merr + string" where "to_int_be = pack_s True 4"
definition to_uint_be :: "int \<Rightarrow> merr + string" where "to_uint_be = pack_u True 4"
definition to_longlong_le :: "int \<Rightarrow> merr + string" where "to_longlong_le = pack_s False 8"
definition to_ulonglong_le :: "int \<Rightarrow> merr + string" where "to_ulonglong_le = pack_u False 8"
definition to_longlong_be :: "int \<Rightarrow> merr + string" where "to_longlong_be = pack_s True 8"
definition to_ulonglong_be :: "int \<Rightarrow> merr + string" where "to_ulonglong_be = pack_u True 8"

definition bitswap :: string where
  "bitswap = map (\<lambda>val. chr (sum_list (map (\<lambda>i. push_bit (7 - i) (drop_bit i val AND 1)) [0..<8])))
     [0..<256]"

definition test_bit :: "int \<Rightarrow> nat \<Rightarrow> bool" where
  "test_bit value n \<longleftrightarrow> drop_bit n value AND 1 \<noteq> 0"

section \<open>dict_match\<close>

text \<open>
  \<open>fnmatchcase\<close> is \<open>fnmatch\<close> without case normalisation, which does nothing on POSIX. \<open>None\<close> is
  the exception of a pattern whose regular expression is invalid.
\<close>

fun dict_match_items :: "(string \<times> 'v) list \<Rightarrow> string \<Rightarrow> 'v \<Rightarrow> 'v option" where
  "dict_match_items [] key dflt = Some dflt"
| "dict_match_items ((pattern, value) # d) key dflt =
     (case fnmatch key pattern of
        None \<Rightarrow> None
      | Some True \<Rightarrow> Some value
      | Some False \<Rightarrow> dict_match_items d key dflt)"

definition dict_match :: "(string \<times> 'v) list \<Rightarrow> string \<Rightarrow> 'v \<Rightarrow> 'v option" where
  "dict_match d key dflt =
     (case map_of d key of Some v \<Rightarrow> Some v | None \<Rightarrow> dict_match_items d key dflt)"

end
