(* ===== verification/Mut_File.thy ===== *)
theory Mut_File
  imports Mut_Util
begin

text \<open>
  Files, and the two functions of \<open>mutagen/_util.py\<close> that make room in them and close it again.

  An open file is its bytes and its position, with the operations of a Python file object opened
  for update: reading stops at the end, writing past it fills with zero bytes, truncation leaves
  the position alone, seeking before the start raises. Disk errors are not modelled, nor are
  the advisory locks around the slow path, which change no byte.

  \<open>mmap\<close> is not source: whether mapping works is a parameter of both functions, and when it does
  \<open>move\<close> copies within the file as \<open>memmove\<close>, raising \<open>ValueError\<close> out of range, as documented.
\<close>

section \<open>File objects\<close>

record fobj =
  fbytes :: string
  fpos :: nat

definition open_file :: "string \<Rightarrow> fobj" where
  "open_file data = \<lparr>fbytes = data, fpos = 0\<rparr>"

definition seek_set :: "int \<Rightarrow> fobj \<Rightarrow> merr + fobj" where
  "seek_set off f = (if off < 0 then Inl IOError else Inr (f\<lparr>fpos := nat off\<rparr>))"

definition seek_cur :: "int \<Rightarrow> fobj \<Rightarrow> merr + fobj" where
  "seek_cur off f = seek_set (int (fpos f) + off) f"

definition seek_end :: "int \<Rightarrow> fobj \<Rightarrow> merr + fobj" where
  "seek_end off f = seek_set (int (length (fbytes f)) + off) f"

text \<open>\<open>read(n)\<close>; a negative \<open>n\<close> reads everything.\<close>

definition f_read :: "int \<Rightarrow> fobj \<Rightarrow> string \<times> fobj" where
  "f_read n f =
     (let rest = drop (fpos f) (fbytes f);
          data = if n < 0 then rest else take (nat n) rest
      in (data, f\<lparr>fpos := fpos f + length data\<rparr>))"

definition f_write :: "string \<Rightarrow> fobj \<Rightarrow> fobj" where
  "f_write s f =
     (if s = [] then f
      else f\<lparr>fbytes := take (fpos f) (fbytes f) @ replicate (fpos f - length (fbytes f)) (CHR 0x00)
                        @ s @ drop (fpos f + length s) (fbytes f),
             fpos := fpos f + length s\<rparr>)"

definition f_truncate :: "nat \<Rightarrow> fobj \<Rightarrow> fobj" where
  "f_truncate n f =
     f\<lparr>fbytes := take n (fbytes f) @ replicate (n - length (fbytes f)) (CHR 0x00)\<rparr>"

text \<open>\<open>memmove\<close> inside a mapped file.\<close>

definition mem_move :: "nat \<Rightarrow> nat \<Rightarrow> nat \<Rightarrow> string \<Rightarrow> string" where
  "mem_move dest src count bs = take dest bs @ take count (drop src bs) @ drop (dest + count) bs"

definition mmap_move :: "int \<Rightarrow> int \<Rightarrow> int \<Rightarrow> fobj \<Rightarrow> merr + fobj" where
  "mmap_move dest src count f =
     (if dest < 0 \<or> src < 0 \<or> count < 0 \<or> src + count > int (length (fbytes f))
         \<or> dest + count > int (length (fbytes f)) then Inl ValueError
      else Inr (f\<lparr>fbytes := mem_move (nat dest) (nat src) (nat count) (fbytes f)\<rparr>))"

section \<open>insert_bytes\<close>

definition BUFFER_SIZE :: nat where
  "BUFFER_SIZE = 2 ^ 16"

lemma BUFFER_SIZE_pos [simp]: "0 < BUFFER_SIZE" "BUFFER_SIZE \<noteq> 0"
  by (simp_all add: BUFFER_SIZE_def)

function pad_loop :: "nat \<Rightarrow> fobj \<Rightarrow> fobj" where
  "pad_loop padsize f =
     (if padsize = 0 then f
      else let addsize = min BUFFER_SIZE padsize
           in pad_loop (padsize - addsize) (f_write (replicate addsize (CHR 0x00)) f))"
  by pat_completeness auto
termination
  by (relation "measure fst") auto

declare pad_loop.simps [simp del]

function move_loop :: "nat \<Rightarrow> int \<Rightarrow> fobj \<Rightarrow> merr + fobj" where
  "move_loop sz movesize f =
     (if movesize = 0 then Inr f
      else let thismove = min (int BUFFER_SIZE) movesize
           in bindR (seek_cur (- thismove) f) (\<lambda>f.
                let nextpos = fpos f; (data, f) = f_read thismove f
                in bindR (seek_cur (- thismove + int sz) f) (\<lambda>f.
                     bindR (seek_set (int nextpos) (f_write data f)) (\<lambda>f.
                       move_loop sz (movesize - thismove) f))))"
  by pat_completeness auto
termination
  by (relation "measure (\<lambda>(sz, movesize, f). nat \<bar>movesize\<bar>)") (auto simp: BUFFER_SIZE_def)

declare move_loop.simps [simp del]

definition insert_bytes :: "bool \<Rightarrow> fobj \<Rightarrow> int \<Rightarrow> int \<Rightarrow> merr + fobj" where
  "insert_bytes mmap_works f sz offset =
     (if \<not> 0 < sz \<or> \<not> 0 \<le> offset then Inl AssertionError
      else bindR (seek_end 0 f) (\<lambda>f.
        let filesize = fpos f;
            movesize = int filesize - offset;
            f = f_write (replicate (nat sz) (CHR 0x00)) f
        in case (if mmap_works then mmap_move (offset + sz) offset movesize f
                 else Inl ValueError) of
             Inr f \<Rightarrow> Inr f
           | Inl _ \<Rightarrow>
               bindR (seek_end 0 (f_truncate filesize f)) (\<lambda>f.
               bindR (seek_set (int filesize) (pad_loop (nat sz) f)) (\<lambda>f.
                 move_loop (nat sz) movesize f))))"

section \<open>delete_bytes\<close>

lemma length_f_write:
  "length (fbytes (f_write s f)) =
     (if s = [] then length (fbytes f) else max (length (fbytes f)) (fpos f + length s))"
  by (auto simp: f_write_def)

function shift_loop :: "nat \<Rightarrow> nat \<Rightarrow> string \<Rightarrow> fobj \<Rightarrow> fobj" where
  "shift_loop sz offset buf f =
     (if buf = [] then f
      else let f = f_write buf (f\<lparr>fpos := offset\<rparr>);
               offset = offset + length buf;
               (buf, f) = f_read (int BUFFER_SIZE) (f\<lparr>fpos := offset + sz\<rparr>)
           in shift_loop sz offset buf f)"
  by pat_completeness auto
termination
  by (relation "measure (\<lambda>(sz, offset, buf, f).
        if buf = [] then 0 else Suc (length (fbytes f) - offset))")
    (auto simp: f_read_def Let_def length_f_write simp flip: length_greater_0_conv)

declare shift_loop.simps [simp del]

definition delete_bytes :: "bool \<Rightarrow> fobj \<Rightarrow> int \<Rightarrow> int \<Rightarrow> merr + fobj" where
  "delete_bytes mmap_works f sz offset =
     (if \<not> 0 < sz \<or> \<not> 0 \<le> offset then Inl AssertionError
      else bindR (seek_end 0 f) (\<lambda>f.
        let filesize = fpos f;
            movesize = int filesize - offset - sz
        in if movesize < 0 then Inl AssertionError
           else let f = (if movesize > 0 then
                           (case (if mmap_works then mmap_move offset (offset + sz) movesize f
                                  else Inl ValueError) of
                              Inr f \<Rightarrow> f
                            | Inl _ \<Rightarrow>
                                let (buf, f) = f_read (int BUFFER_SIZE)
                                                 (f\<lparr>fpos := nat (offset + sz)\<rparr>)
                                in shift_loop (nat sz) (nat offset) buf f)
                         else f)
                in Inr (f_truncate (nat (int filesize - sz)) f)))"

section \<open>What they do to the bytes\<close>

lemma pad_loop_bytes:
  "fpos f = length (fbytes f) \<Longrightarrow>
     fbytes (pad_loop n f) = fbytes f @ replicate n (CHR 0x00)
   \<and> fpos (pad_loop n f) = length (fbytes f) + n"
proof (induction n f rule: pad_loop.induct)
  case (1 n f)
  show ?case
  proof (cases "n = 0")
    case True
    then show ?thesis using 1 by (subst (1 2) pad_loop.simps) simp
  next
    case False
    let ?k = "min BUFFER_SIZE n"
    let ?f = "f_write (replicate ?k (CHR 0x00)) f"
    have k: "?k \<noteq> 0" using False by (simp add: BUFFER_SIZE_def)
    then have f: "fbytes ?f = fbytes f @ replicate ?k (CHR 0x00)"
      "fpos ?f = length (fbytes f) + ?k"
      using "1.prems" by (auto simp: f_write_def)
    then have "fpos ?f = length (fbytes ?f)" by simp
    from "1.IH" [OF False refl this] show ?thesis using False f
      by (subst (1 2) pad_loop.simps) (simp add: Let_def replicate_add [symmetric])
  qed
qed

text \<open>
  The slow path moves a block from the end of the unmoved part, so the bytes it has still to read
  are never overwritten: \<open>done\<close> is the part already in place.
\<close>

lemma move_loop_bytes:
  "fbytes f = xs @ ys @ hole @ moved \<Longrightarrow> length hole = sz \<Longrightarrow>
     fpos f = length xs + length ys \<Longrightarrow> n = int (length ys) \<Longrightarrow>
     \<exists>f'. move_loop sz n f = Inr f'
        \<and> fbytes f' = xs @ take sz (ys @ hole) @ ys @ moved"
proof (induction sz n f arbitrary: ys hole moved rule: move_loop.induct)
  case (1 sz n f)
  show ?case
  proof (cases "n = 0")
    case True
    then show ?thesis using "1.prems" by (subst move_loop.simps) simp
  next
    case False
    define k where "k = min BUFFER_SIZE (length ys)"
    define us where "us = take (length ys - k) ys"
    define vs where "vs = drop (length ys - k) ys"
    have ys: "ys = us @ vs" and lv: "length vs = k" and lu: "length us = length ys - k"
      by (simp_all add: us_def vs_def k_def)
    have k0: "0 < k" "k \<le> length ys" using False "1.prems" by (auto simp: k_def)
    have mk: "min (int BUFFER_SIZE) n = int k" using "1.prems" by (simp add: k_def)
    define f1 where "f1 = f\<lparr>fpos := length xs + length us\<rparr>"
    have s1: "seek_cur (- int k) f = Inr f1"
      using "1.prems" k0 lu by (simp add: seek_cur_def seek_set_def f1_def nat_diff_distrib
          nat_add_distrib algebra_simps flip: of_nat_add of_nat_diff)
    define f2 where "f2 = f\<lparr>fpos := length xs + length us + k\<rparr>"
    have r: "f_read (int k) f1 = (vs, f2)"
      using "1.prems" by (simp add: f_read_def f1_def f2_def ys lv Let_def)
    define f3 where "f3 = f\<lparr>fpos := length xs + length us + sz\<rparr>"
    have s2: "seek_cur (- int k + int sz) f2 = Inr f3"
      by (simp add: seek_cur_def seek_set_def f2_def f3_def nat_add_distrib
          flip: of_nat_add)
    define f4 where "f4 = (f_write vs f3)\<lparr>fpos := length xs + length us\<rparr>"
    have s3: "seek_set (int (fpos f1)) (f_write vs f3) = Inr f4"
      by (simp add: seek_set_def f4_def f1_def)
    have b4: "fbytes f4 = xs @ us @ take sz (vs @ hole) @ vs @ moved"
    proof -
      have "vs \<noteq> []" using lv k0 by auto
      moreover have "length xs + length us + sz \<le> length (fbytes f)"
        using "1.prems" ys by simp
      ultimately show ?thesis using "1.prems" lv
        by (simp add: f4_def f3_def f_write_def ys)
    qed
    have run: "move_loop sz n f = move_loop sz (n - int k) f4"
      using False mk s1 r s2 s3
      by (subst move_loop.simps) (simp add: Let_def f1_def)
    have "\<exists>f'. move_loop sz (n - min (int BUFFER_SIZE) n) f4 = Inr f'
        \<and> fbytes f' = xs @ take sz (us @ take sz (vs @ hole)) @ us @ vs @ moved"
    proof (rule "1.IH" [OF False refl refl refl prod.collapse b4])
      show "length (take sz (vs @ hole)) = sz" using "1.prems" by simp
      show "fpos f4 = length xs + length us" by (simp add: f4_def)
      show "n - min (int BUFFER_SIZE) n = int (length us)"
        using mk "1.prems" lu k0 by simp
    qed
    moreover have "take sz (us @ take sz (vs @ hole)) = take sz (ys @ hole)"
      by (auto simp: ys min_def)
    ultimately show ?thesis unfolding run mk by (simp add: ys)
  qed
qed

text \<open>\<open>opened sz offset data\<close>: the bytes after \<open>insert_bytes\<close>.\<close>

definition opened :: "nat \<Rightarrow> nat \<Rightarrow> string \<Rightarrow> string" where
  "opened sz offset data =
     take offset data @ take sz (drop offset data @ replicate sz (CHR 0x00)) @ drop offset data"

definition closed :: "nat \<Rightarrow> nat \<Rightarrow> string \<Rightarrow> string" where
  "closed sz offset data = take offset data @ drop (offset + sz) data"

lemma insert_bytes_opened:
  assumes "0 < sz" "offset \<le> length (fbytes f)"
  shows "\<exists>f'. insert_bytes mmap_works f (int sz) (int offset) = Inr f'
            \<and> fbytes f' = opened sz offset (fbytes f)"
proof -
  define d where "d = fbytes f"
  define f1 where "f1 = f\<lparr>fpos := length d\<rparr>"
  define f2 where "f2 = f_write (replicate sz (CHR 0x00)) f1"
  have s: "seek_end 0 f = Inr f1" by (simp add: seek_end_def seek_set_def f1_def d_def)
  have f2: "fbytes f2 = d @ replicate sz (CHR 0x00)"
    using assms by (simp add: f2_def f1_def f_write_def d_def)
  have move: "int (length d) - int offset = int (length d - offset)"
    using assms by (simp add: d_def)
  show ?thesis
  proof (cases mmap_works)
    case True
    have "mmap_move (int offset + int sz) (int offset) (int (length d) - int offset) f2
        = Inr (f2\<lparr>fbytes := opened sz offset d\<rparr>)"
      using assms by (simp add: mmap_move_def f2 mem_move_def opened_def d_def
          flip: of_nat_add of_nat_diff) (simp add: take_add)
    then show ?thesis using True assms s
      by (simp add: insert_bytes_def Let_def f1_def f2_def flip: d_def)
  next
    case False
    define f3 where "f3 = (f_truncate (length d) f2)\<lparr>fpos := length d\<rparr>"
    have f3: "fbytes f3 = d" "fpos f3 = length (fbytes f3)"
      by (simp_all add: f3_def f_truncate_def f2)
    have s2: "seek_end 0 (f_truncate (length d) f2) = Inr f3"
      by (simp add: seek_end_def seek_set_def f3_def f_truncate_def f2)
    define f4 where "f4 = (pad_loop sz f3)\<lparr>fpos := length d\<rparr>"
    have s3: "seek_set (int (length d)) (pad_loop sz f3) = Inr f4"
      by (simp add: seek_set_def f4_def)
    have "fbytes f4 = take offset d @ drop offset d @ replicate sz (CHR 0x00) @ []"
      using pad_loop_bytes [OF f3(2)] by (simp add: f4_def f3)
    from move_loop_bytes [OF this, of sz "int (length d) - int offset"]
    obtain f' where "move_loop sz (int (length d) - int offset) f4 = Inr f'"
      "fbytes f' = opened sz offset d"
      using assms by (auto simp: f4_def d_def opened_def move)
    then show ?thesis using False assms s s2 s3
      by (simp add: insert_bytes_def Let_def f1_def f2_def flip: d_def)
  qed
qed

text \<open>The loop of \<open>delete_bytes\<close>: the bytes before the position are done, the rest is to come.\<close>

lemma shift_loop_bytes:
  "0 < sz \<Longrightarrow> fbytes f = xs @ gap @ buf @ ys \<Longrightarrow> length gap = sz \<Longrightarrow> offset = length xs \<Longrightarrow>
     (buf = [] \<Longrightarrow> ys = []) \<Longrightarrow>
     take (length xs + length buf + length ys) (fbytes (shift_loop sz offset buf f)) = xs @ buf @ ys
   \<and> length (fbytes (shift_loop sz offset buf f)) = length (fbytes f)"
proof (induction sz offset buf f arbitrary: xs gap ys rule: shift_loop.induct)
  case (1 sz offset buf f)
  show ?case
  proof (cases "buf = []")
    case True
    then show ?thesis using "1.prems" by (subst (1 2) shift_loop.simps) simp
  next
    case False
    define f1 where "f1 = f_write buf (f\<lparr>fpos := offset\<rparr>)"
    define gap' where "gap' = drop (length buf) (gap @ buf)"
    have f1: "fbytes f1 = (xs @ buf) @ gap' @ ys"
      using "1.prems" False by (simp add: f1_def f_write_def gap'_def)
    define buf' where "buf' = take BUFFER_SIZE ys"
    define ys' where "ys' = drop BUFFER_SIZE ys"
    obtain f2 where r: "f_read (int BUFFER_SIZE) (f1\<lparr>fpos := offset + length buf + sz\<rparr>) = (buf', f2)"
      and f2: "fbytes f2 = (xs @ buf) @ gap' @ buf' @ ys'"
      using f1 "1.prems" by (simp add: f_read_def Let_def buf'_def ys'_def gap'_def)
    have run: "shift_loop sz offset buf f = shift_loop sz (offset + length buf) buf' f2"
      using False r by (subst shift_loop.simps) (simp add: Let_def f1_def)
    have "take (length (xs @ buf) + length buf' + length ys')
             (fbytes (shift_loop sz (offset + length buf) buf' f2)) = (xs @ buf) @ buf' @ ys'
        \<and> length (fbytes (shift_loop sz (offset + length buf) buf' f2)) = length (fbytes f2)"
    proof (rule "1.IH" [OF False f1_def refl refl r [symmetric] "1.prems"(1) f2])
      show "buf' = [] \<Longrightarrow> ys' = []" by (auto simp: buf'_def ys'_def)
    qed (use "1.prems" in \<open>auto simp: gap'_def\<close>)
    moreover have "buf' @ ys' = ys" "length buf' + length ys' = length ys"
      by (simp_all add: buf'_def ys'_def)
    moreover have "length (fbytes f2) = length (fbytes f)"
      using f2 "1.prems" \<open>buf' @ ys' = ys\<close> by (simp add: gap'_def)
    ultimately show ?thesis by (simp add: run add.assoc)
  qed
qed

lemma delete_bytes_closed:
  assumes "0 < sz" "offset + sz \<le> length (fbytes f)"
  shows "\<exists>f'. delete_bytes mmap_works f (int sz) (int offset) = Inr f'
            \<and> fbytes f' = closed sz offset (fbytes f)"
proof -
  define d where "d = fbytes f"
  define f1 where "f1 = f\<lparr>fpos := length d\<rparr>"
  have s: "seek_end 0 f = Inr f1" by (simp add: seek_end_def seek_set_def f1_def d_def)
  have move: "int (length d) - int offset - int sz = int (length d - (offset + sz))"
    "int (length d) - int sz = int (length d - sz)"
    "int offset + int sz = int (offset + sz)"
    using assms by (simp_all add: d_def)
  define rest where "rest = drop (offset + sz) d"
  have d: "d = take offset d @ take sz (drop offset d) @ rest"
    by (metis append_take_drop_id drop_drop add.commute rest_def)
  define res where "res = (if 0 < int (length d - (offset + sz)) then
      (case (if mmap_works then mmap_move (int offset) (int (offset + sz))
                                  (int (length d - (offset + sz))) f1 else Inl ValueError) of
         Inr f \<Rightarrow> f
       | Inl _ \<Rightarrow> let (buf, f) = f_read (int BUFFER_SIZE) (f1\<lparr>fpos := offset + sz\<rparr>)
                  in shift_loop sz offset buf f)
      else f1)"
  have res: "take (length d - sz) (fbytes res) = closed sz offset d \<and> length (fbytes res) = length d"
  proof (cases "length d - (offset + sz) = 0")
    case True
    then have "length d = offset + sz" using assms by (simp add: d_def)
    then show ?thesis by (simp add: res_def f1_def closed_def d_def)
  next
    case False
    show ?thesis
    proof (cases mmap_works)
      case True
      then show ?thesis using False assms
        by (simp add: res_def mmap_move_def f1_def mem_move_def closed_def flip: d_def of_nat_add)
    next
      case slow: False
      define buf where "buf = take BUFFER_SIZE rest"
      obtain f2 where r: "f_read (int BUFFER_SIZE) (f1\<lparr>fpos := offset + sz\<rparr>) = (buf, f2)"
        and f2: "fbytes f2 = d"
        by (simp add: f_read_def Let_def buf_def rest_def f1_def d_def)
      have b: "buf @ drop BUFFER_SIZE rest = rest" by (simp add: buf_def)
      then have "fbytes f2 = take offset d @ take sz (drop offset d) @ buf @ drop BUFFER_SIZE rest"
        using d f2 by simp
      moreover have len: "offset + length buf + (length rest - BUFFER_SIZE) = offset + length rest"
        by (simp add: buf_def min_def)
      moreover have "buf = [] \<Longrightarrow> drop BUFFER_SIZE rest = []" by (simp add: buf_def)
      ultimately
      have "take (offset + length rest) (fbytes (shift_loop sz offset buf f2)) = take offset d @ rest
          \<and> length (fbytes (shift_loop sz offset buf f2)) = length d"
        using shift_loop_bytes [OF assms(1), of f2 "take offset d" "take sz (drop offset d)" buf
            "drop BUFFER_SIZE rest" offset] assms b f2 len by (simp add: d_def)
      moreover have "offset + length rest = length d - sz"
        using assms by (simp add: rest_def d_def)
      ultimately show ?thesis using False slow r
        by (simp add: res_def closed_def rest_def)
    qed
  qed
  have fp: "fpos f1 = length d" "nat (int offset + int sz) = offset + sz"
    "\<not> int (length d) - int offset < int sz"
    using assms by (simp_all add: f1_def d_def)
  have "delete_bytes mmap_works f (int sz) (int offset) = Inr (f_truncate (length d - sz) res)"
    using assms s
    by (simp add: delete_bytes_def fp res_def Let_def move del: of_nat_add of_nat_diff split: sum.split)
  then show ?thesis using res by (simp add: f_truncate_def flip: d_def)
qed

lemma insert_bytes_asserts:
  "\<not> (0 < sz \<and> 0 \<le> offset) \<Longrightarrow> insert_bytes mmap_works f sz offset = Inl AssertionError"
  by (auto simp: insert_bytes_def)

lemma delete_bytes_asserts:
  "\<not> (0 < sz \<and> 0 \<le> offset \<and> offset + sz \<le> int (length (fbytes f))) \<Longrightarrow>
     delete_bytes mmap_works f sz offset = Inl AssertionError"
  by (auto simp: delete_bytes_def seek_end_def seek_set_def Let_def)

lemma closed_opened: "offset \<le> length d \<Longrightarrow> closed sz offset (opened sz offset d) = d"
  by (simp add: closed_def opened_def)

lemma length_opened: "offset \<le> length d \<Longrightarrow> length (opened sz offset d) = length d + sz"
  by (simp add: opened_def)

text \<open>Reading at a known place.\<close>

lemma f_read_here:
  assumes "drop (fpos f) (fbytes f) = s @ t" "n = length s"
  shows "f_read (int n) f = (s, f\<lparr>fpos := fpos f + n\<rparr>)"
    "drop (fpos (f\<lparr>fpos := fpos f + n\<rparr>)) (fbytes (f\<lparr>fpos := fpos f + n\<rparr>)) = t"
proof -
  have "drop n (drop (fpos f) (fbytes f)) = t" using assms by simp
  then show "drop (fpos (f\<lparr>fpos := fpos f + n\<rparr>)) (fbytes (f\<lparr>fpos := fpos f + n\<rparr>)) = t"
    by (simp add: add.commute)
qed (use assms in \<open>simp add: f_read_def\<close>)

end
