(* ===== verification/Mut_Codec.thy ===== *)
theory Mut_Codec
  imports Mut_File
begin

text \<open>
  The text encodings the frame fields use, from Python's standard library: \<open>latin1\<close>, \<open>utf16\<close>
  (with a byte order mark), \<open>utf_16_be\<close> and \<open>utf8\<close>, strict, as Python 2 implements them.

  A unicode string is the list of its code points (a wide build). As in Python 2, \<open>utf8\<close> accepts
  encoded surrogates and joins a pair of them on encoding, and the \<open>utf16\<close> encoders write lone
  surrogates as they are, which the decoders refuse.
\<close>

type_synonym unicode = "nat list"

definition high_surrogate :: "nat \<Rightarrow> bool" where
  "high_surrogate u \<longleftrightarrow> 0xD800 \<le> u \<and> u < 0xDC00"

definition low_surrogate :: "nat \<Rightarrow> bool" where
  "low_surrogate u \<longleftrightarrow> 0xDC00 \<le> u \<and> u < 0xE000"

definition join_surrogates :: "nat \<Rightarrow> nat \<Rightarrow> nat" where
  "join_surrogates u v = (u - 0xD800) * 0x400 + (v - 0xDC00) + 0x10000"

text \<open>The code points every encoding but \<open>latin1\<close> can carry.\<close>

definition scalar :: "nat \<Rightarrow> bool" where
  "scalar cp \<longleftrightarrow> cp < 0x110000 \<and> \<not> high_surrogate cp \<and> \<not> low_surrogate cp"

section \<open>latin1\<close>

definition latin1_decode :: "string \<Rightarrow> unicode" where
  "latin1_decode data = map ord data"

definition latin1_encode :: "unicode \<Rightarrow> merr + string" where
  "latin1_encode u = (if list_all (\<lambda>cp. cp < 256) u then Inr (map chr u) else Inl UnicodeEncodeError)"

text \<open>\<open>u.encode('latin1', 'replace')\<close> and ASCII text, for the implicit conversions.\<close>

definition latin1_encode_replace :: "unicode \<Rightarrow> string" where
  "latin1_encode_replace u = map (\<lambda>cp. if cp < 256 then chr cp else CHR ''?'') u"

definition ascii_decode :: "string \<Rightarrow> merr + unicode" where
  "ascii_decode s =
     (if list_all (\<lambda>c. ord c < 128) s then Inr (map ord s) else Inl UnicodeDecodeError)"

lemma latin1_decode_encode: "latin1_encode (latin1_decode s) = Inr s"
  by (simp add: latin1_encode_def latin1_decode_def comp_def list_all_iff)

lemma latin1_encode_decode: "latin1_encode u = Inr s \<Longrightarrow> latin1_decode s = u"
  by (auto simp: latin1_encode_def latin1_decode_def list_all_iff intro!: map_idI split: if_splits)

section \<open>utf16\<close>

definition utf16_unit :: "bool \<Rightarrow> nat \<Rightarrow> string" where
  "utf16_unit big u =
     (if big then [chr (u div 256), chr (u mod 256)] else [chr (u mod 256), chr (u div 256)])"

definition utf16_char :: "bool \<Rightarrow> nat \<Rightarrow> string" where
  "utf16_char big cp =
     (if cp < 0x10000 then utf16_unit big cp
      else utf16_unit big (0xD800 + (cp - 0x10000) div 0x400)
           @ utf16_unit big (0xDC00 + (cp - 0x10000) mod 0x400))"

definition utf16_enc :: "bool \<Rightarrow> unicode \<Rightarrow> string" where
  "utf16_enc big u = concat (map (utf16_char big) u)"

definition unit_of :: "bool \<Rightarrow> char \<Rightarrow> char \<Rightarrow> nat" where
  "unit_of big a b = (if big then 256 * ord a + ord b else ord a + 256 * ord b)"

fun utf16_dec :: "bool \<Rightarrow> string \<Rightarrow> merr + unicode" where
  "utf16_dec big [] = Inr []"
| "utf16_dec big [a] = Inl UnicodeDecodeError"
| "utf16_dec big [a, b] =
     (let u = unit_of big a b
      in if high_surrogate u \<or> low_surrogate u then Inl UnicodeDecodeError else Inr [u])"
| "utf16_dec big [a, b, c] = Inl UnicodeDecodeError"
| "utf16_dec big (a # b # c # d # rest) =
     (let u = unit_of big a b; v = unit_of big c d
      in if high_surrogate u then
           (if low_surrogate v then
              bindR (utf16_dec big rest) (\<lambda>us. Inr (join_surrogates u v # us))
            else Inl UnicodeDecodeError)
         else if low_surrogate u then Inl UnicodeDecodeError
         else bindR (utf16_dec big (c # d # rest)) (\<lambda>us. Inr (u # us)))"

definition utf16_encode :: "unicode \<Rightarrow> string" where
  "utf16_encode u = [CHR 0xFF, CHR 0xFE] @ utf16_enc False u"

definition utf16_decode :: "string \<Rightarrow> merr + unicode" where
  "utf16_decode data =
     (if take 2 data = [CHR 0xFF, CHR 0xFE] then utf16_dec False (drop 2 data)
      else if take 2 data = [CHR 0xFE, CHR 0xFF] then utf16_dec True (drop 2 data)
      else utf16_dec False data)"

lemma utf16_unit_shape:
  "u < 0x10000 \<Longrightarrow> \<exists>a b. utf16_unit big u = [a, b] \<and> unit_of big a b = u"
  by (cases big) (auto simp: utf16_unit_def unit_of_def)

lemma utf16_dec_unit:
  assumes "unit_of big a b = u" "\<not> high_surrogate u" "\<not> low_surrogate u" "even (length rest)"
  shows "utf16_dec big (a # b # rest) = bindR (utf16_dec big rest) (\<lambda>us. Inr (u # us))"
proof (cases rest)
  case Nil
  then show ?thesis using assms by (simp add: Let_def)
next
  case (Cons c rs)
  then obtain d rs' where "rest = c # d # rs'" using assms(4) by (cases rs) auto
  then show ?thesis using assms by (simp add: Let_def)
qed

lemma length_utf16_unit [simp]: "length (utf16_unit big u) = 2"
  by (simp add: utf16_unit_def)

lemma even_utf16_char [simp]: "even (length (utf16_char big cp))"
  by (simp add: utf16_char_def)

lemma even_utf16_enc [simp]: "even (length (utf16_enc big u))"
  by (induction u) (simp_all add: utf16_enc_def)

lemma utf16_dec_char:
  assumes "scalar cp" "even (length rest)"
  shows "utf16_dec big (utf16_char big cp @ rest) = bindR (utf16_dec big rest) (\<lambda>us. Inr (cp # us))"
proof (cases "cp < 0x10000")
  case True
  then obtain a b where ab: "utf16_unit big cp = [a, b]" "unit_of big a b = cp"
    using utf16_unit_shape by blast
  then show ?thesis using True assms utf16_dec_unit [of big a b cp rest]
    by (simp add: utf16_char_def scalar_def)
next
  case False
  define q where "q = (cp - 0x10000) div 0x400"
  define r where "r = (cp - 0x10000) mod 0x400"
  have q: "q < 0x400" "r < 0x400" and cp: "cp = 0x10000 + q * 0x400 + r"
    using assms False by (auto simp: q_def r_def scalar_def div_less_iff_less_mult)
  obtain a b where ab: "utf16_unit big (0xD800 + q) = [a, b]" "unit_of big a b = 0xD800 + q"
    using utf16_unit_shape [of "0xD800 + q" big] q by auto
  obtain c d where cd: "utf16_unit big (0xDC00 + r) = [c, d]" "unit_of big c d = 0xDC00 + r"
    using utf16_unit_shape [of "0xDC00 + r" big] q by auto
  have "utf16_char big cp = [a, b, c, d]"
    using False ab cd by (simp add: utf16_char_def q_def r_def)
  then show ?thesis using ab cd q
    by (simp add: Let_def high_surrogate_def low_surrogate_def join_surrogates_def cp algebra_simps)
qed

lemma utf16_dec_enc: "list_all scalar u \<Longrightarrow> utf16_dec big (utf16_enc big u) = Inr u"
proof (induction u)
  case (Cons cp u)
  have "utf16_enc big (cp # u) = utf16_char big cp @ utf16_enc big u"
    by (simp add: utf16_enc_def)
  then show ?case using Cons utf16_dec_char [of cp "utf16_enc big u" big] by simp
qed (simp add: utf16_enc_def)

lemma utf16_decode_encode: "list_all scalar u \<Longrightarrow> utf16_decode (utf16_encode u) = Inr u"
  by (simp add: utf16_decode_def utf16_encode_def utf16_dec_enc)

section \<open>utf8\<close>

definition utf8_char :: "nat \<Rightarrow> string" where
  "utf8_char cp =
     (if cp < 0x80 then [chr cp]
      else if cp < 0x800 then [chr (0xC0 + cp div 64), chr (0x80 + cp mod 64)]
      else if cp < 0x10000 then
        [chr (0xE0 + cp div 4096), chr (0x80 + cp div 64 mod 64), chr (0x80 + cp mod 64)]
      else [chr (0xF0 + cp div 262144), chr (0x80 + cp div 4096 mod 64),
            chr (0x80 + cp div 64 mod 64), chr (0x80 + cp mod 64)])"

fun utf8_encode :: "unicode \<Rightarrow> string" where
  "utf8_encode [] = []"
| "utf8_encode [u] = utf8_char u"
| "utf8_encode (u # v # us) =
     (if high_surrogate u \<and> low_surrogate v then utf8_char (join_surrogates u v) @ utf8_encode us
      else utf8_char u @ utf8_encode (v # us))"

definition cont :: "char \<Rightarrow> bool" where
  "cont c \<longleftrightarrow> 0x80 \<le> ord c \<and> ord c < 0xC0"

text \<open>The first character of the data, with the number of bytes it takes.\<close>

definition utf8_first :: "string \<Rightarrow> (nat \<times> nat) option" where
  "utf8_first data =
     (case data of
        [] \<Rightarrow> None
      | a # r \<Rightarrow>
        (let x = ord a; b = (\<lambda>i. r ! i); y = (\<lambda>i. ord (r ! i) - 0x80)
         in if x < 0x80 then Some (x, 1)
            else if x < 0xC2 then None
            else if x < 0xE0 then
              (if 1 \<le> length r \<and> cont (b 0) then Some ((x - 0xC0) * 64 + y 0, 2) else None)
            else if x < 0xF0 then
              (if 2 \<le> length r \<and> cont (b 0) \<and> cont (b 1) \<and> \<not> (x = 0xE0 \<and> y 0 < 0x20)
               then Some ((x - 0xE0) * 4096 + y 0 * 64 + y 1, 3) else None)
            else if x < 0xF5 then
              (if 3 \<le> length r \<and> cont (b 0) \<and> cont (b 1) \<and> cont (b 2)
                  \<and> \<not> (x = 0xF0 \<and> y 0 < 0x10) \<and> \<not> (x = 0xF4 \<and> 0x0F < y 0)
               then Some ((x - 0xF0) * 262144 + y 0 * 4096 + y 1 * 64 + y 2, 4) else None)
            else None))"

lemma utf8_first_pos: "utf8_first data = Some (cp, n) \<Longrightarrow> 0 < n \<and> data \<noteq> []"
  by (auto simp: utf8_first_def Let_def split: list.splits if_splits)

function utf8_decode :: "string \<Rightarrow> merr + unicode" where
  "utf8_decode data =
     (if data = [] then Inr []
      else case utf8_first data of
        None \<Rightarrow> Inl UnicodeDecodeError
      | Some (cp, n) \<Rightarrow> bindR (utf8_decode (drop n data)) (\<lambda>us. Inr (cp # us)))"
  by pat_completeness auto
termination
  by (relation "measure length") (auto dest: utf8_first_pos)

declare utf8_decode.simps [simp del]

lemma utf8_first_char:
  assumes "cp < 0x110000"
  shows "utf8_first (utf8_char cp @ rest) = Some (cp, length (utf8_char cp))"
proof -
  consider "cp < 0x80" | "0x80 \<le> cp" "cp < 0x800" | "0x800 \<le> cp" "cp < 0x10000"
    | "0x10000 \<le> cp" by linarith
  then show ?thesis
  proof cases
    case 1
    then show ?thesis by (simp add: utf8_char_def utf8_first_def Let_def)
  next
    case 2
    define x y where "x = cp div 64" and "y = cp mod 64"
    have c: "cp = x * 64 + y" "y < 64" "2 \<le> x" "x < 32"
      using 2 by (auto simp: x_def y_def div_less_iff_less_mult less_eq_div_iff_mult_less_eq)
    have "utf8_char cp = [chr (0xC0 + x), chr (0x80 + y)]"
      using 2 by (simp add: utf8_char_def x_def y_def)
    then show ?thesis using c by (simp add: utf8_first_def Let_def cont_def)
  next
    case 3
    define x y z where "x = cp div 4096" and "y = cp div 64 mod 64" and "z = cp mod 64"
    have d: "cp div 64 div 64 = cp div 4096" by (simp add: div_mult2_eq [symmetric])
    have e: "cp = x * 4096 + y * 64 + z"
      using div_mult_mod_eq [of cp 64] div_mult_mod_eq [of "cp div 64" 64]
      unfolding x_def y_def z_def d by linarith
    have b: "y < 64" "z < 64" by (simp_all add: y_def z_def)
    have x: "x < 16" "x = 0 \<Longrightarrow> 32 \<le> y" using 3 e b by linarith+
    note c = e b x
    have "utf8_char cp = [chr (0xE0 + x), chr (0x80 + y), chr (0x80 + z)]"
      using 3 by (simp add: utf8_char_def x_def y_def z_def)
    then show ?thesis using c by (auto simp: utf8_first_def Let_def cont_def)
  next
    case 4
    define x y z w where "x = cp div 262144" and "y = cp div 4096 mod 64"
      and "z = cp div 64 mod 64" and "w = cp mod 64"
    have d: "cp div 64 div 64 = cp div 4096" "cp div 4096 div 64 = cp div 262144"
      by (simp_all add: div_mult2_eq [symmetric])
    have c: "cp = x * 262144 + y * 4096 + z * 64 + w"
      using div_mult_mod_eq [of cp 64] div_mult_mod_eq [of "cp div 64" 64]
        div_mult_mod_eq [of "cp div 4096" 64]
      unfolding x_def y_def z_def w_def d by linarith
    have b: "y < 64" "z < 64" "w < 64" by (simp_all add: y_def z_def w_def)
    have x: "x < 5" "x = 0 \<Longrightarrow> 16 \<le> y" "x = 4 \<Longrightarrow> y \<le> 15"
      using 4 assms c b by linarith+
    have "utf8_char cp = [chr (0xF0 + x), chr (0x80 + y), chr (0x80 + z), chr (0x80 + w)]"
      using 4 by (simp add: utf8_char_def x_def y_def z_def w_def)
    then show ?thesis using c b x by (auto simp: utf8_first_def Let_def cont_def)
  qed
qed

lemma utf8_char_nonempty [simp]: "utf8_char cp \<noteq> []"
  by (simp add: utf8_char_def)

lemma utf8_decode_char:
  "cp < 0x110000 \<Longrightarrow>
     utf8_decode (utf8_char cp @ rest) = bindR (utf8_decode rest) (\<lambda>us. Inr (cp # us))"
  by (subst utf8_decode.simps) (simp add: utf8_first_char)

lemma utf8_encode_concat: "list_all scalar u \<Longrightarrow> utf8_encode u = concat (map utf8_char u)"
  by (induction u rule: utf8_encode.induct) (auto simp: scalar_def)

lemma utf8_decode_encode: "list_all scalar u \<Longrightarrow> utf8_decode (utf8_encode u) = Inr u"
proof (induction u)
  case Nil
  then show ?case by (simp add: utf8_decode.simps)
next
  case (Cons cp u)
  then have "cp < 0x110000" by (simp add: scalar_def)
  from utf8_decode_char [OF this, of "utf8_encode u"] Cons
  show ?case by (simp add: utf8_encode_concat)
qed

text \<open>Decoded text never holds surrogates in the \<open>utf16\<close> family, nor code points out of range.\<close>

lemma unit_of_bound: "unit_of big a b < 0x10000"
  using ord_less [of a] ord_less [of b] unfolding unit_of_def by (cases big; simp; linarith)

lemma utf16_dec_scalar: "utf16_dec big s = Inr u \<Longrightarrow> list_all scalar u"
proof (induction big s arbitrary: u rule: utf16_dec.induct)
  case (3 big a b)
  then show ?case using unit_of_bound [of big a b]
    by (auto simp: Let_def scalar_def split: if_splits)
next
  case (5 big a b c d rest)
  then show ?case using unit_of_bound [of big a b] unit_of_bound [of big c d]
    by (auto simp: Let_def scalar_def high_surrogate_def low_surrogate_def join_surrogates_def
        bindR_Inr_iff split: if_splits)
qed auto

end
