(* ===== verification/Mut_Specs.thy ===== *)
theory Mut_Specs
  imports Mut_Codec Complex_Main
begin

text \<open>
  \<open>mutagen/_id3specs.py\<close>: the field specifications of the tag frames, with their \<open>read\<close>, \<open>write\<close>,
  \<open>validate\<close> and \<open>_validate23\<close> methods.

  A frame object is its attributes (\<open>attrs\<close>); a specification reads and writes one attribute, and
  may look at others of the frame (the text fields at \<open>encoding\<close>, \<open>ASPIIndexSpec\<close> at \<open>b\<close> and
  \<open>N\<close>). The values are those the readers produce: \<open>None\<close>, integers, byte strings, unicode text,
  numbers with a fraction, time stamps, and lists (or tuples) of them. Numbers that Python holds
  as doubles are exact rationals. Where a method would convert a value of a kind no reader or
  \<open>validate\<close> produces (a list with \<open>str\<close>, say), the model raises \<open>TypeError\<close>.
\<close>

section \<open>Time stamps\<close>

record stamp =
  ts_year :: "nat option"
  ts_month :: "nat option"
  ts_day :: "nat option"
  ts_hour :: "nat option"
  ts_minute :: "nat option"
  ts_second :: "nat option"

text \<open>White space: of byte strings, and of unicode strings where \<open>int()\<close> strips it.\<close>

definition is_space_code :: "nat \<Rightarrow> bool" where
  "is_space_code cp \<longleftrightarrow> cp = 32 \<or> (9 \<le> cp \<and> cp \<le> 13)"

definition is_uspace_code :: "nat \<Rightarrow> bool" where
  "is_uspace_code cp \<longleftrightarrow> is_space_code cp \<or> (28 \<le> cp \<and> cp \<le> 31) \<or> cp = 133 \<or> cp = 160
     \<or> cp = 5760 \<or> cp = 6158 \<or> (8192 \<le> cp \<and> cp \<le> 8202) \<or> cp = 8232 \<or> cp = 8233 \<or> cp = 8239
     \<or> cp = 8287 \<or> cp = 12288"

fun digits_value :: "nat \<Rightarrow> nat list \<Rightarrow> nat option" where
  "digits_value acc [] = Some acc"
| "digits_value acc (d # ds) =
     (if 48 \<le> d \<and> d \<le> 57 then digits_value (10 * acc + (d - 48)) ds else None)"

text \<open>
  \<open>int(text)\<close> of a piece without \<open>-\<close>: white space around an optional \<open>+\<close> and ASCII digits
  (decimal digits of other scripts, which Python 2 also accepts, are not modelled).
\<close>

definition int_of_text :: "(nat \<Rightarrow> bool) \<Rightarrow> nat list \<Rightarrow> nat option" where
  "int_of_text space text =
     (let t = str_strip space text;
          ds = (if t \<noteq> [] \<and> hd t = 43 then tl t else t)
      in if ds = [] then None else digits_value 0 ds)"

text \<open>\<open>re.compile('[-T:/.]|\<backslash>s+').split\<close>.\<close>

definition is_stamp_sep :: "nat \<Rightarrow> bool" where
  "is_stamp_sep cp \<longleftrightarrow> cp \<in> {45, 84, 58, 47, 46}"

function stamp_split :: "nat list \<Rightarrow> nat list list" where
  "stamp_split [] = [[]]"
| "stamp_split (x # xs) =
     (if is_stamp_sep x then [] # stamp_split xs
      else if is_space_code x then [] # stamp_split (dropWhile is_space_code xs)
      else (case stamp_split xs of [] \<Rightarrow> [[x]] | y # ys \<Rightarrow> (x # y) # ys))"
  by pat_completeness auto
termination
  by (relation "measure length") (auto simp: length_dropWhile_le le_imp_less_Suc)

definition set_text :: "(nat \<Rightarrow> bool) \<Rightarrow> nat list \<Rightarrow> stamp" where
  "set_text space text =
     (let part = (\<lambda>i. int_of_text space (stamp_split (text @ replicate 5 58) ! i))
      in \<lparr>ts_year = part 0, ts_month = part 1, ts_day = part 2, ts_hour = part 3,
          ts_minute = part 4, ts_second = part 5\<rparr>)"

text \<open>\<open>'%0nd' % k\<close>.\<close>

definition zero_pad :: "nat \<Rightarrow> nat \<Rightarrow> string" where
  "zero_pad n k = replicate (n - length (nat_str k)) (CHR ''0'') @ nat_str k"

fun stamp_pieces :: "nat option list \<Rightarrow> (nat \<times> char) list \<Rightarrow> string" where
  "stamp_pieces (Some part # parts) ((width, sep) # formats) =
     zero_pad width part @ [sep] @ stamp_pieces parts formats"
| "stamp_pieces _ _ = []"

definition stamp_formats :: "(nat \<times> char) list" where
  "stamp_formats = [(4, CHR ''-''), (2, CHR ''-''), (2, CHR '' ''), (2, CHR '':''), (2, CHR '':''),
     (2, CHR ''x'')]"

definition get_text :: "stamp \<Rightarrow> string" where
  "get_text ts = butlast (stamp_pieces
     [ts_year ts, ts_month ts, ts_day ts, ts_hour ts, ts_minute ts, ts_second ts] stamp_formats)"

section \<open>Values and specifications\<close>

datatype fval =
    FNone | FInt int | FBytes string | FText unicode | FRat rat | FStamp stamp
  | FList "fval list"

type_synonym attrs = "(string \<times> fval) list"

definition getattr :: "attrs \<Rightarrow> string \<Rightarrow> merr + fval" where
  "getattr a name = (case map_of a name of None \<Rightarrow> Inl AttributeError | Some v \<Rightarrow> Inr v)"

definition setattr :: "attrs \<Rightarrow> string \<Rightarrow> fval \<Rightarrow> attrs" where
  "setattr a name v = AList.update name v a"

datatype spec =
    ByteSpec string | IntegerSpec string | SizedIntegerSpec string nat | EncodingSpec string
  | StringSpec string nat | BinaryDataSpec string | EncodedTextSpec string
  | EncodedNumericTextSpec string | EncodedNumericPartTextSpec string | Latin1TextSpec string
  | TimeStampSpec string | ChannelSpec string | VolumeAdjustmentSpec string
  | VolumePeakSpec string | SynchronizedTextSpec string | KeyEventSpec string
  | VolumeAdjustmentsSpec string | ASPIIndexSpec string
  | MultiSpec string "spec list" "nat option"

fun spec_name :: "spec \<Rightarrow> string" where
  "spec_name (ByteSpec n) = n"
| "spec_name (IntegerSpec n) = n"
| "spec_name (SizedIntegerSpec n _) = n"
| "spec_name (EncodingSpec n) = n"
| "spec_name (StringSpec n _) = n"
| "spec_name (BinaryDataSpec n) = n"
| "spec_name (EncodedTextSpec n) = n"
| "spec_name (EncodedNumericTextSpec n) = n"
| "spec_name (EncodedNumericPartTextSpec n) = n"
| "spec_name (Latin1TextSpec n) = n"
| "spec_name (TimeStampSpec n) = n"
| "spec_name (ChannelSpec n) = n"
| "spec_name (VolumeAdjustmentSpec n) = n"
| "spec_name (VolumePeakSpec n) = n"
| "spec_name (SynchronizedTextSpec n) = n"
| "spec_name (KeyEventSpec n) = n"
| "spec_name (VolumeAdjustmentsSpec n) = n"
| "spec_name (ASPIIndexSpec n) = n"
| "spec_name (MultiSpec n _ _) = n"

text \<open>\<open>isinstance(spec, EncodedTextSpec) and not isinstance(spec, TimeStampSpec)\<close>.\<close>

fun is_plain_text_spec :: "spec \<Rightarrow> bool" where
  "is_plain_text_spec (EncodedTextSpec _) = True"
| "is_plain_text_spec (EncodedNumericTextSpec _) = True"
| "is_plain_text_spec (EncodedNumericPartTextSpec _) = True"
| "is_plain_text_spec (Latin1TextSpec _) = True"
| "is_plain_text_spec (SynchronizedTextSpec _) = True"
| "is_plain_text_spec _ = False"

section \<open>Text fields\<close>

text \<open>
  \<open>_encodings[frame.encoding]\<close>: a tuple of four, indexed as Python does. The encodings are
  numbered as in the tuple.
\<close>

definition text_encoding :: "attrs \<Rightarrow> merr + nat" where
  "text_encoding a =
     bindR (getattr a ''encoding'') (\<lambda>v. case v of
       FInt i \<Rightarrow> (if 0 \<le> i \<and> i < 4 then Inr (nat i)
                 else if -4 \<le> i \<and> i < 0 then Inr (nat (i + 4))
                 else Inl IndexError)
     | _ \<Rightarrow> Inl TypeError)"

definition text_term :: "nat \<Rightarrow> string" where
  "text_term enc = (if enc = 1 \<or> enc = 2 then [CHR 0x00, CHR 0x00] else [CHR 0x00])"

definition text_decode :: "nat \<Rightarrow> string \<Rightarrow> merr + unicode" where
  "text_decode enc data =
     (if enc = 0 then Inr (latin1_decode data)
      else if enc = 1 then utf16_decode data
      else if enc = 2 then utf16_dec True data
      else utf8_decode data)"

definition text_encode :: "nat \<Rightarrow> unicode \<Rightarrow> merr + string" where
  "text_encode enc u =
     (if enc = 0 then latin1_encode u
      else if enc = 1 then Inr (utf16_encode u)
      else if enc = 2 then Inr (utf16_enc True u)
      else Inr (utf8_encode u))"

text \<open>The search for an aligned terminator: \<open>data.index(term, offset + 1)\<close>, skipping odd offsets.\<close>

lemma str_find_ge: "str_find s sub i = Some j \<Longrightarrow> i \<le> j \<and> j + length sub \<le> length s"
  by (drule str_find_Some) simp

function find_aligned :: "string \<Rightarrow> string \<Rightarrow> nat \<Rightarrow> nat option" where
  "find_aligned data trm start =
     (case str_find data trm start of
        None \<Rightarrow> None
      | Some offset \<Rightarrow> if odd offset then find_aligned data trm (Suc offset) else Some offset)"
  by pat_completeness auto
termination
  by (relation "measure (\<lambda>(data, trm, start). Suc (length data) - start)")
    (auto dest: str_find_ge)

declare find_aligned.simps [simp del]

definition split_term :: "nat \<Rightarrow> string \<Rightarrow> string \<times> string" where
  "split_term enc data =
     (if length (text_term enc) = 1 then
        (case str_split1 (CHR 0x00) data of None \<Rightarrow> (data, []) | Some (d, ret) \<Rightarrow> (d, ret))
      else (case find_aligned data (text_term enc) 0 of
              None \<Rightarrow> (data, [])
            | Some offset \<Rightarrow> (take offset data, drop (offset + 2) data)))"

definition read_encoded_text :: "attrs \<Rightarrow> string \<Rightarrow> merr + unicode \<times> string" where
  "read_encoded_text a data =
     bindR (text_encoding a) (\<lambda>enc.
       let (data, ret) = split_term enc data
       in if length data < length (text_term enc) then Inr ([], ret)
          else bindR (text_decode enc data) (\<lambda>u. Inr (u, ret)))"

definition read_latin1_text :: "string \<Rightarrow> unicode \<times> string" where
  "read_latin1_text data =
     (case str_split1 (CHR 0x00) data of
        None \<Rightarrow> (latin1_decode data, [])
      | Some (d, ret) \<Rightarrow> (latin1_decode d, ret))"

text \<open>\<open>value.encode(enc)\<close> of the value of a text field.\<close>

definition value_encode :: "nat \<Rightarrow> fval \<Rightarrow> merr + string" where
  "value_encode enc v =
     (case v of
        FText u \<Rightarrow> text_encode enc u
      | FBytes b \<Rightarrow> bindR (ascii_decode b) (text_encode enc)
      | FStamp ts \<Rightarrow> text_encode enc (map ord (get_text ts))
      | _ \<Rightarrow> Inl AttributeError)"

definition write_encoded_text :: "attrs \<Rightarrow> fval \<Rightarrow> merr + string" where
  "write_encoded_text a v =
     bindR (text_encoding a) (\<lambda>enc. bindR (value_encode enc v) (\<lambda>s. Inr (s @ text_term enc)))"

section \<open>Numbers\<close>

definition py_round :: "rat \<Rightarrow> int" where
  "py_round r = (if 0 \<le> r then \<lfloor>r + 1 / 2\<rfloor> else - \<lfloor>1 / 2 - r\<rfloor>)"

definition py_trunc :: "rat \<Rightarrow> int" where
  "py_trunc r = (if 0 \<le> r then \<lfloor>r\<rfloor> else - \<lfloor>- r\<rfloor>)"

definition value_rat :: "fval \<Rightarrow> merr + rat" where
  "value_rat v = (case v of FRat r \<Rightarrow> Inr r | FInt i \<Rightarrow> Inr (of_int i) | _ \<Rightarrow> Inl TypeError)"

definition write_byte :: "fval \<Rightarrow> merr + string" where
  "write_byte v =
     (case v of
        FInt i \<Rightarrow> if 0 \<le> i \<and> i < 256 then Inr [chr (nat i)] else Inl ValueError
      | _ \<Rightarrow> Inl TypeError)"

text \<open>\<open>BitPaddedInt.to_str(value, bits = 8)\<close>; \<open>None\<close> ends its loop as zero does.\<close>

definition write_integer :: "fval \<Rightarrow> merr + string" where
  "write_integer v =
     (case v of
        FNone \<Rightarrow> Inr (to_str_min 8 4 True 0)
      | FInt i \<Rightarrow> if 0 \<le> i then Inr (to_str_min 8 4 True (nat i)) else Inl MemoryError
      | _ \<Rightarrow> Inl TypeError)"

definition write_sized_integer :: "nat \<Rightarrow> fval \<Rightarrow> merr + string" where
  "write_sized_integer n v =
     (case v of
        FNone \<Rightarrow> to_str_width 8 n True 0
      | FInt i \<Rightarrow> if 0 \<le> i then to_str_width 8 n True (nat i) else Inl ValueError
      | _ \<Rightarrow> Inl TypeError)"

definition ascii_str :: "unicode \<Rightarrow> merr + string" where
  "ascii_str u = (if list_all (\<lambda>cp. cp < 128) u then Inr (map chr u) else Inl UnicodeEncodeError)"

text \<open>\<open>str(value)\<close> and \<open>unicode(value)\<close>.\<close>

definition to_bytes :: "fval \<Rightarrow> merr + string" where
  "to_bytes v =
     (case v of
        FBytes b \<Rightarrow> Inr b
      | FText u \<Rightarrow> ascii_str u
      | FNone \<Rightarrow> Inr ''None''
      | FInt i \<Rightarrow> Inr (int_str i)
      | FStamp ts \<Rightarrow> Inr (get_text ts)
      | _ \<Rightarrow> Inl TypeError)"

definition to_unicode :: "fval \<Rightarrow> merr + unicode" where
  "to_unicode v =
     (case v of
        FText u \<Rightarrow> Inr u
      | FBytes b \<Rightarrow> ascii_decode b
      | FNone \<Rightarrow> Inr (map ord ''None'')
      | FInt i \<Rightarrow> Inr (map ord (int_str i))
      | FStamp ts \<Rightarrow> Inr (map ord (get_text ts))
      | _ \<Rightarrow> Inl TypeError)"

definition write_volume_adjustment :: "fval \<Rightarrow> merr + string" where
  "write_volume_adjustment v =
     bindR (value_rat v) (\<lambda>r. pack_s True 2 (py_round (r * 512)))"

definition read_volume_adjustment :: "string \<Rightarrow> merr + rat \<times> string" where
  "read_volume_adjustment data =
     bindR (unpack_s True 2 (take 2 data)) (\<lambda>v. Inr (of_int v / 512, drop 2 data))"

definition write_volume_peak :: "fval \<Rightarrow> merr + string" where
  "write_volume_peak v =
     bindR (value_rat v) (\<lambda>r. bindR (pack_u True 2 (py_round (r * 32768)))
       (\<lambda>s. Inr (CHR 0x10 # s)))"

definition read_volume_peak :: "string \<Rightarrow> merr + rat \<times> string" where
  "read_volume_peak data =
     (case data of
        [] \<Rightarrow> Inl IndexError
      | c # _ \<Rightarrow>
         (let bits = ord c;
              bytes = min 4 ((bits + 7) div 8)
          in if length data < bytes + 1 then Inl ID3JunkFrameError
             else let shift = (8 - bits mod 8) mod 8 + (4 - bytes) * 8;
                      peak = struct_value True (take bytes (tl data)) * 2 ^ shift
                  in Inr (of_nat peak / (2 ^ 31 - 1), drop (1 + bytes) data)))"

section \<open>Lists of records\<close>

function read_key_events :: "string \<Rightarrow> (int \<times> int) list \<times> string" where
  "read_key_events data =
     (if 5 \<le> length data then
        (case (unpack_s True 1 (take 1 data), unpack_u True 4 (take 4 (drop 1 data))) of
           (Inr b, Inr i) \<Rightarrow>
             (let (events, rest) = read_key_events (drop 5 data) in ((b, i) # events, rest))
         | _ \<Rightarrow> ([], data))
      else ([], data))"
  by pat_completeness auto
termination
  by (relation "measure length") auto

declare read_key_events.simps [simp del]

definition write_key_event :: "fval \<Rightarrow> merr + string" where
  "write_key_event v =
     (case v of
        FList [FInt b, FInt i] \<Rightarrow>
          bindR (pack_s True 1 b) (\<lambda>x. bindR (pack_u True 4 i) (\<lambda>y. Inr (x @ y)))
      | _ \<Rightarrow> Inl TypeError)"

definition write_list :: "(fval \<Rightarrow> merr + string) \<Rightarrow> fval \<Rightarrow> merr + string" where
  "write_list wr v =
     (case v of FList vs \<Rightarrow> bindR (mapR wr vs) (\<lambda>ss. Inr (concat ss)) | _ \<Rightarrow> Inl TypeError)"

text \<open>The pairs of \<open>VolumeAdjustmentsSpec\<close> go through a dictionary and are sorted.\<close>

function read_adjustments :: "(rat \<times> rat) list \<Rightarrow> string \<Rightarrow> (rat \<times> rat) list \<times> string" where
  "read_adjustments adjs data =
     (if 4 \<le> length data then
        (case (unpack_u True 2 (take 2 data), unpack_s True 2 (take 2 (drop 2 data))) of
           (Inr freq, Inr adj) \<Rightarrow>
             read_adjustments (dp_setitem adjs (of_int freq / 2) (of_int adj / 512)) (drop 4 data)
         | _ \<Rightarrow> (adjs, data))
      else (adjs, data))"
  by pat_completeness auto
termination
  by (relation "measure (length \<circ> snd)") auto

declare read_adjustments.simps [simp del]

fun rat_pairs :: "fval list \<Rightarrow> merr + (rat \<times> rat) list" where
  "rat_pairs [] = Inr []"
| "rat_pairs (FList [x, y] # vs) =
     bindR (value_rat x) (\<lambda>a. bindR (value_rat y) (\<lambda>b.
       bindR (rat_pairs vs) (\<lambda>ps. Inr ((a, b) # ps))))"
| "rat_pairs _ = Inl TypeError"

definition write_adjustment :: "rat \<times> rat \<Rightarrow> merr + string" where
  "write_adjustment p =
     bindR (pack_u True 2 (py_trunc (fst p * 2))) (\<lambda>x.
       bindR (pack_s True 2 (py_trunc (snd p * 512))) (\<lambda>y. Inr (x @ y)))"

text \<open>\<open>value.sort()\<close>: tuples compare component by component.\<close>

definition sort_pairs :: "(rat \<times> rat) list \<Rightarrow> (rat \<times> rat) list" where
  "sort_pairs ps = sort_key fst (sort_key snd ps)"

definition write_adjustments :: "fval \<Rightarrow> merr + string" where
  "write_adjustments v =
     (case v of
        FList vs \<Rightarrow> bindR (rat_pairs vs) (\<lambda>ps.
           bindR (mapR write_adjustment (sort_pairs ps)) (\<lambda>ss. Inr (concat ss)))
      | _ \<Rightarrow> Inl AttributeError)"

text \<open>\<open>SynchronizedTextSpec\<close>: the terminator search is not aligned.\<close>

function read_sync_text :: "nat \<Rightarrow> string \<Rightarrow> merr + (unicode \<times> int) list" where
  "read_sync_text enc data =
     (if data = [] then Inr []
      else case str_find data (text_term enc) 0 of
        None \<Rightarrow> Inl ID3JunkFrameError
      | Some value_idx \<Rightarrow>
          bindR (text_decode enc (take value_idx data)) (\<lambda>text.
            let l = length (text_term enc)
            in if length data < value_idx + l + 4 then Inl ID3JunkFrameError
               else bindR (unpack_u True 4 (take 4 (drop (value_idx + l) data))) (\<lambda>time.
                 bindR (read_sync_text enc (drop (value_idx + l + 4) data)) (\<lambda>texts.
                   Inr ((text, time) # texts)))))"
  by pat_completeness auto
termination
  by (relation "measure (length \<circ> snd)") auto

declare read_sync_text.simps [simp del]

definition write_sync_pair :: "nat \<Rightarrow> fval \<Rightarrow> merr + string" where
  "write_sync_pair enc v =
     (case v of
        FList [text, FInt time] \<Rightarrow>
          bindR (value_encode enc text) (\<lambda>s.
            bindR (pack_u True 4 time) (\<lambda>t. Inr (s @ text_term enc @ t)))
      | _ \<Rightarrow> Inl TypeError)"

text \<open>\<open>ASPIIndexSpec\<close>.\<close>

definition get_int :: "attrs \<Rightarrow> string \<Rightarrow> merr + int" where
  "get_int a name = bindR (getattr a name) (\<lambda>v. case v of FInt i \<Rightarrow> Inr i | _ \<Rightarrow> Inl TypeError)"

fun unpack_all :: "nat \<Rightarrow> nat \<Rightarrow> string \<Rightarrow> merr + int list" where
  "unpack_all 0 sz data = (if data = [] then Inr [] else Inl StructError)"
| "unpack_all (Suc n) sz data =
     bindR (unpack_u True sz (take sz data)) (\<lambda>v.
       bindR (unpack_all n sz (drop sz data)) (\<lambda>vs. Inr (v # vs)))"

definition read_aspi :: "attrs \<Rightarrow> string \<Rightarrow> merr + fval \<times> string" where
  "read_aspi a data =
     bindR (get_int a ''b'') (\<lambda>b.
       if b = 16 \<or> b = 8 then
         bindR (get_int a ''N'') (\<lambda>n.
           let sz = (if b = 16 then 2 else 1)
           in bindR (unpack_all (nat n) sz (take (nat n * sz) data)) (\<lambda>vs.
                Inr (FList (map FInt vs), drop (nat n * sz) data)))
       else Inr (FList [], data))"

definition write_aspi :: "attrs \<Rightarrow> fval \<Rightarrow> merr + string" where
  "write_aspi a v =
     bindR (get_int a ''b'') (\<lambda>b.
       if b = 16 \<or> b = 8 then
         bindR (get_int a ''N'') (\<lambda>n.
           let sz = (if b = 16 then 2 else 1)
           in case v of
                FList vs \<Rightarrow>
                  (if length vs \<noteq> nat n then Inl StructError
                   else bindR (mapR (\<lambda>x. case x of FInt i \<Rightarrow> pack_u True sz i | _ \<Rightarrow> Inl StructError) vs)
                          (\<lambda>ss. Inr (concat ss)))
              | _ \<Rightarrow> Inl TypeError)
       else Inl ValueError)"

end
