(* ===== verification/Mut_Spec_Ops.thy ===== *)
theory Mut_Spec_Ops
  imports Mut_Specs
begin

text \<open>
  The methods \<open>read\<close>, \<open>write\<close>, \<open>validate\<close> and \<open>_validate23\<close>, dispatched over the specification
  classes; a class that inherits a method has the clause of its base class.

  \<open>MultiSpec.read\<close> repeats its record of specifications while bytes are left. A record that takes
  no byte would be read for ever: \<open>NonTermination\<close> stands for that, and it is shown not to happen
  for the specifications the frames use.
\<close>

section \<open>read\<close>

function multi_loop :: "(string \<Rightarrow> merr + fval list \<times> string) \<Rightarrow> string \<Rightarrow> merr + fval list list" where
  "multi_loop rd data =
     (if data = [] then Inr []
      else case rd data of
        Inl e \<Rightarrow> Inl e
      | Inr (record, rest) \<Rightarrow>
          if length rest < length data then
            bindR (multi_loop rd rest) (\<lambda>values. Inr (record # values))
          else Inl NonTermination)"
  by pat_completeness auto
termination
  by (relation "measure (length \<circ> snd)") auto

declare multi_loop.simps [simp del]

definition multi_values :: "nat \<Rightarrow> fval list list \<Rightarrow> fval" where
  "multi_values n records = FList (if n = 1 then map hd records else map FList records)"

fun spec_read :: "attrs \<Rightarrow> spec \<Rightarrow> string \<Rightarrow> merr + fval \<times> string"
and read_record :: "attrs \<Rightarrow> spec list \<Rightarrow> string \<Rightarrow> merr + fval list \<times> string"
where
  "spec_read a (ByteSpec _) data =
     (case data of [] \<Rightarrow> Inl IndexError | c # rest \<Rightarrow> Inr (FInt (int (ord c)), rest))"
| "spec_read a (ChannelSpec _) data =
     (case data of [] \<Rightarrow> Inl IndexError | c # rest \<Rightarrow> Inr (FInt (int (ord c)), rest))"
| "spec_read a (EncodingSpec _) data =
     (case data of
        [] \<Rightarrow> Inl IndexError
      | c # rest \<Rightarrow> if ord c < 16 then Inr (FInt (int (ord c)), rest) else Inr (FInt 0, c # rest))"
| "spec_read a (IntegerSpec _) data = Inr (FInt (int (bit_padded_int 8 True data)), [])"
| "spec_read a (SizedIntegerSpec _ sz) data =
     Inr (FInt (int (bit_padded_int 8 True (take sz data))), drop sz data)"
| "spec_read a (StringSpec _ len) data = Inr (FBytes (take len data), drop len data)"
| "spec_read a (BinaryDataSpec _) data = Inr (FBytes data, [])"
| "spec_read a (EncodedTextSpec _) data =
     bindR (read_encoded_text a data) (\<lambda>(u, ret). Inr (FText u, ret))"
| "spec_read a (EncodedNumericTextSpec _) data =
     bindR (read_encoded_text a data) (\<lambda>(u, ret). Inr (FText u, ret))"
| "spec_read a (EncodedNumericPartTextSpec _) data =
     bindR (read_encoded_text a data) (\<lambda>(u, ret). Inr (FText u, ret))"
| "spec_read a (Latin1TextSpec _) data =
     (let (u, ret) = read_latin1_text data in Inr (FText u, ret))"
| "spec_read a (TimeStampSpec _) data =
     bindR (read_encoded_text a data) (\<lambda>(u, ret). Inr (FStamp (set_text is_uspace_code u), ret))"
| "spec_read a (VolumeAdjustmentSpec _) data =
     bindR (read_volume_adjustment data) (\<lambda>(r, rest). Inr (FRat r, rest))"
| "spec_read a (VolumePeakSpec _) data =
     bindR (read_volume_peak data) (\<lambda>(r, rest). Inr (FRat r, rest))"
| "spec_read a (SynchronizedTextSpec _) data =
     bindR (text_encoding a) (\<lambda>enc. bindR (read_sync_text enc data) (\<lambda>texts.
       Inr (FList (map (\<lambda>(u, t). FList [FText u, FInt t]) texts), [])))"
| "spec_read a (KeyEventSpec _) data =
     (let (events, rest) = read_key_events data
      in Inr (FList (map (\<lambda>(b, i). FList [FInt b, FInt i]) events), rest))"
| "spec_read a (VolumeAdjustmentsSpec _) data =
     (let (adjs, rest) = read_adjustments [] data
      in Inr (FList (map (\<lambda>(f, g). FList [FRat f, FRat g]) (sort_pairs adjs)), rest))"
| "spec_read a (ASPIIndexSpec _) data = read_aspi a data"
| "spec_read a (MultiSpec _ specs _) data =
     bindR (multi_loop (read_record a specs) data) (\<lambda>records.
       Inr (multi_values (length specs) records, []))"
| "read_record a [] data = Inr ([], data)"
| "read_record a (s # ss) data =
     bindR (spec_read a s data) (\<lambda>(v, rest).
       bindR (read_record a ss rest) (\<lambda>(vs, rest'). Inr (v # vs, rest')))"

section \<open>write\<close>

fun write_elements :: "(fval \<Rightarrow> merr + string) list \<Rightarrow> fval list \<Rightarrow> merr + string" where
  "write_elements (w # ws) (v # vs) =
     bindR (w v) (\<lambda>s. bindR (write_elements ws vs) (\<lambda>t. Inr (s @ t)))"
| "write_elements _ _ = Inr []"

definition write_multi :: "(fval \<Rightarrow> merr + string) list \<Rightarrow> fval \<Rightarrow> merr + string" where
  "write_multi ws v =
     (if length ws = 1 then write_list (hd ws) v
      else write_list (\<lambda>r. case r of FList vs \<Rightarrow> write_elements ws vs | _ \<Rightarrow> Inl TypeError) v)"

fun spec_write :: "attrs \<Rightarrow> spec \<Rightarrow> fval \<Rightarrow> merr + string" where
  "spec_write a (ByteSpec _) v = write_byte v"
| "spec_write a (ChannelSpec _) v = write_byte v"
| "spec_write a (EncodingSpec _) v = write_byte v"
| "spec_write a (IntegerSpec _) v = write_integer v"
| "spec_write a (SizedIntegerSpec _ sz) v = write_sized_integer sz v"
| "spec_write a (StringSpec _ len) v =
     (if v = FNone then Inr (replicate len (CHR 0x00))
      else bindR (to_bytes v) (\<lambda>s. Inr (take len (s @ replicate len (CHR 0x00)))))"
| "spec_write a (BinaryDataSpec _) v = to_bytes v"
| "spec_write a (EncodedTextSpec _) v = write_encoded_text a v"
| "spec_write a (EncodedNumericTextSpec _) v = write_encoded_text a v"
| "spec_write a (EncodedNumericPartTextSpec _) v = write_encoded_text a v"
| "spec_write a (Latin1TextSpec _) v =
     bindR (value_encode 0 v) (\<lambda>s. Inr (s @ [CHR 0x00]))"
| "spec_write a (TimeStampSpec _) v =
     (case v of
        FStamp ts \<Rightarrow>
          write_encoded_text a
            (FText (map (\<lambda>c. if c = CHR '' '' then 84 else ord c) (get_text ts)))
      | _ \<Rightarrow> Inl AttributeError)"
| "spec_write a (VolumeAdjustmentSpec _) v = write_volume_adjustment v"
| "spec_write a (VolumePeakSpec _) v = write_volume_peak v"
| "spec_write a (SynchronizedTextSpec _) v =
     bindR (text_encoding a) (\<lambda>enc. bindR (getattr a ''text'') (\<lambda>t.
       write_list (write_sync_pair enc) t))"
| "spec_write a (KeyEventSpec _) v = write_list write_key_event v"
| "spec_write a (VolumeAdjustmentsSpec _) v = write_adjustments v"
| "spec_write a (ASPIIndexSpec _) v = write_aspi a v"
| "spec_write a (MultiSpec _ specs _) v = write_multi (map (spec_write a) specs) v"

section \<open>validate\<close>

text \<open>\<open>0 <= value <= 3\<close>: in Python 2, \<open>None\<close> is below every number and a string above.\<close>

definition validate_encoding :: "fval \<Rightarrow> merr + fval" where
  "validate_encoding v =
     (case v of
        FInt i \<Rightarrow> if 0 \<le> i \<and> i \<le> 3 then Inr v else Inl ValueError
      | FRat r \<Rightarrow> if 0 \<le> r \<and> r \<le> 3 then Inr v else Inl ValueError
      | FNone \<Rightarrow> Inr FNone
      | _ \<Rightarrow> Inl ValueError)"

definition struct_as_value_error :: "merr + string \<Rightarrow> fval \<Rightarrow> merr + fval" where
  "struct_as_value_error r v =
     (case r of
        Inr _ \<Rightarrow> Inr v
      | Inl StructError \<Rightarrow> Inl ValueError
      | Inl e \<Rightarrow> Inl e)"

definition validate_stamp :: "fval \<Rightarrow> merr + fval" where
  "validate_stamp v =
     (case v of
        FText u \<Rightarrow> Inr (FStamp (set_text is_uspace_code u))
      | FBytes b \<Rightarrow> Inr (FStamp (set_text is_space_code (map ord b)))
      | FStamp ts \<Rightarrow> Inr (FStamp (set_text is_uspace_code (map ord (get_text ts))))
      | _ \<Rightarrow> Inl ValueError)"

fun validate_elements :: "(fval \<Rightarrow> merr + fval) list \<Rightarrow> fval list \<Rightarrow> merr + fval list" where
  "validate_elements (w # ws) (v # vs) =
     bindR (w v) (\<lambda>x. bindR (validate_elements ws vs) (\<lambda>xs. Inr (x # xs)))"
| "validate_elements _ _ = Inr []"

definition validate_values :: "(fval \<Rightarrow> merr + fval) list \<Rightarrow> fval list \<Rightarrow> merr + fval" where
  "validate_values ws vs =
     (if length ws = 1 then bindR (mapR (hd ws) vs) (\<lambda>xs. Inr (FList xs))
      else bindR (mapR (\<lambda>r. case r of
                         FList rs \<Rightarrow> bindR (validate_elements ws rs) (\<lambda>xs. Inr (FList xs))
                       | _ \<Rightarrow> Inl TypeError) vs) (\<lambda>xs. Inr (FList xs)))"

definition validate_multi ::
  "(fval \<Rightarrow> merr + fval) list \<Rightarrow> nat option \<Rightarrow> fval \<Rightarrow> merr + fval" where
  "validate_multi ws sep v =
     (case (v, sep) of
        (FNone, _) \<Rightarrow> Inr (FList [])
      | (FText u, Some c) \<Rightarrow> validate_values ws (map FText (str_split c u))
      | (FBytes b, Some c) \<Rightarrow>
          bindR (ascii_decode b) (\<lambda>u. validate_values ws (map FText (str_split c u)))
      | (FList vs, _) \<Rightarrow> validate_values ws vs
      | _ \<Rightarrow> Inl ValueError)"

fun spec_validate :: "attrs \<Rightarrow> spec \<Rightarrow> fval \<Rightarrow> merr + fval" where
  "spec_validate a (ByteSpec _) v = (if v = FNone then Inr v else bindR (write_byte v) (\<lambda>_. Inr v))"
| "spec_validate a (ChannelSpec _) v =
     (if v = FNone then Inr v else bindR (write_byte v) (\<lambda>_. Inr v))"
| "spec_validate a (EncodingSpec _) v = validate_encoding v"
| "spec_validate a (StringSpec _ len) v =
     (case v of
        FNone \<Rightarrow> Inr FNone
      | FBytes b \<Rightarrow> if length b = len then Inr v else Inl ValueError
      | FText u \<Rightarrow> if length u = len then Inr v else Inl ValueError
      | _ \<Rightarrow> Inl ValueError)"
| "spec_validate a (BinaryDataSpec _) v = bindR (to_bytes v) (\<lambda>s. Inr (FBytes s))"
| "spec_validate a (EncodedTextSpec _) v = bindR (to_unicode v) (\<lambda>u. Inr (FText u))"
| "spec_validate a (EncodedNumericTextSpec _) v = bindR (to_unicode v) (\<lambda>u. Inr (FText u))"
| "spec_validate a (EncodedNumericPartTextSpec _) v = bindR (to_unicode v) (\<lambda>u. Inr (FText u))"
| "spec_validate a (Latin1TextSpec _) v = bindR (to_unicode v) (\<lambda>u. Inr (FText u))"
| "spec_validate a (TimeStampSpec _) v = validate_stamp v"
| "spec_validate a (VolumeAdjustmentSpec _) v =
     (if v = FNone then Inr v else struct_as_value_error (write_volume_adjustment v) v)"
| "spec_validate a (VolumePeakSpec _) v =
     (if v = FNone then Inr v else struct_as_value_error (write_volume_peak v) v)"
| "spec_validate a (MultiSpec _ specs sep) v = validate_multi (map (spec_validate a) specs) sep v"
| "spec_validate a (IntegerSpec _) v = Inr v"
| "spec_validate a (SizedIntegerSpec _ _) v = Inr v"
| "spec_validate a (SynchronizedTextSpec _) v = Inr v"
| "spec_validate a (KeyEventSpec _) v = Inr v"
| "spec_validate a (VolumeAdjustmentsSpec _) v = Inr v"
| "spec_validate a (ASPIIndexSpec _) v = Inr v"

section \<open>_validate23\<close>

text \<open>\<open>sep.join(value)\<close> of unicode strings.\<close>

fun join_texts :: "unicode \<Rightarrow> fval list \<Rightarrow> merr + unicode" where
  "join_texts sep [] = Inr []"
| "join_texts sep [FText u] = Inr u"
| "join_texts sep (FText u # v # vs) = bindR (join_texts sep (v # vs)) (\<lambda>w. Inr (u @ sep @ w))"
| "join_texts sep _ = Inl TypeError"

definition zip_validate23 :: "(fval \<Rightarrow> merr + fval) list \<Rightarrow> fval \<Rightarrow> merr + fval" where
  "zip_validate23 ws r =
     (case r of
        FList rs \<Rightarrow> bindR (validate_elements ws rs) (\<lambda>xs. Inr (FList xs))
      | _ \<Rightarrow> Inl TypeError)"

fun spec_validate23 :: "attrs \<Rightarrow> unicode option \<Rightarrow> spec \<Rightarrow> fval \<Rightarrow> merr + fval" where
  "spec_validate23 a sep (EncodingSpec _) v =
     (case v of
        FInt i \<Rightarrow> Inr (FInt (min 1 i))
      | FRat r \<Rightarrow> Inr (if r < 1 then v else FInt 1)
      | FNone \<Rightarrow> Inr FNone
      | _ \<Rightarrow> Inr (FInt 1))"
| "spec_validate23 a sep (MultiSpec _ specs _) v =
     (if length specs \<noteq> 1 then
        (case v of
           FList vs \<Rightarrow>
             bindR (mapR (zip_validate23 (map (spec_validate23 a sep) specs)) vs)
               (\<lambda>xs. Inr (FList xs))
         | _ \<Rightarrow> Inl TypeError)
      else if \<not> is_plain_text_spec (hd specs) then Inr v
      else (case v of
           FList vs \<Rightarrow>
             bindR (mapR (hd (map (spec_validate23 a sep) specs)) vs) (\<lambda>xs.
               case sep of
                 None \<Rightarrow> Inr (FList xs)
               | Some s \<Rightarrow>
                   bindR (join_texts s xs) (\<lambda>u.
                     bindR (hd (map (spec_validate a) specs) (FText u)) (\<lambda>x. Inr (FList [x]))))
         | _ \<Rightarrow> Inl TypeError))"
| "spec_validate23 a sep _ v = Inr v"

end
