(* ===== verification/Mut_Spec_Laws.thy ===== *)
theory Mut_Spec_Laws
  imports Mut_Spec_Ops
begin

text \<open>
  What the field specifications promise: the reader gets back the value that was written and the
  bytes after it (a self-delimiting field), or the value when nothing follows (a field that takes
  the rest of the frame). \<open>fits\<close> says for which values.
\<close>

section \<open>The contracts\<close>

text \<open>A self-delimiting field; lists of them are read back by \<open>MultiSpec\<close>'s loop.\<close>

locale delimited_field =
  fixes wr :: "'v \<Rightarrow> merr + string"
    and rd :: "string \<Rightarrow> merr + 'v \<times> string"
    and valid :: "'v \<Rightarrow> bool"
  assumes written: "valid v \<Longrightarrow> \<exists>out. wr v = Inr out \<and> out \<noteq> []
                                  \<and> (\<forall>rest. rd (out @ rest) = Inr (v, rest))"
begin

lemma prefix_free:
  "valid v \<Longrightarrow> valid w \<Longrightarrow> wr v = Inr s \<Longrightarrow> wr w = Inr t \<Longrightarrow> s @ x = t @ y \<Longrightarrow> v = w \<and> x = y"
  using written [of v] written [of w] by (metis sum.inject(2) prod.inject)

lemma mapR_written:
  "list_all valid vs \<Longrightarrow> \<exists>outs. mapR wr vs = Inr outs \<and> length outs = length vs
     \<and> list_all2 (\<lambda>v out. out \<noteq> [] \<and> (\<forall>rest. rd (out @ rest) = Inr (v, rest))) vs outs"
proof (induction vs)
  case (Cons v vs)
  then obtain outs where "mapR wr vs = Inr outs" "length outs = length vs"
    "list_all2 (\<lambda>v out. out \<noteq> [] \<and> (\<forall>rest. rd (out @ rest) = Inr (v, rest))) vs outs" by auto
  moreover obtain out where "wr v = Inr out" "out \<noteq> [] \<and> (\<forall>rest. rd (out @ rest) = Inr (v, rest))"
    using written Cons.prems by auto
  ultimately show ?case by auto
qed simp

end

lemma multi_loop_outs:
  "list_all2 (\<lambda>r out. out \<noteq> [] \<and> (\<forall>rest. rd (out @ rest) = Inr (r, rest))) records outs \<Longrightarrow>
     multi_loop rd (concat outs) = Inr records"
proof (induction records outs rule: list_all2_induct)
  case Nil
  then show ?case by (simp add: multi_loop.simps)
next
  case (Cons r records out outs)
  then show ?case by (subst multi_loop.simps) simp
qed

section \<open>Text\<close>

definition text_ok :: "nat \<Rightarrow> unicode \<Rightarrow> bool" where
  "text_ok enc u \<longleftrightarrow> 0 \<notin> set u \<and> (if enc = 0 then list_all (\<lambda>cp. cp < 256) u else list_all scalar u)"

fun aligned_free :: "string \<Rightarrow> bool" where
  "aligned_free (a # b # xs) = (\<not> (a = CHR 0x00 \<and> b = CHR 0x00) \<and> aligned_free xs)"
| "aligned_free _ = True"

lemma aligned_free_no_match:
  "aligned_free x \<Longrightarrow> even j \<Longrightarrow> j + 2 \<le> length x \<Longrightarrow>
     take 2 (drop j x) \<noteq> [CHR 0x00, CHR 0x00]"
proof (induction x arbitrary: j rule: aligned_free.induct)
  case (1 a b xs)
  show ?case
  proof (cases j)
    case 0
    then show ?thesis using 1 by simp
  next
    case (Suc k)
    then obtain m where "j = Suc (Suc m)" using \<open>even j\<close> by (cases k) auto
    then show ?thesis using 1 by simp
  qed
qed auto

lemma aligned_free_append:
  "even (length x) \<Longrightarrow> aligned_free (x @ y) = (aligned_free x \<and> aligned_free y)"
  by (induction x rule: aligned_free.induct) auto

lemma aligned_free_unit:
  assumes "u < 0x10000" "u \<noteq> 0" shows "aligned_free (utf16_unit big u)"
proof -
  have "\<not> (u div 256 = 0 \<and> u mod 256 = 0)" using assms by auto
  then show ?thesis using assms
    by (auto simp: utf16_unit_def char_of_eq_iff take_bit_eq_mod)
qed

lemma aligned_free_char:
  assumes "scalar cp" "cp \<noteq> 0" shows "aligned_free (utf16_char big cp)"
proof -
  have "(cp - 0x10000) div 0x400 < 0x400" if "0x10000 \<le> cp"
  proof -
    have "cp - 0x10000 < 0x100000" using assms that unfolding scalar_def by linarith
    then show ?thesis by (simp add: div_less_iff_less_mult)
  qed
  then show ?thesis using assms
    by (auto simp: utf16_char_def aligned_free_append intro!: aligned_free_unit)
qed

lemma aligned_free_enc: "list_all scalar u \<Longrightarrow> 0 \<notin> set u \<Longrightarrow> aligned_free (utf16_enc big u)"
proof (induction u)
  case (Cons cp u)
  then show ?case
    using aligned_free_append [of "utf16_char big cp" "utf16_enc big u"] aligned_free_char [of cp big]
    by (simp add: utf16_enc_def)
qed (simp add: utf16_enc_def)

lemma str_find_None_from:
  "str_find s sub i = None \<Longrightarrow> i \<le> m \<Longrightarrow> m \<le> length s \<Longrightarrow> \<not> startswith (drop m s) sub"
  using find_at_None [of sub "drop i s" i "m - i"]
  by (auto simp: str_find_def split: if_splits)

lemma find_aligned_spec:
  "case find_aligned data trm start of
     None \<Rightarrow> (\<forall>m. even m \<and> start \<le> m \<and> m \<le> length data \<longrightarrow> \<not> startswith (drop m data) trm)
   | Some j \<Rightarrow> even j \<and> start \<le> j \<and> startswith (drop j data) trm
       \<and> (\<forall>m. even m \<and> start \<le> m \<and> m < j \<longrightarrow> \<not> startswith (drop m data) trm)"
proof (induction data trm start rule: find_aligned.induct)
  case (1 data trm start)
  show ?case
  proof (cases "str_find data trm start")
    case None
    then show ?thesis
      by (subst find_aligned.simps) (auto dest: str_find_None_from)
  next
    case (Some offset)
    note S = str_find_Some [OF Some]
    show ?thesis
    proof (cases "odd offset")
      case True
      have unfold: "find_aligned data trm start = find_aligned data trm (Suc offset)"
        using Some True by (subst find_aligned.simps) simp
      have skip: "\<not> startswith (drop m data) trm" if "even m" "start \<le> m" "m < Suc offset" for m
        using S that True by (metis less_SucE)
      have IH: "case find_aligned data trm (Suc offset) of
         None \<Rightarrow> (\<forall>m. even m \<and> Suc offset \<le> m \<and> m \<le> length data \<longrightarrow> \<not> startswith (drop m data) trm)
       | Some j \<Rightarrow> even j \<and> Suc offset \<le> j \<and> startswith (drop j data) trm
           \<and> (\<forall>m. even m \<and> Suc offset \<le> m \<and> m < j \<longrightarrow> \<not> startswith (drop m data) trm)"
        using "1.IH" [OF Some True] .
      show ?thesis
      proof (cases "find_aligned data trm (Suc offset)")
        case None
        then show ?thesis using IH skip unfolding unfold by (simp, metis not_less)
      next
        case (Some j)
        then show ?thesis using IH skip S unfolding unfold by (simp, metis not_less le_SucI le_trans)
      qed
    next
      case False
      then have "find_aligned data trm start = Some offset"
        using Some by (subst find_aligned.simps) simp
      then show ?thesis using S False by (auto simp: startswith_def)
    qed
  qed
qed

lemma find_aligned_at:
  assumes "even (length x)" "aligned_free x"
  shows "find_aligned (x @ [CHR 0x00, CHR 0x00] @ rest) [CHR 0x00, CHR 0x00] 0 = Some (length x)"
proof -
  let ?d = "x @ [CHR 0x00, CHR 0x00] @ rest" and ?t = "[CHR 0x00, CHR 0x00]"
  have at: "startswith (drop (length x) ?d) ?t" by simp
  note S = find_aligned_spec [where data = ?d and trm = ?t and start = 0]
  show ?thesis
  proof (cases "find_aligned ?d ?t 0")
    case None
    then have "\<forall>m. even m \<and> 0 \<le> m \<and> m \<le> length ?d \<longrightarrow> \<not> startswith (drop m ?d) ?t"
      using S by (simp only: option.simps)
    moreover have "length x \<le> length ?d" by simp
    ultimately show ?thesis using at assms(1) by blast
  next
    case (Some j)
    then have j: "even j" "startswith (drop j ?d) ?t"
      "\<forall>m. even m \<and> 0 \<le> m \<and> m < j \<longrightarrow> \<not> startswith (drop m ?d) ?t"
      using S by simp_all
    have "\<not> j < length x"
    proof
      assume "j < length x"
      then have "j + 2 \<le> length x" using j(1) assms(1)
        by (metis Suc_leI add_2_eq_Suc' even_Suc le_neq_implies_less)
      moreover have "take 2 (drop j x) = ?t"
        using j(2) \<open>j + 2 \<le> length x\<close> by (simp add: startswith_def numeral_2_eq_2)
      ultimately show False using aligned_free_no_match [OF assms(2) j(1)] by blast
    qed
    moreover have "\<not> length x < j" using j(3) at assms(1) by blast
    ultimately have "j = length x" by simp
    then show ?thesis using Some by simp
  qed
qed

definition has_encoding :: "attrs \<Rightarrow> nat \<Rightarrow> bool" where
  "has_encoding a enc \<longleftrightarrow> getattr a ''encoding'' = Inr (FInt (int enc)) \<and> enc < 4"

lemma text_encoding_eq: "has_encoding a enc \<Longrightarrow> text_encoding a = Inr enc"
  by (simp add: has_encoding_def text_encoding_def)

lemma nul_not_in_utf8: "0 \<notin> set u \<Longrightarrow> list_all scalar u \<Longrightarrow> CHR 0x00 \<notin> set (utf8_encode u)"
proof -
  have "CHR 0x00 \<notin> set (utf8_char cp)" if "cp \<noteq> 0" "cp < 0x110000" for cp
  proof -
    have "cp div 262144 < 5" using that by (simp add: div_less_iff_less_mult)
    moreover have "cp div 64 < 32" if "cp < 0x800" using that by (simp add: div_less_iff_less_mult)
    moreover have "cp div 4096 < 16" if "cp < 0x10000"
      using that by (simp add: div_less_iff_less_mult)
    ultimately show ?thesis using that by (auto simp: utf8_char_def nul_eq_chr)
  qed
  then show "0 \<notin> set u \<Longrightarrow> list_all scalar u \<Longrightarrow> ?thesis"
    by (auto simp: utf8_encode_concat list_all_iff scalar_def) (metis gr0I)
qed

text \<open>Encoded text: terminated, and nothing before the terminator looks like one.\<close>

lemma text_encode_split:
  assumes "text_ok enc u" "enc < 4"
  shows "\<exists>s. text_encode enc u = Inr s \<and> split_term enc (s @ text_term enc @ rest) = (s, rest)
           \<and> (length s < length (text_term enc) \<longrightarrow> u = []) \<and> text_decode enc s = Inr u"
proof -
  consider "enc = 0" | "enc = 1" | "enc = 2" | "enc = 3" using assms(2) by linarith
  then show ?thesis
  proof cases
    case 1
    then have u: "list_all (\<lambda>cp. cp < 256) u" "0 \<notin> set u" using assms(1) by (auto simp: text_ok_def)
    then have "CHR 0x00 \<notin> set (map chr u)"
      by (auto simp: nul_eq_chr list_all_iff)
    then show ?thesis using 1 u latin1_encode_decode [of u "map chr u"]
      by (auto simp: text_encode_def text_decode_def split_term_def text_term_def latin1_encode_def)
  next
    case 2
    then have u: "list_all scalar u" "0 \<notin> set u" using assms(1) by (auto simp: text_ok_def)
    have "aligned_free (utf16_encode u)" "even (length (utf16_encode u))"
      using aligned_free_enc [OF u] by (simp_all add: utf16_encode_def)
    from find_aligned_at [OF this(2,1)] show ?thesis using 2 u
      by (auto simp: text_encode_def text_decode_def split_term_def text_term_def
          utf16_decode_encode) (simp add: utf16_encode_def)
  next
    case 3
    then have u: "list_all scalar u" "0 \<notin> set u" using assms(1) by (auto simp: text_ok_def)
    have e: "aligned_free (utf16_enc True u)" "even (length (utf16_enc True u))"
      using aligned_free_enc [OF u] by simp_all
    have "u = []" if "length (utf16_enc True u) < 2"
    proof (cases u)
      case (Cons cp v)
      then show ?thesis using that by (simp add: utf16_enc_def utf16_char_def split: if_splits)
    qed simp
    with find_aligned_at [OF e(2,1)] show ?thesis using 3 u
      by (auto simp: text_encode_def text_decode_def split_term_def text_term_def utf16_dec_enc)
  next
    case 4
    then have u: "list_all scalar u" "0 \<notin> set u" using assms(1) by (auto simp: text_ok_def)
    have "u = []" if "utf8_encode u = []"
      using that u(1) by (cases u) (simp_all add: utf8_encode_concat)
    then show ?thesis using 4 u nul_not_in_utf8 [OF u(2,1)]
      by (auto simp: text_encode_def text_decode_def split_term_def text_term_def utf8_decode_encode)
  qed
qed

lemma text_encoding_less: "text_encoding a = Inr enc \<Longrightarrow> enc < 4"
  by (auto simp: text_encoding_def bindR_def split: sum.splits fval.splits if_splits)

lemma text_field_written:
  assumes "text_encoding a = Inr enc" "text_ok enc u"
  shows "\<exists>out. write_encoded_text a (FText u) = Inr out \<and> out \<noteq> []
           \<and> (\<forall>rest. read_encoded_text a (out @ rest) = Inr (u, rest))"
proof -
  note split = text_encode_split [OF assms(2) text_encoding_less [OF assms(1)]]
  then obtain s where s: "text_encode enc u = Inr s" by blast
  have "text_term enc \<noteq> []" by (simp add: text_term_def)
  moreover have "read_encoded_text a (s @ text_term enc @ rest) = Inr (u, rest)" for rest
    using split [of rest] s assms(1) by (auto simp: read_encoded_text_def)
  ultimately show ?thesis using s assms(1)
    by (auto simp: write_encoded_text_def value_encode_def)
qed

lemma latin1_field_written:
  assumes "text_ok 0 u"
  shows "\<exists>out. bindR (value_encode 0 (FText u)) (\<lambda>s. Inr (s @ [CHR 0x00])) = Inr out \<and> out \<noteq> []
           \<and> (\<forall>rest. read_latin1_text (out @ rest) = (u, rest))"
proof -
  define s where "s = map chr u"
  have u: "list_all (\<lambda>cp. cp < 256) u" "0 \<notin> set u" using assms by (auto simp: text_ok_def)
  then have s: "text_encode 0 u = Inr s" "latin1_decode s = u"
    using latin1_encode_decode [of u s] by (simp_all add: text_encode_def latin1_encode_def s_def)
  have "CHR 0x00 \<notin> set s" using u by (auto simp: nul_eq_chr list_all_iff s_def)
  then have "read_latin1_text (s @ CHR 0x00 # rest) = (u, rest)" for rest
    using s by (simp add: read_latin1_text_def)
  then show ?thesis using s(1) by (auto simp: value_encode_def)
qed

interpretation utext: delimited_field "\<lambda>u. write_encoded_text [(''encoding'', FInt 3)] (FText u)"
  "read_encoded_text [(''encoding'', FInt 3)]" "text_ok 3"
  by unfold_locales (rule text_field_written, simp_all add: text_encoding_def getattr_def)

interpretation l1text: delimited_field "\<lambda>u. bindR (value_encode 0 (FText u)) (\<lambda>s. Inr (s @ [CHR 0x00]))"
  "\<lambda>s. Inr (read_latin1_text s)" "text_ok 0"
  by unfold_locales (use latin1_field_written in fastforce)

section \<open>Numbers\<close>

lemma pack_u_fits: "u_fits n v \<Longrightarrow> \<exists>out. pack_u big n v = Inr out \<and> length out = n
     \<and> unpack_u big n out = Inr v"
  using unpack_pack_u [of n v big] by (auto simp: pack_u_def u_fits_def)

lemma pack_s_fits: "0 < n \<Longrightarrow> s_fits n v \<Longrightarrow> \<exists>out. pack_s big n v = Inr out \<and> length out = n
     \<and> unpack_s big n out = Inr v"
  using unpack_pack_s [of n v big] by (auto simp: pack_s_def s_fits_def)

lemma py_round_of_int [simp]: "py_round (of_int i) = i"
  by (simp add: py_round_def, linarith)

lemma py_trunc_of_int [simp]: "py_trunc (of_int i) = i"
  by (simp add: py_trunc_def)

lemma volume_adjustment_written:
  assumes "s_fits 2 i"
  shows "\<exists>out. write_volume_adjustment (FRat (of_int i / 512)) = Inr out \<and> out \<noteq> []
           \<and> (\<forall>rest. read_volume_adjustment (out @ rest) = Inr (of_int i / 512, rest))"
proof -
  obtain out where "pack_s True 2 i = Inr out" "length out = 2" "unpack_s True 2 out = Inr i"
    using pack_s_fits [OF _ assms, of True] by auto
  then show ?thesis
    by (auto simp: write_volume_adjustment_def value_rat_def read_volume_adjustment_def)
qed

text \<open>A peak written with 16 bits comes back scaled by \<open>2 ^ 31 / (2 ^ 31 - 1)\<close>, once.\<close>

definition peak_value :: "nat \<Rightarrow> rat" where
  "peak_value v = of_nat (v * 2 ^ 16) / (2 ^ 31 - 1)"

lemma peak_round: "v < 2 ^ 16 \<Longrightarrow> py_round (peak_value v * 32768) = int v"
proof -
  assume v: "v < 2 ^ 16"
  have eq: "peak_value v * 32768 = of_nat v + of_nat v / 2147483647"
    by (simp add: peak_value_def field_simps)
  have "(of_nat v :: rat) < of_nat (2 ^ 16)" using v by (simp only: of_nat_less_iff)
  then have "(of_nat v :: rat) / 2147483647 < 1 / 2" by (simp add: field_simps)
  moreover have "0 \<le> (of_nat v :: rat) / 2147483647" by simp
  ultimately show ?thesis unfolding py_round_def eq by (simp add: floor_eq_iff)
qed

lemma volume_peak_written:
  assumes "v < 2 ^ 16"
  shows "\<exists>out. write_volume_peak (FRat (peak_value v)) = Inr out \<and> out \<noteq> []
           \<and> (\<forall>rest. read_volume_peak (out @ rest) = Inr (peak_value v, rest))"
proof -
  have fit: "u_fits 2 (int v)" using assms by (simp add: u_fits_def)
  obtain out where out: "pack_u True 2 (int v) = Inr out" "length out = 2"
    "unpack_u True 2 out = Inr (int v)"
    using pack_u_fits [OF fit, of True] by auto
  then have "struct_value True out = v" by (simp add: unpack_u_def split: if_splits)
  then have "read_volume_peak (CHR 0x10 # out @ rest) = Inr (peak_value v, rest)" for rest
    using out(2) by (simp add: read_volume_peak_def Let_def peak_value_def)
  then show ?thesis using out(1) peak_round [OF assms]
    by (auto simp: write_volume_peak_def value_rat_def)
qed

section \<open>Time stamps\<close>

lemma digits_value_map: "digits_value acc (map ord s) = str_nat_acc acc s"
  by (induction s arbitrary: acc) (auto simp: is_digit_def)

lemma str_nat_acc_zeros: "str_nat_acc 0 (replicate n (CHR ''0'') @ s) = str_nat_acc 0 s"
  by (induction n) (simp_all add: is_digit_def)

lemma zero_pad_digits: "c \<in> set (zero_pad n k) \<Longrightarrow> is_digit c"
  using nat_str_digits [of k] by (auto simp: zero_pad_def is_digit_def)

lemma zero_pad_nonempty [simp]: "zero_pad n k \<noteq> []"
  by (simp add: zero_pad_def)

lemma int_of_text_zero_pad: "int_of_text is_uspace_code (map ord (zero_pad n k)) = Some k"
proof -
  let ?t = "map ord (zero_pad n k)"
  have dig: "\<forall>d \<in> set ?t. 48 \<le> d \<and> d \<le> 57"
    using zero_pad_digits [of _ n k] by (auto simp: is_digit_def)
  have ne: "?t \<noteq> []" by simp
  have "hd ?t \<in> set ?t" "last ?t \<in> set ?t" using ne by (blast intro: hd_in_set last_in_set)+
  then have h: "48 \<le> hd ?t" "hd ?t \<le> 57" "48 \<le> last ?t" "last ?t \<le> 57" using dig by blast+
  then have "\<not> is_uspace_code (hd ?t)" "\<not> is_uspace_code (last ?t)" "hd ?t \<noteq> 43"
    by (auto simp: is_uspace_code_def is_space_code_def)
  moreover have "digits_value 0 ?t = Some k"
    by (simp only: digits_value_map zero_pad_def str_nat_acc_zeros str_nat_acc_nat_str)
  ultimately show ?thesis using ne
    by (simp add: int_of_text_def Let_def str_strip_id del: map_is_Nil_conv)
qed

lemma int_of_text_Nil [simp]: "int_of_text p [] = None"
  by (simp add: int_of_text_def str_strip_def)

lemma stamp_split_digits:
  "\<forall>c \<in> set s. is_digit c \<Longrightarrow> is_stamp_sep x \<Longrightarrow>
     stamp_split (map ord s @ x # r) = map ord s # stamp_split r"
  by (induction s) (auto simp: is_digit_def is_stamp_sep_def is_space_code_def)

lemma stamp_split_pad:
  "is_stamp_sep x \<Longrightarrow>
     stamp_split (map ord (zero_pad n k) @ x # r) = map ord (zero_pad n k) # stamp_split r"
  by (rule stamp_split_digits) (auto intro: zero_pad_digits)

text \<open>A time stamp whose parts are given up to some precision.\<close>

definition stamp_ok :: "stamp \<Rightarrow> bool" where
  "stamp_ok ts \<longleftrightarrow>
     (ts_second ts \<noteq> None \<longrightarrow> ts_minute ts \<noteq> None) \<and> (ts_minute ts \<noteq> None \<longrightarrow> ts_hour ts \<noteq> None)
   \<and> (ts_hour ts \<noteq> None \<longrightarrow> ts_day ts \<noteq> None) \<and> (ts_day ts \<noteq> None \<longrightarrow> ts_month ts \<noteq> None)
   \<and> (ts_month ts \<noteq> None \<longrightarrow> ts_year ts \<noteq> None)"

definition stamp_wire :: "stamp \<Rightarrow> unicode" where
  "stamp_wire ts = map (\<lambda>c. if c = CHR '' '' then 84 else ord c) (get_text ts)"

lemma wire_pad [simp]:
  "map (\<lambda>c. if c = CHR '' '' then 84 else ord c) (zero_pad n k) = map ord (zero_pad n k)"
proof (rule map_cong [OF refl])
  fix c assume "c \<in> set (zero_pad n k)"
  then have "is_digit c" by (rule zero_pad_digits)
  then show "(if c = CHR '' '' then 84 else ord c) = ord c" by (auto simp: is_digit_def)
qed

lemma is_stamp_sep_simps [simp]:
  "is_stamp_sep 45" "is_stamp_sep 84" "is_stamp_sep 58" "is_stamp_sep 47" "is_stamp_sep 46"
  by (simp_all add: is_stamp_sep_def)

lemma butlast_append_two: "butlast (xs @ [c, d]) = xs @ [c]"
  by (simp add: butlast_append)

lemma set_text_wire:
  assumes "stamp_ok ts" shows "set_text is_uspace_code (stamp_wire ts) = ts"
proof -
  obtain y mo d h mi se where ts: "ts = \<lparr>ts_year = y, ts_month = mo, ts_day = d, ts_hour = h,
    ts_minute = mi, ts_second = se\<rparr>" by (cases ts) auto
  have five: "replicate 5 (58::nat) = [58, 58, 58, 58, 58]" by (simp add: numeral_eq_Suc)
  note rules = stamp_wire_def get_text_def stamp_formats_def set_text_def Let_def butlast_append
    stamp_split_pad int_of_text_zero_pad five
  show ?thesis using assms unfolding ts stamp_ok_def
    by (cases y; cases mo; cases d; cases h; cases mi; cases se) (simp_all add: rules)
qed

lemma stamp_wire_ascii: "cp \<in> set (stamp_wire ts) \<Longrightarrow> 0 < cp \<and> cp < 128"
proof -
  have pieces: "c \<in> set (stamp_pieces ps fs) \<Longrightarrow> is_digit c \<or> c \<in> snd ` set fs" for c ps fs
    by (induction ps fs rule: stamp_pieces.induct) (auto dest: zero_pad_digits)
  have "c \<in> set (get_text ts) \<Longrightarrow> is_digit c \<or> c \<in> snd ` set stamp_formats" for c
    unfolding get_text_def by (drule in_set_butlastD) (rule pieces)
  then show "cp \<in> set (stamp_wire ts) \<Longrightarrow> ?thesis"
    by (fastforce simp: stamp_wire_def stamp_formats_def is_digit_def)
qed

lemma text_ok_stamp: "text_ok enc (stamp_wire ts)"
proof -
  have "list_all (\<lambda>cp. cp < 256) (stamp_wire ts)" "list_all scalar (stamp_wire ts)"
    "0 \<notin> set (stamp_wire ts)"
    using stamp_wire_ascii [of _ ts]
    by (fastforce simp: list_all_iff scalar_def high_surrogate_def low_surrogate_def)+
  then show ?thesis by (simp add: text_ok_def)
qed

section \<open>Lists of records\<close>

definition event_val :: "int \<times> int \<Rightarrow> fval" where
  "event_val e = FList [FInt (fst e), FInt (snd e)]"

definition event_ok :: "int \<times> int \<Rightarrow> bool" where
  "event_ok e \<longleftrightarrow> s_fits 1 (fst e) \<and> u_fits 4 (snd e)"

lemma key_events_written:
  "list_all event_ok es \<Longrightarrow>
     \<exists>out. write_list write_key_event (FList (map event_val es)) = Inr out \<and> length out = 5 * length es
        \<and> read_key_events out = (es, [])"
proof (induction es)
  case Nil
  then show ?case by (simp add: write_list_def read_key_events.simps)
next
  case (Cons e es)
  then obtain out where out: "mapR write_key_event (map event_val es) = Inr out"
    "length (concat out) = 5 * length es" "read_key_events (concat out) = (es, [])"
    by (auto simp: write_list_def bindR_Inr_iff)
  have fit: "s_fits 1 (fst e)" "u_fits 4 (snd e)" using Cons.prems by (simp_all add: event_ok_def)
  obtain x where x: "pack_s True 1 (fst e) = Inr x" "length x = 1" "unpack_s True 1 x = Inr (fst e)"
    using pack_s_fits [OF _ fit(1), of True] by auto
  obtain y where y: "pack_u True 4 (snd e) = Inr y" "length y = 4" "unpack_u True 4 y = Inr (snd e)"
    using pack_u_fits [OF fit(2), of True] by auto
  have "read_key_events (x @ y @ concat out) = (e # es, [])"
    using x y out by (subst read_key_events.simps) simp
  moreover have "write_key_event (event_val e) = Inr (x @ y)"
    using x y by (simp add: write_key_event_def event_val_def)
  ultimately show ?case using x y out by (simp add: write_list_def)
qed

definition adjustment_val :: "rat \<times> rat \<Rightarrow> fval" where
  "adjustment_val p = FList [FRat (fst p), FRat (snd p)]"

text \<open>Frequencies in halves, adjustments in 512ths, each frequency once and in order.\<close>

definition adjustments_of :: "(int \<times> int) list \<Rightarrow> (rat \<times> rat) list" where
  "adjustments_of ps = map (\<lambda>(f, g). (of_int f / 2, of_int g / 512)) ps"

definition adjustments_ok :: "(int \<times> int) list \<Rightarrow> bool" where
  "adjustments_ok ps \<longleftrightarrow> list_all (\<lambda>(f, g). u_fits 2 f \<and> s_fits 2 g) ps
     \<and> sorted_wrt (<) (map fst ps)"

lemma rat_pairs_vals: "rat_pairs (map adjustment_val ps) = Inr ps"
  by (induction ps) (simp_all add: adjustment_val_def value_rat_def)

lemma sort_pairs_sorted:
  assumes "sorted_wrt (<) (map fst ps)" shows "sort_pairs ps = ps"
proof -
  have st: "sorted (map fst ps)" using assms by (rule strict_sorted_imp_sorted)
  have dist: "distinct (map fst ps)" using assms by (simp add: strict_sorted_iff)
  then have d: "distinct ps" and inj: "inj_on fst (set ps)" by (simp_all add: distinct_map)
  show ?thesis unfolding sort_pairs_def
    by (rule map_sorted_distinct_set_unique [where f = fst])
      (use d inj dist st in \<open>simp_all add: distinct_map\<close>)
qed

lemma dp_setitem_fresh: "k \<notin> fst ` set d \<Longrightarrow> dp_setitem d k v = d @ [(k, v)]"
  by (induction d) (auto simp: dp_setitem_def)

lemma adjustments_read:
  "list_all (\<lambda>(f, g). u_fits 2 f \<and> s_fits 2 g) ps \<Longrightarrow>
   distinct (map fst (acc @ adjustments_of ps)) \<Longrightarrow>
     \<exists>outs. mapR write_adjustment (adjustments_of ps) = Inr outs
         \<and> length (concat outs) = 4 * length ps
         \<and> read_adjustments acc (concat outs) = (acc @ adjustments_of ps, [])"
proof (induction ps arbitrary: acc)
  case Nil
  then show ?case by (simp add: adjustments_of_def read_adjustments.simps)
next
  case (Cons p ps)
  obtain f g where p: "p = (f, g)" by (cases p)
  let ?q = "(of_int f / 2 :: rat, of_int g / 512 :: rat)"
  have eq: "adjustments_of (p # ps) = ?q # adjustments_of ps" by (simp add: adjustments_of_def p)
  have fit: "u_fits 2 f" "s_fits 2 g" using Cons.prems by (simp_all add: p)
  obtain outs where outs: "mapR write_adjustment (adjustments_of ps) = Inr outs"
    "length (concat outs) = 4 * length ps"
    "read_adjustments (acc @ [?q]) (concat outs) = ((acc @ [?q]) @ adjustments_of ps, [])"
    using Cons.IH [of "acc @ [?q]"] Cons.prems by (auto simp: eq)
  obtain x where x: "pack_u True 2 f = Inr x" "length x = 2" "unpack_u True 2 x = Inr f"
    using pack_u_fits [OF fit(1), of True] by auto
  obtain y where y: "pack_s True 2 g = Inr y" "length y = 2" "unpack_s True 2 y = Inr g"
    using pack_s_fits [OF _ fit(2), of True] by auto
  have "dp_setitem acc (fst ?q) (snd ?q) = acc @ [?q]"
    using Cons.prems(2) by (intro dp_setitem_fresh [THEN trans]) (auto simp: eq)
  then have "read_adjustments acc (x @ y @ concat outs) = (acc @ ?q # adjustments_of ps, [])"
    using x y outs(3) by (subst read_adjustments.simps) simp
  moreover have "write_adjustment ?q = Inr (x @ y)"
    using x y by (simp add: write_adjustment_def)
  ultimately show ?case using x y outs by (simp add: eq)
qed

lemma adjustments_written:
  assumes "adjustments_ok ps"
  shows "\<exists>out. write_adjustments (FList (map adjustment_val (adjustments_of ps))) = Inr out
            \<and> length out = 4 * length ps \<and> read_adjustments [] out = (adjustments_of ps, [])
            \<and> sort_pairs (adjustments_of ps) = adjustments_of ps"
proof -
  have fits: "list_all (\<lambda>(f, g). u_fits 2 f \<and> s_fits 2 g) ps" and lt: "sorted_wrt (<) (map fst ps)"
    using assms by (simp_all add: adjustments_ok_def)
  have "map fst (adjustments_of ps) = map (\<lambda>f. of_int f / 2) (map fst ps)"
    by (induction ps) (auto simp: adjustments_of_def)
  then have srt: "sorted_wrt (<) (map fst (adjustments_of ps))"
    using lt by (simp add: sorted_wrt_map)
  then have "distinct (map fst (adjustments_of ps))" by (simp add: strict_sorted_iff)
  then obtain outs where "mapR write_adjustment (adjustments_of ps) = Inr outs"
    "length (concat outs) = 4 * length ps"
    "read_adjustments [] (concat outs) = (adjustments_of ps, [])"
    using adjustments_read [OF fits, of "[]"] by auto
  then show ?thesis using sort_pairs_sorted [OF srt]
    by (simp add: write_adjustments_def rat_pairs_vals)
qed

text \<open>Synchronised text, where the terminator is one byte.\<close>

definition sync_val :: "unicode \<times> int \<Rightarrow> fval" where
  "sync_val p = FList [FText (fst p), FInt (snd p)]"

definition sync_ok :: "nat \<Rightarrow> unicode \<times> int \<Rightarrow> bool" where
  "sync_ok enc p \<longleftrightarrow> (enc = 0 \<or> enc = 3) \<and> text_ok enc (fst p) \<and> u_fits 4 (snd p)"

lemma sync_text_written:
  assumes enc: "enc = 0 \<or> enc = 3"
  shows "list_all (sync_ok enc) ps \<Longrightarrow>
     \<exists>outs. mapR (write_sync_pair enc) (map sync_val ps) = Inr outs
        \<and> (ps \<noteq> [] \<longrightarrow> concat outs \<noteq> []) \<and> read_sync_text enc (concat outs) = Inr ps"
proof (induction ps)
  case Nil
  then show ?case by (simp add: read_sync_text.simps)
next
  case (Cons p ps)
  then obtain outs where outs: "mapR (write_sync_pair enc) (map sync_val ps) = Inr outs"
    "read_sync_text enc (concat outs) = Inr ps" by auto
  have ok: "text_ok enc (fst p)" "u_fits 4 (snd p)" using Cons.prems by (simp_all add: sync_ok_def)
  have trm: "text_term enc = [CHR 0x00]" using enc by (auto simp: text_term_def)
  obtain s where s: "text_encode enc (fst p) = Inr s" "text_decode enc s = Inr (fst p)"
    "split_term enc (s @ text_term enc @ []) = (s, [])"
    using text_encode_split [OF ok(1), of "[]"] enc by fastforce
  have nul: "CHR 0x00 \<notin> set s"
    using s(3) by (auto simp: split_term_def trm split: option.splits dest!: str_split1_Some)
  obtain t where t: "pack_u True 4 (snd p) = Inr t" "length t = 4" "unpack_u True 4 t = Inr (snd p)"
    using pack_u_fits [OF ok(2), of True] by auto
  let ?d = "s @ CHR 0x00 # t @ concat outs"
  have find: "str_find ?d [CHR 0x00] 0 = Some (length s)"
    using nul by (rule str_find_byte)
  have "read_sync_text enc ?d = Inr (p # ps)"
    using s t outs find by (subst read_sync_text.simps) (simp add: trm)
  moreover have "write_sync_pair enc (sync_val p) = Inr (s @ text_term enc @ t)"
    using s t by (simp add: write_sync_pair_def sync_val_def value_encode_def)
  ultimately show ?case using outs by (simp add: trm)
qed

text \<open>The index of \<open>ASPI\<close>.\<close>

definition aspi_ok :: "attrs \<Rightarrow> int list \<Rightarrow> bool" where
  "aspi_ok a vs \<longleftrightarrow> vs \<noteq> [] \<and> get_int a ''N'' = Inr (int (length vs))
     \<and> ((get_int a ''b'' = Inr 16 \<and> list_all (u_fits 2) vs)
        \<or> (get_int a ''b'' = Inr 8 \<and> list_all (u_fits 1) vs))"

lemma unpack_all_written:
  "list_all (u_fits sz) vs \<Longrightarrow>
     \<exists>outs. mapR (\<lambda>x. case x of FInt i \<Rightarrow> pack_u True sz i | _ \<Rightarrow> Inl StructError) (map FInt vs) = Inr outs
        \<and> length (concat outs) = sz * length vs
        \<and> unpack_all (length vs) sz (concat outs) = Inr vs"
proof (induction vs)
  case (Cons v vs)
  obtain x where x: "pack_u True sz v = Inr x" "length x = sz" "unpack_u True sz x = Inr v"
    using pack_u_fits [of sz v True] Cons.prems by auto
  then show ?case using Cons by auto
qed simp

lemma aspi_written:
  assumes "aspi_ok a vs"
  shows "\<exists>out. write_aspi a (FList (map FInt vs)) = Inr out \<and> out \<noteq> []
           \<and> (\<forall>rest. read_aspi a (out @ rest) = Inr (FList (map FInt vs), rest))"
proof -
  obtain sz where sz: "sz = 2 \<and> get_int a ''b'' = Inr 16 \<or> sz = 1 \<and> get_int a ''b'' = Inr 8"
    and fits: "list_all (u_fits sz) vs"
    using assms by (auto simp: aspi_ok_def)
  obtain outs where outs: "mapR (\<lambda>x. case x of FInt i \<Rightarrow> pack_u True sz i | _ \<Rightarrow> Inl StructError)
      (map FInt vs) = Inr outs" "length (concat outs) = length vs * sz"
    "unpack_all (length vs) sz (concat outs) = Inr vs"
    using unpack_all_written [OF fits] by (auto simp: mult.commute)
  have N: "get_int a ''N'' = Inr (int (length vs))" "vs \<noteq> []" using assms by (auto simp: aspi_ok_def)
  have "concat outs \<noteq> []"
    using outs(2) N(2) sz by (metis length_0_conv mult_is_0 zero_neq_numeral zero_neq_one)
  moreover have "write_aspi a (FList (map FInt vs)) = Inr (concat outs)"
    using sz outs N by (auto simp: write_aspi_def Let_def)
  moreover have "read_aspi a (concat outs @ rest) = Inr (FList (map FInt vs), rest)" for rest
  proof -
    have t: "take (length vs * sz) (concat outs @ rest) = concat outs"
      "drop (length vs * sz) (concat outs @ rest) = rest"
      using outs(2) by (simp_all del: length_concat)
    from sz show ?thesis
    proof
      assume b: "sz = 2 \<and> get_int a ''b'' = Inr 16"
      then show ?thesis using t outs N by (simp add: read_aspi_def)
    next
      assume b: "sz = 1 \<and> get_int a ''b'' = Inr 8"
      then show ?thesis using t outs N by (simp add: read_aspi_def)
    qed
  qed
  ultimately show ?thesis by blast
qed

section \<open>Every specification\<close>

definition fits_text :: "attrs \<Rightarrow> fval \<Rightarrow> bool" where
  "fits_text a v = (case (v, text_encoding a) of (FText u, Inr enc) \<Rightarrow> text_ok enc u | _ \<Rightarrow> False)"

definition byte_val :: "fval \<Rightarrow> bool" where
  "byte_val v = (case v of FInt i \<Rightarrow> 0 \<le> i \<and> i < 256 | _ \<Rightarrow> False)"

text \<open>The values a specification can write and read back, in a frame with attributes \<open>a\<close>.\<close>

fun fits :: "attrs \<Rightarrow> spec \<Rightarrow> fval \<Rightarrow> bool" where
  "fits a (ByteSpec _) v = byte_val v"
| "fits a (ChannelSpec _) v = byte_val v"
| "fits a (EncodingSpec _) v = (\<exists>e \<in> {0..<16}. v = FInt e)"
| "fits a (IntegerSpec _) v = (case v of FInt i \<Rightarrow> 0 \<le> i | _ \<Rightarrow> False)"
| "fits a (SizedIntegerSpec _ sz) v =
     (case v of FInt i \<Rightarrow> 0 < sz \<and> 0 \<le> i \<and> i < 2 ^ (8 * sz) | _ \<Rightarrow> False)"
| "fits a (StringSpec _ len) v = (case v of FBytes b \<Rightarrow> 0 < len \<and> length b = len | _ \<Rightarrow> False)"
| "fits a (BinaryDataSpec _) v = (case v of FBytes b \<Rightarrow> b \<noteq> [] | _ \<Rightarrow> False)"
| "fits a (EncodedTextSpec _) v = fits_text a v"
| "fits a (EncodedNumericTextSpec _) v = fits_text a v"
| "fits a (EncodedNumericPartTextSpec _) v = fits_text a v"
| "fits a (Latin1TextSpec _) v = (case v of FText u \<Rightarrow> text_ok 0 u | _ \<Rightarrow> False)"
| "fits a (TimeStampSpec _) v =
     (case (v, text_encoding a) of (FStamp ts, Inr enc) \<Rightarrow> stamp_ok ts | _ \<Rightarrow> False)"
| "fits a (VolumeAdjustmentSpec _) v = (\<exists>i. v = FRat (of_int i / 512) \<and> s_fits 2 i)"
| "fits a (VolumePeakSpec _) v = (\<exists>n. v = FRat (peak_value n) \<and> n < 2 ^ 16)"
| "fits a (SynchronizedTextSpec _) v =
     (\<exists>enc ps. text_encoding a = Inr enc \<and> getattr a ''text'' = Inr v \<and> ps \<noteq> []
        \<and> v = FList (map sync_val ps) \<and> list_all (sync_ok enc) ps)"
| "fits a (KeyEventSpec _) v =
     (\<exists>es. es \<noteq> [] \<and> v = FList (map event_val es) \<and> list_all event_ok es)"
| "fits a (VolumeAdjustmentsSpec _) v =
     (\<exists>ps. ps \<noteq> [] \<and> v = FList (map adjustment_val (adjustments_of ps)) \<and> adjustments_ok ps)"
| "fits a (ASPIIndexSpec _) v = (\<exists>vs. v = FList (map FInt vs) \<and> aspi_ok a vs)"
| "fits a (MultiSpec _ specs _) v =
     (case v of
        FList vs \<Rightarrow> vs \<noteq> [] \<and> (case specs of
            [] \<Rightarrow> False
          | [s] \<Rightarrow> list_all (fits a s) vs
          | _ \<Rightarrow> list_all (\<lambda>r. case r of
                FList rs \<Rightarrow> list_all2 (\<lambda>f x. f x) (map (fits a) specs) rs | _ \<Rightarrow> False) vs)
      | _ \<Rightarrow> False)"

fun takes_rest :: "spec \<Rightarrow> bool" where
  "takes_rest (IntegerSpec _) = True"
| "takes_rest (BinaryDataSpec _) = True"
| "takes_rest (KeyEventSpec _) = True"
| "takes_rest (VolumeAdjustmentsSpec _) = True"
| "takes_rest (SynchronizedTextSpec _) = True"
| "takes_rest (MultiSpec _ _ _) = True"
| "takes_rest _ = False"

text \<open>The fields of a \<open>MultiSpec\<close> delimit themselves.\<close>

fun proper_spec :: "spec \<Rightarrow> bool" where
  "proper_spec (MultiSpec _ specs _) = list_all (\<lambda>s. \<not> takes_rest s) specs"
| "proper_spec _ = True"

definition reads_back :: "attrs \<Rightarrow> spec \<Rightarrow> fval \<Rightarrow> string \<Rightarrow> bool" where
  "reads_back a s v out \<longleftrightarrow> out \<noteq> [] \<and> (\<forall>rest. spec_read a s (out @ rest) = Inr (v, rest))"

lemma delimited_spec_written:
  assumes "\<not> takes_rest s" "fits a s v"
  shows "\<exists>out. spec_write a s v = Inr out \<and> reads_back a s v out"
proof (cases s)
  case (SizedIntegerSpec n sz)
  then obtain i where v: "v = FInt i" "0 < sz" "0 \<le> i" "i < 2 ^ (8 * sz)"
    using assms by (auto split: fval.splits)
  then have "nat i < 2 ^ (8 * sz)" by (simp add: nat_less_iff)
  then obtain out where "to_str_width 8 sz True (nat i) = Inr out" by (simp add: to_str_width_digits)
  from this bit_padded_to_str_width [OF _ this] show ?thesis
    using SizedIntegerSpec v by (auto simp: write_sized_integer_def reads_back_def)
next
  case (StringSpec n len)
  then show ?thesis using assms
    by (auto simp: reads_back_def to_bytes_def split: fval.splits)
next
  case (EncodedTextSpec n)
  then show ?thesis using assms text_field_written [of a]
    by (fastforce simp: fits_text_def reads_back_def split: fval.splits sum.splits)
next
  case (EncodedNumericTextSpec n)
  then show ?thesis using assms text_field_written [of a]
    by (fastforce simp: fits_text_def reads_back_def split: fval.splits sum.splits)
next
  case (EncodedNumericPartTextSpec n)
  then show ?thesis using assms text_field_written [of a]
    by (fastforce simp: fits_text_def reads_back_def split: fval.splits sum.splits)
next
  case (Latin1TextSpec n)
  then show ?thesis using assms latin1_field_written
    by (fastforce simp: reads_back_def split: fval.splits)
next
  case (TimeStampSpec n)
  then obtain ts enc where "v = FStamp ts" "text_encoding a = Inr enc" "stamp_ok ts"
    using assms by (auto split: fval.splits sum.splits)
  then show ?thesis using TimeStampSpec text_field_written [of a enc "stamp_wire ts"] text_ok_stamp
      set_text_wire [of ts]
    by (fastforce simp: reads_back_def simp flip: stamp_wire_def)
next
  case (VolumeAdjustmentSpec n)
  then show ?thesis using assms volume_adjustment_written by (fastforce simp: reads_back_def)
next
  case (VolumePeakSpec n)
  then show ?thesis using assms volume_peak_written by (fastforce simp: reads_back_def)
next
  case (ASPIIndexSpec n)
  then show ?thesis using assms aspi_written by (fastforce simp: reads_back_def)
qed (use assms in \<open>auto simp: byte_val_def write_byte_def reads_back_def split: fval.splits\<close>)

lemma delimited_spec: "\<not> takes_rest s \<Longrightarrow> delimited_field (spec_write a s) (spec_read a s) (fits a s)"
  by unfold_locales (use delimited_spec_written in \<open>fastforce simp: reads_back_def\<close>)

lemma record_written:
  assumes "list_all (\<lambda>s. \<not> takes_rest s) specs" "list_all2 (\<lambda>f x. f x) (map (fits a) specs) rs"
  shows "\<exists>out. write_elements (map (spec_write a) specs) rs = Inr out \<and> (specs \<noteq> [] \<longrightarrow> out \<noteq> [])
           \<and> (\<forall>rest. read_record a specs (out @ rest) = Inr (rs, rest))"
  using assms
proof (induction specs arbitrary: rs)
  case (Cons s ss)
  then obtain r rs' where rs: "rs = r # rs'" "fits a s r"
    "list_all2 (\<lambda>f x. f x) (map (fits a) ss) rs'"
    by (auto simp: list_all2_Cons1)
  obtain o1 where o1: "spec_write a s r = Inr o1" "reads_back a s r o1"
    using delimited_spec_written [of s a r] Cons.prems rs by auto
  obtain o2 where "write_elements (map (spec_write a) ss) rs' = Inr o2"
    "\<forall>rest. read_record a ss (o2 @ rest) = Inr (rs', rest)"
    using Cons.IH [OF _ rs(3)] Cons.prems by auto
  then show ?case using o1 rs(1) by (auto simp: reads_back_def)
qed simp

lemma multi_single_written:
  assumes "\<not> takes_rest s" "vs \<noteq> []" "list_all (fits a s) vs"
  shows "\<exists>out. write_list (spec_write a s) (FList vs) = Inr out \<and> out \<noteq> []
           \<and> multi_loop (read_record a [s]) out = Inr (map (\<lambda>v. [v]) vs)"
proof -
  obtain outs where outs: "mapR (spec_write a s) vs = Inr outs" "length outs = length vs"
    and all: "list_all2 (\<lambda>v out. out \<noteq> [] \<and> (\<forall>rest. spec_read a s (out @ rest) = Inr (v, rest))) vs outs"
    using delimited_field.mapR_written [OF delimited_spec [OF assms(1)] assms(3)] by blast
  have "list_all2 (\<lambda>r out. out \<noteq> [] \<and> (\<forall>rest. read_record a [s] (out @ rest) = Inr (r, rest)))
      (map (\<lambda>v. [v]) vs) outs"
    using all by (auto simp: list_all2_conv_all_nth)
  then have "multi_loop (read_record a [s]) (concat outs) = Inr (map (\<lambda>v. [v]) vs)"
    by (rule multi_loop_outs)
  moreover have "concat outs \<noteq> []"
    using all assms(2) by (cases vs; cases outs) auto
  ultimately show ?thesis using outs by (simp add: write_list_def)
qed

definition record_val :: "attrs \<Rightarrow> spec list \<Rightarrow> fval \<Rightarrow> bool" where
  "record_val a specs r =
     (case r of FList rs \<Rightarrow> list_all2 (\<lambda>f x. f x) (map (fits a) specs) rs | _ \<Rightarrow> False)"

lemma multi_records_written:
  assumes "list_all (\<lambda>s. \<not> takes_rest s) specs" "specs \<noteq> []" "rs \<noteq> []"
    "list_all (record_val a specs) rs"
  shows "\<exists>out records. write_list (\<lambda>r. case r of
             FList vs \<Rightarrow> write_elements (map (spec_write a) specs) vs | _ \<Rightarrow> Inl TypeError) (FList rs) = Inr out
           \<and> out \<noteq> [] \<and> multi_loop (read_record a specs) out = Inr records \<and> rs = map FList records"
proof -
  let ?w = "\<lambda>r. case r of FList vs \<Rightarrow> write_elements (map (spec_write a) specs) vs | _ \<Rightarrow> Inl TypeError"
  have "\<exists>outs records. mapR ?w rs = Inr outs \<and> rs = map FList records \<and>
      list_all2 (\<lambda>r out. out \<noteq> [] \<and> (\<forall>rest. read_record a specs (out @ rest) = Inr (r, rest))) records outs"
    using assms(4)
  proof (induction rs)
    case (Cons r rs)
    then obtain outs records where IH: "mapR ?w rs = Inr outs" "rs = map FList records"
      "list_all2 (\<lambda>r out. out \<noteq> [] \<and> (\<forall>rest. read_record a specs (out @ rest) = Inr (r, rest))) records outs"
      by auto
    obtain xs where xs: "r = FList xs" "list_all2 (\<lambda>f x. f x) (map (fits a) specs) xs"
      using Cons.prems by (auto simp: record_val_def split: fval.splits)
    obtain out where "write_elements (map (spec_write a) specs) xs = Inr out" "out \<noteq> []"
      "\<forall>rest. read_record a specs (out @ rest) = Inr (xs, rest)"
      using record_written [OF assms(1) xs(2)] assms(2) by auto
    then show ?case using IH xs(1)
      by (intro exI [of _ "out # outs"] exI [of _ "xs # records"]) simp
  qed simp
  then obtain outs records where *: "mapR ?w rs = Inr outs" "rs = map FList records"
    and all: "list_all2 (\<lambda>r out. out \<noteq> [] \<and> (\<forall>rest. read_record a specs (out @ rest) = Inr (r, rest))) records outs"
    by blast
  have "multi_loop (read_record a specs) (concat outs) = Inr records"
    using all by (rule multi_loop_outs)
  moreover have "concat outs \<noteq> []"
    using all *(2) assms(3) by (cases records; cases outs) auto
  ultimately show ?thesis using * by (simp add: write_list_def)
qed

theorem spec_written:
  assumes "proper_spec s" "fits a s v"
  shows "\<exists>out. spec_write a s v = Inr out \<and> out \<noteq> [] \<and> spec_read a s out = Inr (v, [])"
proof -
  have delim: ?thesis if "\<not> takes_rest s"
    using delimited_spec_written [OF that assms(2)] unfolding reads_back_def by (metis append_Nil2)
  show ?thesis
proof (cases s)
  case (IntegerSpec n)
  then obtain i where v: "v = FInt i" "0 \<le> i" using assms by (auto split: fval.splits)
  have "4 \<le> length (to_str_min 8 4 True (nat i))"
    "bit_padded_int 8 True (to_str_min 8 4 True (nat i)) = nat i"
    using bit_padded_to_str_min [of 8 True 4 "nat i"] by simp_all
  then have "to_str_min 8 4 True (nat i) \<noteq> []" by auto
  then show ?thesis using IntegerSpec v bit_padded_to_str_min [of 8 True 4 "nat i"]
    by (simp add: write_integer_def)
next
  case (BinaryDataSpec n)
  then show ?thesis using assms by (auto simp: to_bytes_def split: fval.splits)
next
  case (KeyEventSpec n)
  then obtain es where es: "es \<noteq> []" "v = FList (map event_val es)" "list_all event_ok es"
    using assms by auto
  obtain out where "write_list write_key_event v = Inr out" "length out = 5 * length es"
    "read_key_events out = (es, [])"
    using key_events_written [OF es(3)] es(2) by auto
  then show ?thesis using KeyEventSpec es by (auto simp: event_val_def [abs_def] case_prod_beta)
next
  case (VolumeAdjustmentsSpec n)
  then obtain ps where ps: "ps \<noteq> []" "v = FList (map adjustment_val (adjustments_of ps))"
    "adjustments_ok ps"
    using assms by auto
  from adjustments_written [OF ps(3)] show ?thesis using VolumeAdjustmentsSpec ps
    by (auto simp: adjustment_val_def [abs_def] case_prod_beta)
next
  case (SynchronizedTextSpec n)
  then obtain enc ps where ps: "text_encoding a = Inr enc" "getattr a ''text'' = Inr v" "ps \<noteq> []"
    "v = FList (map sync_val ps)" "list_all (sync_ok enc) ps"
    using assms by auto
  then have "enc = 0 \<or> enc = 3" by (cases ps) (auto simp: sync_ok_def)
  from sync_text_written [OF this ps(5)] obtain outs where
    "mapR (write_sync_pair enc) (map sync_val ps) = Inr outs" "concat outs \<noteq> []"
    "read_sync_text enc (concat outs) = Inr ps"
    using ps(3) by auto
  then show ?thesis using SynchronizedTextSpec ps
    by (auto simp: write_list_def sync_val_def [abs_def] case_prod_beta)
next
  case (MultiSpec n specs sep)
  then obtain vs where v: "v = FList vs" "vs \<noteq> []" using assms(2) by (auto split: fval.splits)
  have delim: "list_all (\<lambda>s. \<not> takes_rest s) specs" using MultiSpec assms(1) by simp
  show ?thesis
  proof (cases "length specs = 1")
    case True
    then obtain t where t: "specs = [t]" by (auto simp: length_Suc_conv)
    then have "list_all (fits a t) vs" "\<not> takes_rest t"
      using assms(2) MultiSpec v delim by auto
    from multi_single_written [OF this(2) v(2) this(1)] show ?thesis
      using MultiSpec v t by (auto simp: write_multi_def multi_values_def comp_def)
  next
    case False
    then obtain t u ts where t: "specs = t # u # ts"
      using assms(2) MultiSpec v by (cases specs rule: list.exhaust; cases "tl specs") auto
    then have "list_all (record_val a specs) vs"
      using assms(2) MultiSpec v by (simp add: record_val_def [abs_def])
    moreover have "specs \<noteq> []" using t by simp
    ultimately obtain out records where
      "write_list (\<lambda>r. case r of FList vs \<Rightarrow> write_elements (map (spec_write a) specs) vs
         | _ \<Rightarrow> Inl TypeError) (FList vs) = Inr out" "out \<noteq> []"
      "multi_loop (read_record a specs) out = Inr records" "vs = map FList records"
      using multi_records_written [OF delim _ v(2)] by blast
    then show ?thesis using MultiSpec v False
      by (auto simp: write_multi_def multi_values_def)
  qed
qed (use delim in simp_all)
qed

end
