(* ===== verification/Mut_Frame_Table.thy ===== *)
theory Mut_Frame_Table
  imports Mut_Spec_Laws
begin

text \<open>
  The frame classes of \<open>mutagen/_id3frames.py\<close>, as data: for every class its name, its base
  class, the specifications of its fields and optional fields, and how its \<open>HashKey\<close> is formed.
  A class that defines none of these inherits them, which \<open>plain\<close>, \<open>derived\<close> and
  \<open>derived_spec\<close> spell out.
\<close>

datatype frame_base =
    Frame | FrameOpt | TextFrame | NumericTextFrame | NumericPartTextFrame | TimeStampTextFrame
  | UrlFrame | UrlFrameU | PairedTextFrame | BinaryFrame | Sub string

datatype hash_key =
    KeyID | KeyUrl | KeyDesc | KeyDescLang | KeyEmail | KeyOwner | KeyLink | KeyLang | KeyData
  | KeyGroup | KeyPriv | KeySign

text \<open>\<open>fd_root\<close> is the generic class the frame descends from, \<open>fd_base\<close> its immediate base.\<close>

record frame_def =
  fd_name :: string
  fd_base :: frame_base
  fd_root :: frame_base
  fd_spec :: "spec list"
  fd_opt :: "spec list"
  fd_key :: hash_key

text \<open>The specifications of the generic classes.\<close>

fun base_spec :: "frame_base \<Rightarrow> spec list" where
  "base_spec TextFrame =
     [EncodingSpec ''encoding'', MultiSpec ''text'' [EncodedTextSpec ''text''] (Some 0)]"
| "base_spec NumericTextFrame =
     [EncodingSpec ''encoding'', MultiSpec ''text'' [EncodedNumericTextSpec ''text''] (Some 0)]"
| "base_spec NumericPartTextFrame =
     [EncodingSpec ''encoding'', MultiSpec ''text'' [EncodedNumericPartTextSpec ''text''] (Some 0)]"
| "base_spec TimeStampTextFrame =
     [EncodingSpec ''encoding'', MultiSpec ''text'' [TimeStampSpec ''stamp''] (Some 44)]"
| "base_spec UrlFrame = [Latin1TextSpec ''url'']"
| "base_spec UrlFrameU = [Latin1TextSpec ''url'']"
| "base_spec PairedTextFrame =
     [EncodingSpec ''encoding'',
      MultiSpec ''people'' [EncodedTextSpec ''involvement'', EncodedTextSpec ''person''] None]"
| "base_spec BinaryFrame = [BinaryDataSpec ''data'']"
| "base_spec _ = []"

fun base_key :: "frame_base \<Rightarrow> hash_key" where
  "base_key UrlFrameU = KeyUrl"
| "base_key _ = KeyID"

definition plain :: "string \<Rightarrow> frame_base \<Rightarrow> frame_def" where
  "plain n b = \<lparr>fd_name = n, fd_base = b, fd_root = b, fd_spec = base_spec b, fd_opt = [],
     fd_key = base_key b\<rparr>"

definition own :: "string \<Rightarrow> frame_base \<Rightarrow> spec list \<Rightarrow> spec list \<Rightarrow> hash_key \<Rightarrow> frame_def" where
  "own n b specs optspecs key = \<lparr>fd_name = n, fd_base = b, fd_root = b, fd_spec = specs,
     fd_opt = optspecs, fd_key = key\<rparr>"

section \<open>ID3v2.3 and ID3v2.4\<close>

text \<open>Text frames, \<open>TALB\<close> to \<open>TIME\<close>.\<close>

definition text_frames_1 :: "frame_def list" where
  "text_frames_1 = [
    plain ''TALB'' TextFrame,
    plain ''TBPM'' NumericTextFrame,
    plain ''TCOM'' TextFrame,
    plain ''TCON'' TextFrame,
    plain ''TCOP'' TextFrame,
    plain ''TCMP'' NumericTextFrame,
    plain ''TDAT'' TextFrame,
    plain ''TDEN'' TimeStampTextFrame,
    plain ''TDES'' TextFrame,
    plain ''TDOR'' TimeStampTextFrame,
    plain ''TDLY'' NumericTextFrame,
    plain ''TDRC'' TimeStampTextFrame,
    plain ''TDRL'' TimeStampTextFrame,
    plain ''TDTG'' TimeStampTextFrame,
    plain ''TENC'' TextFrame,
    plain ''TEXT'' TextFrame,
    plain ''TFLT'' TextFrame,
    plain ''TGID'' TextFrame,
    plain ''TIME'' TextFrame]"

text \<open>Text frames, \<open>TIT1\<close> to \<open>TYER\<close>.\<close>

definition text_frames_2 :: "frame_def list" where
  "text_frames_2 = [
    plain ''TIT1'' TextFrame,
    plain ''TIT2'' TextFrame,
    plain ''TIT3'' TextFrame,
    plain ''TKEY'' TextFrame,
    plain ''TLAN'' TextFrame,
    plain ''TLEN'' NumericTextFrame,
    plain ''TMED'' TextFrame,
    plain ''TMOO'' TextFrame,
    plain ''TOAL'' TextFrame,
    plain ''TOFN'' TextFrame,
    plain ''TOLY'' TextFrame,
    plain ''TOPE'' TextFrame,
    plain ''TORY'' NumericTextFrame,
    plain ''TOWN'' TextFrame,
    plain ''TPE1'' TextFrame,
    plain ''TPE2'' TextFrame,
    plain ''TPE3'' TextFrame,
    plain ''TPE4'' TextFrame,
    plain ''TPOS'' NumericPartTextFrame,
    plain ''TPRO'' TextFrame,
    plain ''TPUB'' TextFrame,
    plain ''TRCK'' NumericPartTextFrame,
    plain ''TRDA'' TextFrame,
    plain ''TRSN'' TextFrame,
    plain ''TRSO'' TextFrame,
    plain ''TSIZ'' NumericTextFrame,
    plain ''TSO2'' TextFrame,
    plain ''TSOA'' TextFrame,
    plain ''TSOC'' TextFrame,
    plain ''TSOP'' TextFrame,
    plain ''TSOT'' TextFrame,
    plain ''TSRC'' TextFrame,
    plain ''TSSE'' TextFrame,
    plain ''TSST'' TextFrame,
    plain ''TYER'' NumericTextFrame]"

text \<open>\<open>TXXX\<close> and the URL frames.\<close>

definition url_frames :: "frame_def list" where
  "url_frames = [
    own ''TXXX'' TextFrame [EncodingSpec ''encoding'', EncodedTextSpec ''desc'', MultiSpec
        ''text'' [EncodedTextSpec ''text''] (Some 0)] [] KeyDesc,
    plain ''WCOM'' UrlFrameU,
    plain ''WCOP'' UrlFrame,
    plain ''WFED'' UrlFrame,
    plain ''WOAF'' UrlFrame,
    plain ''WOAR'' UrlFrameU,
    plain ''WOAS'' UrlFrame,
    plain ''WORS'' UrlFrame,
    plain ''WPAY'' UrlFrame,
    plain ''WPUB'' UrlFrame,
    own ''WXXX'' UrlFrame [EncodingSpec ''encoding'', EncodedTextSpec ''desc'', Latin1TextSpec
        ''url''] [] KeyDesc]"

text \<open>People and binary frames; \<open>IPLS\<close> is a subclass of \<open>TIPL\<close> with nothing of its own.\<close>

definition people_frames :: "frame_def list" where
  "people_frames = [
    plain ''TIPL'' PairedTextFrame,
    plain ''TMCL'' PairedTextFrame,
    (plain ''IPLS'' PairedTextFrame)\<lparr>fd_base := Sub ''TIPL''\<rparr>,
    plain ''MCDI'' BinaryFrame,
    own ''ETCO'' Frame [ByteSpec ''format'', KeyEventSpec ''events''] [] KeyID,
    own ''MLLT'' Frame [SizedIntegerSpec ''frames'' 2, SizedIntegerSpec ''bytes'' 3,
        SizedIntegerSpec ''milliseconds'' 3, ByteSpec ''bits_for_bytes'', ByteSpec
        ''bits_for_milliseconds'', BinaryDataSpec ''data''] [] KeyID,
    own ''SYTC'' Frame [ByteSpec ''format'', BinaryDataSpec ''data''] [] KeyID]"

text \<open>Lyrics, comments and volume.\<close>

definition lyric_frames :: "frame_def list" where
  "lyric_frames = [
    own ''USLT'' Frame [EncodingSpec ''encoding'', StringSpec ''lang'' 3, EncodedTextSpec
        ''desc'', EncodedTextSpec ''text''] [] KeyDescLang,
    own ''SYLT'' Frame [EncodingSpec ''encoding'', StringSpec ''lang'' 3, ByteSpec ''format'',
        ByteSpec ''type'', EncodedTextSpec ''desc'', SynchronizedTextSpec ''text''] []
        KeyDescLang,
    own ''COMM'' TextFrame [EncodingSpec ''encoding'', StringSpec ''lang'' 3, EncodedTextSpec
        ''desc'', MultiSpec ''text'' [EncodedTextSpec ''text''] (Some 0)] [] KeyDescLang,
    own ''RVA2'' Frame [Latin1TextSpec ''desc'', ChannelSpec ''channel'', VolumeAdjustmentSpec
        ''gain'', VolumePeakSpec ''peak''] [] KeyDesc,
    own ''EQU2'' Frame [ByteSpec ''method'', Latin1TextSpec ''desc'', VolumeAdjustmentsSpec
        ''adjustments''] [] KeyDesc]"

text \<open>\<open>RVRB\<close> to \<open>GEOB\<close>.\<close>

definition picture_frames :: "frame_def list" where
  "picture_frames = [
    own ''RVRB'' Frame [SizedIntegerSpec ''left'' 2, SizedIntegerSpec ''right'' 2, ByteSpec
        ''bounce_left'', ByteSpec ''bounce_right'', ByteSpec ''feedback_ltl'', ByteSpec
        ''feedback_ltr'', ByteSpec ''feedback_rtr'', ByteSpec ''feedback_rtl'', ByteSpec
        ''premix_ltr'', ByteSpec ''premix_rtl''] [] KeyID,
    own ''APIC'' Frame [EncodingSpec ''encoding'', Latin1TextSpec ''mime'', ByteSpec ''type'',
        EncodedTextSpec ''desc'', BinaryDataSpec ''data''] [] KeyDesc,
    own ''PCNT'' Frame [IntegerSpec ''count''] [] KeyID,
    own ''POPM'' FrameOpt [Latin1TextSpec ''email'', ByteSpec ''rating''] [IntegerSpec
        ''count''] KeyEmail,
    own ''GEOB'' Frame [EncodingSpec ''encoding'', Latin1TextSpec ''mime'', EncodedTextSpec
        ''filename'', EncodedTextSpec ''desc'', BinaryDataSpec ''data''] [] KeyDesc]"

text \<open>\<open>RBUF\<close> to \<open>POSS\<close>.\<close>

definition link_frames :: "frame_def list" where
  "link_frames = [
    own ''RBUF'' FrameOpt [SizedIntegerSpec ''size'' 3] [ByteSpec ''info'', SizedIntegerSpec
        ''offset'' 4] KeyID,
    own ''AENC'' FrameOpt [Latin1TextSpec ''owner'', SizedIntegerSpec ''preview_start'' 2,
        SizedIntegerSpec ''preview_length'' 2] [BinaryDataSpec ''data''] KeyOwner,
    own ''LINK'' FrameOpt [StringSpec ''frameid'' 4, Latin1TextSpec ''url''] [BinaryDataSpec
        ''data''] KeyLink,
    own ''POSS'' Frame [ByteSpec ''format'', IntegerSpec ''position''] [] KeyID]"

text \<open>\<open>UFID\<close> to \<open>ENCR\<close>.\<close>

definition owner_frames :: "frame_def list" where
  "owner_frames = [
    own ''UFID'' Frame [Latin1TextSpec ''owner'', BinaryDataSpec ''data''] [] KeyOwner,
    own ''USER'' Frame [EncodingSpec ''encoding'', StringSpec ''lang'' 3, EncodedTextSpec
        ''text''] [] KeyLang,
    own ''OWNE'' Frame [EncodingSpec ''encoding'', Latin1TextSpec ''price'', StringSpec ''date''
        8, EncodedTextSpec ''seller''] [] KeyID,
    own ''COMR'' FrameOpt [EncodingSpec ''encoding'', Latin1TextSpec ''price'', StringSpec
        ''valid_until'' 8, Latin1TextSpec ''contact'', ByteSpec ''format'', EncodedTextSpec
        ''seller'', EncodedTextSpec ''desc''] [Latin1TextSpec ''mime'', BinaryDataSpec ''logo'']
        KeyData,
    own ''ENCR'' Frame [Latin1TextSpec ''owner'', ByteSpec ''method'', BinaryDataSpec ''data'']
        [] KeyOwner]"

text \<open>\<open>GRID\<close> to \<open>ASPI\<close>.\<close>

definition group_frames :: "frame_def list" where
  "group_frames = [
    own ''GRID'' FrameOpt [Latin1TextSpec ''owner'', ByteSpec ''group''] [BinaryDataSpec
        ''data''] KeyGroup,
    own ''PRIV'' Frame [Latin1TextSpec ''owner'', BinaryDataSpec ''data''] [] KeyPriv,
    own ''SIGN'' Frame [ByteSpec ''group'', BinaryDataSpec ''sig''] [] KeySign,
    own ''SEEK'' Frame [IntegerSpec ''offset''] [] KeyID,
    own ''ASPI'' Frame [SizedIntegerSpec ''S'' 4, SizedIntegerSpec ''L'' 4, SizedIntegerSpec
        ''N'' 2, ByteSpec ''b'', ASPIIndexSpec ''Fi''] [] KeyID]"

text \<open>\<open>Frames\<close>: the classes with names of four characters.\<close>

definition frames_v24 :: "frame_def list" where
  "frames_v24 = text_frames_1 @ text_frames_2 @ url_frames @ people_frames @ lyric_frames
     @ picture_frames @ link_frames @ owner_frames @ group_frames"

definition find_frame :: "frame_def list \<Rightarrow> string \<Rightarrow> frame_def option" where
  "find_frame frames name = List.find (\<lambda>d. fd_name d = name) frames"

definition binary_frame :: frame_def where
  "binary_frame = own ''BinaryFrame'' Frame [BinaryDataSpec ''data''] [] KeyID"

text \<open>The class \<open>Frame\<close> itself, the base of \<open>CRM\<close>.\<close>

definition bare_frame :: frame_def where
  "bare_frame = own ''Frame'' Frame [] [] KeyID"

section \<open>ID3v2.2\<close>

definition derived :: "string \<Rightarrow> string \<Rightarrow> frame_def" where
  "derived n b =
     (case find_frame frames_v24 b of Some p \<Rightarrow> p | None \<Rightarrow> bare_frame)
       \<lparr>fd_name := n, fd_base := Sub b\<rparr>"

definition derived_spec :: "string \<Rightarrow> string \<Rightarrow> spec list \<Rightarrow> frame_def" where
  "derived_spec n b specs = (derived n b)\<lparr>fd_spec := specs\<rparr>"

text \<open>ID3v2.2 text frames.\<close>

definition frames_22_text :: "frame_def list" where
  "frames_22_text = [
    derived ''UFI'' ''UFID'',
    derived ''TT1'' ''TIT1'',
    derived ''TT2'' ''TIT2'',
    derived ''TT3'' ''TIT3'',
    derived ''TP1'' ''TPE1'',
    derived ''TP2'' ''TPE2'',
    derived ''TP3'' ''TPE3'',
    derived ''TP4'' ''TPE4'',
    derived ''TCM'' ''TCOM'',
    derived ''TXT'' ''TEXT'',
    derived ''TLA'' ''TLAN'',
    derived ''TCO'' ''TCON'',
    derived ''TAL'' ''TALB'',
    derived ''TPA'' ''TPOS'',
    derived ''TRK'' ''TRCK'',
    derived ''TRC'' ''TSRC'',
    derived ''TYE'' ''TYER'',
    derived ''TDA'' ''TDAT'',
    derived ''TIM'' ''TIME'',
    derived ''TRD'' ''TRDA'',
    derived ''TMT'' ''TMED'',
    derived ''TFT'' ''TFLT'',
    derived ''TBP'' ''TBPM'',
    derived ''TCP'' ''TCMP'',
    derived ''TCR'' ''TCOP'',
    derived ''TPB'' ''TPUB'',
    derived ''TEN'' ''TENC'',
    derived ''TSS'' ''TSSE'',
    derived ''TOF'' ''TOFN'',
    derived ''TLE'' ''TLEN'',
    derived ''TSI'' ''TSIZ'',
    derived ''TDY'' ''TDLY'',
    derived ''TKE'' ''TKEY'',
    derived ''TOT'' ''TOAL'',
    derived ''TOA'' ''TOPE'',
    derived ''TOL'' ''TOLY'',
    derived ''TOR'' ''TORY'']"

text \<open>The other ID3v2.2 frames.\<close>

definition frames_22_rest :: "frame_def list" where
  "frames_22_rest = [
    derived ''TXX'' ''TXXX'',
    derived ''WAF'' ''WOAF'',
    derived ''WAR'' ''WOAR'',
    derived ''WAS'' ''WOAS'',
    derived ''WCM'' ''WCOM'',
    derived ''WCP'' ''WCOP'',
    derived ''WPB'' ''WPUB'',
    derived ''WXX'' ''WXXX'',
    derived ''IPL'' ''IPLS'',
    derived ''MCI'' ''MCDI'',
    derived ''ETC'' ''ETCO'',
    derived ''MLL'' ''MLLT'',
    derived ''STC'' ''SYTC'',
    derived ''ULT'' ''USLT'',
    derived ''SLT'' ''SYLT'',
    derived ''COM'' ''COMM'',
    derived ''REV'' ''RVRB'',
    derived_spec ''PIC'' ''APIC'' [EncodingSpec ''encoding'', StringSpec ''mime'' 3, ByteSpec
        ''type'', EncodedTextSpec ''desc'', BinaryDataSpec ''data''],
    derived ''GEO'' ''GEOB'',
    derived ''CNT'' ''PCNT'',
    derived ''POP'' ''POPM'',
    derived ''BUF'' ''RBUF'',
    own ''CRM'' Frame [Latin1TextSpec ''owner'', Latin1TextSpec ''desc'', BinaryDataSpec
        ''data''] [] KeyID,
    derived ''CRA'' ''AENC'',
    derived_spec ''LNK'' ''LINK'' [StringSpec ''frameid'' 3, Latin1TextSpec ''url'']]"

text \<open>\<open>Frames_2_2\<close>: the classes with names of three characters.\<close>

definition frames_v22 :: "frame_def list" where
  "frames_v22 = frames_22_text @ frames_22_rest"

section \<open>What the tables satisfy\<close>

text \<open>
  A frame layout that can be written and read back: the names differ, only the last field may
  take the rest of the frame, and a text field comes after the encoding.
\<close>

fun needs_encoding :: "spec \<Rightarrow> bool" where
  "needs_encoding (EncodedTextSpec _) = True"
| "needs_encoding (EncodedNumericTextSpec _) = True"
| "needs_encoding (EncodedNumericPartTextSpec _) = True"
| "needs_encoding (TimeStampSpec _) = True"
| "needs_encoding (SynchronizedTextSpec _) = True"
| "needs_encoding (MultiSpec _ specs _) = list_ex needs_encoding specs"
| "needs_encoding _ = False"

fun needs_index :: "spec \<Rightarrow> bool" where
  "needs_index (ASPIIndexSpec _) = True"
| "needs_index (MultiSpec _ specs _) = list_ex needs_index specs"
| "needs_index _ = False"

fun layout_from :: "string list \<Rightarrow> spec list \<Rightarrow> bool" where
  "layout_from seen [] = True"
| "layout_from seen (s # ss) =
     (spec_name s \<notin> set seen \<and> proper_spec s \<and> (ss \<noteq> [] \<longrightarrow> \<not> takes_rest s)
      \<and> (needs_encoding s \<longrightarrow> ''encoding'' \<in> set seen)
      \<and> (needs_index s \<longrightarrow> ''b'' \<in> set seen \<and> ''N'' \<in> set seen)
      \<and> layout_from (spec_name s # seen) ss)"

definition layout_ok :: "frame_def \<Rightarrow> bool" where
  "layout_ok d \<longleftrightarrow> layout_from [] (fd_spec d @ fd_opt d)"

lemma frames_v24_layout: "list_all layout_ok frames_v24"
  by code_simp

lemma frames_v24_names: "distinct (map fd_name frames_v24) \<and> list_all (\<lambda>d. length (fd_name d) = 4) frames_v24"
  by code_simp

lemma derived_simps [simp]:
  "fd_name (derived n b) = n" "fd_base (derived n b) = Sub b"
  "fd_name (derived_spec n b specs) = n" "fd_base (derived_spec n b specs) = Sub b"
  by (simp_all add: derived_def derived_spec_def)

text \<open>A derived class keeps the layout of its base.\<close>

lemma find_frame_Some: "find_frame frames n = Some d \<Longrightarrow> d \<in> set frames \<and> fd_name d = n"
  by (auto simp: find_frame_def find_Some_iff)

lemma layout_ok_fields: "layout_ok (d\<lparr>fd_name := n, fd_base := b\<rparr>) = layout_ok d"
  by (simp add: layout_ok_def)

lemma layout_ok_derived: "layout_ok (derived n b)"
proof (cases "find_frame frames_v24 b")
  case None
  then show ?thesis by (simp add: derived_def layout_ok_fields)
      (simp add: layout_ok_def bare_frame_def own_def)
next
  case (Some p)
  then have "layout_ok p"
    using frames_v24_layout by (auto simp: list_all_iff dest: find_frame_Some)
  then show ?thesis using Some by (simp add: derived_def layout_ok_fields)
qed

lemma frames_v22_layout: "list_all layout_ok frames_v22"
proof -
  have "layout_ok (own ''CRM'' Frame
      [Latin1TextSpec ''owner'', Latin1TextSpec ''desc'', BinaryDataSpec ''data''] [] KeyID)"
    by (simp add: layout_ok_def own_def)
  moreover have "layout_ok (derived_spec ''PIC'' ''APIC''
      [EncodingSpec ''encoding'', StringSpec ''mime'' 3, ByteSpec ''type'', EncodedTextSpec ''desc'',
       BinaryDataSpec ''data''])"
    "layout_ok (derived_spec ''LNK'' ''LINK'' [StringSpec ''frameid'' 3, Latin1TextSpec ''url''])"
    by code_simp+
  ultimately show ?thesis
    by (simp add: frames_v22_def frames_22_text_def frames_22_rest_def layout_ok_derived)
qed

lemma frames_v22_names:
  "distinct (map fd_name frames_v22) \<and> list_all (\<lambda>d. length (fd_name d) = 3) frames_v22"
  by (simp add: frames_v22_def frames_22_text_def frames_22_rest_def own_def)

lemma frames_v22_base:
  "list_all (\<lambda>d. fd_name d = ''CRM'' \<or>
     (case fd_base d of Sub b \<Rightarrow> b \<in> set (map fd_name frames_v24) | _ \<Rightarrow> False)) frames_v22"
  by (simp add: frames_v22_def frames_22_text_def frames_22_rest_def own_def frames_v24_def
      text_frames_1_def text_frames_2_def url_frames_def people_frames_def lyric_frames_def
      picture_frames_def link_frames_def owner_frames_def group_frames_def plain_def)

end
