(* ===== verification/Mut_Frames.thy ===== *)
theory Mut_Frames
  imports Mut_Frame_Table
begin

text \<open>
  Frame objects: construction (\<open>__init__\<close> with its validation, and the copy that upgrades an
  ID3v2.2 frame), reading (\<open>_readData\<close>, \<open>fromData\<close>), writing (\<open>_writeData\<close>), the ID3v2.3 copy,
  and \<open>HashKey\<close>.

  A frame is its class and its attributes; \<open>_rawdata\<close> and \<open>_flags\<close>, which nothing reads, are
  left out, as are the warnings about left-over data.
\<close>

definition is_valid_frame_id :: "string \<Rightarrow> bool" where
  "is_valid_frame_id frame_id \<longleftrightarrow> str_isalnum frame_id \<and> str_isupper frame_id"

record frame =
  fr_def :: frame_def
  fr_attrs :: attrs

definition is_opt :: "frame_def \<Rightarrow> bool" where
  "is_opt d \<longleftrightarrow> fd_root d = FrameOpt"

text \<open>\<open>isinstance(frame, TextFrame)\<close>.\<close>

definition is_text_frame :: "frame_def \<Rightarrow> bool" where
  "is_text_frame d \<longleftrightarrow>
     fd_root d \<in> {TextFrame, NumericTextFrame, NumericPartTextFrame, TimeStampTextFrame}"

section \<open>Construction\<close>

definition kwarg :: "attrs \<Rightarrow> string \<Rightarrow> fval" where
  "kwarg kwargs name = (case map_of kwargs name of None \<Rightarrow> FNone | Some v \<Rightarrow> v)"

fun init_fields :: "attrs \<Rightarrow> spec list \<Rightarrow> fval list \<Rightarrow> attrs \<Rightarrow> merr + attrs" where
  "init_fields a [] args kwargs = Inr a"
| "init_fields a (checker # cs) (val # args) kwargs =
     bindR (spec_validate a checker val) (\<lambda>v.
       init_fields (setattr a (spec_name checker) v) cs args kwargs)"
| "init_fields a (checker # cs) [] kwargs =
     bindR (spec_validate a checker (kwarg kwargs (spec_name checker))) (\<lambda>v.
       init_fields (setattr a (spec_name checker) v) cs [] kwargs)"

fun init_optional :: "attrs \<Rightarrow> spec list \<Rightarrow> attrs \<Rightarrow> merr + attrs" where
  "init_optional a [] kwargs = Inr a"
| "init_optional a (s # ss) kwargs =
     (case map_of kwargs (spec_name s) of
        Some v \<Rightarrow> bindR (spec_validate a s v) (\<lambda>x.
                    init_optional (setattr a (spec_name s) x) ss kwargs)
      | None \<Rightarrow> Inr a)"

definition frame_init :: "frame_def \<Rightarrow> fval list \<Rightarrow> attrs \<Rightarrow> merr + frame" where
  "frame_init d args kwargs =
     bindR (init_fields [] (fd_spec d) args kwargs) (\<lambda>a.
       bindR (if is_opt d then init_optional a (fd_opt d) kwargs else Inr a) (\<lambda>a.
         Inr \<lparr>fr_def = d, fr_attrs = a\<rparr>))"

text \<open>
  \<open>cls(other)\<close> with a single argument of the class: the fields are copied, and since no keyword
  is given no optional field is.
\<close>

fun copy_fields :: "attrs \<Rightarrow> spec list \<Rightarrow> attrs \<Rightarrow> merr + attrs" where
  "copy_fields a [] other = Inr a"
| "copy_fields a (checker # cs) other =
     bindR (getattr other (spec_name checker)) (\<lambda>x.
       bindR (spec_validate a checker x) (\<lambda>v.
         copy_fields (setattr a (spec_name checker) v) cs other))"

definition frame_copy :: "frame_def \<Rightarrow> frame \<Rightarrow> merr + frame" where
  "frame_copy d other =
     bindR (copy_fields [] (fd_spec d) (fr_attrs other)) (\<lambda>a.
       bindR (if is_opt d then init_optional a (fd_opt d) [] else Inr a) (\<lambda>a.
         Inr \<lparr>fr_def = d, fr_attrs = a\<rparr>))"

text \<open>\<open>_get_v23_frame(sep = ...)\<close>: the fields validated for ID3v2.3, given to a new frame.\<close>

fun v23_fields :: "attrs \<Rightarrow> unicode option \<Rightarrow> spec list \<Rightarrow> merr + attrs" where
  "v23_fields a sep [] = Inr []"
| "v23_fields a sep (checker # cs) =
     bindR (getattr a (spec_name checker)) (\<lambda>value.
       bindR (spec_validate23 a sep checker value) (\<lambda>v.
         bindR (v23_fields a sep cs) (\<lambda>kws. Inr ((spec_name checker, v) # kws))))"

definition get_v23_frame :: "unicode option \<Rightarrow> frame \<Rightarrow> merr + frame" where
  "get_v23_frame sep f =
     bindR (v23_fields (fr_attrs f) sep (fd_spec (fr_def f))) (\<lambda>new_kwargs.
       frame_init (fr_def f) [] new_kwargs)"

section \<open>Reading and writing the data\<close>

text \<open>
  The loop over \<open>_framespec\<close>. \<open>Frame\<close> turns undecodable text into a junk frame; \<open>FrameOpt\<close>, whose
  method repeats the loop, does not.
\<close>

fun read_fields :: "bool \<Rightarrow> attrs \<Rightarrow> spec list \<Rightarrow> string \<Rightarrow> merr + attrs \<times> string" where
  "read_fields opt a [] data = Inr (a, data)"
| "read_fields opt a (reader # rs) data =
     (if data = [] then Inl ID3JunkFrameError
      else case spec_read a reader data of
        Inl e \<Rightarrow> Inl (if e = UnicodeDecodeError \<and> \<not> opt then ID3JunkFrameError else e)
      | Inr (value, data) \<Rightarrow> read_fields opt (setattr a (spec_name reader) value) rs data)"

fun read_optional :: "attrs \<Rightarrow> spec list \<Rightarrow> string \<Rightarrow> merr + attrs \<times> string" where
  "read_optional a [] data = Inr (a, data)"
| "read_optional a (reader # rs) data =
     (if data = [] then Inr (a, data)
      else bindR (spec_read a reader data) (\<lambda>(value, data).
             read_optional (setattr a (spec_name reader) value) rs data))"

definition read_data :: "frame_def \<Rightarrow> attrs \<Rightarrow> string \<Rightarrow> merr + attrs" where
  "read_data d a data =
     bindR (read_fields (is_opt d) a (fd_spec d) data) (\<lambda>(a, rest).
       if is_opt d \<and> rest \<noteq> [] then bindR (read_optional a (fd_opt d) rest) (\<lambda>(a, _). Inr a)
       else Inr a)"

definition write_field :: "attrs \<Rightarrow> spec \<Rightarrow> merr + string" where
  "write_field a writer = bindR (getattr a (spec_name writer)) (spec_write a writer)"

fun write_optional :: "attrs \<Rightarrow> spec list \<Rightarrow> merr + string" where
  "write_optional a [] = Inr []"
| "write_optional a (writer # ws) =
     (case write_field a writer of
        Inl e \<Rightarrow> if e = AttributeError then Inr [] else Inl e
      | Inr s \<Rightarrow> bindR (write_optional a ws) (\<lambda>t. Inr (s @ t)))"

definition write_data :: "frame \<Rightarrow> merr + string" where
  "write_data f =
     bindR (mapR (write_field (fr_attrs f)) (fd_spec (fr_def f))) (\<lambda>outs.
       bindR (if is_opt (fr_def f) then write_optional (fr_attrs f) (fd_opt (fr_def f)) else Inr [])
         (\<lambda>opts. Inr (concat outs @ opts)))"

section \<open>fromData\<close>

text \<open>Versions are tuples, compared lexicographically.\<close>

fun ver_le :: "nat list \<Rightarrow> nat list \<Rightarrow> bool" where
  "ver_le [] _ = True"
| "ver_le (x # xs) [] = False"
| "ver_le (x # xs) (y # ys) = (x < y \<or> x = y \<and> ver_le xs ys)"

definition V24 :: "nat list" where "V24 = [2, 4, 0]"
definition V23 :: "nat list" where "V23 = [2, 3, 0]"
definition V22 :: "nat list" where "V22 = [2, 2, 0]"
definition V11 :: "nat list" where "V11 = [1, 1]"

definition FLAG23_COMPRESS :: nat where "FLAG23_COMPRESS = 0x80"
definition FLAG23_ENCRYPT :: nat where "FLAG23_ENCRYPT = 0x40"
definition FLAG24_COMPRESS :: nat where "FLAG24_COMPRESS = 0x8"
definition FLAG24_ENCRYPT :: nat where "FLAG24_ENCRYPT = 0x4"
definition FLAG24_UNSYNCH :: nat where "FLAG24_UNSYNCH = 0x2"
definition FLAG24_DATALEN :: nat where "FLAG24_DATALEN = 0x1"

lemmas flag_defs = FLAG23_COMPRESS_def FLAG23_ENCRYPT_def FLAG24_COMPRESS_def FLAG24_ENCRYPT_def
  FLAG24_UNSYNCH_def FLAG24_DATALEN_def V24_def V23_def V22_def V11_def

definition flag_set :: "nat \<Rightarrow> nat \<Rightarrow> bool" where
  "flag_set flags b \<longleftrightarrow> flags AND b \<noteq> 0"

text \<open>
  What the tag knows when it reads its frames. \<open>inflate\<close> is \<open>zlib\<close> decompression, a parameter:
  \<open>None\<close> is \<open>zlib.error\<close>.
\<close>

record tag_ctx =
  ctx_version :: "nat list"
  ctx_unsynch :: bool
  ctx_pedantic :: bool
  ctx_inflate :: "string \<Rightarrow> string option"

definition undo_unsynch :: "tag_ctx \<Rightarrow> nat \<Rightarrow> string \<Rightarrow> merr + string" where
  "undo_unsynch id3 tflags data =
     (if flag_set tflags FLAG24_UNSYNCH \<or> ctx_unsynch id3 then
        (case unsynch_decode data of
           Inr d \<Rightarrow> Inr d
         | Inl _ \<Rightarrow> if ctx_pedantic id3 then Inl ID3BadUnsynchData else Inr data)
      else Inr data)"

definition data_v24 :: "tag_ctx \<Rightarrow> nat \<Rightarrow> string \<Rightarrow> merr + string" where
  "data_v24 id3 tflags data =
     (let lead = flag_set tflags (FLAG24_COMPRESS OR FLAG24_DATALEN);
          datalen_bytes = take 4 data;
          data = (if lead then drop 4 data else data)
      in bindR (undo_unsynch id3 tflags data) (\<lambda>data.
         if flag_set tflags FLAG24_ENCRYPT then Inl ID3EncryptionUnsupportedError
         else if flag_set tflags FLAG24_COMPRESS then
           (case ctx_inflate id3 data of
              Some d \<Rightarrow> Inr d
            | None \<Rightarrow>
                (case ctx_inflate id3 (datalen_bytes @ data) of
                   Some d \<Rightarrow> Inr d
                 | None \<Rightarrow> if ctx_pedantic id3 then Inl ID3BadCompressedData
                           else Inr (datalen_bytes @ data)))
         else Inr data))"

definition data_v23 :: "tag_ctx \<Rightarrow> nat \<Rightarrow> string \<Rightarrow> merr + string" where
  "data_v23 id3 tflags data =
     (if flag_set tflags FLAG23_COMPRESS \<and> length data < 4 then Inl StructError
      else let data = (if flag_set tflags FLAG23_COMPRESS then drop 4 data else data)
           in if flag_set tflags FLAG23_ENCRYPT then Inl ID3EncryptionUnsupportedError
              else if flag_set tflags FLAG23_COMPRESS then
                (case ctx_inflate id3 data of
                   Some d \<Rightarrow> Inr d
                 | None \<Rightarrow> if ctx_pedantic id3 then Inl ID3BadCompressedData else Inr data)
              else Inr data)"

definition from_data :: "frame_def \<Rightarrow> tag_ctx \<Rightarrow> nat \<Rightarrow> string \<Rightarrow> merr + frame" where
  "from_data d id3 tflags data =
     bindR (if ver_le V24 (ctx_version id3) then data_v24 id3 tflags data
            else if ver_le V23 (ctx_version id3) then data_v23 id3 tflags data
            else Inr data) (\<lambda>data.
       bindR (frame_init d [] []) (\<lambda>f.
         bindR (read_data d (fr_attrs f) data) (\<lambda>a. Inr (f\<lparr>fr_attrs := a\<rparr>))))"

section \<open>Keys and text\<close>

text \<open>\<open>repr\<close> of a byte string.\<close>

definition hex_digit :: "nat \<Rightarrow> char" where
  "hex_digit d = (if d < 10 then chr (48 + d) else chr (87 + d))"

definition repr_char :: "char \<Rightarrow> char \<Rightarrow> string" where
  "repr_char quot c =
     (if c = quot \<or> c = CHR 0x5C then [CHR 0x5C, c]
      else if c = CHR 0x09 then [CHR 0x5C, CHR ''t'']
      else if c = CHR 0x0A then [CHR 0x5C, CHR ''n'']
      else if c = CHR 0x0D then [CHR 0x5C, CHR ''r'']
      else if ord c < 32 \<or> 127 \<le> ord c then
        [CHR 0x5C, CHR ''x'', hex_digit (ord c div 16), hex_digit (ord c mod 16)]
      else [c])"

definition repr_bytes :: "string \<Rightarrow> string" where
  "repr_bytes s =
     (let quot = (if CHR 0x27 \<in> set s \<and> CHR 0x22 \<notin> set s then CHR 0x22 else CHR 0x27)
      in [quot] @ concat (map (repr_char quot) s) @ [quot])"

text \<open>\<open>repr\<close> of a text: code points outside printable ASCII as two, four or eight hexadecimal digits.\<close>

fun hex_text :: "nat \<Rightarrow> nat \<Rightarrow> string" where
  "hex_text 0 n = []"
| "hex_text (Suc w) n = hex_text w (n div 16) @ [hex_digit (n mod 16)]"

definition repr_point :: "char \<Rightarrow> nat \<Rightarrow> string" where
  "repr_point quot c =
     (if c < 127 then repr_char quot (chr c)
      else if c < 256 then [CHR 0x5C, CHR ''x''] @ hex_text 2 c
      else if c < 65536 then [CHR 0x5C, CHR ''u''] @ hex_text 4 c
      else [CHR 0x5C, CHR ''U''] @ hex_text 8 c)"

definition repr_text :: "unicode \<Rightarrow> string" where
  "repr_text u =
     (let quot = (if 0x27 \<in> set u \<and> 0x22 \<notin> set u then CHR 0x22 else CHR 0x27)
      in ''u'' @ [quot] @ concat (map (repr_point quot) u) @ [quot])"

text \<open>
  \<open>repr\<close> of the values a \<open>StringSpec\<close> or \<open>BinaryDataSpec\<close> field can hold; the keys need no other.
\<close>

definition repr_value :: "fval \<Rightarrow> merr + unicode" where
  "repr_value v =
     (case v of
        FBytes b \<Rightarrow> Inr (map ord (repr_bytes b))
      | FText u \<Rightarrow> Inr (map ord (repr_text u))
      | FNone \<Rightarrow> Inr (map ord ''None'')
      | FInt i \<Rightarrow> Inr (map ord (int_str i))
      | _ \<Rightarrow> Inl TypeError)"

text \<open>\<open>HashKey\<close>; a byte string key is the key of its characters, as Python's dictionaries treat ASCII.\<close>

definition attr_unicode :: "frame \<Rightarrow> string \<Rightarrow> merr + unicode" where
  "attr_unicode f name = bindR (getattr (fr_attrs f) name) to_unicode"

definition attr_repr :: "frame \<Rightarrow> string \<Rightarrow> merr + unicode" where
  "attr_repr f name = bindR (getattr (fr_attrs f) name) repr_value"

definition colon :: unicode where
  "colon = [58]"

definition key_join :: "frame \<Rightarrow> (merr + unicode) list \<Rightarrow> merr + unicode" where
  "key_join f parts =
     bindR (mapR id parts) (\<lambda>ps. Inr (str_join colon (map ord (fd_name (fr_def f)) # ps)))"

definition attr_latin1 :: "frame \<Rightarrow> string \<Rightarrow> merr + unicode" where
  "attr_latin1 f name =
     bindR (getattr (fr_attrs f) name) (\<lambda>v. case v of
       FBytes b \<Rightarrow> Inr (latin1_decode b)
     | FText u \<Rightarrow> bindR (ascii_str u) (\<lambda>b. Inr (latin1_decode b))
     | _ \<Rightarrow> Inl AttributeError)"

definition hash_key_of :: "frame \<Rightarrow> merr + unicode" where
  "hash_key_of f =
     (case fd_key (fr_def f) of
        KeyID \<Rightarrow> key_join f []
      | KeyUrl \<Rightarrow> key_join f [attr_unicode f ''url'']
      | KeyDesc \<Rightarrow> key_join f [attr_unicode f ''desc'']
      | KeyDescLang \<Rightarrow> key_join f [attr_unicode f ''desc'', attr_repr f ''lang'']
      | KeyEmail \<Rightarrow> key_join f [attr_unicode f ''email'']
      | KeyOwner \<Rightarrow> key_join f [attr_unicode f ''owner'']
      | KeyLink \<Rightarrow>
          (case getattr (fr_attrs f) ''data'' of
             Inl _ \<Rightarrow> key_join f [attr_unicode f ''frameid'', attr_unicode f ''url'']
           | Inr _ \<Rightarrow> key_join f [attr_unicode f ''frameid'', attr_unicode f ''url'', attr_repr f ''data''])
      | KeyLang \<Rightarrow> key_join f [attr_repr f ''lang'']
      | KeyData \<Rightarrow> key_join f [bindR (write_data f) (\<lambda>s. Inr (latin1_decode s))]
      | KeyGroup \<Rightarrow> key_join f [attr_unicode f ''group'']
      | KeyPriv \<Rightarrow> key_join f [attr_unicode f ''owner'', attr_latin1 f ''data'']
      | KeySign \<Rightarrow>
          key_join f [bindR (bindR (getattr (fr_attrs f) ''group'') write_byte) (\<lambda>s. Inr (latin1_decode s)),
                      attr_latin1 f ''sig''])"

text \<open>\<open>unicode(frame)\<close> and \<open>str(frame)\<close> of the text frames.\<close>

fun texts_of :: "fval list \<Rightarrow> merr + unicode list" where
  "texts_of [] = Inr []"
| "texts_of (v # vs) =
     bindR (case v of FText u \<Rightarrow> Inr u | FBytes b \<Rightarrow> ascii_decode b
            | FStamp ts \<Rightarrow> Inr (map ord (get_text ts)) | _ \<Rightarrow> Inl TypeError) (\<lambda>u.
       bindR (texts_of vs) (\<lambda>us. Inr (u # us)))"

definition frame_unicode :: "frame \<Rightarrow> merr + unicode" where
  "frame_unicode f =
     bindR (getattr (fr_attrs f) ''text'') (\<lambda>v. case v of
       FList vs \<Rightarrow>
         bindR (texts_of vs) (\<lambda>us.
           Inr (str_join (if fd_root (fr_def f) = TimeStampTextFrame then [44] else [0]) us))
     | _ \<Rightarrow> Inl TypeError)"

definition frame_str :: "frame \<Rightarrow> merr + string" where
  "frame_str f = bindR (frame_unicode f) (\<lambda>u. Inr (utf8_encode u))"

end
