(* ===== verification/Mut_Frame_Laws.thy ===== *)
theory Mut_Frame_Laws
  imports Mut_Frames
begin

text \<open>
  Reading back what \<open>_writeData\<close> wrote, for every frame class of the tables.
\<close>

section \<open>A reader only looks at the attributes it needs\<close>

definition agree :: "attrs \<Rightarrow> attrs \<Rightarrow> string list \<Rightarrow> bool" where
  "agree a b names \<longleftrightarrow> (\<forall>n \<in> set names. map_of a n = map_of b n)"

definition needs :: "spec \<Rightarrow> string list" where
  "needs s = (if needs_encoding s then [''encoding''] else []) @
             (if needs_index s then [''b'', ''N''] else [])"

lemma getattr_cong: "map_of a n = map_of b n \<Longrightarrow> getattr a n = getattr b n"
  by (simp add: getattr_def)

lemma agree_encoding:
  assumes "agree a b (needs s)" "needs_encoding s"
  shows "text_encoding a = text_encoding b" "read_encoded_text a = read_encoded_text b"
proof -
  have "getattr a ''encoding'' = getattr b ''encoding''"
    using assms by (intro getattr_cong) (simp add: agree_def needs_def)
  then show e: "text_encoding a = text_encoding b" by (simp only: text_encoding_def)
  show "read_encoded_text a = read_encoded_text b" by (intro ext) (simp only: read_encoded_text_def e)
qed

lemma agree_index:
  assumes "agree a b (needs s)" "needs_index s"
  shows "read_aspi a = read_aspi b"
proof -
  have "getattr a ''b'' = getattr b ''b''" "getattr a ''N'' = getattr b ''N''"
    using assms by (intro getattr_cong, simp add: agree_def needs_def)+
  then have "get_int a ''b'' = get_int b ''b''" "get_int a ''N'' = get_int b ''N''"
    by (simp_all only: get_int_def)
  then show ?thesis by (intro ext) (simp only: read_aspi_def)
qed

lemma spec_read_cong:
  "agree a b (needs s) \<Longrightarrow> spec_read a s data = spec_read b s data"
  "\<forall>s \<in> set ss. agree a b (needs s) \<Longrightarrow> read_record a ss data = read_record b ss data"
proof (induction a s data and a ss data rule: spec_read_read_record.induct)
  case (19 a n specs sep data)
  have "\<forall>s \<in> set specs. agree a b (needs s)"
    using "19.prems" by (auto simp: agree_def needs_def list_ex_iff split: if_splits)
  then have "read_record a specs = read_record b specs"
    using "19.IH" by (intro ext) blast
  then show ?case by (simp only: spec_read.simps)
next
  case (21 a s ss data)
  then have "spec_read a s data = spec_read b s data" by simp
  moreover have "read_record a ss rest = read_record b ss rest" for rest
    by (rule "21.IH"(2)) (use "21.prems" in simp_all)
  ultimately show ?case by (simp only: read_record.simps)
next
  case (18 a n data)
  then show ?case using agree_index [OF "18.prems"] by simp
next
  case (8 a n data)
  then show ?case using agree_encoding [OF "8.prems"] by simp
next
  case (9 a n data)
  then show ?case using agree_encoding [OF "9.prems"] by simp
next
  case (10 a n data)
  then show ?case using agree_encoding [OF "10.prems"] by simp
next
  case (12 a n data)
  then show ?case using agree_encoding [OF "12.prems"] by simp
next
  case (15 a n data)
  then show ?case using agree_encoding [OF "15.prems"] by simp
qed simp_all


section \<open>Fields in order\<close>

lemma map_of_setattr: "map_of (setattr a n v) k = (if k = n then Some v else map_of a k)"
  by (simp add: setattr_def update_conv')

definition field_fits :: "attrs \<Rightarrow> spec \<Rightarrow> bool" where
  "field_fits a s = (case map_of a (spec_name s) of Some v \<Rightarrow> fits a s v | None \<Rightarrow> False)"

lemma needs_subset: "layout_from seen (s # ss) \<Longrightarrow> set (needs s) \<subseteq> set seen"
  by (auto simp: needs_def)

text \<open>
  The attributes read so far (\<open>seen\<close>) are those of the frame that was written; reading the
  remaining fields brings the others.
\<close>

lemma read_fields_written:
  "layout_from seen specs \<Longrightarrow> list_all (field_fits a) specs \<Longrightarrow> agree b a seen \<Longrightarrow>
     \<exists>outs c. mapR (write_field a) specs = Inr outs \<and> read_fields opt b specs (concat outs) = Inr (c, [])
        \<and> agree c a (seen @ map spec_name specs) \<and> (specs \<noteq> [] \<longrightarrow> concat outs \<noteq> [])
        \<and> (\<forall>n. n \<notin> set (map spec_name specs) \<longrightarrow> map_of c n = map_of b n)"
proof (induction specs arbitrary: seen b)
  case Nil
  then show ?case by simp
next
  case (Cons s ss)
  obtain v where v: "map_of a (spec_name s) = Some v" "fits a s v"
    using Cons.prems(2) by (auto simp: field_fits_def split: option.splits)
  have ag: "agree b a (needs s)"
    using Cons.prems(3) needs_subset [OF Cons.prems(1)] by (auto simp: agree_def)
  let ?b = "setattr b (spec_name s) v"
  have ag': "agree ?b a (spec_name s # seen)"
    using Cons.prems(3) v(1) by (auto simp: agree_def map_of_setattr)
  have lay: "layout_from (spec_name s # seen) ss" "proper_spec s" "ss \<noteq> [] \<Longrightarrow> \<not> takes_rest s"
    using Cons.prems(1) by simp_all
  obtain outs c where IH: "mapR (write_field a) ss = Inr outs"
    "read_fields opt ?b ss (concat outs) = Inr (c, [])"
    "agree c a ((spec_name s # seen) @ map spec_name ss)"
    "\<forall>n. n \<notin> set (map spec_name ss) \<longrightarrow> map_of c n = map_of ?b n"
    using Cons.IH [OF lay(1) _ ag'] Cons.prems(2) by auto
  obtain out where out: "spec_write a s v = Inr out" "out \<noteq> []"
    "spec_read b s (out @ concat outs) = Inr (v, concat outs)"
  proof (cases "ss = []")
    case True
    then have "outs = []" using IH(1) by simp
    then show ?thesis using spec_written [OF lay(2) v(2)] that spec_read_cong(1) [OF ag] by auto
  next
    case False
    then show ?thesis
      using delimited_spec_written [OF lay(3) v(2)] that spec_read_cong(1) [OF ag]
      by (auto simp: reads_back_def)
  qed
  have "write_field a s = Inr out" using v(1) out(1) by (simp add: write_field_def getattr_def)
  moreover have "read_fields opt b (s # ss) (out @ concat outs) = Inr (c, [])"
    using out IH(2) by simp
  moreover have "agree c a (seen @ map spec_name (s # ss))"
    using IH(3) by (auto simp: agree_def)
  moreover have "map_of c n = map_of b n" if "n \<notin> set (map spec_name (s # ss))" for n
    using IH(4) that by (auto simp: map_of_setattr)
  ultimately show ?case using IH(1) out(2) by auto
qed

lemma read_fields_append:
  "read_fields opt a (xs @ ys) data =
     bindR (read_fields opt a xs data) (\<lambda>(b, rest). read_fields opt b ys rest)"
  by (induction opt a xs data rule: read_fields.induct) (auto split: sum.splits)

text \<open>The optional fields that are present are a prefix, and the loop stops where the data does.\<close>

lemma read_optional_prefix:
  "read_fields True a xs data = Inr (b, []) \<Longrightarrow> read_optional a (xs @ ys) data = Inr (b, [])"
proof (induction xs arbitrary: a data)
  case Nil
  then show ?case by (cases ys) auto
next
  case (Cons x xs)
  then show ?case by (auto simp: bindR_def split: if_splits sum.splits)
qed

lemma write_optional_prefix:
  assumes "mapR (write_field a) xs = Inr outs"
    "case ys of [] \<Rightarrow> True | y # _ \<Rightarrow> map_of a (spec_name y) = None"
  shows "write_optional a (xs @ ys) = Inr (concat outs)"
  using assms
proof (induction xs arbitrary: outs)
  case Nil
  then show ?case by (cases ys) (auto simp: write_field_def getattr_def)
next
  case (Cons x xs)
  then show ?case by (auto simp: bindR_Inr_iff)
qed

lemma layout_from_append1: "layout_from seen (xs @ ys) \<Longrightarrow> layout_from seen xs"
proof (induction xs arbitrary: seen)
  case (Cons x xs)
  then show ?case by (cases xs) auto
qed simp

definition frame_fits :: "frame_def \<Rightarrow> attrs \<Rightarrow> nat \<Rightarrow> bool" where
  "frame_fits d a k \<longleftrightarrow> list_all (field_fits a) (fd_spec d @ take k (fd_opt d))
     \<and> (case drop k (fd_opt d) of [] \<Rightarrow> True | s # _ \<Rightarrow> map_of a (spec_name s) = None)"

lemma frame_data_written:
  assumes lay: "layout_ok d" and ne: "fd_spec d \<noteq> []" and opt: "is_opt d \<or> fd_opt d = []"
    and fit: "frame_fits d a k"
  shows "\<exists>data c. write_data \<lparr>fr_def = d, fr_attrs = a\<rparr> = Inr data \<and> data \<noteq> [] \<and> read_data d b data = Inr c
     \<and> agree c a (map spec_name (fd_spec d @ take k (fd_opt d)))
     \<and> (\<forall>n. n \<notin> set (map spec_name (fd_spec d @ take k (fd_opt d))) \<longrightarrow> map_of c n = map_of b n)"
proof -
  let ?opts = "take k (fd_opt d)"
  let ?all = "fd_spec d @ ?opts"
  have lay': "layout_from [] ?all"
    using layout_from_append1 [of "[]" ?all "drop k (fd_opt d)"] lay by (simp add: layout_ok_def)
  have fits: "list_all (field_fits a) ?all" using fit by (simp add: frame_fits_def)
  obtain outs c where *: "mapR (write_field a) ?all = Inr outs"
    "read_fields (is_opt d) b ?all (concat outs) = Inr (c, [])"
    "agree c a (map spec_name ?all)" "concat outs \<noteq> []"
    "\<forall>n. n \<notin> set (map spec_name ?all) \<longrightarrow> map_of c n = map_of b n"
    using read_fields_written [OF lay' fits, of b "is_opt d"] ne by (auto simp: agree_def)
  have split: "\<exists>o1 o2. mapR (write_field a) (fd_spec d) = Inr o1 \<and> mapR (write_field a) ?opts = Inr o2
      \<and> outs = o1 @ o2"
    using *(1) by (simp add: mapR_append)
  then obtain o1 o2 where o: "mapR (write_field a) (fd_spec d) = Inr o1"
    "mapR (write_field a) ?opts = Inr o2" "outs = o1 @ o2" by blast
  obtain b1 rest where r1: "read_fields (is_opt d) b (fd_spec d) (concat outs) = Inr (b1, rest)"
    and r2: "read_fields (is_opt d) b1 ?opts rest = Inr (c, [])"
    using *(2) by (auto simp: read_fields_append bindR_Inr_iff)
  have "read_data d b (concat outs) = Inr c"
  proof (cases "rest = []")
    case True
    then have "c = b1" using r2 by (cases ?opts) auto
    then show ?thesis using r1 True by (simp add: read_data_def)
  next
    case False
    then have "?opts \<noteq> []" using r2 by (cases ?opts) (simp_all del: take_eq_Nil)
    then have io: "is_opt d" using opt by auto
    have "read_optional b1 (?opts @ drop k (fd_opt d)) rest = Inr (c, [])"
      by (rule read_optional_prefix) (use r2 io in simp)
    then show ?thesis using r1 False io by (simp add: read_data_def)
  qed
  moreover have "write_data \<lparr>fr_def = d, fr_attrs = a\<rparr> = Inr (concat outs)"
  proof (cases "is_opt d")
    case True
    have "case drop k (fd_opt d) of [] \<Rightarrow> True | y # _ \<Rightarrow> map_of a (spec_name y) = None"
      using fit by (simp add: frame_fits_def)
    from write_optional_prefix [OF o(2) this] show ?thesis
      using o True by (simp add: write_data_def)
  next
    case False
    then show ?thesis using o opt by (simp add: write_data_def)
  qed
  ultimately show ?thesis using * by blast
qed

text \<open>Everything but the bare \<open>Frame\<close> has fields, and only a \<open>FrameOpt\<close> optional ones.\<close>

lemma frames_v24_fields:
  "list_all (\<lambda>d. fd_spec d \<noteq> [] \<and> (fd_root d = FrameOpt \<or> fd_opt d = [])) frames_v24"
  by (simp add: frames_v24_def text_frames_1_def text_frames_2_def url_frames_def people_frames_def
      lyric_frames_def picture_frames_def link_frames_def owner_frames_def group_frames_def
      plain_def own_def)

lemma frame_roundtrip:
  assumes "find_frame frames_v24 name = Some d" "frame_fits d a k"
  shows "\<exists>data c. write_data \<lparr>fr_def = d, fr_attrs = a\<rparr> = Inr data \<and> data \<noteq> [] \<and> read_data d b data = Inr c
     \<and> agree c a (map spec_name (fd_spec d @ take k (fd_opt d)))
     \<and> (\<forall>n. n \<notin> set (map spec_name (fd_spec d @ take k (fd_opt d))) \<longrightarrow> map_of c n = map_of b n)"
proof -
  have d: "d \<in> set frames_v24" using assms(1) by (simp add: find_frame_Some)
  then have "layout_ok d" using frames_v24_layout by (simp add: list_all_iff)
  moreover have "fd_spec d \<noteq> []" "is_opt d \<or> fd_opt d = []"
    using frames_v24_fields d by (auto simp: list_all_iff is_opt_def)
  ultimately show ?thesis using frame_data_written assms(2) by blast
qed

end
