(* ===== verification/Mut_Data_Props.thy ===== *)
theory Mut_Data_Props
  imports Mut_Frame_Laws
begin

text \<open>
  Properties of the tag library's encodings: unsynchronisation, padded integers, numbers of
  fixed width, the file operations, the dictionary methods, and frames.
\<close>

section \<open>Unsynchronisation\<close>

lemma unsynch_dec_accepts:
  "(\<exists>t. unsynch_dec True s = Inr t) = sync_free s
 \<and> (\<exists>t. unsynch_dec False s = Inr t) = sync_free (CHR 0xFF # s)"
proof (induction s)
  case (Cons c s)
  have "(\<exists>t. unsynch_dec True (c # s) = Inr t) = sync_free (c # s)"
    using Cons by (cases "c = CHR 0xFF") (auto simp: bindR_Inr_iff sync_free_safe_Cons)
  moreover have "(\<exists>t. unsynch_dec False (c # s) = Inr t) = sync_free (CHR 0xFF # c # s)"
  proof (cases "0xE0 \<le> ord c")
    case False
    then have "c \<noteq> CHR 0xFF" by auto
    then show ?thesis using Cons False by (auto simp: bindR_Inr_iff sync_free_safe_Cons)
  qed auto
  ultimately show ?case by blast
qed simp

text \<open>
  C14. Unsynchronisation loses nothing: decoding an encoded string gives it back, the encoding
  never holds a byte FF followed by a byte of E0 or more (nor ends in FF), and decoding succeeds
  exactly on the strings of that kind, never making them longer.
\<close>

theorem unsynch_roundtrip:
  "unsynch_decode (unsynch_encode s) = Inr s
 \<and> sync_free (unsynch_encode s)
 \<and> (\<exists>t. unsynch_decode x = Inr t) = sync_free x
 \<and> (unsynch_decode x = Inr t \<longrightarrow> length t \<le> length x)"
  using unsynch_dec_accepts [of x] unsynch_dec_length [of True x t]
  by (simp add: unsynch_encode_def unsynch_decode_def unsynch_dec_enc sync_free_enc)

theorem unsynch_roundtrip_witness:
  "unsynch_encode [CHR 0xFF, CHR 0xFB] = [CHR 0xFF, CHR 0x00, CHR 0xFB]
 \<and> length [CHR 0xFF, CHR 0xFB] \<le> length [CHR 0xFF, CHR 0x00, CHR 0xFB]"
proof -
  have "unsynch_decode [CHR 0xFF, CHR 0x00, CHR 0xFB] = Inr [CHR 0xFF, CHR 0xFB]"
    by (simp add: unsynch_decode_def)
  then show ?thesis
    using unsynch_roundtrip [of "[]" "[CHR 0xFF, CHR 0x00, CHR 0xFB]" "[CHR 0xFF, CHR 0xFB]"]
    by (simp add: unsynch_encode_def)
qed

section \<open>Padded integers\<close>

lemma padding_int_bytes:
  assumes "bits \<le> 8"
  shows "has_valid_padding_int bits (pos_value 8 (map ord bs)) = has_valid_padding bits bs"
proof (induction bs)
  case Nil
  then show ?case by (simp add: has_valid_padding_def has_valid_padding_int.simps)
next
  case (Cons c bs)
  let ?v = "pos_value 8 (map ord (c # bs))"
  have div: "?v div 256 = pos_value 8 (map ord bs)" using ord_less [of c] by simp
  show ?case
  proof (cases "?v = 0")
    case True
    then have "\<forall>b \<in> set (c # bs). ord b = 0" unfolding pos_value_zero_iff by simp
    then have "has_valid_padding bits (c # bs)"
      using assms by (simp add: has_valid_padding_iff)
    then show ?thesis using True by (subst has_valid_padding_int.simps) simp
  next
    case False
    have "padding_mask bits < 2 ^ 8"
    proof -
      have "padding_mask bits = (2 ^ (8 - bits) - 1) * 2 ^ bits"
        by (simp add: padding_mask_def push_bit_eq_mult mask_eq_exp_minus_1)
      also have "\<dots> = 2 ^ 8 - 2 ^ bits"
        using assms by (simp add: diff_mult_distrib flip: power_add)
      finally show ?thesis by simp
    qed
    then have m: "padding_mask bits = padding_mask bits AND mask 8"
      by (simp add: and_mask_mod del: One_nat_def)
    have "?v AND padding_mask bits = (?v AND mask 8) AND padding_mask bits"
      by (subst (1) m) (simp only: and.assoc and.commute and.left_commute)
    also have "?v AND mask 8 = ord c" using ord_less [of c] by (simp add: and_mask_mod)
    finally have a: "?v AND padding_mask bits = ord c AND padding_mask bits" .
    have "has_valid_padding_int bits ?v =
        (ord c AND padding_mask bits = 0 \<and> has_valid_padding_int bits (?v div 256))"
      using False by (subst has_valid_padding_int.simps) (simp only: a if_False, simp)
    then show ?thesis unfolding div Cons by (simp add: has_valid_padding_def)
  qed
qed

text \<open>
  A padded integer written with a fixed width reads back as itself, in either byte order, and
  its bytes carry no padding bit; the string has the width asked for. A value is refused with
  ValueError exactly when it needs more than \<open>bits * width\<close> bits.
\<close>

theorem padded_int_roundtrip:
  assumes "bits \<le> 8"
  shows "(v < 2 ^ (bits * n) \<longrightarrow>
            (\<exists>out. to_str_width bits n be v = Inr out \<and> length out = n
               \<and> bit_padded_int bits be out = v \<and> has_valid_padding bits out))
       \<and> (2 ^ (bits * n) \<le> v \<longrightarrow> to_str_width bits n be v = Inl ValueError)"
proof (intro conjI impI)
  assume v: "v < 2 ^ (bits * n)"
  then have "to_str_width bits n be v = Inr (bytes_str be (digits bits n v))"
    by (simp add: to_str_width_digits)
  moreover have "has_valid_padding bits (bytes_str be (digits bits n v))"
    using assms digits_bound by (blast intro: has_valid_padding_bytes_str)
  ultimately show "\<exists>out. to_str_width bits n be v = Inr out \<and> length out = n
               \<and> bit_padded_int bits be out = v \<and> has_valid_padding bits out"
    using bit_padded_to_str_width [OF assms, of n be v] by auto
qed (simp add: to_str_width_digits)

theorem padded_int_roundtrip_witness:
  "to_str_width 7 4 True 268435456 = Inl ValueError
 \<and> (\<exists>out. to_str_width 7 4 True 257 = Inr out \<and> length out = 4
        \<and> bit_padded_int 7 True out = 257 \<and> has_valid_padding 7 out)"
  using padded_int_roundtrip [of 7 268435456 4 True] padded_int_roundtrip [of 7 257 4 True] by simp

text \<open>
  A counter written with \<open>width = -1\<close> reads back as itself; its length is the larger of the
  minimal width and the number of digits the value needs, so it never has a leading zero byte
  beyond that width.
\<close>

theorem growing_counter:
  assumes "0 < bits" "bits \<le> 8"
  shows "bit_padded_int bits be (to_str_min bits m be v) = v
       \<and> m \<le> length (to_str_min bits m be v)
       \<and> v < 2 ^ (bits * length (to_str_min bits m be v))
       \<and> (m < length (to_str_min bits m be v) \<longrightarrow>
            2 ^ (bits * (length (to_str_min bits m be v) - 1)) \<le> v)"
proof -
  obtain n where n: "to_str_growing bits [] v = digits bits n v" "v < 2 ^ (bits * n)"
    "\<forall>k < n. 2 ^ (bits * k) \<le> v"
    using to_str_growing_digits [OF assms(1), of "[]" v] by auto
  then have len: "length (to_str_min bits m be v) = max m n"
    by (simp add: to_str_min_def Let_def)
  have "(2::nat) ^ (bits * n) \<le> 2 ^ (bits * max m n)" by (intro power_increasing) simp_all
  then have "v < 2 ^ (bits * max m n)" using n(2) by linarith
  then show ?thesis
    using bit_padded_to_str_min [OF assms, of be m v] n(3) len by (auto simp: max_def)
qed

theorem growing_counter_witness:
  "bit_padded_int 8 True (to_str_min 8 4 True 4294967296) = 4294967296
 \<and> 4 \<le> length (to_str_min 8 4 True 4294967296)"
  using growing_counter [of 8 True 4 4294967296] by simp

text \<open>
  Reading a padded integer from the number an unpacked word holds, as the frame loop does, is
  reading it from the bytes of the word, as the tag header does; the two padding checks agree as
  well, and the value of \<open>n\<close> bytes stays below \<open>2 ^ (bits * n)\<close>.
\<close>

theorem padded_int_of_word:
  assumes "bits \<le> 8"
  shows "bit_padded_of_int bits (struct_value True s) = bit_padded_int bits True s
       \<and> has_valid_padding_int bits (struct_value True s) = has_valid_padding bits s
       \<and> bit_padded_int bits True s < 2 ^ (bits * length s)"
proof -
  have v: "struct_value True s = pos_value 8 (map ord (rev s))"
    by (simp add: struct_value_def)
  have "\<forall>d \<in> set (map (\<lambda>c. ord c mod 2 ^ bits) (rev s)). d < 2 ^ bits" by simp
  from pos_value_bound [OF this] have "bit_padded_int bits True s < 2 ^ (bits * length s)"
    by (simp add: bit_padded_int_value)
  then show ?thesis
    using bpi_int_loop_bytes [OF assms, of "rev s" 0 0] padding_int_bytes [OF assms, of "rev s"]
    by (simp add: bit_padded_of_int_def bit_padded_int_def v has_valid_padding_def)
qed

theorem padded_int_of_word_witness:
  "bit_padded_of_int 7 (struct_value True ''abcd'') = bit_padded_int 7 True ''abcd''"
  using padded_int_of_word [of 7 "''abcd''"] by simp

section \<open>Numbers of fixed width\<close>

lemma int_struct_value_bound: "length s = n \<Longrightarrow> int (struct_value big s) < 2 ^ (8 * n)"
proof -
  assume "length s = n"
  then have "int (struct_value big s) < int (2 ^ (8 * n))"
    using struct_value_bound [of big s] by (simp only: of_nat_less_iff)
  then show ?thesis by simp
qed

lemma pack_unpack_u: "length s = n \<Longrightarrow> bindR (unpack_u big n s) (pack_u big n) = Inr s"
proof -
  assume n: "length s = n"
  show ?thesis
    using int_struct_value_bound [OF n, of big] struct_bytes_value [of big s] n
    unfolding unpack_u_def pack_u_def by simp
qed

lemma pack_unpack_s:
  assumes "0 < n" "length s = n"
  shows "bindR (unpack_s big n s) (pack_s big n) = Inr s"
proof -
  define h :: int where "h = 2 ^ (8 * n - 1)"
  have two: "2 ^ (8 * n) = 2 * h" using assms(1) by (simp add: h_def flip: power_Suc)
  let ?v = "int (struct_value big s)"
  have v: "0 \<le> ?v" "?v < 2 * h"
    using int_struct_value_bound [OF assms(2), of big] two by simp_all
  define w where "w = (if ?v < h then ?v else ?v - 2 * h)"
  have w: "- h \<le> w" "w < h" "w mod (2 * h) = ?v"
  proof -
    show "- h \<le> w" "w < h" using v by (auto simp: w_def)
    have "w mod (2 * h) = ?v mod (2 * h)" by (simp add: w_def mod_diff_right_eq [symmetric])
    then show "w mod (2 * h) = ?v" using v by simp
  qed
  have "unpack_s big n s = Inr w"
    using assms(2) unfolding unpack_s_def unpack_u_def w_def two h_def [symmetric] by simp
  moreover have "pack_s big n w = Inr s"
    using w struct_bytes_value [of big s] assms(2)
    unfolding pack_s_def two h_def [symmetric] by simp
  ultimately show ?thesis by simp
qed

lemmas cdata_defs = short_le_def ushort_le_def short_be_def ushort_be_def int_le_def uint_le_def
  int_be_def uint_be_def longlong_le_def ulonglong_le_def longlong_be_def ulonglong_be_def
  to_short_le_def to_ushort_le_def to_short_be_def to_ushort_be_def to_int_le_def to_uint_le_def
  to_int_be_def to_uint_be_def to_longlong_le_def to_ulonglong_le_def to_longlong_be_def
  to_ulonglong_be_def

text \<open>
  Each of the twelve conversions of \<open>cdata\<close> and its inverse: a string of the right length is
  unpacked and packed again into itself, and a value in the range of the type is packed and
  unpacked into itself.
\<close>

theorem cdata_roundtrip:
  "(length s2 = 2 \<longrightarrow> bindR (short_le s2) to_short_le = Inr s2 \<and> bindR (ushort_le s2) to_ushort_le = Inr s2
       \<and> bindR (short_be s2) to_short_be = Inr s2 \<and> bindR (ushort_be s2) to_ushort_be = Inr s2)
 \<and> (length s4 = 4 \<longrightarrow> bindR (int_le s4) to_int_le = Inr s4 \<and> bindR (uint_le s4) to_uint_le = Inr s4
       \<and> bindR (int_be s4) to_int_be = Inr s4 \<and> bindR (uint_be s4) to_uint_be = Inr s4)
 \<and> (length s8 = 8 \<longrightarrow> bindR (longlong_le s8) to_longlong_le = Inr s8
       \<and> bindR (ulonglong_le s8) to_ulonglong_le = Inr s8
       \<and> bindR (longlong_be s8) to_longlong_be = Inr s8
       \<and> bindR (ulonglong_be s8) to_ulonglong_be = Inr s8)
 \<and> (- (2 ^ 15) \<le> i \<and> i < 2 ^ 15 \<longrightarrow>
      bindR (to_short_le i) short_le = Inr i \<and> bindR (to_short_be i) short_be = Inr i)
 \<and> (0 \<le> i \<and> i < 2 ^ 16 \<longrightarrow>
      bindR (to_ushort_le i) ushort_le = Inr i \<and> bindR (to_ushort_be i) ushort_be = Inr i)
 \<and> (- (2 ^ 31) \<le> i \<and> i < 2 ^ 31 \<longrightarrow>
      bindR (to_int_le i) int_le = Inr i \<and> bindR (to_int_be i) int_be = Inr i)
 \<and> (0 \<le> i \<and> i < 2 ^ 32 \<longrightarrow>
      bindR (to_uint_le i) uint_le = Inr i \<and> bindR (to_uint_be i) uint_be = Inr i)
 \<and> (- (2 ^ 63) \<le> i \<and> i < 2 ^ 63 \<longrightarrow>
      bindR (to_longlong_le i) longlong_le = Inr i \<and> bindR (to_longlong_be i) longlong_be = Inr i)
 \<and> (0 \<le> i \<and> i < 2 ^ 64 \<longrightarrow>
      bindR (to_ulonglong_le i) ulonglong_le = Inr i \<and> bindR (to_ulonglong_be i) ulonglong_be = Inr i)"
  unfolding cdata_defs
  by (intro conjI impI; (erule conjE)?;
      (rule unpack_pack_u unpack_pack_s pack_unpack_u pack_unpack_s)?; simp add: u_fits_def s_fits_def)

theorem cdata_roundtrip_witness:
  "bindR (to_short_le (-2)) short_le = Inr (-2) \<and> bindR (int_be ''abcd'') to_int_be = Inr ''abcd''"
  using cdata_roundtrip [of "''ab''" "''abcd''" "''abcdefgh''" "-2"] by simp

section \<open>Moving the bytes of a file\<close>

text \<open>
  C15. \<open>insert_bytes\<close>, by memory map or by its loops, opens a gap of the size asked for: the bytes
  before the offset and the bytes from the offset on are kept, the latter behind the gap, and the
  file grows by the size. A size that is not positive or a negative offset is an assertion error.
\<close>

theorem insert_bytes_spec:
  "(0 < sz \<and> offset \<le> length (fbytes f) \<longrightarrow>
      (\<exists>f' gap. insert_bytes mmap_works f (int sz) (int offset) = Inr f'
         \<and> fbytes f' = take offset (fbytes f) @ gap @ drop offset (fbytes f) \<and> length gap = sz))
 \<and> (isz \<le> 0 \<or> ioff < 0 \<longrightarrow> insert_bytes mmap_works f isz ioff = Inl AssertionError)"
proof (intro conjI impI)
  assume a: "0 < sz \<and> offset \<le> length (fbytes f)"
  then show "\<exists>f' gap. insert_bytes mmap_works f (int sz) (int offset) = Inr f'
         \<and> fbytes f' = take offset (fbytes f) @ gap @ drop offset (fbytes f) \<and> length gap = sz"
    using insert_bytes_opened [of sz offset f mmap_works] by (auto simp: opened_def)
qed (auto intro: insert_bytes_asserts)

theorem insert_bytes_spec_witness:
  "insert_bytes False (open_file ''audio'') 0 2 = Inl AssertionError
 \<and> (\<exists>f' gap. insert_bytes False (open_file ''audio'') (int 3) (int 2) = Inr f'
      \<and> fbytes f' = ''au'' @ gap @ ''dio'' \<and> length gap = 3)"
  using insert_bytes_spec [of 3 2 "open_file ''audio''" False 0 2] by (simp add: open_file_def)

text \<open>
  \<open>delete_bytes\<close>, by memory map or by its loop, removes exactly the bytes asked for, whatever
  mode the insertion before it used, so that it undoes \<open>insert_bytes\<close>; a range that is empty or
  outside the file is an assertion error.
\<close>

theorem delete_bytes_spec:
  "(0 < sz \<and> offset + sz \<le> length (fbytes f) \<longrightarrow>
      (\<exists>f'. delete_bytes mmap_works f (int sz) (int offset) = Inr f'
         \<and> fbytes f' = take offset (fbytes f) @ drop (offset + sz) (fbytes f)))
 \<and> (0 < sz \<and> offset \<le> length (fbytes f) \<longrightarrow>
      (\<exists>f1 f2. insert_bytes mmap_insert f (int sz) (int offset) = Inr f1
         \<and> delete_bytes mmap_works f1 (int sz) (int offset) = Inr f2 \<and> fbytes f2 = fbytes f))
 \<and> (isz \<le> 0 \<or> ioff < 0 \<or> int (length (fbytes f)) < ioff + isz \<longrightarrow>
      delete_bytes mmap_works f isz ioff = Inl AssertionError)"
proof (intro conjI impI)
  assume "0 < sz \<and> offset + sz \<le> length (fbytes f)"
  then show "\<exists>f'. delete_bytes mmap_works f (int sz) (int offset) = Inr f'
         \<and> fbytes f' = take offset (fbytes f) @ drop (offset + sz) (fbytes f)"
    using delete_bytes_closed [of sz offset f mmap_works] by (simp add: Mut_File.closed_def)
next
  assume a: "0 < sz \<and> offset \<le> length (fbytes f)"
  then obtain f1 where f1: "insert_bytes mmap_insert f (int sz) (int offset) = Inr f1"
    "fbytes f1 = opened sz offset (fbytes f)"
    using insert_bytes_opened [of sz offset f mmap_insert] by auto
  then have "offset + sz \<le> length (fbytes f1)" using a by (simp add: length_opened)
  then show "\<exists>f1 f2. insert_bytes mmap_insert f (int sz) (int offset) = Inr f1
         \<and> delete_bytes mmap_works f1 (int sz) (int offset) = Inr f2 \<and> fbytes f2 = fbytes f"
    using delete_bytes_closed [of sz offset f1 mmap_works] a f1 by (auto simp: closed_opened)
qed (auto intro: delete_bytes_asserts)

theorem delete_bytes_spec_witness:
  "\<exists>f1 f2. insert_bytes True (open_file ''audio'') (int 3) (int 2) = Inr f1
     \<and> delete_bytes False f1 (int 3) (int 2) = Inr f2 \<and> fbytes f2 = ''audio''"
  using delete_bytes_spec [of 3 2 "open_file ''audio''" False True 0 0] by (simp add: open_file_def)

section \<open>Dictionaries\<close>

text \<open>
  The methods \<open>DictMixin\<close> derives keep a \<open>DictProxy\<close> a dictionary (every key once) and do to its
  contents what Python's dictionaries do: \<open>pop\<close> removes its key or answers the default, \<open>popitem\<close>
  removes some item and raises KeyError on an empty dictionary, \<open>clear\<close> empties it, \<open>setdefault\<close>
  keeps a value that is there, \<open>update\<close> with a mapping adds its items - but drops the keyword
  arguments given beside it.
\<close>

theorem dict_methods:
  fixes d :: "('k, 'v) dict_proxy"
  assumes wf: "wf_dict d"
  shows "(\<exists>d'. dm_clear dp_delitem dp_keys d = Inr d' \<and> d' = [])
       \<and> (\<forall>k v. map_of d k = Some v \<longrightarrow> (\<exists>d'. dm_pop dp_getitem dp_delitem d k [] = Inr (v, d')
              \<and> wf_dict d' \<and> map_of d' = (map_of d)(k := None)))
       \<and> (\<forall>k x. map_of d k = None \<longrightarrow> dm_pop dp_getitem dp_delitem d k [] = Inl KeyError
              \<and> dm_pop dp_getitem dp_delitem d k [x] = Inr (x, d))
       \<and> (d = [] \<longrightarrow> dm_popitem dp_getitem dp_delitem dp_keys d = Inl KeyError)
       \<and> (d \<noteq> [] \<longrightarrow> (\<exists>k v d'. dm_popitem dp_getitem dp_delitem dp_keys d = Inr ((k, v), d')
              \<and> wf_dict d' \<and> map_of d k = Some v \<and> map_of d' = (map_of d)(k := None)))
       \<and> (\<forall>k v. map_of d k = Some v \<longrightarrow> dm_setdefault dp_getitem dp_setitem d k x = Inr (v, d))
       \<and> wf_dict (dm_update dp_setitem d (Some items) kwargs)
       \<and> map_of (dm_update dp_setitem d (Some items) kwargs) = map_of d ++ map_of (rev items)
       \<and> map_of (dm_update dp_setitem d None kwargs) = map_of d ++ map_of (rev kwargs)
       \<and> dm_len dp_keys d = card (dom (map_of d))"
proof (intro conjI allI impI)
  show "\<exists>d'. dm_clear dp_delitem dp_keys d = Inr d' \<and> d' = []"
    using proxy.clear [OF wf] by (metis map_of_eq_empty_iff)
next
  fix k v assume "map_of d k = Some v"
  then show "\<exists>d'. dm_pop dp_getitem dp_delitem d k [] = Inr (v, d') \<and> wf_dict d'
      \<and> map_of d' = (map_of d)(k := None)"
    using proxy.pop_present [OF wf, of k v "[]"] by auto
next
  assume "d \<noteq> []"
  then have "map_of d \<noteq> Map.empty" by simp
  then show "\<exists>k v d'. dm_popitem dp_getitem dp_delitem dp_keys d = Inr ((k, v), d')
              \<and> wf_dict d' \<and> map_of d k = Some v \<and> map_of d' = (map_of d)(k := None)"
    using proxy.popitem [OF wf] by blast
next
  show "wf_dict (dm_update dp_setitem d (Some items) kwargs)"
    "map_of (dm_update dp_setitem d (Some items) kwargs) = map_of d ++ map_of (rev items)"
    "map_of (dm_update dp_setitem d None kwargs) = map_of d ++ map_of (rev kwargs)"
    using proxy.set_all [OF wf, of items] proxy.set_all [OF wf, of kwargs]
    by (simp_all add: dm_update_def dm_set_all_def)
qed (use wf in \<open>simp_all add: proxy.pop_missing proxy.popitem proxy.setdefault proxy.len\<close>)

theorem dict_methods_witness:
  "wf_dict [(''a'', 1::nat)]
 \<and> map_of (dm_update dp_setitem [(''a'', 1::nat)] (Some [(''b'', 2)]) [(''c'', 3)])
     = map_of [(''a'', 1)] ++ map_of [(''b'', 2)]"
proof -
  have "wf_dict [(''a'', 1::nat)]" by (simp add: wf_dict_def)
  then show ?thesis
    using dict_methods [of "[(''a'', 1::nat)]" 0 "[(''b'', 2)]" "[(''c'', 3)]"] by simp
qed

end
