(* ===== verification/Mut_Frame_Props.thy ===== *)
theory Mut_Frame_Props
  imports Mut_Frame_Laws
begin

text \<open>
  Properties of frames: what is written is read back, what is read has the type its
  specification says, and every frame class can be made, read and keyed.
\<close>

section \<open>Types of the values read\<close>

text \<open>The values a specification reads.\<close>

fun typed :: "spec \<Rightarrow> fval \<Rightarrow> bool" where
  "typed (ByteSpec _) v = byte_val v"
| "typed (ChannelSpec _) v = byte_val v"
| "typed (EncodingSpec _) v = (case v of FInt i \<Rightarrow> 0 \<le> i \<and> i < 16 | _ \<Rightarrow> False)"
| "typed (IntegerSpec _) v = (case v of FInt i \<Rightarrow> 0 \<le> i | _ \<Rightarrow> False)"
| "typed (SizedIntegerSpec _ sz) v = (case v of FInt i \<Rightarrow> 0 \<le> i \<and> i < 2 ^ (8 * sz) | _ \<Rightarrow> False)"
| "typed (StringSpec _ len) v = (case v of FBytes b \<Rightarrow> length b \<le> len | _ \<Rightarrow> False)"
| "typed (BinaryDataSpec _) v = (case v of FBytes b \<Rightarrow> True | _ \<Rightarrow> False)"
| "typed (EncodedTextSpec _) v = (case v of FText u \<Rightarrow> True | _ \<Rightarrow> False)"
| "typed (EncodedNumericTextSpec _) v = (case v of FText u \<Rightarrow> True | _ \<Rightarrow> False)"
| "typed (EncodedNumericPartTextSpec _) v = (case v of FText u \<Rightarrow> True | _ \<Rightarrow> False)"
| "typed (Latin1TextSpec _) v = (case v of FText u \<Rightarrow> list_all (\<lambda>c. c < 256) u | _ \<Rightarrow> False)"
| "typed (TimeStampSpec _) v = (case v of FStamp ts \<Rightarrow> True | _ \<Rightarrow> False)"
| "typed (VolumeAdjustmentSpec _) v = (\<exists>i. v = FRat (of_int i / 512) \<and> s_fits 2 i)"
| "typed (VolumePeakSpec _) v = (case v of FRat r \<Rightarrow> 0 \<le> r | _ \<Rightarrow> False)"
| "typed (SynchronizedTextSpec _) v =
     (\<exists>ps. v = FList (map (\<lambda>(u, t). FList [FText u, FInt t]) ps) \<and> list_all (\<lambda>(u, t). u_fits 4 t) ps)"
| "typed (KeyEventSpec _) v = (\<exists>es. v = FList (map event_val es) \<and> list_all event_ok es)"
| "typed (VolumeAdjustmentsSpec _) v = (\<exists>ps. v = FList (map adjustment_val ps) \<and> sorted (map fst ps))"
| "typed (ASPIIndexSpec _) v = (\<exists>vs. v = FList (map FInt vs) \<and> list_all (u_fits 2) vs)"
| "typed (MultiSpec _ specs _) v =
     (case v of
        FList vs \<Rightarrow> (case specs of
            [s] \<Rightarrow> list_all (typed s) vs
          | _ \<Rightarrow> list_all (\<lambda>r. case r of
                FList rs \<Rightarrow> list_all2 (\<lambda>f x. f x) (map typed specs) rs | _ \<Rightarrow> False) vs)
      | _ \<Rightarrow> False)"

lemma unpack_s_bounds:
  assumes "0 < n" "unpack_s big n s = Inr i" shows "s_fits n i"
proof -
  define h :: int where "h = 2 ^ (8 * n - 1)"
  have two: "2 ^ (8 * n) = 2 * h" using assms(1) by (simp add: h_def flip: power_Suc)
  obtain v where v: "unpack_u big n s = Inr v" "i = (if v < h then v else v - 2 * h)"
    using assms(2) unfolding unpack_s_def two h_def [symmetric] by (auto simp: bindR_Inr_iff)
  have "length s = n" "v = int (struct_value big s)"
    using v(1) by (auto simp: unpack_u_def split: if_splits)
  moreover have "int (struct_value big s) < int (2 ^ (8 * length s))"
    using struct_value_bound [of big s] by (simp only: of_nat_less_iff)
  ultimately have "0 \<le> v" "v < 2 * h" using two by simp_all
  then show ?thesis using v(2) unfolding s_fits_def h_def [symmetric] by auto
qed

lemma unpack_u_bounds: "unpack_u big n s = Inr i \<Longrightarrow> u_fits n i"
proof -
  assume "unpack_u big n s = Inr i"
  then have "length s = n" "i = int (struct_value big s)"
    by (auto simp: unpack_u_def split: if_splits)
  moreover have "int (struct_value big s) < int (2 ^ (8 * length s))"
    using struct_value_bound [of big s] by (simp only: of_nat_less_iff)
  ultimately show ?thesis by (simp add: u_fits_def)
qed

lemma read_key_events_typed: "read_key_events data = (es, rest) \<Longrightarrow> list_all event_ok es"
proof (induction data arbitrary: es rest rule: read_key_events.induct)
  case (1 data)
  show ?case
  proof (cases "5 \<le> length data")
    case True
    obtain b i where bi: "unpack_s True 1 (take 1 data) = Inr b"
      "unpack_u True 4 (take 4 (drop 1 data)) = Inr i"
      using True by (simp add: unpack_s_def unpack_u_def)
    obtain es' r where r: "read_key_events (drop 5 data) = (es', r)" by fastforce
    have "es = (b, i) # es'"
      using "1.prems" True bi r by (subst (asm) read_key_events.simps) simp
    then show ?thesis
      using "1.IH" [OF True _ refl refl r] bi unpack_s_bounds unpack_u_bounds
      by (auto simp: event_ok_def)
  next
    case False
    then show ?thesis using "1.prems" by (subst (asm) read_key_events.simps) simp
  qed
qed

lemma read_sync_text_typed:
  "read_sync_text enc data = Inr ps \<Longrightarrow> list_all (\<lambda>(u, t). u_fits 4 t) ps"
proof (induction enc data arbitrary: ps rule: read_sync_text.induct)
  case (1 enc data)
  show ?case
  proof (cases "data = []")
    case True
    then show ?thesis using "1.prems" by (subst (asm) read_sync_text.simps) simp
  next
    case False
    let ?l = "length (text_term enc)"
    obtain i where i: "str_find data (text_term enc) 0 = Some i"
      using "1.prems" False by (subst (asm) read_sync_text.simps) (auto split: option.splits)
    obtain u time us where r: "text_decode enc (take i data) = Inr u"
      "\<not> length data < i + ?l + 4"
      "unpack_u True 4 (take 4 (drop (i + ?l) data)) = Inr time"
      "read_sync_text enc (drop (i + ?l + 4) data) = Inr us"
      "ps = (u, time) # us"
      using "1.prems" False i
      by (subst (asm) read_sync_text.simps) (auto simp: bindR_Inr_iff Let_def split: if_splits)
    then show ?thesis
      using "1.IH" [OF False i refl r(2) r(4)] unpack_u_bounds by auto
  qed
qed

lemma unpack_all_typed: "unpack_all n sz data = Inr vs \<Longrightarrow> list_all (u_fits sz) vs"
  by (induction n sz data arbitrary: vs rule: unpack_all.induct)
    (auto simp: bindR_Inr_iff unpack_u_bounds split: if_splits)

lemma u_fits_mono: "u_fits m i \<Longrightarrow> m \<le> n \<Longrightarrow> u_fits n i"
  unfolding u_fits_def
  by (elim conjE, intro conjI less_le_trans [OF _ power_increasing [of "8 * m" "8 * n"]]) simp_all

lemma multi_loop_all:
  "multi_loop rd data = Inr rs \<Longrightarrow> (\<And>d r rest. rd d = Inr (r, rest) \<Longrightarrow> P r) \<Longrightarrow> list_all P rs"
proof (induction rd data arbitrary: rs rule: multi_loop.induct)
  case (1 rd data)
  show ?case
  proof (cases "data = []")
    case True
    then show ?thesis using "1.prems" by (subst (asm) multi_loop.simps) simp
  next
    case False
    obtain r rest rs' where r: "rd data = Inr (r, rest)" "length rest < length data"
      "multi_loop rd rest = Inr rs'" "rs = r # rs'"
      using "1.prems"(1) False
      by (subst (asm) multi_loop.simps) (auto simp: bindR_Inr_iff split: sum.splits if_splits)
    then show ?thesis using "1.IH" [OF False r(1) refl r(2,3) "1.prems"(2)] "1.prems"(2) by auto
  qed
qed

lemma sort_pairs_sorted_fst: "sorted (map fst (sort_pairs ps))"
  by (simp add: sort_pairs_def)

lemma bit_padded_byte_bound: "int (bit_padded_int 8 True (take sz data)) < 2 ^ (8 * sz)"
proof -
  have "bit_padded_int 8 True (take sz data) < 2 ^ (8 * length (take sz data))"
    using pos_value_bound [of "map (\<lambda>c. ord c mod 2 ^ 8) (rev (take sz data))" 8]
    by (simp add: bit_padded_int_value)
  also have "\<dots> \<le> 2 ^ (8 * sz)" by (intro power_increasing) simp_all
  finally have "int (bit_padded_int 8 True (take sz data)) < int (2 ^ (8 * sz))"
    by (simp only: of_nat_less_iff)
  then show ?thesis by simp
qed

lemma read_volume_peak_nonneg: "read_volume_peak data = Inr (r, rest) \<Longrightarrow> 0 \<le> r"
  unfolding read_volume_peak_def Let_def
  by (cases data; (simp only: list.case)?; simp only: sum.distinct sum.inject prod.inject split: if_splits)
    (elim conjE, hypsubst, simp)

lemma latin1_typed: "list_all (\<lambda>c. c < 256) (latin1_decode s)"
  by (simp add: latin1_decode_def list_all_iff)


lemma list_all2_map_app: "list_all2 (\<lambda>f x. f x) (map g xs) ys = list_all2 (\<lambda>a x. g a x) xs ys"
  by (simp add: list_all2_map1)

lemma read_record_length: "read_record a ss data = Inr (vs, rest) \<Longrightarrow> length vs = length ss"
  by (induction ss arbitrary: data vs) (auto simp: bindR_Inr_iff)

lemma typed_records:
  "length specs \<noteq> 1 \<Longrightarrow> typed (MultiSpec n specs sep) (FList vs) =
     list_all (\<lambda>r. case r of FList rs \<Rightarrow> list_all2 (\<lambda>f x. f x) (map typed specs) rs | _ \<Rightarrow> False) vs"
  by (cases specs rule: remdups_adj.cases) simp_all

lemma read_aspi_cases:
  assumes "read_aspi a data = Inr (v, rest)"
  obtains "v = FList []"
    | n sz vs where "sz \<le> 2" "unpack_all n sz (take (n * sz) data) = Inr vs" "v = FList (map FInt vs)"
proof -
  obtain b where b: "get_int a ''b'' = Inr b"
    using assms by (auto simp: read_aspi_def bindR_Inr_iff)
  show ?thesis
  proof (cases "b = 16 \<or> b = 8")
    case True
    define sz :: nat where "sz = (if b = 16 then 2 else 1)"
    obtain n vs where "unpack_all (nat n) sz (take (nat n * sz) data) = Inr vs" "v = FList (map FInt vs)"
      using assms b True by (auto simp: read_aspi_def bindR_Inr_iff Let_def simp flip: sz_def)
    then show ?thesis using that(2) [of sz "nat n" vs] by (simp add: sz_def)
  next
    case False
    then show ?thesis using assms b that(1) by (auto simp: read_aspi_def)
  qed
qed

lemma event_val_case: "(\<lambda>(b, i). FList [FInt b, FInt i]) = event_val"
  by (auto simp: event_val_def)

lemma adjustment_val_case: "(\<lambda>(f, g). FList [FRat f, FRat g]) = adjustment_val"
  by (auto simp: adjustment_val_def)

text \<open>What \<open>read\<close> returns has the type of its specification.\<close>

lemma spec_read_typed:
  "spec_read a s data = Inr (v, rest) \<Longrightarrow> typed s v"
  "read_record a ss data = Inr (vs, rest) \<Longrightarrow> list_all2 typed ss vs"
proof (induction a s data and a ss data arbitrary: v rest and vs rest
    rule: spec_read_read_record.induct)
  case (4 a n data)
  then show ?case by auto
next
  case (5 a n sz data)
  then show ?case using bit_padded_byte_bound [of sz data] by auto
next
  case (11 a n data)
  then show ?case by (auto simp: read_latin1_text_def latin1_typed split: option.splits)
next
  case (13 a n data)
  then obtain i where "unpack_s True 2 (take 2 data) = Inr i" "v = FRat (of_int i / 512)"
    by (auto simp: bindR_Inr_iff read_volume_adjustment_def)
  then show ?case using unpack_s_bounds [of 2] by auto
next
  case (14 a n data)
  then show ?case by (auto simp: bindR_Inr_iff dest: read_volume_peak_nonneg)
next
  case (15 a n data)
  then show ?case using read_sync_text_typed by (auto simp: bindR_Inr_iff)
next
  case (16 a n data)
  then show ?case
    by (auto simp: event_val_case split: prod.splits intro: read_key_events_typed)
next
  case (17 a n data)
  then show ?case
    by (auto simp: adjustment_val_case split: prod.splits intro: sort_pairs_sorted_fst)
next
  case (18 a n data)
  then have r: "read_aspi a data = Inr (v, rest)" by simp
  then have "v = FList [] \<or> (\<exists>n sz vs. sz \<le> 2 \<and> unpack_all n sz (take (n * sz) data) = Inr vs
      \<and> v = FList (map FInt vs))"
    by (rule read_aspi_cases) blast+
  then show ?case
  proof
    assume "\<exists>n sz vs. sz \<le> 2 \<and> unpack_all n sz (take (n * sz) data) = Inr vs \<and> v = FList (map FInt vs)"
    then obtain n sz vs where *: "sz \<le> 2" "unpack_all n sz (take (n * sz) data) = Inr vs"
      "v = FList (map FInt vs)" by blast
    then have "list_all (u_fits 2) vs"
      using unpack_all_typed [OF *(2)] u_fits_mono [OF _ *(1)] by (auto simp: list_all_iff)
    then show ?thesis using *(3) by auto
  qed auto
next
  case (19 a n specs sep data)
  obtain records where r: "multi_loop (read_record a specs) data = Inr records"
    "v = multi_values (length specs) records"
    using "19.prems" by (auto simp: bindR_Inr_iff)
  have all: "list_all (list_all2 typed specs) records"
    using multi_loop_all [OF r(1)] "19.IH" by blast
  show ?case
  proof (cases "length specs = 1")
    case True
    then obtain s where s: "specs = [s]" by (metis One_nat_def length_0_conv length_Suc_conv)
    then have "list_all (typed s) (map hd records)"
      using all by (auto simp: list_all_iff list_all2_Cons1)
    then show ?thesis using s r(2) by (simp add: multi_values_def)
  next
    case False
    then have "list_all (\<lambda>r. case r of FList rs \<Rightarrow> list_all2 (\<lambda>f x. f x) (map typed specs) rs | _ \<Rightarrow> False)
        (map FList records)"
      using all by (simp add: list_all_iff list_all2_map1)
    moreover have "v = FList (map FList records)" using False r(2) by (simp add: multi_values_def)
    ultimately show ?thesis by (simp only: typed_records [OF False])
  qed
next
  case (21 a s ss data)
  then show ?case by (auto simp: bindR_Inr_iff)
qed (auto simp: bindR_Inr_iff byte_val_def split: list.splits if_splits prod.splits)


section \<open>Types of frames\<close>

definition field_typed :: "attrs \<Rightarrow> spec \<Rightarrow> bool" where
  "field_typed a s = (case map_of a (spec_name s) of Some v \<Rightarrow> typed s v | None \<Rightarrow> False)"

definition frame_typed :: "frame \<Rightarrow> bool" where
  "frame_typed f \<longleftrightarrow> list_all (field_typed (fr_attrs f)) (fd_spec (fr_def f))
     \<and> list_all (\<lambda>s. map_of (fr_attrs f) (spec_name s) = None \<or> field_typed (fr_attrs f) s)
         (fd_opt (fr_def f))"

lemma field_typed_cong: "map_of a (spec_name s) = map_of b (spec_name s) \<Longrightarrow> field_typed a s = field_typed b s"
  by (simp add: field_typed_def)

lemma read_fields_typed:
  "distinct (map spec_name specs) \<Longrightarrow> read_fields opt a specs data = Inr (c, rest) \<Longrightarrow>
     list_all (field_typed c) specs
   \<and> (\<forall>n. n \<notin> set (map spec_name specs) \<longrightarrow> map_of c n = map_of a n)"
proof (induction specs arbitrary: a data)
  case (Cons s ss)
  obtain v data' where r: "spec_read a s data = Inr (v, data')"
    "read_fields opt (setattr a (spec_name s) v) ss data' = Inr (c, rest)"
    using Cons.prems(2) by (auto split: if_splits sum.splits)
  have IH: "list_all (field_typed c) ss"
    "\<forall>n. n \<notin> set (map spec_name ss) \<longrightarrow> map_of c n = map_of (setattr a (spec_name s) v) n"
    using Cons.IH [OF _ r(2)] Cons.prems(1) by auto
  then have "map_of c (spec_name s) = Some v"
    using Cons.prems(1) by (simp add: map_of_setattr)
  then have "field_typed c s" using spec_read_typed(1) [OF r(1)] by (simp add: field_typed_def)
  then show ?case using IH by (auto simp: map_of_setattr)
qed simp

lemma read_optional_typed:
  "distinct (map spec_name specs) \<Longrightarrow> read_optional a specs data = Inr (c, rest) \<Longrightarrow>
     list_all (\<lambda>s. map_of a (spec_name s) = None) specs \<Longrightarrow>
     list_all (\<lambda>s. map_of c (spec_name s) = None \<or> field_typed c s) specs
   \<and> (\<forall>n. n \<notin> set (map spec_name specs) \<longrightarrow> map_of c n = map_of a n)"
proof (induction specs arbitrary: a data)
  case (Cons s ss)
  show ?case
  proof (cases "data = []")
    case True
    then show ?thesis using Cons.prems by (auto simp: list_all_iff)
  next
    case False
    obtain v data' where r: "spec_read a s data = Inr (v, data')"
      "read_optional (setattr a (spec_name s) v) ss data' = Inr (c, rest)"
      using Cons.prems(2) False by (auto simp: bindR_Inr_iff)
    have "list_all (\<lambda>x. map_of (setattr a (spec_name s) v) (spec_name x) = None) ss"
      using Cons.prems(1,3) by (auto simp: map_of_setattr list_all_iff) (metis image_eqI)
    then have IH: "list_all (\<lambda>s. map_of c (spec_name s) = None \<or> field_typed c s) ss"
      "\<forall>n. n \<notin> set (map spec_name ss) \<longrightarrow> map_of c n = map_of (setattr a (spec_name s) v) n"
      using Cons.IH [OF _ r(2)] Cons.prems(1) by auto
    then have "map_of c (spec_name s) = Some v"
      using Cons.prems(1) by (simp add: map_of_setattr)
    then have "field_typed c s" using spec_read_typed(1) [OF r(1)] by (simp add: field_typed_def)
    then show ?thesis using IH by (auto simp: map_of_setattr)
  qed
qed simp

lemma init_fields_names:
  "init_fields a specs args kwargs = Inr c \<Longrightarrow> n \<notin> set (map spec_name specs) \<Longrightarrow>
     map_of c n = map_of a n"
  by (induction a specs args kwargs rule: init_fields.induct)
    (auto simp: bindR_Inr_iff map_of_setattr)

lemma frame_init_empty:
  assumes "frame_init d [] [] = Inr f"
  shows "fr_def f = d" "n \<notin> set (map spec_name (fd_spec d)) \<Longrightarrow> map_of (fr_attrs f) n = None"
proof -
  have o: "init_optional a ss [] = Inr a" for a ss by (cases ss) simp_all
  obtain a where a: "init_fields [] (fd_spec d) [] [] = Inr a" "f = \<lparr>fr_def = d, fr_attrs = a\<rparr>"
    using assms by (auto simp: frame_init_def bindR_Inr_iff o split: if_splits)
  then show "fr_def f = d" "n \<notin> set (map spec_name (fd_spec d)) \<Longrightarrow> map_of (fr_attrs f) n = None"
    using init_fields_names [OF a(1)] by auto
qed

lemma layout_from_distinct:
  "layout_from seen ss \<Longrightarrow> distinct (map spec_name ss) \<and> set seen \<inter> set (map spec_name ss) = {}"
  by (induction seen ss rule: layout_from.induct) auto

lemma from_data_typed:
  assumes lay: "layout_ok d" and r: "from_data d ctx flags data = Inr f"
  shows "fr_def f = d \<and> frame_typed f"
proof -
  obtain f0 data' c where f0: "frame_init d [] [] = Inr f0" "read_data d (fr_attrs f0) data' = Inr c"
    "f = f0\<lparr>fr_attrs := c\<rparr>"
    using r by (auto simp: from_data_def bindR_Inr_iff)
  have dist: "distinct (map spec_name (fd_spec d))" "distinct (map spec_name (fd_opt d))"
    "set (map spec_name (fd_spec d)) \<inter> set (map spec_name (fd_opt d)) = {}"
    using layout_from_distinct [of "[]" "fd_spec d @ fd_opt d"] lay by (auto simp: layout_ok_def)
  obtain b rest where b: "read_fields (is_opt d) (fr_attrs f0) (fd_spec d) data' = Inr (b, rest)"
    "(if is_opt d \<and> rest \<noteq> [] then bindR (read_optional b (fd_opt d) rest) (\<lambda>(a, _). Inr a) else Inr b) = Inr c"
    using f0(2) by (auto simp: read_data_def bindR_Inr_iff)
  have tb: "list_all (field_typed b) (fd_spec d)"
    "\<forall>n. n \<notin> set (map spec_name (fd_spec d)) \<longrightarrow> map_of b n = map_of (fr_attrs f0) n"
    using read_fields_typed [OF dist(1) b(1)] by auto
  have none: "list_all (\<lambda>s. map_of b (spec_name s) = None) (fd_opt d)"
    using tb(2) dist(3) frame_init_empty(2) [OF f0(1)] by (auto simp: list_all_iff)
  have "list_all (field_typed c) (fd_spec d)
      \<and> list_all (\<lambda>s. map_of c (spec_name s) = None \<or> field_typed c s) (fd_opt d)"
  proof (cases "is_opt d \<and> rest \<noteq> []")
    case True
    then obtain r where "read_optional b (fd_opt d) rest = Inr (c, r)"
      using b(2) by (auto simp: bindR_Inr_iff)
    from read_optional_typed [OF dist(2) this none]
    have c: "list_all (\<lambda>s. map_of c (spec_name s) = None \<or> field_typed c s) (fd_opt d)"
      "\<forall>n. n \<notin> set (map spec_name (fd_opt d)) \<longrightarrow> map_of c n = map_of b n" by auto
    have "field_typed c s = field_typed b s" if "s \<in> set (fd_spec d)" for s
      by (rule field_typed_cong) (use c(2) dist(3) that in auto)
    then show ?thesis using c(1) tb(1) by (auto simp: list_all_iff)
  next
    case False
    then show ?thesis using b(2) tb(1) none by (auto simp: list_all_iff)
  qed
  then show ?thesis using f0(3) frame_init_empty(1) [OF f0(1)] by (simp add: frame_typed_def)
qed


section \<open>Keys\<close>

text \<open>A class whose key can be formed has the fields its \<open>HashKey\<close> reads.\<close>

definition has_field :: "frame_def \<Rightarrow> (spec \<Rightarrow> bool) \<Rightarrow> string \<Rightarrow> bool" where
  "has_field d P name = list_ex (\<lambda>s. spec_name s = name \<and> P s) (fd_spec d)"

fun is_text :: "spec \<Rightarrow> bool" where
  "is_text (EncodedTextSpec _) = True"
| "is_text (Latin1TextSpec _) = True"
| "is_text _ = False"

fun is_bytes :: "spec \<Rightarrow> bool" where
  "is_bytes (StringSpec _ _) = True"
| "is_bytes (BinaryDataSpec _) = True"
| "is_bytes _ = False"

fun is_byte :: "spec \<Rightarrow> bool" where
  "is_byte (ByteSpec _) = True"
| "is_byte _ = False"

definition key_ok :: "frame_def \<Rightarrow> bool" where
  "key_ok d =
     (case fd_key d of
        KeyID \<Rightarrow> True
      | KeyUrl \<Rightarrow> has_field d is_text ''url''
      | KeyDesc \<Rightarrow> has_field d is_text ''desc''
      | KeyDescLang \<Rightarrow> has_field d is_text ''desc'' \<and> has_field d is_bytes ''lang''
      | KeyEmail \<Rightarrow> has_field d is_text ''email''
      | KeyOwner \<Rightarrow> has_field d is_text ''owner''
      | KeyLink \<Rightarrow> has_field d is_bytes ''frameid'' \<and> has_field d is_text ''url''
      | KeyLang \<Rightarrow> has_field d is_bytes ''lang''
      | KeyData \<Rightarrow> True
      | KeyGroup \<Rightarrow> has_field d is_byte ''group''
      | KeyPriv \<Rightarrow> has_field d is_text ''owner'' \<and> has_field d is_bytes ''data''
      | KeySign \<Rightarrow> has_field d is_byte ''group'' \<and> has_field d is_bytes ''sig'')"

lemma frames_v24_keys: "list_all key_ok frames_v24"
  by code_simp

lemma frames_v22_keys: "list_all key_ok frames_v22"
  by code_simp

lemma typed_field:
  assumes "frame_typed f" "has_field (fr_def f) P name"
  obtains s v where "P s" "spec_name s = name" "getattr (fr_attrs f) name = Inr v" "typed s v"
  using assms by (fastforce simp: frame_typed_def has_field_def list_all_iff list_ex_iff
      field_typed_def getattr_def split: option.splits)

lemma text_field:
  assumes "frame_typed f" "has_field (fr_def f) is_text name"
  shows "\<exists>u. attr_unicode f name = Inr u"
proof -
  obtain s v where "is_text s" "getattr (fr_attrs f) name = Inr v" "typed s v"
    using typed_field [OF assms] by blast
  then show ?thesis
    by (cases s rule: is_text.cases) (auto simp: attr_unicode_def to_unicode_def split: fval.splits)
qed

lemma bytes_field:
  assumes "frame_typed f" "has_field (fr_def f) is_bytes name"
  shows "\<exists>b. getattr (fr_attrs f) name = Inr (FBytes b)"
proof -
  obtain s v where "is_bytes s" "getattr (fr_attrs f) name = Inr v" "typed s v"
    using typed_field [OF assms] by blast
  then show ?thesis by (cases s rule: is_bytes.cases) (auto split: fval.splits)
qed

lemma byte_field:
  assumes "frame_typed f" "has_field (fr_def f) is_byte name"
  shows "\<exists>i. getattr (fr_attrs f) name = Inr (FInt i) \<and> 0 \<le> i \<and> i < 256"
proof -
  obtain s v where "is_byte s" "getattr (fr_attrs f) name = Inr v" "typed s v"
    using typed_field [OF assms] by blast
  then show ?thesis by (cases s rule: is_byte.cases) (auto simp: byte_val_def split: fval.splits)
qed


lemma key_join_total: "list_all (\<lambda>p. \<exists>u. p = Inr u) parts \<Longrightarrow> \<exists>key. key_join f parts = Inr key"
proof -
  assume "list_all (\<lambda>p. \<exists>u. p = Inr u) parts"
  then have "\<exists>us. mapR id parts = Inr us" by (induction parts) auto
  then show ?thesis by (auto simp: key_join_def)
qed

lemma hash_key_total:
  assumes t: "frame_typed f" and k: "key_ok (fr_def f)" and n: "fd_key (fr_def f) \<noteq> KeyData" "fd_key (fr_def f) \<noteq> KeyLink"
  shows "\<exists>key. hash_key_of f = Inr key"
proof -
  have lang: "\<exists>u. attr_repr f name = Inr u" if "has_field (fr_def f) is_bytes name" for name
    using bytes_field [OF t that] by (auto simp: attr_repr_def repr_value_def)
  show ?thesis
  proof (cases "fd_key (fr_def f)")
    case KeyUrl
    then show ?thesis using k text_field [OF t, of "''url''"]
      by (auto simp: hash_key_of_def key_ok_def intro!: key_join_total)
  next
    case KeyDesc
    then show ?thesis using k text_field [OF t, of "''desc''"]
      by (auto simp: hash_key_of_def key_ok_def intro!: key_join_total)
  next
    case KeyDescLang
    then show ?thesis using k text_field [OF t, of "''desc''"] lang [of "''lang''"]
      by (auto simp: hash_key_of_def key_ok_def intro!: key_join_total)
  next
    case KeyEmail
    then show ?thesis using k text_field [OF t, of "''email''"]
      by (auto simp: hash_key_of_def key_ok_def intro!: key_join_total)
  next
    case KeyOwner
    then show ?thesis using k text_field [OF t, of "''owner''"]
      by (auto simp: hash_key_of_def key_ok_def intro!: key_join_total)
  next
    case KeyLang
    then show ?thesis using k lang [of "''lang''"]
      by (auto simp: hash_key_of_def key_ok_def intro!: key_join_total)
  next
    case KeyGroup
    then show ?thesis using k byte_field [OF t, of "''group''"]
      by (auto simp: hash_key_of_def key_ok_def attr_unicode_def to_unicode_def intro!: key_join_total)
  next
    case KeyPriv
    then show ?thesis using k text_field [OF t, of "''owner''"] bytes_field [OF t, of "''data''"]
      by (auto simp: hash_key_of_def key_ok_def attr_latin1_def intro!: key_join_total)
  next
    case KeySign
    then show ?thesis using k byte_field [OF t, of "''group''"] bytes_field [OF t, of "''sig''"]
      by (auto simp: hash_key_of_def key_ok_def attr_latin1_def write_byte_def intro!: key_join_total)
  qed (use n in \<open>auto simp: hash_key_of_def intro!: key_join_total\<close>)
qed


section \<open>Construction without arguments\<close>

definition constructible :: "frame_def \<Rightarrow> bool" where
  "constructible d = (case frame_init d [] [] of Inr f \<Rightarrow> True | Inl e \<Rightarrow> False)"

lemma spec_validate_None:
  "case s of TimeStampSpec _ \<Rightarrow> True | _ \<Rightarrow> \<exists>v. spec_validate a s FNone = Inr v"
  by (cases s) (auto simp: validate_encoding_def validate_multi_def to_bytes_def to_unicode_def)

definition no_stamp :: "spec \<Rightarrow> bool" where
  "no_stamp s = (case s of TimeStampSpec _ \<Rightarrow> False | _ \<Rightarrow> True)"

lemma init_fields_None: "list_all no_stamp ss \<Longrightarrow> \<exists>c. init_fields a ss [] [] = Inr c"
proof (induction ss arbitrary: a)
  case (Cons s ss)
  obtain v where "spec_validate a s FNone = Inr v"
    using Cons.prems spec_validate_None [where s = s and a = a] by (auto simp: no_stamp_def split: spec.splits)
  then show ?case using Cons by (auto simp: kwarg_def)
qed simp

lemma frames_no_stamp:
  "list_all (\<lambda>d. list_all no_stamp (fd_spec d)) frames_v24"
  "list_all (\<lambda>d. list_all no_stamp (fd_spec d)) frames_v22"
  by code_simp+

lemma frame_constructed:
  assumes "d \<in> set frames_v24 \<or> d \<in> set frames_v22"
  shows "\<exists>f. frame_init d [] [] = Inr f"
proof -
  have "list_all no_stamp (fd_spec d)" using assms frames_no_stamp by (auto simp: list_all_iff)
  then obtain c where "init_fields [] (fd_spec d) [] [] = Inr c" using init_fields_None by blast
  moreover have "init_optional c (fd_opt d) [] = Inr c" by (cases "fd_opt d") simp_all
  ultimately show ?thesis by (simp add: frame_init_def)
qed

text \<open>The key only depends on the fields.\<close>

lemma hash_key_cong:
  assumes def: "fr_def g = fr_def f" and key: "key_ok (fr_def f)"
    and n: "fd_key (fr_def f) \<noteq> KeyData" "fd_key (fr_def f) \<noteq> KeyLink"
    and same: "\<forall>s \<in> set (fd_spec (fr_def f)). map_of (fr_attrs g) (spec_name s) = map_of (fr_attrs f) (spec_name s)"
  shows "hash_key_of g = hash_key_of f"
proof -
  have get: "getattr (fr_attrs g) name = getattr (fr_attrs f) name"
    if "has_field (fr_def f) P name" for P name
    using that same by (auto simp: has_field_def list_ex_iff intro!: getattr_cong)
  have kj: "key_join g = key_join f" by (intro ext) (simp add: key_join_def def)
  show ?thesis
    using n key get
    by (cases "fd_key (fr_def f)")
      (auto simp: hash_key_of_def def kj key_ok_def attr_unicode_def attr_repr_def attr_latin1_def)
qed

section \<open>Writing and reading\<close>

text \<open>The frame read back has the fields that were written and no other.\<close>

lemma frame_data_exact:
  assumes "find_frame frames_v24 name = Some d" and "frame_fits d a k"
    and "ver_le V24 (ctx_version ctx)" and "\<not> ctx_unsynch ctx"
  shows "\<exists>data f. write_data \<lparr>fr_def = d, fr_attrs = a\<rparr> = Inr data \<and> data \<noteq> []
       \<and> from_data d ctx 0 data = Inr f \<and> fr_def f = d
       \<and> (\<forall>s \<in> set (fd_spec d @ take k (fd_opt d)).
            map_of (fr_attrs f) (spec_name s) = map_of a (spec_name s))
       \<and> (\<forall>n. n \<notin> set (map spec_name (fd_spec d @ take k (fd_opt d))) \<longrightarrow> map_of (fr_attrs f) n = None)"
proof -
  have d: "d \<in> set frames_v24" using assms(1) by (simp add: find_frame_Some)
  obtain f0 where f0: "frame_init d [] [] = Inr f0" using frame_constructed d by blast
  obtain data c where *: "write_data \<lparr>fr_def = d, fr_attrs = a\<rparr> = Inr data" "data \<noteq> []"
    "read_data d (fr_attrs f0) data = Inr c"
    "agree c a (map spec_name (fd_spec d @ take k (fd_opt d)))"
    "\<forall>n. n \<notin> set (map spec_name (fd_spec d @ take k (fd_opt d))) \<longrightarrow> map_of c n = map_of (fr_attrs f0) n"
    using frame_roundtrip [OF assms(1,2), of "fr_attrs f0"] by blast
  have none: "map_of c n = None" if "n \<notin> set (map spec_name (fd_spec d @ take k (fd_opt d)))" for n
    using *(5) that frame_init_empty(2) [OF f0, of n] by simp
  have "data_v24 ctx 0 data = Inr data"
    using assms(4) by (simp add: data_v24_def undo_unsynch_def flag_set_def)
  then have "from_data d ctx 0 data = Inr (f0\<lparr>fr_attrs := c\<rparr>)"
    using assms(3) f0 *(3) by (simp add: from_data_def)
  moreover have "\<forall>s \<in> set (fd_spec d @ take k (fd_opt d)). map_of c (spec_name s) = map_of a (spec_name s)"
    using *(4) by (auto simp: agree_def)
  ultimately show ?thesis using *(1,2) frame_init_empty(1) [OF f0] none
    by (intro exI [of _ data] exI [of _ "f0\<lparr>fr_attrs := c\<rparr>"]) simp
qed

lemma frame_data_read:
  assumes "find_frame frames_v24 name = Some d" and "frame_fits d a k"
    and "ver_le V24 (ctx_version ctx)" and "\<not> ctx_unsynch ctx"
  shows "\<exists>data f. write_data \<lparr>fr_def = d, fr_attrs = a\<rparr> = Inr data \<and> data \<noteq> []
       \<and> from_data d ctx 0 data = Inr f \<and> fr_def f = d
       \<and> (\<forall>s \<in> set (fd_spec d @ take k (fd_opt d)).
            map_of (fr_attrs f) (spec_name s) = map_of a (spec_name s))"
  using frame_data_exact [OF assms] by blast

section \<open>Properties\<close>

text \<open>
  C6. A frame of any of the ID3v2.3/2.4 classes whose values fit their fields is written without an
  error, and \<open>fromData\<close> reads the bytes back to a frame of the same class with the same values in
  every field, the optional ones that were written included.
\<close>

theorem frame_write_read:
  assumes "find_frame frames_v24 name = Some d" and "frame_fits d a k"
    and "ver_le V24 (ctx_version ctx)" and "\<not> ctx_unsynch ctx"
  shows "\<exists>data f. write_data \<lparr>fr_def = d, fr_attrs = a\<rparr> = Inr data \<and> data \<noteq> []
       \<and> from_data d ctx 0 data = Inr f \<and> fr_def f = d
       \<and> (\<forall>s \<in> set (fd_spec d @ take k (fd_opt d)).
            map_of (fr_attrs f) (spec_name s) = map_of a (spec_name s))"
  by (rule frame_data_read [OF assms])

text \<open>A tag of version 2.4 without flags.\<close>

definition plain_ctx :: tag_ctx where
  "plain_ctx = \<lparr>ctx_version = V24, ctx_unsynch = False, ctx_pedantic = True,
     ctx_inflate = (\<lambda>_. None)\<rparr>"

theorem frame_write_read_witness:
  "\<exists>d data f. find_frame frames_v24 ''POPM'' = Some d
     \<and> write_data \<lparr>fr_def = d, fr_attrs = [(''email'', FText [97]), (''rating'', FInt 200),
          (''count'', FInt 3)]\<rparr> = Inr data
     \<and> from_data d plain_ctx 0 data = Inr f \<and> map_of (fr_attrs f) ''count'' = Some (FInt 3)"
proof -
  let ?a = "[(''email'', FText [97]), (''rating'', FInt 200), (''count'', FInt 3)]"
  obtain d where d: "find_frame frames_v24 ''POPM'' = Some d"
    "fd_spec d = [Latin1TextSpec ''email'', ByteSpec ''rating'']" "fd_opt d = [IntegerSpec ''count'']"
    by (simp add: find_frame_def frames_v24_def text_frames_1_def text_frames_2_def url_frames_def
        people_frames_def lyric_frames_def picture_frames_def plain_def own_def)
  have "frame_fits d ?a 1"
    by (simp add: frame_fits_def d field_fits_def byte_val_def text_ok_def)
  moreover have "ver_le V24 (ctx_version plain_ctx)" "\<not> ctx_unsynch plain_ctx"
    by (simp_all add: plain_ctx_def V24_def)
  ultimately show ?thesis using frame_write_read [OF d(1), of ?a 1 plain_ctx] d by auto
qed

text \<open>
  C7. Type soundness of reading: a frame that \<open>fromData\<close> returns, for any class of either table,
  any tag version and any bytes, has that class; every field of the class holds a value of the
  kind its specification names (a byte is below 256, a sized integer below its width, and so on),
  an optional field is absent or of its kind; and its \<open>HashKey\<close> can be formed, except for the two
  classes whose key depends on encoding bytes as text (COMR and LINK).
\<close>

theorem loaded_frame_typed:
  assumes "find_frame frames name = Some d" and "frames = frames_v24 \<or> frames = frames_v22"
    and "from_data d ctx flags data = Inr f"
  shows "fr_def f = d \<and> frame_typed f
       \<and> (fd_key d \<noteq> KeyData \<longrightarrow> fd_key d \<noteq> KeyLink \<longrightarrow> (\<exists>key. hash_key_of f = Inr key))"
proof -
  have d: "d \<in> set frames" using assms(1) by (simp add: find_frame_Some)
  then have "layout_ok d" "key_ok d"
    using assms(2) frames_v24_layout frames_v22_layout frames_v24_keys frames_v22_keys
    by (auto simp: list_all_iff)
  then show ?thesis using from_data_typed [OF _ assms(3)] hash_key_total [of f] by auto
qed

theorem loaded_frame_typed_witness:
  "\<exists>d f. find_frame frames_v24 ''PCNT'' = Some d \<and> from_data d plain_ctx 0 ''abcd'' = Inr f
     \<and> frame_typed f \<and> (\<exists>key. hash_key_of f = Inr key)"
proof -
  obtain d where d: "find_frame frames_v24 ''PCNT'' = Some d" "fd_root d = Frame"
    "fd_spec d = [IntegerSpec ''count'']" "fd_opt d = []" "fd_key d = KeyID"
    by (simp add: find_frame_def frames_v24_def text_frames_1_def text_frames_2_def url_frames_def
        people_frames_def lyric_frames_def picture_frames_def plain_def own_def)
  have "\<exists>f. from_data d plain_ctx 0 ''abcd'' = Inr f"
    by (simp add: from_data_def plain_ctx_def V24_def data_v24_def undo_unsynch_def flag_set_def
        frame_init_def d is_opt_def kwarg_def read_data_def)
  then show ?thesis using loaded_frame_typed [OF d(1)] d by fastforce
qed

end
