(* ===== verification/Mut_Genres.thy ===== *)
theory Mut_Genres
  imports Mut_Frame_Laws
begin

text \<open>
  The genres of ID3v1 (\<open>mutagen/_constants.py\<close>) and the \<open>genres\<close> property of \<open>TCON\<close>, which reads
  the several notations of a content type into a list of names.

  \<open>isdigit\<close> and \<open>int\<close> are those of ASCII digits; digits of other scripts are not modelled.
\<close>

definition genres_80 :: "string list" where
  "genres_80 = [
     ''Blues'', ''Classic Rock'', ''Country'', ''Dance'', ''Disco'', ''Funk'', ''Grunge'',
     ''Hip-Hop'', ''Jazz'', ''Metal'', ''New Age'', ''Oldies'', ''Other'', ''Pop'', ''R&B'',
     ''Rap'', ''Reggae'', ''Rock'', ''Techno'', ''Industrial'', ''Alternative'', ''Ska'',
     ''Death Metal'', ''Pranks'', ''Soundtrack'', ''Euro-Techno'', ''Ambient'',
     ''Trip-Hop'', ''Vocal'', ''Jazz+Funk'', ''Fusion'', ''Trance'', ''Classical'',
     ''Instrumental'', ''Acid'', ''House'', ''Game'', ''Sound Clip'', ''Gospel'', ''Noise'',
     ''Alt. Rock'', ''Bass'', ''Soul'', ''Punk'', ''Space'', ''Meditative'',
     ''Instrumental Pop'', ''Instrumental Rock'', ''Ethnic'', ''Gothic'', ''Darkwave'',
     ''Techno-Industrial'', ''Electronic'', ''Pop-Folk'', ''Eurodance'', ''Dream'',
     ''Southern Rock'', ''Comedy'', ''Cult'', ''Gangsta Rap'', ''Top 40'',
     ''Christian Rap'', ''Pop/Funk'', ''Jungle'', ''Native American'', ''Cabaret'',
     ''New Wave'', ''Psychedelic'', ''Rave'', ''Showtunes'', ''Trailer'', ''Lo-Fi'',
     ''Tribal'', ''Acid Punk'', ''Acid Jazz'', ''Polka'', ''Retro'', ''Musical'',
     ''Rock & Roll'', ''Hard Rock'', ''Folk'', ''Folk-Rock'', ''National Folk'', ''Swing'',
     ''Fast-Fusion'', ''Bebop'', ''Latin'', ''Revival'', ''Celtic'', ''Bluegrass'',
     ''Avantgarde'', ''Gothic Rock'', ''Progressive Rock'', ''Psychedelic Rock'',
     ''Symphonic Rock'', ''Slow Rock'', ''Big Band'', ''Chorus'', ''Easy Listening'',
     ''Acoustic'', ''Humour'', ''Speech'', ''Chanson'', ''Opera'', ''Chamber Music'',
     ''Sonata'', ''Symphony'', ''Booty Bass'', ''Primus'', ''Porn Groove'', ''Satire'',
     ''Slow Jam'', ''Club'', ''Tango'', ''Samba'', ''Folklore'', ''Ballad'',
     ''Power Ballad'', ''Rhythmic Soul'', ''Freestyle'', ''Duet'', ''Punk Rock'',
     ''Drum Solo'', ''A Cappella'', ''Euro-House'', ''Dance Hall'', ''Goa'',
     ''Drum & Bass'', ''Club-House'', ''Hardcore'', ''Terror'', ''Indie'', ''BritPop'',
     ''Afro-Punk'', ''Polsk Punk'', ''Beat'', ''Christian Gangsta Rap'', ''Heavy Metal'',
     ''Black Metal'', ''Crossover'', ''Contemporary Christian'', ''Christian Rock'',
     ''Merengue'', ''Salsa'', ''Thrash Metal'', ''Anime'']"

definition genres_more :: "string list" where
  "genres_more = [
     ''JPop'', ''Synthpop'', ''Abstract'', ''Art Rock'', ''Baroque'', ''Bhangra'',
     ''Big Beat'', ''Breakbeat'', ''Chillout'', ''Downtempo'', ''Dub'', ''EBM'',
     ''Eclectic'', ''Electro'', ''Electroclash'', ''Emo'', ''Experimental'', ''Garage'',
     ''Global'', ''IDM'', ''Illbient'', ''Industro-Goth'', ''Jam Band'', ''Krautrock'',
     ''Leftfield'', ''Lounge'', ''Math Rock'', ''New Romantic'', ''Nu-Breakz'',
     ''Post-Punk'', ''Post-Rock'', ''Psytrance'', ''Shoegaze'', ''Space Rock'',
     ''Trop Rock'', ''World Music'', ''Neoclassical'', ''Audiobook'', ''Audio Theatre'',
     ''Neue Deutsche Welle'', ''Podcast'', ''Indie Rock'', ''G-Funk'', ''Dubstep'',
     ''Garage Rock'', ''Psybient'']"

definition GENRES :: "string list" where
  "GENRES = genres_80 @ genres_more"

definition uni :: "string \<Rightarrow> unicode" where
  "uni s = map ord s"

text \<open>\<open>value.isdigit()\<close> and \<open>int(value)\<close>.\<close>

definition u_isdigit :: "unicode \<Rightarrow> bool" where
  "u_isdigit v \<longleftrightarrow> v \<noteq> [] \<and> list_all (\<lambda>c. 48 \<le> c \<and> c \<le> 57) v"

definition u_int :: "unicode \<Rightarrow> nat" where
  "u_int v = (case digits_value 0 v of Some n \<Rightarrow> n | None \<Rightarrow> 0)"

text \<open>
  The regular expression: the longest run of parenthesised numbers, \<open>RX\<close> or \<open>CR\<close> (here the list
  of what the parentheses hold), then the rest of the line.
\<close>

definition paren_id :: "unicode \<Rightarrow> (unicode \<times> unicode) option" where
  "paren_id v =
     (case v of
        c # r \<Rightarrow>
          (if c = 40 then
             (let ds = takeWhile (\<lambda>d. 48 \<le> d \<and> d \<le> 57) r;
                  after = dropWhile (\<lambda>d. 48 \<le> d \<and> d \<le> 57) r
              in if ds \<noteq> [] \<and> after \<noteq> [] \<and> hd after = 41 then Some (ds, tl after)
                 else if take 3 r = [82, 88, 41] \<or> take 3 r = [67, 82, 41] then
                   Some (take 2 r, drop 3 r)
                 else None)
           else None)
      | [] \<Rightarrow> None)"

lemma paren_id_shorter:
  assumes "paren_id v = Some (i, r)" shows "length r < length v"
proof (cases v)
  case (Cons c w)
  have "length (tl (dropWhile P w)) \<le> length w" for P :: "nat \<Rightarrow> bool"
    using length_dropWhile_le [of P w] by simp
  then show ?thesis using assms Cons
    by (auto simp: paren_id_def Let_def less_Suc_eq_le split: if_splits)
qed (use assms in \<open>simp add: paren_id_def\<close>)

function paren_ids :: "unicode \<Rightarrow> unicode list \<times> unicode" where
  "paren_ids v =
     (case paren_id v of
        None \<Rightarrow> ([], v)
      | Some (i, r) \<Rightarrow> (let (is, rest) = paren_ids r in (i # is, rest)))"
  by pat_completeness auto
termination
  by (relation "measure length") (auto dest: paren_id_shorter)

declare paren_ids.simps [simp del]

definition genre_of_id :: "unicode \<Rightarrow> unicode" where
  "genre_of_id gid =
     (if u_isdigit gid \<and> u_int gid < length GENRES then uni (GENRES ! u_int gid)
      else if gid = uni ''CR'' then uni ''Cover''
      else if gid = uni ''RX'' then uni ''Remix''
      else uni ''Unknown'')"

text \<open>\<open>(?P<str>.+)?\<close>: the rest up to a line feed, if there is any.\<close>

definition rest_of_line :: "unicode \<Rightarrow> unicode" where
  "rest_of_line v = takeWhile (\<lambda>c. c \<noteq> 10) v"

definition genres_of_value :: "unicode \<Rightarrow> unicode list" where
  "genres_of_value v =
     (if u_isdigit v \<and> u_int v < 256 then
        [if u_int v < length GENRES then uni (GENRES ! u_int v) else uni ''Unknown'']
      else if v = uni ''CR'' then [uni ''Cover'']
      else if v = uni ''RX'' then [uni ''Remix'']
      else if v = [] then []
      else
        (let (ids, rest) = paren_ids v;
             newgenres = map genre_of_id ids;
             genrename = rest_of_line rest
         in if genrename = [] then newgenres
            else let genrename = (if take 2 genrename = [40, 40] then tl genrename else genrename)
                 in if genrename \<in> set newgenres then newgenres else newgenres @ [genrename]))"

definition get_genres :: "frame \<Rightarrow> merr + unicode list" where
  "get_genres f =
     bindR (getattr (fr_attrs f) ''text'') (\<lambda>v. case v of
       FList vs \<Rightarrow> bindR (texts_of vs) (\<lambda>us. Inr (concat (map genres_of_value us)))
     | _ \<Rightarrow> Inl TypeError)"

definition set_genres :: "frame \<Rightarrow> unicode list \<Rightarrow> frame" where
  "set_genres f genres = f\<lparr>fr_attrs := setattr (fr_attrs f) ''text'' (FList (map FText genres))\<rparr>"

section \<open>Facts\<close>

lemma length_GENRES: "length GENRES = 192"
  by (simp add: GENRES_def genres_80_def genres_more_def)

lemma distinct_GENRES: "distinct GENRES"
  by (simp add: GENRES_def genres_80_def genres_more_def)

lemma GENRES_letters: "list_all (\<lambda>g. \<exists>c r. g = c # r \<and> \<not> is_digit c \<and> c \<noteq> CHR 0x28) GENRES"
  by (simp add: GENRES_def genres_80_def genres_more_def is_digit_def)

end
