(* ===== verification/Mut_Tag.thy ===== *)
theory Mut_Tag
  imports Mut_Genres
begin

text \<open>
  The tag object of \<open>mutagen/id3.py\<close>: its state, the lookup of frames by name and key, adding a
  frame, and the updates between tag versions.

  A tag is a dictionary from hash keys to frames (\<open>DictProxy\<close>) with the private attributes the
  methods use; \<open>__readbytes\<close>, \<open>__crc\<close> and \<open>__extdata\<close>, which nothing reads, are left out.
\<close>

record id3 =
  tg_frames :: "(unicode, frame) dict_proxy"
  tg_unknown :: "string list"
  tg_version :: "nat list"
  tg_flags :: nat
  tg_size :: nat
  tg_unknown_version :: "nat list option"
  tg_pedantic :: bool

definition new_id3 :: id3 where
  "new_id3 = \<lparr>tg_frames = [], tg_unknown = [], tg_version = V24, tg_flags = 0, tg_size = 0,
     tg_unknown_version = None, tg_pedantic = True\<rparr>"

definition f_unsynch :: "id3 \<Rightarrow> bool" where
  "f_unsynch t = flag_set (tg_flags t) 0x80"

definition f_extended :: "id3 \<Rightarrow> bool" where
  "f_extended t = flag_set (tg_flags t) 0x40"

definition f_experimental :: "id3 \<Rightarrow> bool" where
  "f_experimental t = flag_set (tg_flags t) 0x20"

definition f_footer :: "id3 \<Rightarrow> bool" where
  "f_footer t = flag_set (tg_flags t) 0x10"

definition tag_ctx_of :: "(string \<Rightarrow> string option) \<Rightarrow> id3 \<Rightarrow> tag_ctx" where
  "tag_ctx_of inflate t = \<lparr>ctx_version = tg_version t, ctx_unsynch = f_unsynch t,
     ctx_pedantic = tg_pedantic t, ctx_inflate = inflate\<rparr>"

section \<open>Frames by key\<close>

definition tag_get :: "id3 \<Rightarrow> unicode \<Rightarrow> frame option" where
  "tag_get t key = map_of (tg_frames t) key"

definition has_key :: "id3 \<Rightarrow> unicode \<Rightarrow> bool" where
  "has_key t key \<longleftrightarrow> tag_get t key \<noteq> None"

definition tag_set :: "id3 \<Rightarrow> unicode \<Rightarrow> frame \<Rightarrow> id3" where
  "tag_set t key f = t\<lparr>tg_frames := dp_setitem (tg_frames t) key f\<rparr>"

definition tag_del :: "id3 \<Rightarrow> unicode \<Rightarrow> id3" where
  "tag_del t key = t\<lparr>tg_frames := AList.delete key (tg_frames t)\<rparr>"

definition key_prefix :: "unicode \<Rightarrow> unicode \<Rightarrow> bool" where
  "key_prefix key k \<longleftrightarrow> take (length key + 1) k = key @ colon"

definition getall :: "id3 \<Rightarrow> unicode \<Rightarrow> frame list" where
  "getall t key =
     (case tag_get t key of
        Some f \<Rightarrow> [f]
      | None \<Rightarrow> map snd (filter (\<lambda>(k, f). key_prefix key k) (tg_frames t)))"

definition delall :: "id3 \<Rightarrow> unicode \<Rightarrow> id3" where
  "delall t key =
     (if has_key t key then tag_del t key
      else foldl tag_del t (filter (key_prefix key) (dp_keys (tg_frames t))))"

fun set_tags :: "id3 \<Rightarrow> frame list \<Rightarrow> merr + id3" where
  "set_tags t [] = Inr t"
| "set_tags t (f # fs) = bindR (hash_key_of f) (\<lambda>key. set_tags (tag_set t key f) fs)"

definition setall :: "id3 \<Rightarrow> unicode \<Rightarrow> frame list \<Rightarrow> merr + id3" where
  "setall t key values = set_tags (delall t key) values"

text \<open>
  \<open>type(tag).__base__\<close>: the class in the tables under the base's name, or the class \<open>Frame\<close>.
\<close>

definition base_class :: "frame_def \<Rightarrow> frame_def" where
  "base_class d =
     (case fd_base d of
        Sub b \<Rightarrow> (case find_frame frames_v24 b of Some p \<Rightarrow> p | None \<Rightarrow> bare_frame)
      | _ \<Rightarrow> bare_frame)"

text \<open>\<open>loaded_frame\<close> and \<open>add\<close>: an ID3v2.2 frame (a name of three letters) becomes its base class.\<close>

definition upgrade_frame :: "frame \<Rightarrow> merr + frame" where
  "upgrade_frame f =
     (if length (fd_name (fr_def f)) = 3 then frame_copy (base_class (fr_def f)) f else Inr f)"

definition loaded_frame :: "id3 \<Rightarrow> frame \<Rightarrow> merr + id3" where
  "loaded_frame t f =
     bindR (upgrade_frame f) (\<lambda>f. bindR (hash_key_of f) (\<lambda>key. Inr (tag_set t key f)))"

text \<open>A frame of the table, constructed with keyword arguments.\<close>

definition make_frame :: "string \<Rightarrow> attrs \<Rightarrow> merr + frame" where
  "make_frame name kwargs =
     (case find_frame frames_v24 name of
        Some d \<Rightarrow> frame_init d [] kwargs
      | None \<Rightarrow> Inl KeyError)"

definition add_new :: "id3 \<Rightarrow> string \<Rightarrow> attrs \<Rightarrow> merr + id3" where
  "add_new t name kwargs = bindR (make_frame name kwargs) (loaded_frame t)"

section \<open>Updates\<close>

text \<open>\<open>mimes.get(pic.mime, pic.mime)\<close>.\<close>

definition mime_of :: "fval \<Rightarrow> fval" where
  "mime_of v =
     (if v = FText (uni ''PNG'') \<or> v = FBytes ''PNG'' then FBytes ''image/png''
      else if v = FText (uni ''JPG'') \<or> v = FBytes ''JPG'' then FBytes ''image/jpeg''
      else v)"

fun add_pictures :: "id3 \<Rightarrow> frame list \<Rightarrow> merr + id3" where
  "add_pictures t [] = Inr t"
| "add_pictures t (pic # pics) =
     (let a = fr_attrs pic in
      bindR (getattr a ''encoding'') (\<lambda>enc. bindR (getattr a ''mime'') (\<lambda>mime.
      bindR (getattr a ''type'') (\<lambda>ty. bindR (getattr a ''desc'') (\<lambda>desc.
      bindR (getattr a ''data'') (\<lambda>data.
        bindR (add_new t ''APIC'' [(''encoding'', enc), (''mime'', mime_of mime), (''type'', ty),
                                   (''desc'', desc), (''data'', data)]) (\<lambda>t.
          add_pictures t pics)))))))"

definition update_common :: "id3 \<Rightarrow> merr + id3" where
  "update_common t =
     bindR (case tag_get t (uni ''TCON'') of
              None \<Rightarrow> Inr t
            | Some f \<Rightarrow> bindR (get_genres f) (\<lambda>g. Inr (tag_set t (uni ''TCON'') (set_genres f g)))) (\<lambda>t.
       if \<not> ver_le V23 (tg_version t) then
         bindR (add_pictures (delall t (uni ''APIC'')) (getall t (uni ''APIC''))) (\<lambda>t.
           Inr (delall t (uni ''LINK'')))
       else Inr t)"

text \<open>\<open>str(self.get(key, '')).strip('\<backslash>x00')\<close>, and the \<open>pop\<close> that follows when it is not empty.\<close>

definition nul_strip :: "string \<Rightarrow> string" where
  "nul_strip s = str_strip (\<lambda>c. c = CHR 0x00) s"

definition pop_text :: "id3 \<Rightarrow> unicode \<Rightarrow> merr + (string \<times> id3) option" where
  "pop_text t key =
     (case tag_get t key of
        None \<Rightarrow> Inr None
      | Some f \<Rightarrow> bindR (frame_str f) (\<lambda>s.
          Inr (if nul_strip s = [] then None else Some (s, tag_del t key))))"

text \<open>
  \<open>TYER\<close>, \<open>TDAT\<close> and \<open>TIME\<close> become \<open>TDRC\<close>. The frames popped before undecodable text is met stay
  popped, so the tag is returned beside the result.
\<close>

definition year_parts :: "id3 \<Rightarrow> id3 \<times> (merr + string option)" where
  "year_parts t =
     (case pop_text t (uni ''TYER'') of
        Inl e \<Rightarrow> (t, Inl e)
      | Inr None \<Rightarrow> (t, Inr None)
      | Inr (Some (date, t)) \<Rightarrow>
        (case pop_text t (uni ''TDAT'') of
           Inl e \<Rightarrow> (t, Inl e)
         | Inr None \<Rightarrow> (t, Inr (Some date))
         | Inr (Some (dat, t)) \<Rightarrow>
           (let date = date @ ''-'' @ drop 2 dat @ ''-'' @ take 2 dat in
            case pop_text t (uni ''TIME'') of
              Inl e \<Rightarrow> (t, Inl e)
            | Inr None \<Rightarrow> (t, Inr (Some date))
            | Inr (Some (time, t)) \<Rightarrow>
                (t, Inr (Some (date @ ''T'' @ take 2 time @ '':'' @ drop 2 time @ '':00''))))))"

definition update_date :: "id3 \<Rightarrow> merr + id3" where
  "update_date t =
     (case year_parts t of
        (t, Inl e) \<Rightarrow> if e = UnicodeDecodeError then Inr t else Inl e
      | (t, Inr None) \<Rightarrow> Inr t
      | (t, Inr (Some date)) \<Rightarrow>
          if has_key t (uni ''TDRC'') then Inr t
          else (case add_new t ''TDRC'' [(''encoding'', FInt 0), (''text'', FBytes date)] of
                  Inr t \<Rightarrow> Inr t
                | Inl e \<Rightarrow> if e = UnicodeDecodeError then Inr t else Inl e))"

definition update_original :: "id3 \<Rightarrow> merr + id3" where
  "update_original t =
     (case tag_get t (uni ''TORY'') of
        None \<Rightarrow> Inr t
      | Some f \<Rightarrow>
          (let t = tag_del t (uni ''TORY'')
           in if has_key t (uni ''TDOR'') then Inr t
              else (case bindR (frame_str f) (\<lambda>s.
                      add_new t ''TDOR'' [(''encoding'', FInt 0), (''text'', FBytes s)]) of
                      Inr t \<Rightarrow> Inr t
                    | Inl e \<Rightarrow> if e = UnicodeDecodeError then Inr t else Inl e)))"

definition update_people :: "id3 \<Rightarrow> merr + id3" where
  "update_people t =
     (case tag_get t (uni ''IPLS'') of
        None \<Rightarrow> Inr t
      | Some f \<Rightarrow>
          (let t = tag_del t (uni ''IPLS'')
           in if has_key t (uni ''TIPL'') then Inr t
              else bindR (getattr (fr_attrs f) ''encoding'') (\<lambda>enc.
                   bindR (getattr (fr_attrs f) ''people'') (\<lambda>people.
                     add_new t ''TIPL'' [(''encoding'', enc), (''people'', people)]))))"

definition v23_keys :: "string list" where
  "v23_keys = [''RVAD'', ''EQUA'', ''TRDA'', ''TSIZ'', ''TDAT'', ''TIME'', ''CRM'']"

definition del_keys :: "id3 \<Rightarrow> string list \<Rightarrow> id3" where
  "del_keys t keys = foldl (\<lambda>t key. if has_key t (uni key) then tag_del t (uni key) else t) t keys"

section \<open>Writing one frame\<close>

text \<open>\<open>pack('>4s4sH', name, datasize, flags)\<close>: the name padded or cut to four bytes.\<close>

definition frame_header :: "string \<Rightarrow> string \<Rightarrow> string" where
  "frame_header name datasize =
     take 4 (name @ replicate 4 (CHR 0x00)) @ datasize @ [CHR 0x00, CHR 0x00]"

definition save_frame ::
  "id3 \<Rightarrow> frame \<Rightarrow> string option \<Rightarrow> nat list \<Rightarrow> unicode option \<Rightarrow> merr + string" where
  "save_frame t f name version v23_sep =
     bindR (if tg_pedantic t \<and> is_text_frame (fr_def f)
            then bindR (frame_str f) (\<lambda>s. Inr (s = [])) else Inr False) (\<lambda>empty.
       if empty then Inr []
       else bindR (if version = V23 then bindR (get_v23_frame v23_sep f) write_data
                   else write_data f) (\<lambda>framedata.
         if version \<noteq> V24 \<and> version \<noteq> V23 then Inl ValueError
         else bindR (to_str_width (if version = V24 then 7 else 8) 4 True (length framedata))
           (\<lambda>datasize.
             Inr (frame_header (case name of Some n \<Rightarrow> n | None \<Rightarrow> fd_name (fr_def f)) datasize
                  @ framedata))))"

section \<open>update_to_v24 and update_to_v23\<close>

text \<open>\<open>unpack('>4sLH', part)\<close> of ten bytes.\<close>

definition unpack_frame_header :: "string \<Rightarrow> (string \<times> nat \<times> nat) option" where
  "unpack_frame_header part =
     (if length part = 10 then
        Some (take 4 part, struct_value True (take 4 (drop 4 part)), struct_value True (drop 8 part))
      else None)"

fun convert_unknown ::
  "(string \<Rightarrow> string option) \<Rightarrow> id3 \<Rightarrow> string list \<Rightarrow> merr + string list" where
  "convert_unknown inflate t [] = Inr []"
| "convert_unknown inflate t (frame # frames) =
     (case unpack_frame_header (take 10 frame) of
        None \<Rightarrow> convert_unknown inflate t frames
      | Some (name, sz, flags) \<Rightarrow>
          (case from_data binary_frame (tag_ctx_of inflate t) flags (drop 10 frame) of
             Inl e \<Rightarrow> if e = StructError \<or> is_id3_error e then convert_unknown inflate t frames
                      else Inl e
           | Inr f \<Rightarrow> bindR (save_frame t f (Some name) V24 None) (\<lambda>s.
               bindR (convert_unknown inflate t frames) (\<lambda>rest. Inr (s # rest)))))"

definition update_unknown :: "(string \<Rightarrow> string option) \<Rightarrow> id3 \<Rightarrow> merr + id3" where
  "update_unknown inflate t =
     (if tg_unknown_version t = Some V23 then
        bindR (convert_unknown inflate t (tg_unknown t)) (\<lambda>converted.
          Inr (t\<lparr>tg_unknown := converted, tg_unknown_version := Some V24\<rparr>))
      else Inr t)"

definition update_to_v24 :: "(string \<Rightarrow> string option) \<Rightarrow> id3 \<Rightarrow> merr + id3" where
  "update_to_v24 inflate t =
     bindR (update_common t) (\<lambda>t. bindR (update_unknown inflate t) (\<lambda>t.
     bindR (update_date t) (\<lambda>t. bindR (update_original t) (\<lambda>t. bindR (update_people t) (\<lambda>t.
       Inr (del_keys t v23_keys))))))"

text \<open>
  The tag an exception inside \<open>update_to_v24\<close> leaves behind: the steps before it are done, and of the
  failing step the changes made before the raise. A picture that cannot be built is lost with those
  after it, since all of them were taken out first; the frame a step popped stays popped; the
  unknown frames are only replaced at the end of their loop.
\<close>

fun left_pictures :: "id3 \<Rightarrow> frame list \<Rightarrow> id3" where
  "left_pictures t [] = t"
| "left_pictures t (pic # pics) =
     (case add_pictures t [pic] of Inl e \<Rightarrow> t | Inr t \<Rightarrow> left_pictures t pics)"

definition left_common :: "id3 \<Rightarrow> id3" where
  "left_common t =
     (case (case tag_get t (uni ''TCON'') of
              None \<Rightarrow> Inr t
            | Some f \<Rightarrow> bindR (get_genres f) (\<lambda>g. Inr (tag_set t (uni ''TCON'') (set_genres f g)))) of
        Inl e \<Rightarrow> t
      | Inr t \<Rightarrow>
          if \<not> ver_le V23 (tg_version t)
          then left_pictures (delall t (uni ''APIC'')) (getall t (uni ''APIC'')) else t)"

definition left_v24 :: "(string \<Rightarrow> string option) \<Rightarrow> id3 \<Rightarrow> id3" where
  "left_v24 inflate t =
     (case update_common t of Inl e \<Rightarrow> left_common t | Inr t \<Rightarrow>
     (case update_unknown inflate t of Inl e \<Rightarrow> t | Inr t \<Rightarrow>
     (case update_date t of Inl e \<Rightarrow> fst (year_parts t) | Inr t \<Rightarrow>
     (case update_original t of Inl e \<Rightarrow> tag_del t (uni ''TORY'') | Inr t \<Rightarrow>
     (case update_people t of Inl e \<Rightarrow> tag_del t (uni ''IPLS'') | Inr t \<Rightarrow> t)))))"

text \<open>\<open>people.extend(f.people)\<close> for \<open>TIPL\<close>, then \<open>TMCL\<close>; \<open>f\<close> is the frame popped last.\<close>

definition merge_people :: "id3 \<Rightarrow> merr + id3" where
  "merge_people t =
     (let pop = (\<lambda>key (t, people, enc).
            case tag_get t key of
              None \<Rightarrow> Inr (t, people, enc)
            | Some f \<Rightarrow> bindR (getattr (fr_attrs f) ''people'') (\<lambda>p. case p of
                FList ps \<Rightarrow> Inr (tag_del t key, people @ ps, getattr (fr_attrs f) ''encoding'')
              | _ \<Rightarrow> Inl TypeError))
      in if has_key t (uni ''TIPL'') \<or> has_key t (uni ''TMCL'') then
           bindR (pop (uni ''TIPL'') (t, [], Inl AttributeError)) (\<lambda>s.
           bindR (pop (uni ''TMCL'') s) (\<lambda>(t, people, enc).
             if has_key t (uni ''IPLS'') then Inr t
             else bindR enc (\<lambda>e.
               add_new t ''IPLS'' [(''encoding'', e), (''people'', FList people)])))
         else Inr t)"

text \<open>A \<open>TimeStampTextFrame\<close> popped, with its encoding and first time stamp, if it has one.\<close>

definition pop_stamp :: "id3 \<Rightarrow> unicode \<Rightarrow> merr + (id3 \<times> (fval \<times> stamp) option)" where
  "pop_stamp t key =
     (case tag_get t key of
        None \<Rightarrow> Inr (t, None)
      | Some f \<Rightarrow>
          bindR (getattr (fr_attrs f) ''text'') (\<lambda>v. case v of
            FList [] \<Rightarrow> Inr (tag_del t key, None)
          | FList (FStamp d # _) \<Rightarrow>
              bindR (getattr (fr_attrs f) ''encoding'') (\<lambda>enc. Inr (tag_del t key, Some (enc, d)))
          | _ \<Rightarrow> Inl AttributeError))"

text \<open>\<open>if d.year and ...\<close>: zero counts as missing.\<close>

definition nonzero :: "nat option \<Rightarrow> bool" where
  "nonzero x \<longleftrightarrow> x \<noteq> None \<and> x \<noteq> Some 0"

definition add_part :: "id3 \<Rightarrow> string \<Rightarrow> fval \<Rightarrow> bool \<Rightarrow> string \<Rightarrow> merr + id3" where
  "add_part t name enc cond text =
     (if cond \<and> \<not> has_key t (uni name) then
        add_new t name [(''encoding'', enc), (''text'', FBytes text)]
      else Inr t)"

definition split_original :: "id3 \<Rightarrow> merr + id3" where
  "split_original t =
     bindR (pop_stamp t (uni ''TDOR'')) (\<lambda>r. case r of
       (t, None) \<Rightarrow> Inr t
     | (t, Some (enc, d)) \<Rightarrow>
         add_part t ''TORY'' enc (nonzero (ts_year d)) (zero_pad 4 (the (ts_year d))))"

definition split_recording :: "id3 \<Rightarrow> merr + id3" where
  "split_recording t =
     bindR (pop_stamp t (uni ''TDRC'')) (\<lambda>r. case r of
       (t, None) \<Rightarrow> Inr t
     | (t, Some (enc, d)) \<Rightarrow>
         bindR (add_part t ''TYER'' enc (nonzero (ts_year d)) (zero_pad 4 (the (ts_year d)))) (\<lambda>t.
         bindR (add_part t ''TDAT'' enc (nonzero (ts_month d) \<and> nonzero (ts_day d))
                  (zero_pad 2 (the (ts_day d)) @ zero_pad 2 (the (ts_month d)))) (\<lambda>t.
           add_part t ''TIME'' enc (nonzero (ts_hour d) \<and> nonzero (ts_minute d))
             (zero_pad 2 (the (ts_hour d)) @ zero_pad 2 (the (ts_minute d))))))"

definition v24_keys :: "string list" where
  "v24_keys = [''ASPI'', ''EQU2'', ''RVA2'', ''SEEK'', ''SIGN'', ''TDEN'', ''TDOR'', ''TDRC'',
     ''TDRL'', ''TDTG'', ''TIPL'', ''TMCL'', ''TMOO'', ''TPRO'', ''TSOA'', ''TSOP'', ''TSOT'', ''TSST'']"

definition update_to_v23 :: "id3 \<Rightarrow> merr + id3" where
  "update_to_v23 t =
     bindR (update_common t) (\<lambda>t. bindR (merge_people t) (\<lambda>t. bindR (split_original t) (\<lambda>t.
     bindR (split_recording t) (\<lambda>t. Inr (del_keys t v24_keys)))))"

text \<open>The tag an exception inside \<open>update_to_v23\<close> leaves behind.\<close>

definition left_merge :: "id3 \<Rightarrow> id3" where
  "left_merge t =
     (case tag_get t (uni ''TIPL'') of
        None \<Rightarrow> tag_del t (uni ''TMCL'')
      | Some f \<Rightarrow>
          (let t = tag_del t (uni ''TIPL'')
           in case getattr (fr_attrs f) ''people'' of
                Inr (FList ps) \<Rightarrow> tag_del t (uni ''TMCL'')
              | _ \<Rightarrow> t))"

definition left_recording :: "id3 \<Rightarrow> id3" where
  "left_recording t =
     (case pop_stamp t (uni ''TDRC'') of
        Inr (t, Some (enc, d)) \<Rightarrow>
          (case add_part t ''TYER'' enc (nonzero (ts_year d)) (zero_pad 4 (the (ts_year d))) of
             Inl e \<Rightarrow> t
           | Inr t \<Rightarrow>
               (case add_part t ''TDAT'' enc (nonzero (ts_month d) \<and> nonzero (ts_day d))
                       (zero_pad 2 (the (ts_day d)) @ zero_pad 2 (the (ts_month d))) of
                  Inl e \<Rightarrow> t
                | Inr t \<Rightarrow> t))
      | _ \<Rightarrow> tag_del t (uni ''TDRC''))"

definition left_v23 :: "id3 \<Rightarrow> id3" where
  "left_v23 t =
     (case update_common t of Inl e \<Rightarrow> left_common t | Inr t \<Rightarrow>
     (case merge_people t of Inl e \<Rightarrow> left_merge t | Inr t \<Rightarrow>
     (case split_original t of Inl e \<Rightarrow> tag_del t (uni ''TDOR'') | Inr t \<Rightarrow>
     (case split_recording t of Inl e \<Rightarrow> left_recording t | Inr t \<Rightarrow> t))))"

end
