(* ===== verification/Mut_Load.thy ===== *)
theory Mut_Load
  imports Mut_Tag
begin

text \<open>
  Reading a tag (\<open>mutagen/id3.py\<close>): \<open>__fullread\<close>, \<open>__load_header\<close>, \<open>__determine_bpi\<close>,
  \<open>__read_frames\<close>, \<open>ParseID3v1\<close> and \<open>load\<close>, on the bytes of the file.

  Frames are produced one by one and added as they come; the producer does not look at what was
  added, so it is modelled as the list of what it yields and the exception that ends it, if any.
\<close>

section \<open>ID3v1\<close>

definition fix_v1 :: "string \<Rightarrow> unicode" where
  "fix_v1 s = latin1_decode (str_strip is_space (hd (str_split (CHR 0x00) s)))"

definition v1_text :: "string \<Rightarrow> unicode \<Rightarrow> merr + (string \<times> frame) list" where
  "v1_text name text =
     (if text = [] then Inr []
      else bindR (make_frame name [(''encoding'', FInt 0), (''text'', FText text)])
             (\<lambda>f. Inr [(name, f)]))"

text \<open>\<open>None\<close> is the \<open>None\<close> of a string without a tag.\<close>

definition parse_v1_fields ::
  "string \<Rightarrow> unicode \<Rightarrow> unicode \<Rightarrow> unicode \<Rightarrow> unicode \<Rightarrow> unicode \<Rightarrow> nat \<Rightarrow> nat
     \<Rightarrow> merr + (string \<times> frame) list" where
  "parse_v1_fields s title artist album year comment track genre =
     bindR (v1_text ''TIT2'' title) (\<lambda>f1.
     bindR (if artist = [] then Inr []
            else bindR (make_frame ''TPE1'' [(''encoding'', FInt 0), (''text'', FList [FText artist])])
                   (\<lambda>f. Inr [(''TPE1'', f)])) (\<lambda>f2.
     bindR (v1_text ''TALB'' album) (\<lambda>f3.
     bindR (v1_text ''TDRC'' year) (\<lambda>f4.
     bindR (if comment = [] then Inr []
            else bindR (make_frame ''COMM'' [(''encoding'', FInt 0), (''lang'', FBytes ''eng''),
                          (''desc'', FBytes ''ID3v1 Comment''), (''text'', FText comment)])
                   (\<lambda>f. Inr [(''COMM'', f)])) (\<lambda>f5.
     bindR (if track \<noteq> 0 \<and> (track \<noteq> 32 \<or> s ! (length s - 3) = CHR 0x00)
            then v1_text ''TRCK'' (uni (nat_str track)) else Inr []) (\<lambda>f6.
     bindR (if genre \<noteq> 255 then v1_text ''TCON'' (uni (nat_str genre)) else Inr []) (\<lambda>f7.
       Inr (f1 @ f2 @ f3 @ f4 @ f5 @ f6 @ f7))))))))"

definition parse_id3v1 :: "string \<Rightarrow> merr + (string \<times> frame) list option" where
  "parse_id3v1 str =
     (case str_find str ''TAG'' 0 of
        None \<Rightarrow> Inr None
      | Some i \<Rightarrow>
          (let s = drop i str; y = length s - 124
           in if 128 < length s \<or> length s < 124 then Inr None
              else let field = (\<lambda>off n. fix_v1 (take n (drop off s)))
                   in bindR (parse_v1_fields s (field 3 30) (field 33 30) (field 63 30) (field 93 y)
                               (field (93 + y) 29) (ord (s ! (122 + y))) (ord (s ! (123 + y))))
                        (\<lambda>fs. Inr (Some fs))))"

section \<open>The header\<close>

definition fullread :: "int \<Rightarrow> nat \<Rightarrow> fobj \<Rightarrow> merr + string \<times> fobj" where
  "fullread sz filesize f =
     (if sz < 0 then Inl ValueError
      else if sz > int filesize then Inl EOFError
      else let (data, f) = f_read sz f
           in if length data \<noteq> nat sz then Inl EOFError else Inr (data, f))"

definition is_frame_name :: "string \<Rightarrow> bool" where
  "is_frame_name name \<longleftrightarrow> find_frame frames_v24 name \<noteq> None"

text \<open>The checks of a pedantic reader.\<close>

definition header_checks :: "id3 \<Rightarrow> string \<Rightarrow> merr option" where
  "header_checks t sz =
     (if \<not> tg_pedantic t then None
      else if \<not> has_valid_padding 7 sz then Some ValueError
      else if ver_le V24 (tg_version t) \<and> tg_flags t AND 0x0F \<noteq> 0 then Some ValueError
      else if ver_le V23 (tg_version t) \<and> \<not> ver_le V24 (tg_version t)
              \<and> tg_flags t AND 0x1F \<noteq> 0 then Some ValueError
      else None)"

text \<open>The extended header, which is skipped.\<close>

definition skip_extended :: "id3 \<Rightarrow> nat \<Rightarrow> fobj \<Rightarrow> id3 \<times> (merr + fobj)" where
  "skip_extended t filesize f =
     (case fullread 4 filesize f of
        Inl e \<Rightarrow> (t, Inl e)
      | Inr (extsize, f) \<Rightarrow>
          if is_frame_name extsize then
            (t\<lparr>tg_flags := tg_flags t XOR 0x40\<rparr>, seek_cur (-4) f)
          else
            (let n = (if ver_le V24 (tg_version t) then int (bit_padded_int 7 True extsize) - 4
                      else int (struct_value True extsize))
             in if ver_le V24 (tg_version t) \<and> tg_pedantic t \<and> \<not> has_valid_padding 7 extsize
                then (t, Inl ValueError)
                else if n = 0 then (t, Inr f)
                else (t, map_sum id snd (fullread n filesize f))))"

definition load_header :: "id3 \<Rightarrow> nat \<Rightarrow> fobj \<Rightarrow> id3 \<times> (merr + fobj)" where
  "load_header t filesize f =
     (case fullread 10 filesize f of
        Inl e \<Rightarrow> (t, Inl e)
      | Inr (data, f) \<Rightarrow>
          (let vmaj = ord (data ! 3); vrev = ord (data ! 4); flags = ord (data ! 5);
               sz = drop 6 data;
               t = t\<lparr>tg_flags := flags, tg_size := bit_padded_int 7 True sz + 10,
                      tg_version := [2, vmaj, vrev]\<rparr>
           in if take 3 data \<noteq> ''ID3'' then (t, Inl ID3NoHeaderError)
              else if vmaj \<notin> {2, 3, 4} then (t, Inl ID3UnsupportedVersionError)
              else case header_checks t sz of
                     Some e \<Rightarrow> (t, Inl e)
                   | None \<Rightarrow> if f_extended t then skip_extended t filesize f else (t, Inr f)))"

section \<open>Frame sizes\<close>

text \<open>One of the two counting loops: how many known frames, and how far past the end.\<close>

function count_frames :: "(nat \<Rightarrow> nat) \<Rightarrow> string \<Rightarrow> (string \<Rightarrow> bool) \<Rightarrow> nat \<Rightarrow> nat \<Rightarrow> nat \<times> int" where
  "count_frames conv data known off n =
     (if off + 10 < length data then
        let part = take 10 (drop off data)
        in if part = replicate 10 (CHR 0x00) then
             (n, - (int (length data - off) mod 10))
           else case unpack_frame_header part of
                  Some (name, sz, flags) \<Rightarrow>
                    count_frames conv data known (off + 10 + conv sz)
                      (if known name then Suc n else n)
                | None \<Rightarrow> (n, 0)
      else (n, int off - int (length data)))"
  by pat_completeness auto
termination
  by (relation "measure (\<lambda>(conv, data, known, off, n). length data - off)") auto

declare count_frames.simps [simp del]

text \<open>\<open>True\<close> for \<open>BitPaddedInt\<close>, \<open>False\<close> for \<open>int\<close>.\<close>

definition determine_bpi :: "id3 \<Rightarrow> string \<Rightarrow> (string \<Rightarrow> bool) \<Rightarrow> bool" where
  "determine_bpi t data known =
     (if \<not> ver_le V24 (tg_version t) then False
      else let (asbpi, bpioff) = count_frames (bit_padded_of_int 7) data known 0 0;
               (asint, intoff) = count_frames id data known 0 0
           in \<not> (asint > asbpi \<or> asint = asbpi \<and> bpioff \<ge> 1 \<and> intoff \<le> 1))"

section \<open>Frames\<close>

datatype frame_item = Loaded frame | Raw string

type_synonym produced = "frame_item list \<times> merr option"

definition produce :: "frame_item \<Rightarrow> produced \<Rightarrow> produced" where
  "produce i p = (i # fst p, snd p)"

text \<open>What a frame of the given name yields, before the frames after it.\<close>

definition yield_frame ::
  "tag_ctx \<Rightarrow> frame_def list \<Rightarrow> string \<Rightarrow> nat \<Rightarrow> string \<Rightarrow> string \<Rightarrow> produced \<Rightarrow> produced" where
  "yield_frame ctx frames name flags header framedata later =
     (case find_frame frames name of
        None \<Rightarrow> if is_valid_frame_id name then produce (Raw (header @ framedata)) later else later
      | Some tag \<Rightarrow>
          (case from_data tag ctx flags framedata of
             Inr f \<Rightarrow> produce (Loaded f) later
           | Inl e \<Rightarrow>
               if is_not_implemented e then produce (Raw (header @ framedata)) later
               else if e = ID3JunkFrameError then later
               else ([], Some e)))"

definition only_nuls :: "string \<Rightarrow> bool" where
  "only_nuls s \<longleftrightarrow> nul_strip s = []"

function frames_loop ::
  "tag_ctx \<Rightarrow> frame_def list \<Rightarrow> (nat \<Rightarrow> nat) \<Rightarrow> string \<Rightarrow> produced" where
  "frames_loop ctx frames bpi data =
     (if data = [] then ([], None)
      else case unpack_frame_header (take 10 data) of
        None \<Rightarrow> ([], None)
      | Some (name, sz, flags) \<Rightarrow>
          if only_nuls name then ([], None)
          else let sz = bpi sz;
                   framedata = take sz (drop 10 data);
                   later = frames_loop ctx frames bpi (drop (10 + sz) data)
               in if sz = 0 then later
                  else yield_frame ctx frames name flags (take 10 data) framedata later)"
  by pat_completeness auto
termination
  by (relation "measure (\<lambda>(ctx, frames, bpi, data). length data)") auto

declare frames_loop.simps [simp del]

function frames_loop_22 :: "tag_ctx \<Rightarrow> frame_def list \<Rightarrow> string \<Rightarrow> produced" where
  "frames_loop_22 ctx frames data =
     (if length data < 6 then ([], None)
      else let header = take 6 data;
               name = take 3 header;
               sz = struct_value True (CHR 0x00 # drop 3 header)
           in if only_nuls name then ([], None)
              else let framedata = take sz (drop 6 data);
                       later = frames_loop_22 ctx frames (drop (6 + sz) data)
                   in if sz = 0 then later
                      else yield_frame ctx frames name 0 header framedata later)"
  by pat_completeness auto
termination
  by (relation "measure (\<lambda>(ctx, frames, data). length data)") auto

declare frames_loop_22.simps [simp del]

definition read_frames ::
  "(string \<Rightarrow> string option) \<Rightarrow> id3 \<Rightarrow> string \<Rightarrow> frame_def list \<Rightarrow> produced" where
  "read_frames inflate t data frames =
     (let ctx = tag_ctx_of inflate t;
          data = (if \<not> ver_le V24 (tg_version t) \<and> f_unsynch t
                  then (case unsynch_decode data of Inr d \<Rightarrow> d | Inl _ \<Rightarrow> data) else data)
      in if ver_le V23 (tg_version t) then
           (let known = (\<lambda>name. find_frame frames name \<noteq> None)
            in frames_loop ctx frames
                 (if determine_bpi t data known then bit_padded_of_int 7 else id) data)
         else if ver_le V22 (tg_version t) then frames_loop_22 ctx frames data
         else ([], None))"

section \<open>load\<close>

fun add_items :: "id3 \<Rightarrow> frame_item list \<Rightarrow> id3 \<times> merr option" where
  "add_items t [] = (t, None)"
| "add_items t (Raw s # is) = add_items (t\<lparr>tg_unknown := tg_unknown t @ [s]\<rparr>) is"
| "add_items t (Loaded f # is) =
     (case loaded_frame t f of Inl e \<Rightarrow> (t, Some e) | Inr t \<Rightarrow> add_items t is)"

definition add_produced :: "id3 \<Rightarrow> produced \<Rightarrow> id3 \<times> merr option" where
  "add_produced t p =
     (case add_items t (fst p) of
        (t, Some e) \<Rightarrow> (t, Some e)
      | (t, None) \<Rightarrow> (t, snd p))"

definition known_or_default :: "frame_def list option \<Rightarrow> id3 \<Rightarrow> frame_def list" where
  "known_or_default known t =
     (case known of
        Some fs \<Rightarrow> fs
      | None \<Rightarrow> if ver_le V23 (tg_version t) then frames_v24 else frames_v22)"

text \<open>The body of the \<open>try\<close>: the tag and the exception it ends with.\<close>

definition load_v1 :: "id3 \<Rightarrow> merr \<Rightarrow> fobj \<Rightarrow> id3 \<times> merr option" where
  "load_v1 t err f =
     (case seek_end (-128) f of
        Inl _ \<Rightarrow> (t, Some err)
      | Inr f \<Rightarrow>
          (case parse_id3v1 (fst (f_read 128 f)) of
             Inl e \<Rightarrow> (t, Some e)
           | Inr None \<Rightarrow> (t, Some err)
           | Inr (Some frames) \<Rightarrow>
               add_items (t\<lparr>tg_version := V11\<rparr>) (map (Loaded \<circ> snd) frames)))"

definition load_body ::
  "(string \<Rightarrow> string option) \<Rightarrow> frame_def list option \<Rightarrow> id3 \<Rightarrow> string \<Rightarrow> id3 \<times> merr option" where
  "load_body inflate known t filedata =
     (let f = open_file filedata; filesize = length filedata
      in case load_header t filesize f of
           (t, Inl e) \<Rightarrow>
             (if e = EOFError then (t\<lparr>tg_size := 0\<rparr>, Some ID3NoHeaderError)
              else if e = ID3NoHeaderError \<or> e = ID3UnsupportedVersionError then
                load_v1 (t\<lparr>tg_size := 0\<rparr>) e f
              else (t, Some e))
         | (t, Inr f) \<Rightarrow>
             (case fullread (int (tg_size t) - 10) filesize f of
                Inl e \<Rightarrow> (t, Some e)
              | Inr (data, f) \<Rightarrow>
                  (case add_produced t (read_frames inflate t data (known_or_default known t)) of
                     (t, Some e) \<Rightarrow> (t, Some e)
                   | (t, None) \<Rightarrow> (t\<lparr>tg_unknown_version := Some (tg_version t)\<rparr>, None))))"

text \<open>
  The \<open>finally\<close> clause updates the tag even when reading it failed; an exception there replaces
  the first one and leaves the tag as far as the update got.
\<close>

definition tag_load ::
  "(string \<Rightarrow> string option) \<Rightarrow> frame_def list option \<Rightarrow> bool \<Rightarrow> nat \<Rightarrow> id3 \<Rightarrow> string
     \<Rightarrow> id3 \<times> merr option" where
  "tag_load inflate known translate v2_version t filedata =
     (if v2_version \<notin> {3, 4} then (t, Some ValueError)
      else (case load_body inflate known t filedata of
        (t, r) \<Rightarrow>
          if \<not> translate then (t, r)
          else (case (if v2_version = 3 then update_to_v23 t else update_to_v24 inflate t) of
                 Inl e \<Rightarrow> (if v2_version = 3 then left_v23 t else left_v24 inflate t, Some e)
               | Inr t \<Rightarrow> (t, r))))"

end
