(* ===== verification/Mut_Tag_Laws.thy ===== *)
theory Mut_Tag_Laws
  imports Mut_Load Mut_Frame_Props
begin

text \<open>
  The tag invariant - a dictionary in which every frame stands under its own hash key - and the
  lemmas about the updates that the properties of the tag rest on.
\<close>

definition tag_ok :: "id3 \<Rightarrow> bool" where
  "tag_ok t \<longleftrightarrow> wf_dict (tg_frames t)
     \<and> (\<forall>k f. map_of (tg_frames t) k = Some f \<longrightarrow> hash_key_of f = Inr k)"

lemma tag_get_set: "tag_get (tag_set t k f) j = (if j = k then Some f else tag_get t j)"
  by (simp add: tag_get_def tag_set_def dp_setitem_def update_conv')

lemma tag_get_del: "tag_get (tag_del t k) j = (if j = k then None else tag_get t j)"
  by (simp add: tag_get_def tag_del_def delete_conv')

lemma tag_ok_set [wf_intro]: "tag_ok t \<Longrightarrow> hash_key_of f = Inr k \<Longrightarrow> tag_ok (tag_set t k f)"
  by (auto simp: tag_ok_def tag_set_def dp_setitem_def update_conv' wf_dict_def distinct_update
      split: if_splits)

lemma tag_ok_del [wf_intro]: "tag_ok t \<Longrightarrow> tag_ok (tag_del t k)"
  by (auto simp: tag_ok_def tag_del_def delete_conv' wf_dict_def distinct_delete split: if_splits)

lemma tag_ok_fields [simp]:
  "tag_ok (t\<lparr>tg_unknown := u\<rparr>) = tag_ok t" "tag_ok (t\<lparr>tg_version := v\<rparr>) = tag_ok t"
  "tag_ok (t\<lparr>tg_flags := n\<rparr>) = tag_ok t" "tag_ok (t\<lparr>tg_size := n\<rparr>) = tag_ok t"
  "tag_ok (t\<lparr>tg_unknown_version := w\<rparr>) = tag_ok t"
  by (simp_all add: tag_ok_def)

lemma tag_ok_new [simp]: "tag_ok new_id3"
  by (simp add: tag_ok_def new_id3_def wf_dict_def)

lemma tag_ok_dels [wf_intro]: "tag_ok t \<Longrightarrow> tag_ok (foldl tag_del t ks)"
  by (induction ks arbitrary: t) (auto intro: wf_intro)

lemma tag_ok_delall [wf_intro]: "tag_ok t \<Longrightarrow> tag_ok (delall t key)"
  by (auto simp: delall_def intro: wf_intro)

lemma tag_ok_del_keys [wf_intro]: "tag_ok t \<Longrightarrow> tag_ok (del_keys t keys)"
  unfolding del_keys_def by (induction keys arbitrary: t) (auto intro: wf_intro)

text \<open>A property of the value of a computation that may fail.\<close>

definition keeps :: "('a \<Rightarrow> bool) \<Rightarrow> 'e + 'a \<Rightarrow> bool" where
  "keeps P r \<longleftrightarrow> (\<forall>x. r = Inr x \<longrightarrow> P x)"

lemma keeps_Inr [simp]: "keeps P (Inr x) = P x"
  by (simp add: keeps_def)

lemma keeps_Inl [simp]: "keeps P (Inl e)"
  by (simp add: keeps_def)

lemma keeps_bind: "keeps Q m \<Longrightarrow> (\<And>x. Q x \<Longrightarrow> keeps P (k x)) \<Longrightarrow> keeps P (bindR m k)"
  by (auto simp: keeps_def bindR_Inr_iff)

lemma keeps_any: "(\<And>x. keeps P (k x)) \<Longrightarrow> keeps P (bindR m k)"
  by (auto simp: keeps_def bindR_Inr_iff)

lemma keeps_if: "(b \<Longrightarrow> keeps P x) \<Longrightarrow> (\<not> b \<Longrightarrow> keeps P y) \<Longrightarrow> keeps P (if b then x else y)"
  by simp

lemma keepsD: "keeps P r \<Longrightarrow> r = Inr x \<Longrightarrow> P x"
  by (simp add: keeps_def)

lemma inj_uni: "uni m = uni n \<longleftrightarrow> m = n"
  by (simp add: uni_def inj_map_eq_map inj_def)

section \<open>Keys without a colon\<close>

lemma key_join_colon: "key_join f (p # ps) = Inr key \<Longrightarrow> 58 \<in> set key"
proof -
  assume "key_join f (p # ps) = Inr key"
  then obtain u us where "key = str_join colon (map ord (fd_name (fr_def f)) # u # us)"
    by (auto simp: key_join_def bindR_Inr_iff)
  then show ?thesis by (simp add: colon_def)
qed

lemma plain_key: "hash_key_of f = Inr key \<Longrightarrow> 58 \<notin> set key \<Longrightarrow> fd_key (fr_def f) = KeyID"
  by (auto simp: hash_key_of_def split: hash_key.splits sum.splits dest: key_join_colon)

lemma KeyID_hash: "fd_key (fr_def f) = KeyID \<Longrightarrow> hash_key_of f = Inr (uni (fd_name (fr_def f)))"
  by (simp add: hash_key_of_def key_join_def uni_def)

lemma set_genres_key:
  assumes "hash_key_of f = Inr (uni ''TCON'')"
  shows "hash_key_of (set_genres f g) = Inr (uni ''TCON'')"
proof -
  have "fd_key (fr_def f) = KeyID" by (rule plain_key [OF assms]) (simp add: uni_def)
  then show ?thesis using assms KeyID_hash [of f] KeyID_hash [of "set_genres f g"]
    by (simp add: set_genres_def)
qed

lemma tag_ok_get: "tag_ok t \<Longrightarrow> tag_get t k = Some f \<Longrightarrow> hash_key_of f = Inr k"
  by (simp add: tag_ok_def tag_get_def)

lemma pop_text_Some: "pop_text t k = Inr (Some (s, t')) \<Longrightarrow> t' = tag_del t k"
  by (auto simp: pop_text_def bindR_Inr_iff split: option.splits if_splits)

text \<open>The tag after \<open>year_parts\<close> has lost some of the three frames, in this order.\<close>

lemma year_parts_tag:
  "fst (year_parts t) \<in> {t, tag_del t (uni ''TYER''), tag_del (tag_del t (uni ''TYER'')) (uni ''TDAT''),
     tag_del (tag_del (tag_del t (uni ''TYER'')) (uni ''TDAT'')) (uni ''TIME'')}"
proof (cases "pop_text t (uni ''TYER'')")
  case (Inr r)
  show ?thesis
  proof (cases r)
    case (Some p)
    obtain date t1 where p: "p = (date, t1)" by (cases p)
    then have t1: "t1 = tag_del t (uni ''TYER'')" using Inr Some pop_text_Some by blast
    show ?thesis
    proof (cases "pop_text t1 (uni ''TDAT'')")
      case i2: (Inr r2)
      show ?thesis
      proof (cases r2)
        case s2: (Some p2)
        obtain dat t2 where p2: "p2 = (dat, t2)" by (cases p2)
        then have t2: "t2 = tag_del t1 (uni ''TDAT'')" using i2 s2 pop_text_Some by blast
        show ?thesis
        proof (cases "pop_text t2 (uni ''TIME'')")
          case i3: (Inr r3)
          show ?thesis
          proof (cases r3)
            case s3: (Some p3)
            obtain tm t3 where p3: "p3 = (tm, t3)" by (cases p3)
            then have "t3 = tag_del t2 (uni ''TIME'')" using i3 s3 pop_text_Some by blast
            then show ?thesis using Inr Some p i2 s2 p2 i3 s3 p3 t1 t2
              by (simp add: year_parts_def Let_def)
          qed (use Inr Some p i2 s2 p2 i3 t1 t2 in \<open>simp add: year_parts_def Let_def\<close>)
        qed (use Inr Some p i2 s2 p2 t1 t2 in \<open>simp add: year_parts_def Let_def\<close>)
      qed (use Inr Some p i2 t1 in \<open>simp add: year_parts_def\<close>)
    qed (use Inr Some p t1 in \<open>simp add: year_parts_def\<close>)
  qed (use Inr in \<open>simp add: year_parts_def\<close>)
qed (simp add: year_parts_def)

section \<open>What every change of a tag keeps\<close>

text \<open>
  A predicate that implies the tag invariant and survives the two elementary changes - storing a
  frame under its own key and removing a key - survives every update, \<open>add\<close> and load.
\<close>

locale tag_predicate =
  fixes P :: "id3 \<Rightarrow> bool"
  assumes P_ok: "P t \<Longrightarrow> tag_ok t"
    and P_set: "P t \<Longrightarrow> hash_key_of f = Inr k \<Longrightarrow> P (tag_set t k f)"
    and P_del: "P t \<Longrightarrow> P (tag_del t k)"
    and P_unknown [simp]: "P (t\<lparr>tg_unknown := u\<rparr>) = P t"
    and P_version [simp]: "P (t\<lparr>tg_version := v\<rparr>) = P t"
    and P_unknown_version [simp]: "P (t\<lparr>tg_unknown_version := w\<rparr>) = P t"
begin

lemma P_dels: "P t \<Longrightarrow> P (foldl tag_del t ks)"
  by (induction ks arbitrary: t) (auto intro: P_del)

lemma P_del_keys: "P t \<Longrightarrow> P (del_keys t keys)"
  unfolding del_keys_def by (induction keys arbitrary: t) (auto intro: P_del)

lemma P_delall: "P t \<Longrightarrow> P (delall t key)"
  by (auto simp: delall_def intro: P_del P_dels)

lemmas P_intro = P_set P_del P_dels P_del_keys P_delall

lemma get_key: "P t \<Longrightarrow> tag_get t k = Some f \<Longrightarrow> hash_key_of f = Inr k"
  using tag_ok_get P_ok by blast

lemma set_tags: "P t \<Longrightarrow> keeps P (set_tags t fs)"
  by (induction t fs rule: set_tags.induct)
    (auto simp: keeps_def bindR_Inr_iff intro: P_intro)

lemma loaded: "P t \<Longrightarrow> keeps P (loaded_frame t f)"
  by (auto simp: keeps_def loaded_frame_def bindR_Inr_iff intro: P_intro)

lemma add_new: "P t \<Longrightarrow> keeps P (add_new t name kw)"
  unfolding add_new_def by (rule keeps_any, rule loaded)

lemma add_items: "P t \<Longrightarrow> P (fst (add_items t is))"
  by (induction t "is" rule: add_items.induct)
    (auto split: sum.splits dest: keepsD [OF loaded])

lemma add_pictures: "P t \<Longrightarrow> keeps P (add_pictures t pics)"
proof (induction pics arbitrary: t)
  case (Cons pic pics)
  show ?case unfolding add_pictures.simps Let_def
    by (intro keeps_any keeps_bind [OF add_new [OF Cons.prems]] Cons.IH)
qed simp

lemma genres:
  assumes "P t"
  shows "keeps P (case tag_get t (uni ''TCON'') of
              None \<Rightarrow> Inr t
            | Some f \<Rightarrow> bindR (get_genres f) (\<lambda>g. Inr (tag_set t (uni ''TCON'') (set_genres f g))))"
  using assms
  by (auto split: option.split intro!: keeps_any P_set set_genres_key dest: get_key)

lemma update_common: "P t \<Longrightarrow> keeps P (update_common t)"
  unfolding update_common_def
  by (rule keeps_bind [OF genres])
    (auto intro!: keeps_bind [OF add_pictures] P_intro)

lemma update_unknown: "P t \<Longrightarrow> keeps P (update_unknown inflate t)"
  by (auto simp: update_unknown_def intro!: keeps_any)

lemma update_date: "P t \<Longrightarrow> keeps P (update_date t)"
proof -
  assume "P t"
  then have "P (fst (year_parts t))" using year_parts_tag [of t] by (auto intro!: P_del)
  then have "keeps P (add_new (fst (year_parts t)) n kw)" "P (fst (year_parts t))" for n kw
    by (simp_all add: add_new)
  then show ?thesis unfolding update_date_def
    by (cases "year_parts t") (auto simp: keeps_def split: sum.splits option.splits if_splits)
qed

lemma update_original: "P t \<Longrightarrow> keeps P (update_original t)"
proof -
  let ?t = "tag_del t (uni ''TORY'')"
  assume "P t"
  then have ok: "P ?t" by (rule P_intro)
  then have "keeps P (bindR (frame_str f) (\<lambda>s. add_new ?t n (kw s)))" for f n kw
    by (intro keeps_any add_new)
  then show ?thesis using ok \<open>P t\<close> unfolding update_original_def Let_def
    by (auto simp: keeps_def split: sum.splits option.splits if_splits)
qed

lemma update_people: "P t \<Longrightarrow> keeps P (update_people t)"
  unfolding update_people_def Let_def
  by (auto split: option.split intro!: keeps_any add_new P_intro)

lemma update_v24: "P t \<Longrightarrow> keeps P (update_to_v24 inflate t)"
  unfolding update_to_v24_def
  by (intro keeps_bind [OF update_common] keeps_bind [OF update_unknown]
      keeps_bind [OF update_date] keeps_bind [OF update_original]
      keeps_bind [OF update_people]) (auto intro: P_intro)


lemma pop_people:
  assumes "P t"
  shows "keeps (\<lambda>(t, people, enc). P t)
    (case tag_get t key of
       None \<Rightarrow> Inr (t, people, enc)
     | Some f \<Rightarrow> bindR (getattr (fr_attrs f) ''people'') (\<lambda>p. case p of
         FList ps \<Rightarrow> Inr (tag_del t key, people @ ps, getattr (fr_attrs f) ''encoding'')
       | _ \<Rightarrow> Inl TypeError))"
  using assms by (auto split: option.split fval.split intro!: keeps_any P_del)

lemma merge_people: "P t \<Longrightarrow> keeps P (merge_people t)"
  unfolding merge_people_def Let_def
  by (rule keeps_if, unfold prod.case, rule keeps_bind [OF pop_people], assumption, clarify,
      rule keeps_bind [OF pop_people], assumption) (auto intro!: keeps_any add_new)

lemma pop_stamp: "P t \<Longrightarrow> keeps (\<lambda>(t, r). P t) (pop_stamp t key)"
  unfolding pop_stamp_def
  by (auto split: option.split fval.split list.split intro!: keeps_any P_del)

lemma add_part: "P t \<Longrightarrow> keeps P (add_part t name enc cond text)"
  by (simp add: add_part_def add_new)

lemma split_original: "P t \<Longrightarrow> keeps P (split_original t)"
  unfolding split_original_def
  by (auto intro!: keeps_bind [OF pop_stamp] add_part split: option.split)

lemma split_recording: "P t \<Longrightarrow> keeps P (split_recording t)"
  unfolding split_recording_def
  by (auto intro!: keeps_bind [OF pop_stamp] keeps_bind [OF add_part] add_part
      split: option.split)

lemma update_v23: "P t \<Longrightarrow> keeps P (update_to_v23 t)"
  unfolding update_to_v23_def
  by (intro keeps_bind [OF update_common] keeps_bind [OF merge_people]
      keeps_bind [OF split_original] keeps_bind [OF split_recording])
    (auto intro: P_intro)

lemma left_or:
  "keeps P r \<Longrightarrow> (\<And>e. P (l e)) \<Longrightarrow> (\<And>x. P x \<Longrightarrow> P (g x)) \<Longrightarrow>
     P (case r of Inl e \<Rightarrow> l e | Inr x \<Rightarrow> g x)"
  by (cases r) simp_all

lemma left_pictures: "P t \<Longrightarrow> P (left_pictures t pics)"
proof (induction pics arbitrary: t)
  case (Cons pic pics)
  show ?case unfolding left_pictures.simps
    by (rule left_or [OF add_pictures [OF Cons.prems]], rule Cons.prems, rule Cons.IH)
qed simp

lemma left_common: "P t \<Longrightarrow> P (left_common t)"
  unfolding left_common_def
  by (rule left_or [OF genres], assumption, assumption) (simp add: left_pictures P_delall)

lemma left_v24: "P t \<Longrightarrow> P (left_v24 inflate t)"
proof -
  assume t: "P t"
  have y: "P (fst (year_parts u))" if "P u" for u
    using year_parts_tag [of u] that by (auto intro!: P_del)
  show ?thesis unfolding left_v24_def
    by (rule left_or [OF update_common [OF t]], rule left_common [OF t],
        rule left_or [OF update_unknown], assumption, assumption,
        rule left_or [OF update_date], assumption, erule y,
        rule left_or [OF update_original], assumption, erule P_del,
        rule left_or [OF update_people], assumption, erule P_del)
qed

lemma left_merge: "P t \<Longrightarrow> P (left_merge t)"
  by (cases "tag_get t (uni ''TIPL'')")
    (auto simp: left_merge_def Let_def intro!: P_del split: sum.split fval.split)

lemma left_recording: "P t \<Longrightarrow> P (left_recording t)"
proof -
  assume t: "P t"
  have u: "P u" if "pop_stamp t (uni ''TDRC'') = Inr (u, r)" for u r
    using keepsD [OF pop_stamp [OF t] that] by simp
  show ?thesis
  proof (cases "\<exists>u enc d. pop_stamp t (uni ''TDRC'') = Inr (u, Some (enc, d))")
    case True
    then obtain v enc d where v: "pop_stamp t (uni ''TDRC'') = Inr (v, Some (enc, d))" by blast
    show ?thesis unfolding left_recording_def v sum.case prod.case option.case
      by (rule left_or [OF add_part [OF u [OF v]]], rule u [OF v],
          rule left_or [OF add_part], assumption, assumption)
  next
    case False
    then have "left_recording t = tag_del t (uni ''TDRC'')"
      unfolding left_recording_def by (auto split: sum.split option.split)
    then show ?thesis using P_del [OF t] by simp
  qed
qed

lemma left_v23: "P t \<Longrightarrow> P (left_v23 t)"
  unfolding left_v23_def
  by (rule left_or [OF update_common], assumption, erule left_common,
      rule left_or [OF merge_people], assumption, erule left_merge,
      rule left_or [OF split_original], assumption, erule P_del,
      rule left_or [OF split_recording], assumption, erule left_recording)

lemma add_produced: "P t \<Longrightarrow> P (fst (add_produced t p))"
  using add_items [of t "fst p"] by (auto simp: add_produced_def split: prod.splits option.splits)

end

interpretation tag_inv: tag_predicate tag_ok
  by unfold_locales (auto intro: wf_intro)

lemma tag_size_change [simp]: "tg_size (tag_set t k f) = tg_size t" "tg_size (tag_del t k) = tg_size t"
  by (simp_all add: tag_set_def tag_del_def)

interpretation sized: tag_predicate "\<lambda>t. tag_ok t \<and> tg_size t = n"
  by unfold_locales (auto intro: wf_intro)

lemmas tag_ok_set_tags = tag_inv.set_tags
lemmas tag_ok_loaded = tag_inv.loaded
lemmas tag_ok_add_items = tag_inv.add_items
lemmas tag_ok_update_v24 = tag_inv.update_v24
lemmas tag_ok_update_v23 = tag_inv.update_v23
lemmas tag_ok_add_produced = tag_inv.add_produced
lemmas tag_ok_left = tag_inv.left_v24 tag_inv.left_v23

section \<open>Loading keeps the invariant\<close>

lemma skip_extended_ok: "tag_ok t \<Longrightarrow> tag_ok (fst (skip_extended t n f))"
  by (auto simp: skip_extended_def Let_def split: sum.split)

lemma load_header_ok: "tag_ok t \<Longrightarrow> tag_ok (fst (load_header t n f))"
  by (auto simp: load_header_def Let_def split: sum.split option.split intro!: skip_extended_ok)

lemma load_v1_ok: "tag_ok t \<Longrightarrow> tag_ok (fst (load_v1 t e f))"
  by (auto simp: load_v1_def split: sum.split option.split intro!: tag_ok_add_items)

lemma load_body_ok:
  assumes "tag_ok t" shows "tag_ok (fst (load_body inflate known t data))"
proof -
  obtain t1 r where h: "load_header t (length data) (open_file data) = (t1, r)" by (meson surj_pair)
  then have t1: "tag_ok t1" using load_header_ok [OF assms] by (metis fst_conv)
  show ?thesis
  proof (cases r)
    case (Inl e)
    then show ?thesis using h t1 load_v1_ok by (simp add: load_body_def Let_def)
  next
    case (Inr f)
    have "tag_ok x" if "add_produced t1 p = (x, y)" for p x y
      using tag_ok_add_produced [OF t1, of p] that by simp
    then show ?thesis using h t1 Inr
      by (auto simp: load_body_def Let_def split: sum.split prod.split option.split)
  qed
qed

lemma tag_load_ok:
  assumes "tag_ok t" shows "tag_ok (fst (tag_load inflate known translate v2_version t data))"
proof -
  obtain t1 r where b: "load_body inflate known t data = (t1, r)" by (meson surj_pair)
  then have t1: "tag_ok t1" using load_body_ok [OF assms] by (metis fst_conv)
  then show ?thesis using assms b keepsD [OF tag_ok_update_v23 [OF t1]]
      keepsD [OF tag_ok_update_v24 [OF t1]] tag_ok_left [OF t1]
    by (auto simp: tag_load_def split: sum.split)
qed

end
