(* ===== verification/Mut_Tag_Props.thy ===== *)
theory Mut_Tag_Props
  imports Mut_Tag_Laws
begin

text \<open>
  Properties of the tag object: the invariant that every frame stands under its own key, and what
  the updates between tag versions remove, add and leave alone.
\<close>

section \<open>What an update changes\<close>

definition same_except :: "string list \<Rightarrow> id3 \<Rightarrow> id3 \<Rightarrow> bool" where
  "same_except names t t' \<longleftrightarrow>
     (\<forall>k. k \<notin> uni ` set names \<longrightarrow> tag_get t' k = tag_get t k) \<and> tg_version t' = tg_version t"

lemma same_except_refl [simp]: "same_except names t t"
  by (simp add: same_except_def)

lemma same_except_trans:
  "same_except ns t u \<Longrightarrow> same_except ms u v \<Longrightarrow> set (ns @ ms) \<subseteq> set ks \<Longrightarrow> same_except ks t v"
  unfolding same_except_def by (metis Un_iff image_mono subsetD le_sup_iff set_append)

lemma same_except_get:
  assumes "same_except ns t u" "n \<notin> set ns" shows "tag_get u (uni n) = tag_get t (uni n)"
proof -
  have "uni n \<notin> uni ` set ns" using assms(2) by (auto simp: inj_uni)
  then show ?thesis using assms(1) by (simp add: same_except_def)
qed

lemma same_except_set: "n \<in> set ns \<Longrightarrow> same_except ns t (tag_set t (uni n) f)"
  by (auto simp: same_except_def tag_get_set) (simp add: tag_set_def)

lemma same_except_del: "n \<in> set ns \<Longrightarrow> same_except ns t (tag_del t (uni n))"
  by (auto simp: same_except_def tag_get_del) (simp add: tag_del_def)

lemma tag_get_del_keys:
  "tag_get (del_keys t keys) k = (if k \<in> uni ` set keys then None else tag_get t k)"
  unfolding del_keys_def
  by (induction keys arbitrary: t) (auto simp: tag_get_del has_key_def)

lemma same_except_del_keys: "same_except keys t (del_keys t keys)"
proof -
  have "tg_version (del_keys t keys) = tg_version t"
    unfolding del_keys_def by (induction keys arbitrary: t) (auto simp: tag_del_def)
  then show ?thesis by (simp add: same_except_def tag_get_del_keys)
qed

text \<open>The frames the updates add have their name as key.\<close>

definition own_key :: "string \<Rightarrow> bool" where
  "own_key n = (case find_frame frames_v24 n of
     Some d \<Rightarrow> fd_key d = KeyID \<and> fd_name d = n \<and> length n = 4 | None \<Rightarrow> False)"

lemma update_names:
  "list_all own_key [''TDRC'', ''TDOR'', ''TIPL'', ''IPLS'', ''TORY'', ''TYER'', ''TDAT'', ''TIME'']"
  by code_simp

lemma frame_init_def': "frame_init d args kw = Inr f \<Longrightarrow> fr_def f = d"
  by (auto simp: frame_init_def bindR_Inr_iff)

lemma add_new_sets:
  assumes "own_key n" "add_new t n kw = Inr t'" shows "\<exists>f. t' = tag_set t (uni n) f"
proof -
  obtain d where d: "find_frame frames_v24 n = Some d" "fd_key d = KeyID" "fd_name d = n" "length n = 4"
    using assms(1) by (auto simp: own_key_def split: option.splits)
  obtain f where f: "frame_init d [] kw = Inr f" "loaded_frame t f = Inr t'"
    using assms(2) d(1) by (auto simp: add_new_def make_frame_def bindR_Inr_iff)
  then have "fr_def f = d" using frame_init_def' by blast
  then have "hash_key_of f = Inr (uni n)" "upgrade_frame f = Inr f"
    using d KeyID_hash [of f] by (simp_all add: upgrade_frame_def)
  then show ?thesis using f(2) by (auto simp: loaded_frame_def)
qed

lemma same_except_add_new:
  "own_key n \<Longrightarrow> n \<in> set ns \<Longrightarrow> keeps (same_except ns t) (add_new t n kw)"
  by (auto simp: keeps_def intro: same_except_set dest: add_new_sets)

lemma tag_set_version [simp]: "tg_version (tag_set t k f) = tg_version t"
  by (simp add: tag_set_def)

lemma tag_del_version [simp]: "tg_version (tag_del t k) = tg_version t"
  by (simp add: tag_del_def)

lemma common_same:
  assumes "ver_le V23 (tg_version t)" shows "keeps (same_except [''TCON''] t) (update_common t)"
proof -
  have "keeps (same_except [''TCON''] t) (case tag_get t (uni ''TCON'') of None \<Rightarrow> Inr t
      | Some f \<Rightarrow> bindR (get_genres f) (\<lambda>g. Inr (tag_set t (uni ''TCON'') (set_genres f g))))"
    by (auto split: option.split intro!: keeps_any same_except_set)
  then show ?thesis unfolding update_common_def
    by (rule keeps_bind) (use assms in \<open>auto simp: same_except_def\<close>)
qed

lemma unknown_same: "keeps (same_except [] t) (update_unknown inflate t)"
  by (auto simp: update_unknown_def keeps_def bindR_Inr_iff same_except_def tag_get_def split: if_splits)

lemma year_parts_same: "same_except [''TYER'', ''TDAT'', ''TIME''] t (fst (year_parts t))"
  using year_parts_tag [of t]
  by (auto simp: same_except_def tag_get_del)

lemma date_same:
  "keeps (\<lambda>t'. same_except [''TYER'', ''TDAT'', ''TIME'', ''TDRC''] t t'
     \<and> (has_key t (uni ''TDRC'') \<longrightarrow> tag_get t' (uni ''TDRC'') = tag_get t (uni ''TDRC''))) (update_date t)"
proof -
  obtain u r where u: "year_parts t = (u, r)" by (meson surj_pair)
  have y: "same_except [''TYER'', ''TDAT'', ''TIME''] t u" using year_parts_same [of t] u by simp
  then have t: "tag_get u (uni ''TDRC'') = tag_get t (uni ''TDRC'')"
    by (simp add: same_except_def inj_uni image_iff)
  have y4: "same_except [''TYER'', ''TDAT'', ''TIME'', ''TDRC''] t u"
    by (rule same_except_trans [OF y same_except_refl [of "[]"]]) auto
  have add: "same_except [''TYER'', ''TDAT'', ''TIME'', ''TDRC''] t v"
    if "add_new u ''TDRC'' kw = Inr v" for v kw
  proof -
    have "keeps (same_except [''TDRC''] u) (add_new u ''TDRC'' kw)"
      using update_names by (intro same_except_add_new) simp_all
    then show ?thesis using that y same_except_trans [of _ t u "[''TDRC'']" v] by (simp add: keeps_def)
  qed
  show ?thesis using y4 t add u
    by (auto simp: update_date_def keeps_def has_key_def split: sum.splits option.splits if_splits)
qed


lemma original_same:
  "keeps (\<lambda>t'. same_except [''TORY'', ''TDOR''] t t' \<and> \<not> has_key t' (uni ''TORY'')
     \<and> (has_key t (uni ''TDOR'') \<longrightarrow> tag_get t' (uni ''TDOR'') = tag_get t (uni ''TDOR''))) (update_original t)"
proof -
  let ?u = "tag_del t (uni ''TORY'')"
  have base: "same_except [''TORY'', ''TDOR''] t ?u" by (rule same_except_del) simp
  have no: "\<not> has_key ?u (uni ''TORY'')" by (simp add: has_key_def tag_get_del)
  have k: "tag_get ?u (uni ''TDOR'') = tag_get t (uni ''TDOR'')" by (simp add: tag_get_del inj_uni)
  have add: "same_except [''TORY'', ''TDOR''] t v \<and> \<not> has_key v (uni ''TORY'')"
    if a: "add_new ?u ''TDOR'' kw = Inr v" for v kw
  proof -
    have "own_key ''TDOR''" using update_names by simp
    then obtain f where "v = tag_set ?u (uni ''TDOR'') f" using add_new_sets [OF _ a] by blast
    then show ?thesis
      by (auto simp: same_except_def has_key_def tag_get_set tag_get_del inj_uni)
  qed
  show ?thesis
    using base no k add
    by (auto simp: update_original_def Let_def keeps_def has_key_def bindR_def
        split: option.splits if_splits sum.splits)
qed

lemma people_same:
  "keeps (\<lambda>t'. same_except [''IPLS'', ''TIPL''] t t' \<and> \<not> has_key t' (uni ''IPLS'')
     \<and> (has_key t (uni ''TIPL'') \<longrightarrow> tag_get t' (uni ''TIPL'') = tag_get t (uni ''TIPL''))) (update_people t)"
proof -
  let ?u = "tag_del t (uni ''IPLS'')"
  have base: "same_except [''IPLS'', ''TIPL''] t ?u" by (rule same_except_del) simp
  have no: "\<not> has_key ?u (uni ''IPLS'')" by (simp add: has_key_def tag_get_del)
  have k: "tag_get ?u (uni ''TIPL'') = tag_get t (uni ''TIPL'')" by (simp add: tag_get_del inj_uni)
  have add: "same_except [''IPLS'', ''TIPL''] t v \<and> \<not> has_key v (uni ''IPLS'')"
    if a: "add_new ?u ''TIPL'' kw = Inr v" for v kw
  proof -
    have "own_key ''TIPL''" using update_names by simp
    then obtain f where "v = tag_set ?u (uni ''TIPL'') f" using add_new_sets [OF _ a] by blast
    then show ?thesis
      by (auto simp: same_except_def has_key_def tag_get_set tag_get_del inj_uni)
  qed
  show ?thesis
    using base no k add
    by (auto simp: update_people_def Let_def keeps_def has_key_def bindR_Inr_iff
        split: option.splits if_splits)
qed

text \<open>The parts of \<open>update_to_v23\<close>.\<close>

text \<open>The first time stamp of a frame, if it has one.\<close>

definition stamp_of :: "id3 \<Rightarrow> string \<Rightarrow> stamp option" where
  "stamp_of t k = (case tag_get t (uni k) of
     None \<Rightarrow> None
   | Some f \<Rightarrow> (case getattr (fr_attrs f) ''text'' of
       Inr (FList (FStamp d # _)) \<Rightarrow> Some d | _ \<Rightarrow> None))"

lemma pop_stamp_tag:
  assumes "pop_stamp t (uni k) = Inr (u, r)"
  shows "same_except [k] t u \<and> \<not> has_key u (uni k) \<and> map_option snd r = stamp_of t k"
proof (cases "tag_get t (uni k)")
  case None
  then show ?thesis using assms by (auto simp: pop_stamp_def has_key_def stamp_of_def)
next
  case (Some f)
  have "u = tag_del t (uni k) \<and> map_option snd r = stamp_of t k"
  proof (cases "getattr (fr_attrs f) ''text''")
    case (Inr v)
    show ?thesis
    proof (cases v)
      case (FList vs)
      show ?thesis
      proof (cases vs)
        case Nil
        then show ?thesis using assms Some Inr FList by (simp add: pop_stamp_def stamp_of_def)
      next
        case (Cons x xs)
        then show ?thesis using assms Some Inr FList
          by (cases x) (auto simp: pop_stamp_def stamp_of_def bindR_Inr_iff)
      qed
    qed (use assms Some Inr in \<open>simp_all add: pop_stamp_def\<close>)
  qed (use assms Some in \<open>simp add: pop_stamp_def\<close>)
  then show ?thesis by (auto simp: has_key_def tag_get_del same_except_del)
qed

lemma add_part_tag:
  assumes "own_key n" "add_part t n enc cond txt = Inr u"
  shows "same_except [n] t u \<and> (has_key u (uni n) \<longleftrightarrow> has_key t (uni n) \<or> cond)
       \<and> (has_key t (uni n) \<longrightarrow> tag_get u (uni n) = tag_get t (uni n))"
proof (cases "cond \<and> \<not> has_key t (uni n)")
  case True
  then have "add_new t n [(''encoding'', enc), (''text'', FBytes txt)] = Inr u"
    using assms(2) by (simp add: add_part_def)
  then obtain f where "u = tag_set t (uni n) f" using add_new_sets [OF assms(1)] by blast
  then show ?thesis using True by (simp add: has_key_def tag_get_set same_except_set)
next
  case False
  then show ?thesis using assms(2) by (auto simp: add_part_def)
qed

lemma v23_names: "own_key ''IPLS''" "own_key ''TORY''" "own_key ''TYER''" "own_key ''TDAT''" "own_key ''TIME''"
  using update_names by simp_all

lemma split_original_same:
  "keeps (\<lambda>t'. same_except [''TDOR'', ''TORY''] t t'
     \<and> (has_key t (uni ''TORY'') \<longrightarrow> tag_get t' (uni ''TORY'') = tag_get t (uni ''TORY''))) (split_original t)"
proof -
  have "same_except [''TDOR'', ''TORY''] t t'
      \<and> (has_key t (uni ''TORY'') \<longrightarrow> tag_get t' (uni ''TORY'') = tag_get t (uni ''TORY''))"
    if r: "split_original t = Inr t'" for t'
  proof -
    obtain u r where p: "pop_stamp t (uni ''TDOR'') = Inr (u, r)"
      "t' = u \<or> (\<exists>enc cond txt. add_part u ''TORY'' enc cond txt = Inr t')"
      using r by (fastforce simp: split_original_def bindR_Inr_iff split: option.splits)
    note u = pop_stamp_tag [OF p(1)]
    have k: "tag_get u (uni ''TORY'') = tag_get t (uni ''TORY'')"
      by (rule same_except_get [of "[''TDOR'']"]) (use u in auto)
    have "same_except [''TORY''] u t'
        \<and> (has_key u (uni ''TORY'') \<longrightarrow> tag_get t' (uni ''TORY'') = tag_get u (uni ''TORY''))"
      using p(2) add_part_tag [OF v23_names(2)] by auto
    then show ?thesis using u k same_except_trans [of "[''TDOR'']" t u "[''TORY'']" t']
      by (simp add: has_key_def)
  qed
  then show ?thesis by (simp add: keeps_def)
qed

text \<open>\<open>TIME\<close> is written exactly when hour and minute are both given and not zero.\<close>

lemma split_recording_same:
  "keeps (\<lambda>t'. same_except [''TDRC'', ''TYER'', ''TDAT'', ''TIME''] t t'
     \<and> (\<forall>n \<in> {''TYER'', ''TDAT'', ''TIME''}. has_key t (uni n) \<longrightarrow> tag_get t' (uni n) = tag_get t (uni n))
     \<and> (has_key t' (uni ''TIME'') \<longleftrightarrow> has_key t (uni ''TIME'')
          \<or> (\<exists>d. stamp_of t ''TDRC'' = Some d \<and> nonzero (ts_hour d) \<and> nonzero (ts_minute d))))
     (split_recording t)"
proof -
  have "same_except [''TDRC'', ''TYER'', ''TDAT'', ''TIME''] t t'
     \<and> (\<forall>n \<in> {''TYER'', ''TDAT'', ''TIME''}. has_key t (uni n) \<longrightarrow> tag_get t' (uni n) = tag_get t (uni n))
     \<and> (has_key t' (uni ''TIME'') \<longleftrightarrow> has_key t (uni ''TIME'')
          \<or> (\<exists>d. stamp_of t ''TDRC'' = Some d \<and> nonzero (ts_hour d) \<and> nonzero (ts_minute d)))"
    if r: "split_recording t = Inr t'" for t'
  proof -
    obtain u rr where p: "pop_stamp t (uni ''TDRC'') = Inr (u, rr)"
      using r by (auto simp: split_recording_def bindR_Inr_iff)
    note u = pop_stamp_tag [OF p(1)]
    have ku: "tag_get u (uni n) = tag_get t (uni n)" if "n \<noteq> ''TDRC''" for n
      by (rule same_except_get [of "[''TDRC'']"]) (use u that in auto)
    show ?thesis
    proof (cases rr)
      case None
      then have "t' = u" using r p by (simp add: split_recording_def)
      moreover have "stamp_of t ''TDRC'' = None"
        using u None by simp
      moreover have "same_except [''TDRC'', ''TYER'', ''TDAT'', ''TIME''] t u"
        by (rule same_except_trans [of "[''TDRC'']" t u "[]" u]) (use u in auto)
      ultimately show ?thesis using ku by (auto simp: has_key_def)
    next
      case (Some ed)
      obtain enc d where ed: "ed = (enc, d)" by (cases ed)
      have st: "stamp_of t ''TDRC'' = Some d"
        using u Some ed by simp
      obtain t1 t2 c1 x1 c2 x2 x3 where a: "add_part u ''TYER'' enc c1 x1 = Inr t1"
        "add_part t1 ''TDAT'' enc c2 x2 = Inr t2"
        "add_part t2 ''TIME'' enc (nonzero (ts_hour d) \<and> nonzero (ts_minute d)) x3 = Inr t'"
        using r p Some ed by (auto simp: split_recording_def bindR_Inr_iff)
      note y = add_part_tag [OF v23_names(3) a(1)] add_part_tag [OF v23_names(4) a(2)]
        add_part_tag [OF v23_names(5) a(3)]
      have k1: "tag_get t1 (uni n) = tag_get u (uni n)" if "n \<noteq> ''TYER''" for n
        by (rule same_except_get [of "[''TYER'']"]) (use y that in auto)
      have k2: "tag_get t2 (uni n) = tag_get t1 (uni n)" if "n \<noteq> ''TDAT''" for n
        by (rule same_except_get [of "[''TDAT'']"]) (use y that in auto)
      have k3: "tag_get t' (uni n) = tag_get t2 (uni n)" if "n \<noteq> ''TIME''" for n
        by (rule same_except_get [of "[''TIME'']"]) (use y that in auto)
      have "same_except ((([''TDRC''] @ [''TYER'']) @ [''TDAT'']) @ [''TIME'']) t t'"
        using u y by (blast intro: same_except_trans [OF _ _ order_refl])
      moreover have "tag_get t' (uni ''TYER'') = tag_get t (uni ''TYER'')" if "has_key t (uni ''TYER'')"
        using y(1) ku [of "''TYER''"] k2 [of "''TYER''"] k3 [of "''TYER''"] that by (simp add: has_key_def)
      moreover have "tag_get t' (uni ''TDAT'') = tag_get t (uni ''TDAT'')" if "has_key t (uni ''TDAT'')"
        using y(2) ku [of "''TDAT''"] k1 [of "''TDAT''"] k3 [of "''TDAT''"] that by (simp add: has_key_def)
      moreover have "has_key t2 (uni ''TIME'') = has_key t (uni ''TIME'')"
        "tag_get t2 (uni ''TIME'') = tag_get t (uni ''TIME'')"
        using ku [of "''TIME''"] k1 [of "''TIME''"] k2 [of "''TIME''"] by (simp_all add: has_key_def)
      ultimately show ?thesis using y(3) st by auto
    qed
  qed
  then show ?thesis by (simp add: keeps_def)
qed

lemma merge_people_same:
  "keeps (\<lambda>t'. same_except [''TIPL'', ''TMCL'', ''IPLS''] t t'
     \<and> (has_key t (uni ''IPLS'') \<longrightarrow> tag_get t' (uni ''IPLS'') = tag_get t (uni ''IPLS''))) (merge_people t)"
proof -
  have pop: "keeps (\<lambda>(t', _). same_except [key] u t')
    (case tag_get u (uni key) of
       None \<Rightarrow> Inr (u, people, enc)
     | Some f \<Rightarrow> bindR (getattr (fr_attrs f) ''people'') (\<lambda>p. case p of
         FList ps \<Rightarrow> Inr (tag_del u (uni key), people @ ps, getattr (fr_attrs f) ''encoding'')
       | _ \<Rightarrow> Inl TypeError))" for key u people enc
    by (auto split: option.split fval.split intro!: keeps_any same_except_del)
  have fin: "keeps (\<lambda>t'. same_except [''TIPL'', ''TMCL'', ''IPLS''] t t'
     \<and> (has_key t (uni ''IPLS'') \<longrightarrow> tag_get t' (uni ''IPLS'') = tag_get t (uni ''IPLS'')))
       (if has_key u (uni ''IPLS'') then Inr u
        else bindR enc (\<lambda>e. add_new u ''IPLS'' (kw e)))"
    if "same_except [''TIPL'', ''TMCL''] t u" for u enc kw
  proof -
    have k: "tag_get u (uni ''IPLS'') = tag_get t (uni ''IPLS'')"
      by (rule same_except_get [OF that]) simp
    have "same_except [''TIPL'', ''TMCL'', ''IPLS''] t v" if a: "add_new u ''IPLS'' x = Inr v" for v x
    proof -
      obtain f where "v = tag_set u (uni ''IPLS'') f"
        using add_new_sets [OF v23_names(1) a] by blast
      then have "same_except [''IPLS''] u v" by (simp add: same_except_set)
      with \<open>same_except _ t u\<close> show ?thesis by (rule same_except_trans) auto
    qed
    moreover have "same_except [''TIPL'', ''TMCL'', ''IPLS''] t u"
      by (rule same_except_trans [OF that same_except_refl [of "[]"]]) auto
    ultimately show ?thesis using k by (auto simp: keeps_def has_key_def bindR_Inr_iff)
  qed
  show ?thesis unfolding merge_people_def Let_def
  proof (rule keeps_if, unfold prod.case, rule keeps_bind [OF pop], clarify, rule keeps_bind [OF pop],
      clarify)
    fix u v people enc
    assume "same_except [''TIPL''] t u" "same_except [''TMCL''] u v"
    then have "same_except [''TIPL'', ''TMCL''] t v" by (rule same_except_trans) auto
    then show "keeps (\<lambda>t'. same_except [''TIPL'', ''TMCL'', ''IPLS''] t t'
     \<and> (has_key t (uni ''IPLS'') \<longrightarrow> tag_get t' (uni ''IPLS'') = tag_get t (uni ''IPLS'')))
       (if has_key v (uni ''IPLS'') then Inr v
        else bindR enc (\<lambda>e. add_new v ''IPLS'' [(''encoding'', e), (''people'', FList people)]))"
      by (rule fin)
  qed (simp add: same_except_refl)
qed

section \<open>Properties\<close>

text \<open>
  C8. Loading any file, whatever its bytes and even when it ends in an error, and then any
  successful update, \<open>add\<close>, \<open>setall\<close> or \<open>delall\<close>, leaves a tag in which no key occurs twice and
  every frame stands under its own \<open>HashKey\<close>.
\<close>

theorem tag_invariant:
  assumes "tag_ok t"
  shows "tag_ok (fst (tag_load inflate known translate v2_version t filedata))
       \<and> tag_ok new_id3 \<and> tag_ok (delall t key)
       \<and> (loaded_frame t f = Inr t' \<longrightarrow> tag_ok t')
       \<and> (setall t key fs = Inr t' \<longrightarrow> tag_ok t')
       \<and> (update_to_v24 inflate t = Inr t' \<longrightarrow> tag_ok t')
       \<and> (update_to_v23 t = Inr t' \<longrightarrow> tag_ok t')"
proof (intro conjI impI)
  show "tag_ok (delall t key)" using assms by (rule tag_ok_delall)
  show "loaded_frame t f = Inr t' \<Longrightarrow> tag_ok t'" by (rule keepsD [OF tag_ok_loaded [OF assms]])
  show "setall t key fs = Inr t' \<Longrightarrow> tag_ok t'"
    unfolding setall_def by (rule keepsD [OF tag_ok_set_tags [OF tag_ok_delall [OF assms]]])
  show "update_to_v24 inflate t = Inr t' \<Longrightarrow> tag_ok t'"
    by (rule keepsD [OF tag_ok_update_v24 [OF assms]])
  show "update_to_v23 t = Inr t' \<Longrightarrow> tag_ok t'"
    by (rule keepsD [OF tag_ok_update_v23 [OF assms]])
qed (simp_all add: assms tag_load_ok)

theorem tag_invariant_witness:
  "tag_ok (fst (tag_load (\<lambda>_. None) None True 4 new_id3 ''ID3''))"
  using tag_invariant [OF tag_ok_new, of "\<lambda>_. None" None True 4 "''ID3''"] by simp

lemma tyer_popped:
  "tag_get (fst (year_parts t)) (uni ''TYER'') =
     (case tag_get t (uni ''TYER'') of
        None \<Rightarrow> None
      | Some f \<Rightarrow> (case frame_str f of
          Inl e \<Rightarrow> Some f
        | Inr s \<Rightarrow> if nul_strip s = [] then Some f else None))"
proof (cases "pop_text t (uni ''TYER'')")
  case (Inl e)
  then show ?thesis
    by (auto simp: year_parts_def pop_text_def bindR_def split: option.splits sum.splits if_splits)
next
  case (Inr r)
  show ?thesis
  proof (cases r)
    case None
    then show ?thesis using Inr
      by (auto simp: year_parts_def pop_text_def bindR_Inr_iff split: option.splits if_splits)
  next
    case (Some p)
    obtain date u where p: "p = (date, u)" by (cases p)
    then have u: "u = tag_del t (uni ''TYER'')" using Inr Some pop_text_Some by blast
    obtain f where f: "tag_get t (uni ''TYER'') = Some f" "frame_str f = Inr date" "nul_strip date \<noteq> []"
      using Inr Some p by (auto simp: pop_text_def bindR_Inr_iff split: option.splits if_splits)
    have "tag_get (fst (year_parts t)) (uni ''TYER'') = tag_get u (uni ''TYER'')"
    proof -
      have "fst (year_parts t) \<in> {u, tag_del u (uni ''TDAT''), tag_del (tag_del u (uni ''TDAT'')) (uni ''TIME'')}"
        using year_parts_tag [of t] Inr Some p
        by (auto simp: year_parts_def u Let_def split: sum.splits option.splits prod.splits
            dest: pop_text_Some)
      then show ?thesis by (auto simp: tag_get_del inj_uni)
    qed
    then show ?thesis using f u by (simp add: tag_get_del)
  qed
qed

lemma tyer_after_date:
  assumes "update_date t = Inr t'"
  shows "tag_get t' (uni ''TYER'') = tag_get (fst (year_parts t)) (uni ''TYER'')"
proof -
  obtain u r where u: "year_parts t = (u, r)" by (meson surj_pair)
  have "tag_get v (uni ''TYER'') = tag_get u (uni ''TYER'')" if a: "add_new u ''TDRC'' kw = Inr v" for v kw
  proof -
    have "own_key ''TDRC''" using update_names by simp
    then obtain f where "v = tag_set u (uni ''TDRC'') f" using add_new_sets [OF _ a] by blast
    then show ?thesis by (simp add: tag_get_set inj_uni)
  qed
  then show ?thesis using assms u
    by (auto simp: update_date_def split: sum.splits option.splits if_splits)
qed

text \<open>
  C29. A successful \<open>update_to_v24\<close> of a tag whose version is 2.3 or later removes RVAD, EQUA, TRDA, TSIZ,
  TDAT, TIME, CRM, TORY and IPLS; it removes TYER when the text of that frame has a character other
  than NUL, and keeps the frame as it is when its text is empty, all NUL, or cannot be turned into a
  byte string; it never replaces a TDRC, TDOR or TIPL frame that is already there, and it leaves every
  frame but these and TCON (whose genres it rewrites) untouched.
\<close>

theorem update_to_v24_frames:
  assumes v: "ver_le V23 (tg_version t)" and r: "update_to_v24 inflate t = Inr t'"
  shows "(\<forall>n \<in> {''RVAD'', ''EQUA'', ''TRDA'', ''TSIZ'', ''TDAT'', ''TIME'', ''CRM'', ''TORY'', ''IPLS''}.
            \<not> has_key t' (uni n))
       \<and> tag_get t' (uni ''TYER'') =
           (case tag_get t (uni ''TYER'') of
              None \<Rightarrow> None
            | Some f \<Rightarrow> (case frame_str f of
                Inl e \<Rightarrow> Some f
              | Inr s \<Rightarrow> if nul_strip s = [] then Some f else None))
       \<and> (\<forall>n \<in> {''TDRC'', ''TDOR'', ''TIPL''}. has_key t (uni n) \<longrightarrow> tag_get t' (uni n) = tag_get t (uni n))
       \<and> same_except (v23_keys @ [''TORY'', ''IPLS'', ''TCON'', ''TYER'', ''TDRC'', ''TDOR'', ''TIPL'']) t t'"
proof -
  obtain t1 t2 t3 t4 t5 where s: "update_common t = Inr t1" "update_unknown inflate t1 = Inr t2"
    "update_date t2 = Inr t3" "update_original t3 = Inr t4" "update_people t4 = Inr t5"
    and t': "t' = del_keys t5 v23_keys"
    using r by (auto simp: update_to_v24_def bindR_Inr_iff)
  note c = keepsD [OF common_same [OF v] s(1)] keepsD [OF unknown_same s(2)]
    keepsD [OF date_same s(3)] keepsD [OF original_same s(4)] keepsD [OF people_same s(5)]
  note e = c(1) c(2) c(3)[THEN conjunct1] c(4)[THEN conjunct1] c(5)[THEN conjunct1]
  have g: "tag_get t' (uni n) = (if n \<in> set v23_keys then None else tag_get t5 (uni n))" for n
    by (simp add: t' tag_get_del_keys image_iff inj_uni)
  have "\<not> has_key t' (uni n)" if "n \<in> set (v23_keys @ [''TORY'', ''IPLS''])" for n
    using that c(4,5) same_except_get [OF e(5), of "''TORY''"] by (auto simp: has_key_def g)
  then have "\<forall>n \<in> {''RVAD'', ''EQUA'', ''TRDA'', ''TSIZ'', ''TDAT'', ''TIME'', ''CRM'', ''TORY'', ''IPLS''}.
      \<not> has_key t' (uni n)" by (simp add: v23_keys_def)
  moreover have "tag_get t' (uni ''TYER'') =
           (case tag_get t (uni ''TYER'') of
              None \<Rightarrow> None
            | Some f \<Rightarrow> (case frame_str f of
                Inl e \<Rightarrow> Some f
              | Inr s \<Rightarrow> if nul_strip s = [] then Some f else None))"
  proof -
    have "tag_get t2 (uni ''TYER'') = tag_get t (uni ''TYER'')"
      by (rule trans [OF same_except_get [OF e(2)] same_except_get [OF e(1)]]) simp_all
    moreover have "tag_get t' (uni ''TYER'') = tag_get t3 (uni ''TYER'')"
      using same_except_get [OF e(4), of "''TYER''"] same_except_get [OF e(5), of "''TYER''"]
      by (simp add: g v23_keys_def)
    ultimately show ?thesis by (simp add: tyer_after_date [OF s(3)] tyer_popped)
  qed
  moreover have "tag_get t' (uni n) = tag_get t (uni n)"
    if n: "n \<in> {''TDRC'', ''TDOR'', ''TIPL''}" and k: "has_key t (uni n)" for n
  proof -
    have v: "n \<notin> set v23_keys" using n by (auto simp: v23_keys_def)
    have 2: "tag_get t2 (uni n) = tag_get t (uni n)"
      by (rule trans [OF same_except_get [OF e(2)] same_except_get [OF e(1)]]) (use n in auto)
    have 3: "tag_get t3 (uni n) = tag_get t2 (uni n)"
    proof (cases "n = ''TDRC''")
      case True
      then show ?thesis using c(3) k 2 by (metis has_key_def)
    qed (rule same_except_get [OF e(3)], use n in auto)
    have 4: "tag_get t4 (uni n) = tag_get t3 (uni n)"
    proof (cases "n = ''TDOR''")
      case True
      then show ?thesis using c(4) k 2 3 by (metis has_key_def)
    qed (rule same_except_get [OF e(4)], use n in auto)
    have "tag_get t5 (uni n) = tag_get t4 (uni n)"
    proof (cases "n = ''TIPL''")
      case True
      then show ?thesis using c(5) k 2 3 4 by (metis has_key_def)
    qed (rule same_except_get [OF e(5)], use n in auto)
    then show ?thesis using v 2 3 4 by (simp add: g)
  qed
  moreover have "same_except (v23_keys @ [''TORY'', ''IPLS'', ''TCON'', ''TYER'', ''TDRC'', ''TDOR'', ''TIPL'']) t t'"
  proof -
    have "same_except (((([''TCON''] @ []) @ [''TYER'', ''TDAT'', ''TIME'', ''TDRC'']) @ [''TORY'', ''TDOR''])
        @ [''IPLS'', ''TIPL'']) t t5"
      using e by (blast intro: same_except_trans [OF _ _ order_refl])
    then show ?thesis unfolding t'
      by (rule same_except_trans [OF _ same_except_del_keys]) (simp add: v23_keys_def)
  qed
  ultimately show ?thesis by blast
qed


definition ipls_tag :: id3 where
  "ipls_tag = new_id3\<lparr>tg_version := V23, tg_frames := [(uni ''IPLS'',
     \<lparr>fr_def = plain ''IPLS'' PairedTextFrame,
      fr_attrs = [(''encoding'', FInt 3), (''people'', FList [FList [FText [97], FText [98]]])]\<rparr>)]\<rparr>"

lemma find_TIPL: "find_frame frames_v24 ''TIPL'' = Some (plain ''TIPL'' PairedTextFrame)"
  by (simp add: find_frame_def frames_v24_def text_frames_1_def text_frames_2_def url_frames_def
      people_frames_def plain_def own_def)

theorem update_to_v24_frames_witness:
  "\<exists>t'. update_to_v24 (\<lambda>_. None) ipls_tag = Inr t' \<and> \<not> has_key t' (uni ''IPLS'')"
proof -
  have v: "ver_le V23 (tg_version ipls_tag)" by (simp add: ipls_tag_def V23_def)
  have "\<exists>t'. update_to_v24 (\<lambda>_. None) ipls_tag = Inr t'"
    by (simp add: update_to_v24_def update_common_def ipls_tag_def new_id3_def tag_get_def inj_uni
        V23_def update_unknown_def update_date_def year_parts_def pop_text_def update_original_def
        update_people_def getattr_def add_new_def make_frame_def find_TIPL frame_init_def
        has_key_def tag_del_def plain_def kwarg_def validate_encoding_def validate_multi_def
        validate_values_def to_unicode_def is_opt_def loaded_frame_def upgrade_frame_def KeyID_hash)
  then show ?thesis using update_to_v24_frames [OF v] by auto
qed


text \<open>
  A successful \<open>update_to_v23\<close> of a tag of version 2.3 or later removes every frame new in
  ID3v2.4, never replaces an IPLS, TORY, TYER, TDAT or TIME frame that is already there, and leaves
  every other frame but TCON untouched. A TIME frame comes out of TDRC only when the hour and the
  minute are both different from zero: a recording time on the hour, or in the first hour of the
  day, is lost.
\<close>

theorem update_to_v23_frames:
  assumes v: "ver_le V23 (tg_version t)" and r: "update_to_v23 t = Inr t'"
  shows "(\<forall>n \<in> set v24_keys. \<not> has_key t' (uni n))
       \<and> (\<forall>n \<in> {''IPLS'', ''TORY'', ''TYER'', ''TDAT'', ''TIME''}.
            has_key t (uni n) \<longrightarrow> tag_get t' (uni n) = tag_get t (uni n))
       \<and> (has_key t' (uni ''TIME'') \<longleftrightarrow> has_key t (uni ''TIME'')
          \<or> (\<exists>d. stamp_of t ''TDRC'' = Some d \<and> nonzero (ts_hour d) \<and> nonzero (ts_minute d)))
       \<and> same_except (v24_keys @ [''TCON'', ''IPLS'', ''TORY'', ''TYER'', ''TDAT'', ''TIME'']) t t'"
proof -
  obtain t1 t2 t3 t4 where s: "update_common t = Inr t1" "merge_people t1 = Inr t2"
    "split_original t2 = Inr t3" "split_recording t3 = Inr t4" and t': "t' = del_keys t4 v24_keys"
    using r by (auto simp: update_to_v23_def bindR_Inr_iff)
  note c = keepsD [OF common_same [OF v] s(1)] keepsD [OF merge_people_same s(2)]
    keepsD [OF split_original_same s(3)] keepsD [OF split_recording_same s(4)]
  note e = c(1) c(2)[THEN conjunct1] c(3)[THEN conjunct1] c(4)[THEN conjunct1]
  have g: "tag_get t' (uni n) = (if n \<in> set v24_keys then None else tag_get t4 (uni n))" for n
    by (simp add: t' tag_get_del_keys image_iff inj_uni)
  have kept: "''TIME'' \<notin> set v24_keys" "n \<in> {''IPLS'', ''TORY'', ''TYER'', ''TDAT'', ''TIME''} \<Longrightarrow> n \<notin> set v24_keys" for n
    by (auto simp: v24_keys_def)
  have 3: "tag_get t3 (uni n) = tag_get t (uni n)" if "n \<in> {''TYER'', ''TDAT'', ''TIME'', ''TDRC''}" for n
  proof -
    have "tag_get t3 (uni n) = tag_get t2 (uni n)" by (rule same_except_get [OF e(3)]) (use that in auto)
    also have "\<dots> = tag_get t1 (uni n)" by (rule same_except_get [OF e(2)]) (use that in auto)
    also have "\<dots> = tag_get t (uni n)" by (rule same_except_get [OF e(1)]) (use that in auto)
    finally show ?thesis .
  qed
  have same: "tag_get t' (uni n) = tag_get t (uni n)"
    if n: "n \<in> {''IPLS'', ''TORY'', ''TYER'', ''TDAT'', ''TIME''}" and k: "has_key t (uni n)" for n
  proof (cases "n \<in> {''TYER'', ''TDAT'', ''TIME''}")
    case True
    then have "has_key t3 (uni n)" using 3 [of n] k by (auto simp: has_key_def)
    then have "tag_get t4 (uni n) = tag_get t3 (uni n)" using c(4) True by blast
    then show ?thesis using kept(2) [OF n] 3 [of n] True g by auto
  next
    case False
    have 1: "tag_get t1 (uni n) = tag_get t (uni n)" by (rule same_except_get [OF e(1)]) (use n in auto)
    have 2: "tag_get t2 (uni n) = tag_get t1 (uni n)"
    proof (cases "n = ''IPLS''")
      case True
      then show ?thesis using c(2) k 1 by (metis has_key_def)
    qed (rule same_except_get [OF e(2)], use n False in auto)
    have 3: "tag_get t3 (uni n) = tag_get t2 (uni n)"
    proof (cases "n = ''TORY''")
      case True
      then show ?thesis using c(3) k 1 2 by (metis has_key_def)
    qed (rule same_except_get [OF e(3)], use n False in auto)
    have "tag_get t4 (uni n) = tag_get t3 (uni n)"
      by (rule same_except_get [OF e(4)]) (use n False in auto)
    then show ?thesis using kept(2) [OF n] 1 2 3 g by simp
  qed
  have "stamp_of t3 ''TDRC'' = stamp_of t ''TDRC''" "has_key t3 (uni ''TIME'') = has_key t (uni ''TIME'')"
    using 3 [of "''TDRC''"] 3 [of "''TIME''"] by (simp_all add: stamp_of_def has_key_def)
  then have time: "has_key t' (uni ''TIME'') \<longleftrightarrow> has_key t (uni ''TIME'')
          \<or> (\<exists>d. stamp_of t ''TDRC'' = Some d \<and> nonzero (ts_hour d) \<and> nonzero (ts_minute d))"
    using c(4) kept(1) by (simp add: has_key_def g)
  have "same_except ((([''TCON''] @ [''TIPL'', ''TMCL'', ''IPLS'']) @ [''TDOR'', ''TORY''])
        @ [''TDRC'', ''TYER'', ''TDAT'', ''TIME'']) t t4"
    using e by (blast intro: same_except_trans [OF _ _ order_refl])
  then have "same_except (v24_keys @ [''TCON'', ''IPLS'', ''TORY'', ''TYER'', ''TDAT'', ''TIME'']) t t'"
    unfolding t' by (rule same_except_trans [OF _ same_except_del_keys]) (simp add: v24_keys_def)
  moreover have "\<forall>n \<in> set v24_keys. \<not> has_key t' (uni n)" by (simp add: has_key_def g)
  ultimately show ?thesis using time same by blast
qed

text \<open>A recording made at eight o'clock.\<close>

definition eight_tag :: id3 where
  "eight_tag = new_id3\<lparr>tg_frames := [(uni ''TDRC'', \<lparr>fr_def = plain ''TDRC'' TimeStampTextFrame,
     fr_attrs = [(''encoding'', FInt 0), (''text'', FList [FStamp \<lparr>ts_year = None, ts_month = None,
       ts_day = None, ts_hour = Some 8, ts_minute = Some 0, ts_second = None\<rparr>])]\<rparr>)]\<rparr>"

theorem update_to_v23_frames_witness:
  "\<exists>t'. update_to_v23 eight_tag = Inr t' \<and> \<not> has_key t' (uni ''TIME'')
      \<and> \<not> has_key t' (uni ''TDRC'')"
proof -
  have v: "ver_le V23 (tg_version eight_tag)" by (simp add: eight_tag_def new_id3_def V23_def V24_def)
  have "\<exists>t'. update_to_v23 eight_tag = Inr t'"
    by (simp add: update_to_v23_def update_common_def eight_tag_def new_id3_def tag_get_def inj_uni
        V23_def V24_def merge_people_def has_key_def split_original_def pop_stamp_def
        split_recording_def getattr_def add_part_def nonzero_def)
  moreover have "stamp_of eight_tag ''TDRC'' = Some \<lparr>ts_year = None, ts_month = None,
       ts_day = None, ts_hour = Some 8, ts_minute = Some 0, ts_second = None\<rparr>"
    "\<not> has_key eight_tag (uni ''TIME'')"
    by (simp_all add: stamp_of_def eight_tag_def new_id3_def tag_get_def getattr_def has_key_def inj_uni)
  moreover have "''TDRC'' \<in> set v24_keys" by (simp add: v24_keys_def)
  ultimately show ?thesis using update_to_v23_frames [OF v] by (auto simp: nonzero_def)
qed

end
