(* ===== verification/Mut_Save.thy ===== *)
theory Mut_Save
  imports Mut_Load
begin

text \<open>
  Writing a tag (\<open>mutagen/id3.py\<close>): \<open>MakeID3v1\<close>, \<open>delete\<close> and \<open>ID3.save\<close>, on the bytes of the file.

  A method that fails may have changed the file already, so the file is returned beside the
  result. The file exists or is empty (\<open>save\<close> creates a missing one); \<open>NonTermination\<close> stands
  for the loop of \<open>BitPaddedInt\<close> on a negative number, which is shown not to end.
\<close>

section \<open>BitPaddedInt of any integer\<close>

partial_function (option) bpi_int_run :: "nat \<Rightarrow> int \<Rightarrow> nat \<Rightarrow> int \<Rightarrow> int option" where
  "bpi_int_run bits value shift numeric_value =
     (if value = 0 then Some numeric_value
      else bpi_int_run bits (value div 256) (shift + bits)
             (numeric_value + (value mod 2 ^ bits) * 2 ^ shift))"

text \<open>Shifting a negative number right never reaches zero.\<close>

lemma bpi_int_run_nonneg:
  assumes ret: "bpi_int_run bits value shift n = Some r"
  shows "0 \<le> value"
proof (rule bpi_int_run.raw_induct [where P = "\<lambda>bits value shift n r. 0 \<le> value", OF _ ret])
  fix f :: "nat \<Rightarrow> int \<Rightarrow> nat \<Rightarrow> int \<Rightarrow> int option" and bits v shift n r
  assume IH: "\<And>bits value shift n r. f bits value shift n = Some r \<Longrightarrow> 0 \<le> value"
    and eq: "(if v = 0 then Some n else f bits (v div 256) (shift + bits)
                (n + (v mod 2 ^ bits) * 2 ^ shift)) = Some r"
  show "0 \<le> v"
  proof (cases "v = 0")
    case False
    then have "0 \<le> v div 256" using IH eq by simp
    then show ?thesis by (simp add: pos_imp_zdiv_nonneg_iff)
  qed simp
qed

lemma bpi_int_run_nat:
  "bpi_int_run bits (int v) shift (int n) = Some (int (bpi_int_loop bits v shift n))"
proof (induction bits v shift n rule: bpi_int_loop.induct)
  case (1 bits v shift n)
  show ?case
  proof (cases "v = 0")
    case True
    then show ?thesis by (simp add: bpi_int_run.simps bpi_int_loop.simps)
  next
    case False
    have a: "int (v div 2 ^ 8) = int v div 256" by (simp add: zdiv_int)
    have b: "int (n + push_bit shift (v AND mask bits)) = int n + (int v mod 2 ^ bits) * 2 ^ shift"
      by (simp add: and_mask_mod push_bit_eq_mult zmod_int)
    have z: "int v \<noteq> 0" using False by simp
    show ?thesis using "1.IH" [OF False, unfolded a b]
      by (subst bpi_int_run.simps, subst bpi_int_loop.simps) (simp only: False z if_False)
  qed
qed

definition bit_padded_of :: "nat \<Rightarrow> int \<Rightarrow> merr + int" where
  "bit_padded_of bits value =
     (if value < 0 then Inl NonTermination else Inr (int (bit_padded_of_int bits (nat value))))"

lemma bit_padded_of_run:
  "bpi_int_run bits value 0 0 = (case bit_padded_of bits value of Inl _ \<Rightarrow> None | Inr r \<Rightarrow> Some r)"
proof (cases "value < 0")
  case True
  then have "bpi_int_run bits value 0 0 = None"
    using bpi_int_run_nonneg [of bits "value" 0 0] by (cases "bpi_int_run bits value 0 0") auto
  then show ?thesis using True by (simp add: bit_padded_of_def)
next
  case False
  then show ?thesis using bpi_int_run_nat [of bits "nat value" 0 0]
    by (simp add: bit_padded_of_def bit_padded_of_int_def)
qed

section \<open>MakeID3v1\<close>

definition first_text :: "frame \<Rightarrow> merr + unicode" where
  "first_text f =
     bindR (getattr (fr_attrs f) ''text'') (\<lambda>v. case v of
       FList [] \<Rightarrow> Inl IndexError
     | FList (FText t # _) \<Rightarrow> Inr t
     | FList _ \<Rightarrow> Inl AttributeError
     | _ \<Rightarrow> Inl TypeError)"

definition v1_field :: "id3 \<Rightarrow> string \<Rightarrow> nat \<Rightarrow> nat \<Rightarrow> merr + string" where
  "v1_field t name maxlen width =
     bindR (case tag_get t (uni name) of
              None \<Rightarrow> Inr []
            | Some f \<Rightarrow> bindR (first_text f) (\<lambda>s. Inr (take maxlen (latin1_encode_replace s)))) (\<lambda>text.
       Inr (text @ replicate (width - length text) (CHR 0x00)))"

text \<open>\<open>int(self.text[0].split('/')[0])\<close>; a negative number fails in \<open>chr\<close> as an unreadable one in \<open>int\<close>.\<close>

definition v1_track :: "id3 \<Rightarrow> merr + char" where
  "v1_track t =
     (case tag_get t (uni ''TRCK'') of
        None \<Rightarrow> Inr (CHR 0x00)
      | Some f \<Rightarrow> bindR (first_text f) (\<lambda>s.
          Inr (case int_of_text is_uspace_code (hd (str_split 47 s)) of
                 Some n \<Rightarrow> if n < 256 then chr n else CHR 0x00
               | None \<Rightarrow> CHR 0x00)))"

fun index_of :: "'a list \<Rightarrow> 'a \<Rightarrow> nat option" where
  "index_of [] x = None"
| "index_of (y # ys) x = (if x = y then Some 0 else map_option Suc (index_of ys x))"

definition v1_genre :: "id3 \<Rightarrow> merr + char" where
  "v1_genre t =
     (case tag_get t (uni ''TCON'') of
        None \<Rightarrow> Inr (CHR 0xFF)
      | Some f \<Rightarrow> bindR (get_genres f) (\<lambda>gs.
          Inr (case gs of
                 [] \<Rightarrow> CHR 0xFF
               | g # _ \<Rightarrow> (case index_of (map uni GENRES) g of
                             Some i \<Rightarrow> chr i | None \<Rightarrow> CHR 0xFF))))"

definition v1_year :: "id3 \<Rightarrow> merr + string" where
  "v1_year t =
     bindR (case tag_get t (uni ''TDRC'') of
              Some f \<Rightarrow> frame_str f
            | None \<Rightarrow> (case tag_get t (uni ''TYER'') of Some f \<Rightarrow> frame_str f | None \<Rightarrow> Inr []))
       (\<lambda>year. Inr (take 4 (year @ replicate 4 (CHR 0x00))))"

definition make_id3v1 :: "id3 \<Rightarrow> merr + string" where
  "make_id3v1 t =
     bindR (v1_field t ''TIT2'' 30 30) (\<lambda>title. bindR (v1_field t ''TPE1'' 30 30) (\<lambda>artist.
     bindR (v1_field t ''TALB'' 30 30) (\<lambda>album. bindR (v1_field t ''COMM'' 28 29) (\<lambda>comment.
     bindR (v1_track t) (\<lambda>track. bindR (v1_genre t) (\<lambda>genre. bindR (v1_year t) (\<lambda>year.
       Inr (''TAG'' @ title @ artist @ album @ year @ comment @ [track] @ [genre]))))))))"

section \<open>delete\<close>

text \<open>\<open>unpack('>3sBBB4s', idata)\<close>: the mark and the size bytes of a tag header.\<close>

definition unpack_tag_header :: "string \<Rightarrow> (string \<times> string) option" where
  "unpack_tag_header idata =
     (if length idata = 10 then Some (take 3 idata, drop 6 idata) else None)"

definition delete_v1_tag :: "string \<Rightarrow> string" where
  "delete_v1_tag data =
     (if length data < 128 then data
      else if take 3 (drop (length data - 128) data) = ''TAG'' then take (length data - 128) data
      else data)"

definition delete_v2_tag :: "bool \<Rightarrow> string \<Rightarrow> string \<times> merr option" where
  "delete_v2_tag mmap_works data =
     (case unpack_tag_header (take 10 data) of
        None \<Rightarrow> (case bit_padded_of 7 (-1) of
                   Inl e \<Rightarrow> (data, Some e)
                 | Inr insize \<Rightarrow> (data, None))
      | Some (mark, sz) \<Rightarrow>
          (let insize = bit_padded_int 7 True sz
           in if mark = ''ID3'' then
                (case delete_bytes mmap_works (open_file data) (int insize + 10) 0 of
                   Inl e \<Rightarrow> (data, Some e)
                 | Inr f \<Rightarrow> (fbytes f, None))
              else (data, None)))"

definition delete_tags :: "bool \<Rightarrow> bool \<Rightarrow> bool \<Rightarrow> string \<Rightarrow> string \<times> merr option" where
  "delete_tags mmap_works delete_v1 delete_v2 data =
     (let data = (if delete_v1 then delete_v1_tag data else data)
      in if delete_v2 then delete_v2_tag mmap_works data else (data, None))"

text \<open>The method: \<open>clear\<close> only runs when the function returned.\<close>

definition tag_delete :: "bool \<Rightarrow> bool \<Rightarrow> bool \<Rightarrow> id3 \<Rightarrow> string \<Rightarrow> id3 \<times> string \<times> merr option" where
  "tag_delete mmap_works delete_v1 delete_v2 t data =
     (case delete_tags mmap_works delete_v1 delete_v2 data of
        (data, Some e) \<Rightarrow> (t, data, Some e)
      | (data, None) \<Rightarrow> (t\<lparr>tg_frames := []\<rparr>, data, None))"

section \<open>save\<close>

definition save_order :: "string list" where
  "save_order = [''TIT2'', ''TPE1'', ''TRCK'', ''TALB'', ''TPOS'', ''TDRC'', ''TCON'']"

definition frame_rank :: "unicode \<Rightarrow> nat" where
  "frame_rank key =
     (case index_of (map uni save_order) (take 4 key) of Some i \<Rightarrow> i | None \<Rightarrow> length save_order)"

definition sorted_frames :: "id3 \<Rightarrow> frame list" where
  "sorted_frames t = map snd (sort_key (frame_rank \<circ> fst) (tg_frames t))"

text \<open>The frame data, \<open>None\<close> when there is no frame at all.\<close>

definition save_frames :: "id3 \<Rightarrow> nat list \<Rightarrow> unicode option \<Rightarrow> merr + string option" where
  "save_frames t version v23_sep =
     bindR (mapR (\<lambda>f. save_frame t f None version v23_sep) (sorted_frames t)) (\<lambda>framedata.
       let framedata = framedata @
             (if tg_unknown_version t = Some version
              then filter (\<lambda>d. 10 < length d) (tg_unknown t) else [])
       in Inr (if framedata = [] then None else Some (concat framedata)))"

text \<open>The size of the old tag, \<open>-10\<close> when there is none.\<close>

definition old_tag_size :: "string \<Rightarrow> int" where
  "old_tag_size data =
     (case unpack_tag_header (take 10 data) of
        None \<Rightarrow> -10
      | Some (mark, sz) \<Rightarrow> if mark = ''ID3'' then int (bit_padded_int 7 True sz) else -10)"

text \<open>\<open>(framesize + 1023) & ~0x3FF\<close>, unless the old tag has room.\<close>

definition new_tag_size :: "int \<Rightarrow> nat \<Rightarrow> nat" where
  "new_tag_size insize framesize =
     (if int framesize \<le> insize then nat insize else (framesize + 1023) div 1024 * 1024)"

definition write_v2 :: "bool \<Rightarrow> nat \<Rightarrow> string \<Rightarrow> string \<Rightarrow> merr + string" where
  "write_v2 mmap_works v2_version framedata filedata =
     (let insize = old_tag_size filedata;
          outsize = new_tag_size insize (length framedata);
          padded = framedata @ replicate (outsize - length framedata) (CHR 0x00)
      in bindR (to_str_width 7 4 True outsize) (\<lambda>framesize.
           let data = ''ID3'' @ [chr v2_version, CHR 0x00, CHR 0x00] @ framesize @ padded
           in bindR (if insize < int outsize
                     then insert_bytes mmap_works (open_file filedata) (int outsize - insize) (insize + 10)
                     else Inr (open_file filedata)) (\<lambda>f.
                Inr (fbytes (f_write data (f\<lparr>fpos := 0\<rparr>))))))"

text \<open>
  The ID3v1 tag at the end: searched in the last 128 bytes, rewritten or lim off. Without one the
  position is the end of the file.
\<close>

definition v1_offset :: "string \<Rightarrow> nat option" where
  "v1_offset data =
     (if length data < 128 then None
      else map_option (\<lambda>idx. length data - 128 + idx) (str_find (drop (length data - 128) data) ''TAG'' 0))"

definition write_v1 :: "nat \<Rightarrow> id3 \<Rightarrow> string \<Rightarrow> string \<times> merr option" where
  "write_v1 v1 t data =
     (let pos = (case v1_offset data of Some i \<Rightarrow> i | None \<Rightarrow> length data)
      in if v1 = 1 \<and> v1_offset data \<noteq> None \<or> v1 = 2 then
           (case make_id3v1 t of
              Inl e \<Rightarrow> (data, Some e)
            | Inr s \<Rightarrow> (fbytes (f_write s \<lparr>fbytes = data, fpos = pos\<rparr>), None))
         else (take pos data, None))"

definition tag_save ::
  "bool \<Rightarrow> nat \<Rightarrow> nat \<Rightarrow> unicode option \<Rightarrow> id3 \<Rightarrow> string \<Rightarrow> id3 \<times> string \<times> merr option" where
  "tag_save mmap_works v1 v2_version v23_sep t filedata =
     (if v2_version \<noteq> 3 \<and> v2_version \<noteq> 4 then (t, filedata, Some ValueError)
      else case save_frames t (if v2_version = 3 then V23 else V24) v23_sep of
             Inl e \<Rightarrow> (t, filedata, Some e)
           | Inr None \<Rightarrow> tag_delete mmap_works True True t filedata
           | Inr (Some framedata) \<Rightarrow>
               (case write_v2 mmap_works v2_version framedata filedata of
                  Inl e \<Rightarrow> (t, filedata, Some e)
                | Inr data \<Rightarrow> (t, write_v1 v1 t data)))"

end
