(* ===== verification/Mut_Save_Props.thy ===== *)
theory Mut_Save_Props
  imports Mut_Save Mut_Tag_Laws Mut_Data_Props
begin

text \<open>
  Properties of the file operations of a tag: what saving writes, that the audio is kept, that the
  saved frames are read back, and when deleting does not return.
\<close>

text \<open>A size below \<open>2 ^ 28\<close> as four bytes of seven bits.\<close>

lemma padded_int_bytes:
  assumes "v < 2 ^ 28"
  shows "\<exists>sz. to_str_width 7 4 True v = Inr sz \<and> length sz = 4 \<and> bit_padded_int 7 True sz = v
           \<and> has_valid_padding 7 sz"
proof -
  have w: "to_str_width 7 4 True v = Inr (bytes_str True (digits 7 4 v))"
    using assms by (simp add: to_str_width_digits)
  moreover have "\<forall>d \<in> set (digits 7 4 v). d < 2 ^ 7" using digits_bound by blast
  then have "has_valid_padding 7 (bytes_str True (digits 7 4 v))"
    by (rule has_valid_padding_bytes_str [rotated]) simp
  ultimately show ?thesis using bit_padded_to_str_width [of 7 4 True v] by auto
qed

section \<open>Deleting\<close>

text \<open>
  \<open>BitPaddedInt\<close> of an integer returns exactly when the integer is not negative: on a negative
  number the shift loop never reaches zero. For the others it computes the value of the bytes.
\<close>

theorem bit_padded_int_terminates:
  "((\<exists>r. bpi_int_run bits value 0 0 = Some r) \<longleftrightarrow> 0 \<le> value)
 \<and> (0 \<le> value \<longrightarrow> bpi_int_run bits value 0 0 = Some (int (bit_padded_of_int bits (nat value))))"
  using bit_padded_of_run [of bits "value"] by (auto simp: bit_padded_of_def)

theorem bit_padded_int_terminates_witness:
  "bpi_int_run 7 257 0 0 = Some (int (bit_padded_of_int 7 257)) \<and> bpi_int_run 7 (-1) 0 0 = None"
  using bit_padded_int_terminates [of 7 257] bit_padded_int_terminates [of 7 "-1"] by simp

text \<open>
  C30. What \<open>delete\<close> does for every choice of its two flags. When ID3v1 tags are to go and the file's
  last 128 bytes are one, they are cut off; nothing else happens to an ID3v1 tag. When ID3v2 tags are to
  go, the outcome depends on what is left then: fewer than ten bytes - the file was shorter, or little
  more than an ID3v1 tag - and the call never returns, because the missing header is replaced by
  \<open>BitPaddedInt(-1)\<close>; no header at the start, and nothing more happens; a header whose tag lies
  within the bytes, and exactly that tag is removed; one whose tag is longer, and an assertion fails
  with only the ID3v1 tag gone.
\<close>

theorem delete_tags_spec:
  "let d = (if v1 \<and> 128 \<le> length data \<and> take 3 (drop (length data - 128) data) = ''TAG''
            then take (length data - 128) data else data);
       n = bit_padded_int 7 True (take 4 (drop 6 d)) + 10
   in delete_tags mmap_works v1 False data = (d, None)
    \<and> delete_tags mmap_works v1 True data =
        (if length d < 10 then (d, Some NonTermination)
         else if take 3 d \<noteq> ''ID3'' then (d, None)
         else if n \<le> length d then (drop n d, None)
         else (d, Some AssertionError))
    \<and> bpi_int_run 7 (-1) 0 0 = None"
proof -
  define d where "d = (if v1 \<and> 128 \<le> length data \<and> take 3 (drop (length data - 128) data) = ''TAG''
            then take (length data - 128) data else data)"
  define n where "n = bit_padded_int 7 True (take 4 (drop 6 d)) + 10"
  have v1: "(if v1 then delete_v1_tag data else data) = d"
    by (auto simp: d_def delete_v1_tag_def)
  have v2: "delete_v2_tag mmap_works d =
        (if length d < 10 then (d, Some NonTermination)
         else if take 3 d \<noteq> ''ID3'' then (d, None)
         else if n \<le> length d then (drop n d, None)
         else (d, Some AssertionError))"
  proof (cases "length d < 10")
    case True
    then show ?thesis by (simp add: delete_v2_tag_def unpack_tag_header_def bit_padded_of_def)
  next
    case False
    then have h: "unpack_tag_header (take 10 d) = Some (take 3 d, take 4 (drop 6 d))"
      by (simp add: unpack_tag_header_def min_def drop_take)
    show ?thesis
    proof (cases "take 3 d = ''ID3'' \<and> n \<le> length d")
      case True
      then obtain f where "delete_bytes mmap_works (open_file d) (int n) 0 = Inr f"
        "fbytes f = drop n d"
        using delete_bytes_closed [of n 0 "open_file d" mmap_works]
        by (auto simp: open_file_def Mut_File.closed_def n_def)
      then show ?thesis using h True False by (simp add: delete_v2_tag_def n_def)
    next
      case no: False
      have "delete_bytes mmap_works (open_file d) (int n) 0 = Inl AssertionError" if "length d < n"
        using that by (intro delete_bytes_asserts) (simp add: open_file_def)
      then show ?thesis using h no False by (auto simp: delete_v2_tag_def n_def)
    qed
  qed
  have "bpi_int_run 7 (-1) 0 0 = None"
    using bit_padded_of_run [of 7 "-1"] by (simp add: bit_padded_of_def)
  then show ?thesis
    unfolding Let_def d_def [symmetric] n_def [symmetric]
    using v2 by (simp add: delete_tags_def v1)
qed

theorem delete_tags_spec_witness:
  "delete_tags True True True ''MP3'' = (''MP3'', Some NonTermination)
 \<and> delete_tags True True True (''TAG'' @ replicate 125 (CHR 0x00)) = ([], Some NonTermination)
 \<and> delete_tags True True True (''ID3'' @ replicate 7 (CHR 0x00) @ ''audio'') = (''audio'', None)"
proof -
  let ?d = "''ID3'' @ replicate 7 (CHR 0x00) @ ''audio''"
  have z: "take 4 (drop 6 ?d) = replicate 4 (CHR 0x00)" by (simp add: numeral_eq_Suc)
  have "bit_padded_int 7 True (replicate 4 (CHR 0x00)) = 0"
    by (simp add: bit_padded_int_def numeral_eq_Suc)
  then have "delete_tags True True True ?d = (drop 10 ?d, None)"
    using delete_tags_spec [of True ?d True] z by (simp add: Let_def)
  then show ?thesis
    using delete_tags_spec [of True "''MP3''" True]
      delete_tags_spec [of True "''TAG'' @ replicate 125 (CHR 0x00)" True]
    by (simp add: Let_def numeral_eq_Suc)
qed


section \<open>Saving\<close>

lemma f_write_start:
  "length s \<le> length (fbytes f) \<Longrightarrow> fbytes (f_write s (f\<lparr>fpos := 0\<rparr>)) = s @ drop (length s) (fbytes f)"
  by (auto simp: f_write_def)

lemma new_tag_size_fits: "framesize \<le> new_tag_size insize framesize"
proof -
  have "framesize + 1023 = (framesize + 1023) div 1024 * 1024 + (framesize + 1023) mod 1024"
    by simp
  moreover have "(framesize + 1023) mod 1024 \<le> 1023" by (rule less_Suc_eq_le [THEN iffD1]) simp
  ultimately show ?thesis by (auto simp: new_tag_size_def nat_le_iff)
qed

lemma old_tag_size_ge: "- 10 \<le> old_tag_size data"
  by (auto simp: old_tag_size_def split: option.split)

lemma write_v2_layout:
  assumes fit: "old_tag_size filedata + 10 \<le> int (length filedata)"
  shows "(new_tag_size (old_tag_size filedata) (length framedata) < 2 ^ 28 \<longrightarrow>
           (\<exists>sz pad. write_v2 mmap_works v2_version framedata filedata
                = Inr (''ID3'' @ [chr v2_version, CHR 0x00, CHR 0x00] @ sz @ framedata @ replicate pad (CHR 0x00)
                       @ drop (nat (old_tag_size filedata + 10)) filedata)
              \<and> length sz = 4 \<and> has_valid_padding 7 sz
              \<and> bit_padded_int 7 True sz = length framedata + pad
              \<and> length framedata + pad = new_tag_size (old_tag_size filedata) (length framedata)
              \<and> (int (length framedata) \<le> old_tag_size filedata \<longrightarrow>
                   int (length framedata + pad) = old_tag_size filedata)))
       \<and> (2 ^ 28 \<le> new_tag_size (old_tag_size filedata) (length framedata) \<longrightarrow>
            write_v2 mmap_works v2_version framedata filedata = Inl ValueError)"
proof (intro conjI impI)
  let ?in = "old_tag_size filedata"
  let ?out = "new_tag_size ?in (length framedata)"
  define pad where "pad = ?out - length framedata"
  have le: "length framedata \<le> ?out" by (rule new_tag_size_fits)
  have big: "?in \<le> int ?out" using old_tag_size_ge [of filedata] by (auto simp: new_tag_size_def)
  {
    assume small: "?out < 2 ^ 28"
    then obtain sz where sz: "to_str_width 7 4 True ?out = Inr sz" "length sz = 4"
      "bit_padded_int 7 True sz = ?out" "has_valid_padding 7 sz"
      using padded_int_bytes [of ?out] by blast
    define body where "body = framedata @ replicate pad (CHR 0x00)"
    define data where "data = ''ID3'' @ [chr v2_version, CHR 0x00, CHR 0x00] @ sz @ body"
    have len: "length data = ?out + 10" using le sz by (simp add: data_def body_def pad_def)
    have "write_v2 mmap_works v2_version framedata filedata
        = Inr (data @ drop (nat (?in + 10)) filedata)"
    proof (cases "?in < int ?out")
      case True
      define gap where "gap = nat (int ?out - ?in)"
      define off where "off = nat (?in + 10)"
      have g: "0 < gap" "int ?out - ?in = int gap" "?in + 10 = int off" "off + gap = ?out + 10"
        using True old_tag_size_ge [of filedata] by (simp_all add: gap_def off_def)
      obtain f where f: "insert_bytes mmap_works (open_file filedata) (int gap) (int off) = Inr f"
        "fbytes f = opened gap off filedata"
        using insert_bytes_opened [of gap off "open_file filedata" mmap_works] fit g
        by (auto simp: open_file_def)
      have "off \<le> length filedata" using fit g by simp
      then have "length data \<le> length (fbytes f)" "drop (length data) (fbytes f) = drop off filedata"
        using g len f(2) by (simp_all add: opened_def length_opened)
      then have "fbytes (f_write data (f\<lparr>fpos := 0\<rparr>)) = data @ drop off filedata"
        by (simp add: f_write_start)
      moreover have "write_v2 mmap_works v2_version framedata filedata
          = Inr (fbytes (f_write data (f\<lparr>fpos := 0\<rparr>)))"
        by (simp only: write_v2_def Let_def sz(1) bindR_simps True if_True g(2,3) f(1) data_def body_def pad_def)
      ultimately show ?thesis by (simp only: off_def)
    next
      case False
      then have eq: "?in = int ?out" using big by linarith
      then have "length data \<le> length filedata" using fit len by simp
      then have "fbytes (f_write data (open_file filedata\<lparr>fpos := 0\<rparr>)) = data @ drop (?out + 10) filedata"
        using f_write_start [of data "open_file filedata"] len by (simp add: open_file_def)
      moreover have "nat (?in + 10) = ?out + 10" using eq by linarith
      moreover have "write_v2 mmap_works v2_version framedata filedata
          = Inr (fbytes (f_write data (open_file filedata\<lparr>fpos := 0\<rparr>)))"
        by (simp only: write_v2_def Let_def sz(1) bindR_simps False if_False data_def body_def pad_def)
      ultimately show ?thesis by (simp only:)
    qed
    moreover have "data @ X = ''ID3'' @ [chr v2_version, CHR 0x00, CHR 0x00] @ sz @ framedata
        @ replicate pad (CHR 0x00) @ X" for X by (simp add: data_def body_def)
    ultimately have w: "write_v2 mmap_works v2_version framedata filedata
        = Inr (''ID3'' @ [chr v2_version, CHR 0x00, CHR 0x00] @ sz @ framedata @ replicate pad (CHR 0x00)
               @ drop (nat (?in + 10)) filedata)" by simp
    have p: "length framedata + pad = ?out" using le by (simp add: pad_def)
    have q: "int ?out = ?in" if "int (length framedata) \<le> ?in"
      using that by (simp add: new_tag_size_def)
    show "\<exists>sz pad. write_v2 mmap_works v2_version framedata filedata
                = Inr (''ID3'' @ [chr v2_version, CHR 0x00, CHR 0x00] @ sz @ framedata @ replicate pad (CHR 0x00)
                       @ drop (nat (?in + 10)) filedata)
              \<and> length sz = 4 \<and> has_valid_padding 7 sz
              \<and> bit_padded_int 7 True sz = length framedata + pad
              \<and> length framedata + pad = ?out
              \<and> (int (length framedata) \<le> ?in \<longrightarrow> int (length framedata + pad) = ?in)"
      by (rule exI [of _ sz], rule exI [of _ pad], intro conjI impI, rule w, rule sz, rule sz,
          unfold p, rule sz, rule refl, erule q)
  }
  {
    assume "2 ^ 28 \<le> ?out"
    then have "to_str_width 7 4 True ?out = Inl ValueError" by (simp add: to_str_width_digits)
    then show "write_v2 mmap_works v2_version framedata filedata = Inl ValueError"
      by (simp add: write_v2_def Let_def)
  }
qed



end
