(* ===== verification/Mut_Roundtrip.thy ===== *)
theory Mut_Roundtrip
  imports Mut_Save_Props "HOL-Library.Multiset"
begin

text \<open>
  Saving a tag and loading it again: the frames written by \<open>save\<close> are the frames the loop of
  \<open>load\<close> yields, and they come back under the same keys.
\<close>

section \<open>One frame\<close>

text \<open>
  The attributes \<open>_writeData\<close> writes: the fields of the class, and its optional fields up to the first
  one the frame does not have.
\<close>

definition written_names :: "frame \<Rightarrow> string list" where
  "written_names f =
     map spec_name (fd_spec (fr_def f)
       @ takeWhile (\<lambda>s. map_of (fr_attrs f) (spec_name s) \<noteq> None) (fd_opt (fr_def f)))"

text \<open>The same class, the same value in every attribute written, and no other attribute.\<close>

definition same_frame :: "frame \<Rightarrow> frame \<Rightarrow> bool" where
  "same_frame f g \<longleftrightarrow> fr_def g = fr_def f
     \<and> (\<forall>n. map_of (fr_attrs g) n =
           (if n \<in> set (written_names f) then map_of (fr_attrs f) n else None))"

lemma same_frame_spec:
  "same_frame f g \<Longrightarrow> s \<in> set (fd_spec (fr_def f)) \<Longrightarrow>
     map_of (fr_attrs g) (spec_name s) = map_of (fr_attrs f) (spec_name s)"
  by (simp add: same_frame_def written_names_def)

lemma takeWhile_take: "list_all P (take k xs) \<Longrightarrow>
     (case drop k xs of [] \<Rightarrow> True | x # _ \<Rightarrow> \<not> P x) \<Longrightarrow> takeWhile P xs = take k xs"
proof (induction k arbitrary: xs)
  case 0
  then show ?case by (cases xs) auto
next
  case (Suc k)
  then show ?case by (cases xs) auto
qed

lemma written_fits:
  assumes "frame_fits (fr_def f) (fr_attrs f) k"
  shows "written_names f = map spec_name (fd_spec (fr_def f) @ take k (fd_opt (fr_def f)))"
proof -
  let ?P = "\<lambda>s. map_of (fr_attrs f) (spec_name s) \<noteq> None"
  have "list_all ?P (take k (fd_opt (fr_def f)))"
    using assms by (auto simp: frame_fits_def field_fits_def list_all_iff split: option.splits)
  moreover have "case drop k (fd_opt (fr_def f)) of [] \<Rightarrow> True | x # _ \<Rightarrow> \<not> ?P x"
    using assms by (auto simp: frame_fits_def split: list.splits)
  ultimately have "takeWhile ?P (fd_opt (fr_def f)) = take k (fd_opt (fr_def f))"
    by (rule takeWhile_take)
  then show ?thesis unfolding written_names_def by (simp only:)
qed

text \<open>A frame of the table whose values can be written and read.\<close>

definition savable :: "frame \<Rightarrow> bool" where
  "savable f \<longleftrightarrow> find_frame frames_v24 (fd_name (fr_def f)) = Some (fr_def f)
     \<and> (\<exists>k. frame_fits (fr_def f) (fr_attrs f) k)"

definition good_name :: "string \<Rightarrow> bool" where
  "good_name n \<longleftrightarrow> length n = 4 \<and> \<not> only_nuls n"

lemma frames_good_names: "list_all (\<lambda>d. good_name (fd_name d)) frames_v24"
  by code_simp

lemma table_name: "find_frame frames_v24 n = Some d \<Longrightarrow> good_name n"
  using frames_good_names by (auto simp: list_all_iff dest!: find_frame_Some)

text \<open>The size read by the loop is the size written.\<close>

definition reads_size :: "(nat \<Rightarrow> nat) \<Rightarrow> nat \<Rightarrow> bool" where
  "reads_size bpi n \<longleftrightarrow>
     (\<forall>ds. to_str_width 7 4 True n = Inr ds \<longrightarrow> bpi (struct_value True ds) = n)"

lemma reads_size_padded: "reads_size (bit_padded_of_int 7) n"
proof -
  have "bit_padded_of_int 7 (struct_value True ds) = n" if "to_str_width 7 4 True n = Inr ds" for ds
  proof -
    have "bit_padded_int 7 True ds = n" using bit_padded_to_str_width [OF _ that] by simp
    moreover have "bit_padded_of_int 7 (struct_value True ds) = bit_padded_int 7 True ds"
      using bpi_int_loop_bytes [of 7 "rev ds" 0 0]
      by (simp add: bit_padded_of_int_def bit_padded_int_def struct_value_def)
    ultimately show ?thesis by simp
  qed
  then show ?thesis by (simp add: reads_size_def)
qed

lemma reads_size_small: "n < 128 \<Longrightarrow> reads_size id n"
proof -
  assume n: "n < 128"
  have "struct_value True ds = n" if "to_str_width 7 4 True n = Inr ds" for ds
  proof -
    have "ds = bytes_str True (digits 7 4 n)"
      using that by (simp add: to_str_width_digits split: if_splits)
    moreover have "digits 7 (Suc (Suc (Suc (Suc 0)))) n = [n, 0, 0, 0]" using n by simp
    moreover have "Suc (Suc (Suc (Suc 0))) = 4" by simp
    ultimately have "ds = bytes_str True [n, 0, 0, 0]" by metis
    then show ?thesis using n by (simp add: struct_value_def bytes_str_def)
  qed
  then show ?thesis by (simp add: reads_size_def)
qed

lemma save_frame_v24:
  assumes "save_frame t f None V24 sep = Inr s" "s \<noteq> []" "good_name (fd_name (fr_def f))"
  obtains data ds where "write_data f = Inr data" "to_str_width 7 4 True (length data) = Inr ds"
    "s = fd_name (fr_def f) @ ds @ [CHR 0x00, CHR 0x00] @ data"
proof -
  have v: "V24 \<noteq> V23" by (simp add: V24_def V23_def)
  define tl where "tl = bindR (write_data f) (\<lambda>framedata. bindR (to_str_width 7 4 True (length framedata))
      (\<lambda>datasize. Inr (frame_header (fd_name (fr_def f)) datasize @ framedata)))"
  define C where "C = (if tg_pedantic t \<and> is_text_frame (fr_def f)
             then bindR (frame_str f) (\<lambda>s. Inr (s = [])) else Inr False)"
  have "save_frame t f None V24 sep = bindR C (\<lambda>empty. if empty then Inr [] else tl)"
    using v by (simp add: save_frame_def C_def tl_def cong: if_cong)
  then have "tl = Inr s" using assms(1,2) by (cases C) (auto split: if_splits)
  then obtain data ds where r: "write_data f = Inr data" "to_str_width 7 4 True (length data) = Inr ds"
    "s = frame_header (fd_name (fr_def f)) ds @ data"
    by (auto simp: tl_def bindR_Inr_iff)
  then have "s = fd_name (fr_def f) @ ds @ [CHR 0x00, CHR 0x00] @ data"
    using assms(3) by (simp add: frame_header_def good_name_def)
  then show thesis using that r by blast
qed

lemma frames_loop_step:
  assumes "data \<noteq> []" "unpack_frame_header (take 10 data) = Some (name, sz, flags)"
    "\<not> only_nuls name" "bpi sz = n" "n \<noteq> 0"
  shows "frames_loop ctx frames bpi data =
     yield_frame ctx frames name flags (take 10 data) (take n (drop 10 data))
       (frames_loop ctx frames bpi (drop (10 + n) data))"
  using assms by (subst frames_loop.simps) (simp add: Let_def)

lemma frame_header_read:
  assumes "length name = 4" "length ds = 4"
  shows "unpack_frame_header (take 10 (name @ ds @ [CHR 0x00, CHR 0x00] @ rest))
     = Some (name, struct_value True ds, 0)"
proof -
  have "take 10 (name @ ds @ [CHR 0x00, CHR 0x00] @ rest) = name @ ds @ [CHR 0x00, CHR 0x00]"
    using assms by simp
  then show ?thesis using assms by (simp add: unpack_frame_header_def struct_value_def)
qed

lemma frames_loop_saved:
  assumes f: "savable f" and s: "save_frame t f None V24 sep = Inr s" "s \<noteq> []"
    and size: "\<And>data. write_data f = Inr data \<Longrightarrow> reads_size bpi (length data)"
    and ctx: "ver_le V24 (ctx_version ctx)" "\<not> ctx_unsynch ctx"
  shows "\<exists>g. same_frame f g \<and> frame_typed g
     \<and> (\<forall>rest. frames_loop ctx frames_v24 bpi (s @ rest)
          = produce (Loaded g) (frames_loop ctx frames_v24 bpi rest))"
proof -
  let ?d = "fr_def f" and ?n = "fd_name (fr_def f)"
  obtain k where k: "frame_fits ?d (fr_attrs f) k" and d: "find_frame frames_v24 ?n = Some ?d"
    using f by (auto simp: savable_def)
  have n: "length ?n = 4" "\<not> only_nuls ?n" using table_name [OF d] by (simp_all add: good_name_def)
  obtain data ds where w: "write_data f = Inr data" "to_str_width 7 4 True (length data) = Inr ds"
    "s = ?n @ ds @ [CHR 0x00, CHR 0x00] @ data"
    using save_frame_v24 [OF s table_name [OF d]] by blast
  have f_eq: "\<lparr>fr_def = ?d, fr_attrs = fr_attrs f\<rparr> = f" by simp
  obtain g where g: "data \<noteq> []" "from_data ?d ctx 0 data = Inr g" "fr_def g = ?d"
    "\<forall>s \<in> set (fd_spec ?d @ take k (fd_opt ?d)).
       map_of (fr_attrs g) (spec_name s) = map_of (fr_attrs f) (spec_name s)"
    "\<forall>n. n \<notin> set (map spec_name (fd_spec ?d @ take k (fd_opt ?d))) \<longrightarrow> map_of (fr_attrs g) n = None"
    using frame_data_exact [OF d k ctx] w(1) by (auto simp: f_eq)
  have lds: "length ds = 4" using bit_padded_to_str_width [OF _ w(2)] by simp
  have sz: "bpi (struct_value True ds) = length data"
    using size [OF w(1)] w(2) by (simp add: reads_size_def)
  have lay: "layout_ok ?d"
    using frames_v24_layout find_frame_Some [OF d] by (auto simp: list_all_iff)
  have "frames_loop ctx frames_v24 bpi (s @ rest)
      = produce (Loaded g) (frames_loop ctx frames_v24 bpi rest)" for rest
  proof -
    have e: "s @ rest = ?n @ ds @ [CHR 0x00, CHR 0x00] @ data @ rest" by (simp add: w(3))
    have h: "unpack_frame_header (take 10 (s @ rest)) = Some (?n, struct_value True ds, 0)"
      unfolding e using frame_header_read [OF n(1) lds] by simp
    have dr: "drop 10 (s @ rest) = data @ rest" "s @ rest \<noteq> []"
      using n lds by (simp_all add: e)
    have dr': "drop (10 + length data) (s @ rest) = rest"
      using dr(1) by (metis append_eq_conv_conj drop_drop add.commute)
    have "frames_loop ctx frames_v24 bpi (s @ rest) =
        yield_frame ctx frames_v24 ?n 0 (take 10 (s @ rest)) data
          (frames_loop ctx frames_v24 bpi rest)"
      using frames_loop_step [where ctx = ctx and frames = frames_v24 and bpi = bpi, OF dr(2) h n(2) sz] g(1)
      unfolding dr(1) dr' by simp
    then show ?thesis using d g(2) by (simp add: yield_frame_def)
  qed
  moreover have "same_frame f g"
    unfolding same_frame_def written_fits [OF k] using g(3-5) by fastforce
  moreover have "frame_typed g" using from_data_typed [OF lay g(2)] by simp
  ultimately show ?thesis by blast
qed

lemma frames_loop_padding: "frames_loop ctx frames bpi (replicate n (CHR 0x00)) = ([], None)"
proof (cases "n < 10")
  case True
  then show ?thesis by (subst frames_loop.simps) (simp add: unpack_frame_header_def)
next
  case False
  then have "take 10 (replicate n (CHR 0x00)) = replicate 10 (CHR 0x00)" by simp
  then show ?thesis
    by (subst frames_loop.simps)
      (simp add: unpack_frame_header_def only_nuls_def nul_strip_def str_strip_def numeral_eq_Suc)
qed


section \<open>All frames\<close>

definition nonempty_save :: "id3 \<Rightarrow> unicode option \<Rightarrow> frame \<Rightarrow> bool" where
  "nonempty_save t sep f \<longleftrightarrow> save_frame t f None V24 sep \<noteq> Inr []"

lemma frames_loop_all:
  assumes ctx: "ver_le V24 (ctx_version ctx)" "\<not> ctx_unsynch ctx"
  shows "mapR (\<lambda>f. save_frame t f None V24 sep) fs = Inr outs \<Longrightarrow> list_all savable fs \<Longrightarrow>
     (\<And>f data. f \<in> set fs \<Longrightarrow> write_data f = Inr data \<Longrightarrow> reads_size bpi (length data)) \<Longrightarrow>
     \<exists>gs. frames_loop ctx frames_v24 bpi (concat outs @ replicate pad (CHR 0x00)) = (map Loaded gs, None)
        \<and> list_all2 same_frame (filter (nonempty_save t sep) fs) gs \<and> list_all frame_typed gs"
proof (induction fs arbitrary: outs)
  case Nil
  then show ?case by (simp add: frames_loop_padding)
next
  case (Cons f fs)
  obtain s ss where s: "save_frame t f None V24 sep = Inr s" "outs = s # ss"
    "mapR (\<lambda>f. save_frame t f None V24 sep) fs = Inr ss"
    using Cons.prems(1) by (auto simp: bindR_Inr_iff)
  obtain gs where gs: "frames_loop ctx frames_v24 bpi (concat ss @ replicate pad (CHR 0x00)) = (map Loaded gs, None)"
    "list_all2 same_frame (filter (nonempty_save t sep) fs) gs" "list_all frame_typed gs"
    using Cons.IH [OF s(3)] Cons.prems(2,3) by auto
  show ?case
  proof (cases "s = []")
    case True
    then have "\<not> nonempty_save t sep f" using s(1) by (simp add: nonempty_save_def)
    then show ?thesis using gs True s(2) by auto
  next
    case False
    then have "nonempty_save t sep f" using s(1) by (simp add: nonempty_save_def)
    moreover obtain g where g: "same_frame f g" "frame_typed g"
      "\<And>rest. frames_loop ctx frames_v24 bpi (s @ rest)
          = produce (Loaded g) (frames_loop ctx frames_v24 bpi rest)"
      using frames_loop_saved [OF _ s(1) False _ ctx, where bpi = bpi] Cons.prems(2,3) by auto
    ultimately show ?thesis using gs s(2)
      by (intro exI [of _ "g # gs"]) (simp add: produce_def)
  qed
qed

text \<open>Frames with different keys are added one behind the other.\<close>

lemma add_items_fresh:
  "list_all2 (\<lambda>k g. hash_key_of g = Inr k \<and> length (fd_name (fr_def g)) = 4) ks gs \<Longrightarrow>
   distinct (map fst (tg_frames t) @ ks) \<Longrightarrow>
     add_items t (map Loaded gs) = (t\<lparr>tg_frames := tg_frames t @ zip ks gs\<rparr>, None)"
proof (induction ks gs arbitrary: t rule: list_all2_induct)
  case (Cons k ks g gs)
  have "upgrade_frame g = Inr g" using Cons.hyps(1) by (simp add: upgrade_frame_def)
  moreover have "dp_setitem (tg_frames t) k g = tg_frames t @ [(k, g)]"
    using Cons.prems by (intro dp_setitem_fresh) auto
  ultimately have "loaded_frame t g = Inr (t\<lparr>tg_frames := tg_frames t @ [(k, g)]\<rparr>)"
    using Cons.hyps(1) by (simp add: loaded_frame_def tag_set_def)
  then show ?case using Cons.IH [of "t\<lparr>tg_frames := tg_frames t @ [(k, g)]\<rparr>"] Cons.prems by auto
qed simp


section \<open>Saving succeeds\<close>

fun text_value :: "spec \<Rightarrow> bool" where
  "text_value (EncodedTextSpec _) = True"
| "text_value (EncodedNumericTextSpec _) = True"
| "text_value (EncodedNumericPartTextSpec _) = True"
| "text_value (TimeStampSpec _) = True"
| "text_value _ = False"

fun text_list :: "spec \<Rightarrow> bool" where
  "text_list (MultiSpec n [e] sep) = (n = ''text'' \<and> text_value e)"
| "text_list _ = False"

lemma text_frames_text: "list_all (\<lambda>d. is_text_frame d \<longrightarrow> list_ex text_list (fd_spec d)) frames_v24"
  by code_simp

lemma text_list_cases:
  assumes "text_list s" obtains e sep where "s = MultiSpec ''text'' [e] sep" "text_value e"
  using assms by (cases s rule: text_list.cases) auto

lemma texts_of_fits: "text_value e \<Longrightarrow> list_all (fits a e) vs \<Longrightarrow> \<exists>us. texts_of vs = Inr us"
proof (induction vs)
  case (Cons v vs)
  then have "(\<exists>u. v = FText u) \<or> (\<exists>ts. v = FStamp ts)"
    by (cases e; cases v) (auto simp: fits_text_def split: sum.splits)
  then show ?case using Cons by auto
qed simp

lemma frame_str_savable:
  assumes "savable f" "is_text_frame (fr_def f)" shows "\<exists>s. frame_str f = Inr s"
proof -
  obtain k where k: "frame_fits (fr_def f) (fr_attrs f) k"
    and d: "find_frame frames_v24 (fd_name (fr_def f)) = Some (fr_def f)"
    using assms(1) by (auto simp: savable_def)
  obtain s where s: "s \<in> set (fd_spec (fr_def f))" "text_list s"
    using text_frames_text find_frame_Some [OF d] assms(2) by (auto simp: list_all_iff list_ex_iff)
  obtain e sep where e: "s = MultiSpec ''text'' [e] sep" "text_value e"
    using text_list_cases [OF s(2)] by blast
  have "field_fits (fr_attrs f) s" using k s(1) by (auto simp: frame_fits_def list_all_iff)
  then obtain vs where vs: "map_of (fr_attrs f) ''text'' = Some (FList vs)" "list_all (fits (fr_attrs f) e) vs"
    by (auto simp: field_fits_def e split: option.splits fval.splits)
  obtain us where "texts_of vs = Inr us" using texts_of_fits [OF e(2) vs(2)] by blast
  then show ?thesis using vs(1) by (simp add: frame_str_def frame_unicode_def getattr_def)
qed

definition data_size :: "frame \<Rightarrow> nat" where
  "data_size f = (case write_data f of Inr data \<Rightarrow> length data | Inl e \<Rightarrow> 0)"

text \<open>The most room the frames of a tag can take.\<close>

definition frames_size :: "id3 \<Rightarrow> nat" where
  "frames_size t = sum_list (map (\<lambda>f. 10 + data_size f) (map snd (tg_frames t)))"

lemma save_frame_succeeds:
  assumes f: "savable f" and size: "data_size f < 2 ^ 28"
  shows "\<exists>s. save_frame t f None V24 sep = Inr s \<and> length s \<le> 10 + data_size f"
proof -
  have v: "V24 \<noteq> V23" by (simp add: V24_def V23_def)
  obtain k where k: "frame_fits (fr_def f) (fr_attrs f) k"
    and d: "find_frame frames_v24 (fd_name (fr_def f)) = Some (fr_def f)"
    using f by (auto simp: savable_def)
  have f_eq: "\<lparr>fr_def = fr_def f, fr_attrs = fr_attrs f\<rparr> = f" by simp
  obtain data where w: "write_data f = Inr data"
    using frame_roundtrip [OF d k] by (auto simp: f_eq)
  then have "length data < 2 ^ 28" using size by (simp add: data_size_def)
  then obtain sz where sz: "to_str_width 7 4 True (length data) = Inr sz" "length sz = 4"
    using padded_int_bytes by blast
  define C where "C = (if tg_pedantic t \<and> is_text_frame (fr_def f)
             then bindR (frame_str f) (\<lambda>s. Inr (s = [])) else Inr False)"
  obtain b where b: "C = Inr b"
    using frame_str_savable [OF f] by (cases "tg_pedantic t \<and> is_text_frame (fr_def f)") (auto simp: C_def)
  have "save_frame t f None V24 sep = bindR C (\<lambda>empty. if empty then Inr []
      else Inr (frame_header (fd_name (fr_def f)) sz @ data))"
    using v by (simp add: save_frame_def C_def w sz(1) cong: if_cong)
  then show ?thesis using sz(2) w by (auto simp: b frame_header_def data_size_def)
qed

lemma mapR_saved:
  "list_all savable fs \<Longrightarrow> sum_list (map (\<lambda>f. 10 + data_size f) fs) < 2 ^ 28 \<Longrightarrow>
     \<exists>outs. mapR (\<lambda>f. save_frame t f None V24 sep) fs = Inr outs
       \<and> length (concat outs) \<le> sum_list (map (\<lambda>f. 10 + data_size f) fs)"
proof (induction fs)
  case (Cons f fs)
  then obtain outs where outs: "mapR (\<lambda>f. save_frame t f None V24 sep) fs = Inr outs"
    "length (concat outs) \<le> sum_list (map (\<lambda>f. 10 + data_size f) fs)" by auto
  have "data_size f < 2 ^ 28" using Cons.prems(2) by simp
  then obtain s where "save_frame t f None V24 sep = Inr s" "length s \<le> 10 + data_size f"
    using save_frame_succeeds [of f t sep] Cons.prems(1) by auto
  then show ?case using outs by auto
qed simp

lemma save_frames_succeeds:
  assumes sav: "\<forall>(k, f) \<in> set (tg_frames t). savable f" and ne: "tg_frames t \<noteq> []"
    and unk: "tg_unknown t = [] \<or> tg_unknown_version t \<noteq> Some V24" and size: "frames_size t < 2 ^ 28"
  shows "\<exists>framedata. save_frames t V24 sep = Inr (Some framedata) \<and> length framedata \<le> frames_size t"
proof -
  define fs where "fs = sorted_frames t"
  have m: "mset fs = mset (map snd (tg_frames t))" by (simp add: fs_def sorted_frames_def)
  then have "set fs = snd ` set (tg_frames t)" by (metis list.set_map set_mset_mset)
  then have s: "list_all savable fs" using sav by (auto simp: list_all_iff)
  have "sum_list (map (\<lambda>f. 10 + data_size f) fs) = sum_mset (image_mset (\<lambda>f. 10 + data_size f) (mset fs))"
    by (simp only: sum_mset_sum_list flip: mset_map)
  also have "\<dots> = frames_size t"
    unfolding m frames_size_def by (simp only: sum_mset_sum_list flip: mset_map)
  finally have sum: "sum_list (map (\<lambda>f. 10 + data_size f) fs) = frames_size t" .
  obtain outs where outs: "mapR (\<lambda>f. save_frame t f None V24 sep) fs = Inr outs"
    "length (concat outs) \<le> frames_size t"
    using mapR_saved [OF s, of t sep] size sum by auto
  have "fs \<noteq> []" using m ne by auto
  then have "outs \<noteq> []" using mapR_Inr_length [OF outs(1)] by auto
  then show ?thesis using outs unk by (auto simp: save_frames_def fs_def)
qed

section \<open>The header\<close>

lemma fullread_open:
  "n \<le> length data \<Longrightarrow> p + n \<le> length data \<Longrightarrow>
     fullread (int n) (length data) \<lparr>fbytes = data, fpos = p\<rparr>
       = Inr (take n (drop p data), \<lparr>fbytes = data, fpos = p + n\<rparr>)"
  by (simp add: fullread_def f_read_def)

lemma load_header_saved:
  assumes out: "out = ''ID3'' @ [chr 4, CHR 0x00, CHR 0x00] @ sz @ body @ rest"
    and sz: "length sz = 4" "has_valid_padding 7 sz" "bit_padded_int 7 True sz = length body"
  shows "load_header new_id3 (length out) (open_file out)
     = (new_id3\<lparr>tg_size := length body + 10\<rparr>, Inr \<lparr>fbytes = out, fpos = 10\<rparr>)"
    and "fullread (int (length body)) (length out) \<lparr>fbytes = out, fpos = 10\<rparr>
     = Inr (body, \<lparr>fbytes = out, fpos = 10 + length body\<rparr>)"
proof -
  have len: "length out = 10 + length body + length rest" using sz by (simp add: out)
  have hd: "take 10 out = ''ID3'' @ [chr 4, CHR 0x00, CHR 0x00] @ sz" using sz by (simp add: out)
  have "fullread (int 10) (length out) \<lparr>fbytes = out, fpos = 0\<rparr>
      = Inr (take 10 (drop 0 out), \<lparr>fbytes = out, fpos = 0 + 10\<rparr>)"
    by (rule fullread_open) (simp_all add: len)
  then have r: "fullread 10 (length out) (open_file out)
      = Inr (''ID3'' @ [chr 4, CHR 0x00, CHR 0x00] @ sz, \<lparr>fbytes = out, fpos = 10\<rparr>)"
    by (simp add: open_file_def hd)
  have t: "new_id3\<lparr>tg_flags := 0, tg_size := n, tg_version := [2, 4, 0]\<rparr> = new_id3\<lparr>tg_size := n\<rparr>" for n
    by (simp add: new_id3_def V24_def)
  have c: "header_checks (new_id3\<lparr>tg_size := n\<rparr>) sz = None" for n
    using sz by (simp add: header_checks_def new_id3_def)
  have x: "\<not> f_extended (new_id3\<lparr>tg_size := n\<rparr>)" for n
    by (simp add: f_extended_def new_id3_def flag_set_def)
  show "load_header new_id3 (length out) (open_file out)
     = (new_id3\<lparr>tg_size := length body + 10\<rparr>, Inr \<lparr>fbytes = out, fpos = 10\<rparr>)"
    unfolding load_header_def r by (simp add: sz(3) t c x)
  have "fullread (int (length body)) (length out) \<lparr>fbytes = out, fpos = 10\<rparr>
      = Inr (take (length body) (drop 10 out), \<lparr>fbytes = out, fpos = 10 + length body\<rparr>)"
    by (rule fullread_open) (simp_all add: len)
  moreover have "take (length body) (drop 10 out) = body" using sz by (simp add: out)
  ultimately show "fullread (int (length body)) (length out) \<lparr>fbytes = out, fpos = 10\<rparr>
     = Inr (body, \<lparr>fbytes = out, fpos = 10 + length body\<rparr>)" by simp
qed

section \<open>The whole tag\<close>

lemma map_of_zip_related:
  "list_all2 (\<lambda>p g. R (snd p) g) ps gs \<Longrightarrow>
     (case map_of ps k of
        None \<Rightarrow> map_of (zip (map fst ps) gs) k = None
      | Some f \<Rightarrow> \<exists>g. map_of (zip (map fst ps) gs) k = Some g \<and> R f g)"
  by (induction ps gs rule: list_all2_induct) (auto split: option.splits prod.splits)

lemma map_of_filter_perm:
  assumes "distinct (map fst xs)" "mset ys = mset xs"
  shows "map_of (filter (\<lambda>p. P (snd p)) ys) k =
     (case map_of xs k of None \<Rightarrow> None | Some f \<Rightarrow> if P f then Some f else None)"
proof -
  have set: "set ys = set xs" using assms(2) by (rule mset_eq_setD)
  have "mset (map fst ys) = mset (map fst xs)" using assms(2) by simp
  then have "distinct (map fst ys)" using assms(1) mset_eq_imp_distinct_iff by blast
  then have d: "distinct (map fst (filter (\<lambda>p. P (snd p)) ys))" by (rule distinct_map_filter)
  have *: "map_of (filter (\<lambda>p. P (snd p)) ys) k = Some f \<longleftrightarrow> map_of xs k = Some f \<and> P f" for f
    using assms(1) d set by (auto simp: map_of_eq_Some_iff)
  show ?thesis
  proof (cases "map_of (filter (\<lambda>p. P (snd p)) ys) k")
    case None
    then show ?thesis using * by (cases "map_of xs k") auto
  next
    case (Some f)
    then show ?thesis using * [of f] by simp
  qed
qed

text \<open>The key of LINK also depends on its optional field.\<close>

lemma link_fields:
  "list_all (\<lambda>d. fd_key d = KeyLink \<longrightarrow>
     list_ex (\<lambda>s. spec_name s = ''frameid'') (fd_spec d) \<and> list_ex (\<lambda>s. spec_name s = ''url'') (fd_spec d)
     \<and> map spec_name (fd_opt d) = [''data'']) frames_v24"
  by code_simp

lemma link_key:
  assumes "same_frame f g" "find_frame frames_v24 (fd_name (fr_def f)) = Some (fr_def f)"
    "fd_key (fr_def f) = KeyLink"
  shows "hash_key_of g = hash_key_of f"
proof -
  let ?d = "fr_def f"
  have def: "fr_def g = ?d" using assms(1) by (simp add: same_frame_def)
  have l: "list_ex (\<lambda>s. spec_name s = ''frameid'') (fd_spec ?d)"
    "list_ex (\<lambda>s. spec_name s = ''url'') (fd_spec ?d)" "map spec_name (fd_opt ?d) = [''data'']"
    using link_fields find_frame_Some [OF assms(2)] assms(3) by (auto simp: list_all_iff)
  have spec: "getattr (fr_attrs g) n = getattr (fr_attrs f) n"
    if "list_ex (\<lambda>s. spec_name s = n) (fd_spec ?d)" for n
    using that same_frame_spec [OF assms(1)] by (auto simp: list_ex_iff intro!: getattr_cong)
  obtain x where x: "fd_opt ?d = [x]" "spec_name x = ''data''" using l(3) by auto
  have "map_of (fr_attrs g) ''data'' = map_of (fr_attrs f) ''data''"
    using assms(1) x
    by (cases "map_of (fr_attrs f) ''data''") (auto simp: same_frame_def written_names_def split: if_splits)
  then have data: "getattr (fr_attrs g) ''data'' = getattr (fr_attrs f) ''data''" by (rule getattr_cong)
  have "key_join g = key_join f" by (intro ext) (simp add: key_join_def def)
  moreover have "attr_unicode g ''frameid'' = attr_unicode f ''frameid''"
    "attr_unicode g ''url'' = attr_unicode f ''url''" "attr_repr g ''data'' = attr_repr f ''data''"
    using spec [OF l(1)] spec [OF l(2)] data by (simp_all add: attr_unicode_def attr_repr_def)
  ultimately show ?thesis using data
    by (cases "getattr (fr_attrs f) ''data''") (simp_all add: hash_key_of_def def assms(3))
qed

lemma list_all2_keys:
  assumes "list_all2 (\<lambda>p g. same_frame (snd p) g) ps gs"
    "\<forall>(k, f) \<in> set ps. hash_key_of f = Inr k \<and> savable f \<and> fd_key (fr_def f) \<noteq> KeyData"
  shows "list_all2 (\<lambda>k g. hash_key_of g = Inr k \<and> length (fd_name (fr_def g)) = 4) (map fst ps) gs"
  using assms
proof (induction ps gs rule: list_all2_induct)
  case (Cons p ps g gs)
  obtain k f where p: "p = (k, f)" by (cases p)
  have f: "hash_key_of f = Inr k" "savable f" "fd_key (fr_def f) \<noteq> KeyData"
    "same_frame f g" using Cons by (auto simp: p)
  have d: "find_frame frames_v24 (fd_name (fr_def f)) = Some (fr_def f)"
    using f(2) by (simp add: savable_def)
  then have "key_ok (fr_def f)"
    using frames_v24_keys find_frame_Some [OF d] by (auto simp: list_all_iff)
  have "hash_key_of g = Inr k"
  proof (cases "fd_key (fr_def f) = KeyLink")
    case True
    then show ?thesis using link_key [OF f(4) d] f(1) by simp
  next
    case False
    then show ?thesis
      using hash_key_cong [of g f] f \<open>key_ok (fr_def f)\<close> same_frame_spec [OF f(4)]
      by (simp add: same_frame_def)
  qed
  moreover have "length (fd_name (fr_def g)) = 4"
    using table_name [OF d] f(4) by (simp add: same_frame_def good_name_def)
  ultimately show ?case using Cons by (simp add: p)
qed simp


lemma sorted_frames_ps: "sorted_frames t = map snd (sort_key (frame_rank \<circ> fst) (tg_frames t))"
  by (simp add: sorted_frames_def)

text \<open>Sizes the loop reads correctly: it takes them as padded, or all of them are below 128.\<close>

definition sizes_read :: "string \<Rightarrow> id3 \<Rightarrow> bool" where
  "sizes_read body t \<longleftrightarrow> determine_bpi new_id3 body is_frame_name
     \<or> (\<forall>(k, f) \<in> set (tg_frames t). \<forall>data. write_data f = Inr data \<longrightarrow> length data < 128)"

lemma load_saved:
  assumes ok: "tag_ok t" and unk: "tg_unknown t = [] \<or> tg_unknown_version t \<noteq> Some V24"
    and sav: "\<forall>(k, f) \<in> set (tg_frames t). savable f \<and> fd_key (fr_def f) \<noteq> KeyData"
    and save: "save_frames t V24 sep = Inr (Some framedata)"
    and out: "out = ''ID3'' @ [chr 4, CHR 0x00, CHR 0x00] @ sz @ (framedata @ replicate pad (CHR 0x00)) @ rest"
    and sz: "length sz = 4" "has_valid_padding 7 sz" "bit_padded_int 7 True sz = length framedata + pad"
    and sizes: "sizes_read (framedata @ replicate pad (CHR 0x00)) t"
  shows "\<exists>t'. tag_load inflate None False 4 new_id3 out = (t', None)
     \<and> (\<forall>key. case tag_get t key of
          None \<Rightarrow> tag_get t' key = None
        | Some f \<Rightarrow> if nonempty_save t sep f then \<exists>g. tag_get t' key = Some g \<and> same_frame f g
                    else tag_get t' key = None)"
proof -
  define body where "body = framedata @ replicate pad (CHR 0x00)"
  define ps where "ps = sort_key (frame_rank \<circ> fst) (tg_frames t)"
  define fps where "fps = filter (\<lambda>p. nonempty_save t sep (snd p)) ps"
  define bpi where "bpi = (if determine_bpi new_id3 body is_frame_name then bit_padded_of_int 7 else id)"
  define t0 where "t0 = new_id3\<lparr>tg_size := length body + 10\<rparr>"
  have perm: "mset ps = mset (tg_frames t)" by (simp add: ps_def)
  then have set: "set ps = set (tg_frames t)" by (rule mset_eq_setD)
  obtain outs where outs: "mapR (\<lambda>f. save_frame t f None V24 sep) (map snd ps) = Inr outs"
    "framedata = concat outs"
    using save unk by (auto simp: save_frames_def bindR_Inr_iff sorted_frames_def ps_def split: if_splits)
  have savs: "list_all savable (map snd ps)" using sav set by (auto simp: list_all_iff)
  have rs: "reads_size bpi (length data)" if f: "f \<in> set (map snd ps)" and w: "write_data f = Inr data" for f data
  proof (cases "determine_bpi new_id3 body is_frame_name")
    case False
    then have "length data < 128" using sizes f w set by (auto simp: sizes_read_def body_def)
    then show ?thesis using False by (simp add: bpi_def reads_size_small)
  qed (simp add: bpi_def reads_size_padded)
  have v: "tg_version t0 = V24" "f_unsynch t0 = False" "tg_pedantic t0"
    by (simp_all add: t0_def new_id3_def f_unsynch_def flag_set_def)
  define ctx where "ctx = tag_ctx_of inflate t0"
  have ctx: "ver_le V24 (ctx_version ctx)" "\<not> ctx_unsynch ctx"
    using v by (simp_all add: ctx_def tag_ctx_of_def V24_def)
  have "\<exists>gs. frames_loop ctx frames_v24 bpi (concat outs @ replicate pad (CHR 0x00)) = (map Loaded gs, None)
      \<and> list_all2 same_frame (filter (nonempty_save t sep) (map snd ps)) gs \<and> list_all frame_typed gs"
    by (rule frames_loop_all [OF ctx outs(1) savs]) (rule rs)
  then obtain gs where gs: "frames_loop ctx frames_v24 bpi body = (map Loaded gs, None)"
    "list_all2 same_frame (filter (nonempty_save t sep) (map snd ps)) gs"
    unfolding body_def outs(2) by blast
  have rel: "list_all2 (\<lambda>p g. same_frame (snd p) g) fps gs"
    using gs(2) by (simp add: fps_def filter_map comp_def list_all2_map1)
  have keys: "list_all2 (\<lambda>k g. hash_key_of g = Inr k \<and> length (fd_name (fr_def g)) = 4) (map fst fps) gs"
  proof (rule list_all2_keys [OF rel], clarify)
    fix k f assume "(k, f) \<in> set fps"
    then have kf: "(k, f) \<in> set (tg_frames t)" using set by (simp add: fps_def)
    moreover have "hash_key_of f = Inr k"
      using ok kf by (auto simp: tag_ok_def wf_dict_def)
    ultimately show "hash_key_of f = Inr k \<and> savable f \<and> fd_key (fr_def f) \<noteq> KeyData"
      using sav by auto
  qed
  have dist: "distinct (map fst (tg_frames t))" using ok by (simp add: tag_ok_def wf_dict_def)
  have "mset (map fst ps) = mset (map fst (tg_frames t))" using perm by simp
  then have "distinct (map fst ps)" using dist mset_eq_imp_distinct_iff by blast
  then have "distinct (map fst (tg_frames t0) @ map fst fps)"
    by (simp add: t0_def new_id3_def fps_def distinct_map_filter)
  from add_items_fresh [OF keys this]
  have add: "add_items t0 (map Loaded gs) = (t0\<lparr>tg_frames := zip (map fst fps) gs\<rparr>, None)"
    by (simp add: t0_def new_id3_def)
  have hd: "load_header new_id3 (length out) (open_file out) = (t0, Inr \<lparr>fbytes = out, fpos = 10\<rparr>)"
    "fullread (int (length body)) (length out) \<lparr>fbytes = out, fpos = 10\<rparr>
     = Inr (body, \<lparr>fbytes = out, fpos = 10 + length body\<rparr>)"
    using load_header_saved [OF out sz(1,2)] sz(3) by (simp_all add: t0_def body_def)
  have bp: "determine_bpi t0 body = determine_bpi new_id3 body"
    by (intro ext) (simp add: determine_bpi_def t0_def)
  have rf: "read_frames inflate t0 body frames_v24 = (map Loaded gs, None)"
    using gs(1) v by (simp add: read_frames_def Let_def V24_def V23_def bp bpi_def ctx_def
        is_frame_name_def [abs_def] split: if_splits)
  define t1 where "t1 = t0\<lparr>tg_frames := zip (map fst fps) gs, tg_unknown_version := Some V24\<rparr>"
  have "known_or_default None t0 = frames_v24"
    using v by (simp add: known_or_default_def V23_def V24_def)
  moreover have "int (tg_size t0) - 10 = int (length body)" by (simp add: t0_def)
  ultimately have "tag_load inflate None False 4 new_id3 out = (t1, None)"
    using hd rf add v by (simp add: tag_load_def load_body_def add_produced_def t1_def)
  moreover have "case tag_get t key of
          None \<Rightarrow> tag_get t1 key = None
        | Some f \<Rightarrow> if nonempty_save t sep f then \<exists>g. tag_get t1 key = Some g \<and> same_frame f g
                    else tag_get t1 key = None" for key
    using map_of_zip_related [OF rel, of key] map_of_filter_perm [OF dist perm, of "nonempty_save t sep" key]
    by (auto simp: tag_get_def t1_def fps_def split: option.splits if_splits)
  ultimately show ?thesis by blast
qed


text \<open>
  What happens to an ID3v1 tag only touches the last 128 bytes, and when the audio has as many they
  are the last 128 bytes of the file before.
\<close>

lemma v1_offset_ge: "v1_offset data = Some i \<Longrightarrow> 128 \<le> length data \<and> length data \<le> i + 128"
  by (auto simp: v1_offset_def split: if_splits)

lemma write_v1_prefix:
  assumes "n + 128 \<le> length data" shows "take n (fst (write_v1 v1 t data)) = take n data"
proof -
  define pos where "pos = (case v1_offset data of Some i \<Rightarrow> i | None \<Rightarrow> length data)"
  have pos: "n \<le> pos"
    using assms v1_offset_ge [of data] by (fastforce simp: pos_def split: option.split)
  have "take n (fbytes (f_write s \<lparr>fbytes = data, fpos = pos\<rparr>)) = take n data" for s
    using pos assms by (auto simp: f_write_def min_def)
  then show ?thesis using pos assms
    by (auto simp: write_v1_def Let_def pos_def [symmetric] min_def split: sum.split)
qed

lemma v1_offset_suffix:
  assumes "128 \<le> length rest"
  shows "v1_offset (a @ rest) = None \<longleftrightarrow> v1_offset (b @ rest) = None"
proof -
  have "drop (length (x @ rest) - 128) (x @ rest) = drop (length rest - 128) rest" for x
  proof -
    have "length (x @ rest) - 128 = length x + (length rest - 128)" using assms by simp
    then show ?thesis by simp
  qed
  then show ?thesis using assms by (simp add: v1_offset_def)
qed

lemma new_tag_size_small:
  assumes "m + 1024 \<le> 2 ^ 28" "framesize \<le> m" "insize < 2 ^ 28"
  shows "new_tag_size insize framesize < 2 ^ 28"
proof -
  have "(framesize + 1023) div 1024 * 1024 \<le> framesize + 1023" by simp
  also have "\<dots> < 2 ^ 28" using assms by simp
  finally show ?thesis using assms(3) by (auto simp: new_tag_size_def)
qed

lemma old_tag_size_small: "old_tag_size data < 2 ^ 28"
proof (cases "unpack_tag_header (take 10 data)")
  case None
  then show ?thesis by (simp add: old_tag_size_def)
next
  case (Some p)
  obtain mark sz where p: "p = (mark, sz)" by (cases p)
  then have "length sz = 4" using Some by (auto simp: unpack_tag_header_def split: if_splits)
  moreover have "bit_padded_int 7 True sz < 2 ^ (7 * length sz)"
    using pos_value_bound [of "map (\<lambda>c. ord c mod 2 ^ 7) (rev sz)" 7]
    by (simp add: bit_padded_int_value)
  ultimately have "int (bit_padded_int 7 True sz) < 2 ^ 28" by simp
  then show ?thesis by (simp add: old_tag_size_def Some p)
qed

text \<open>
  C1. Saving a tag and loading the file again. Let the tag be well formed and not empty, without unknown
  frames of version 2.4, its frames of the ID3v2.3/2.4 classes other than COMR (whose key depends on
  encoded data) with values their fields can hold, and altogether at least a kilobyte below 2^28 bytes;
  let the file's old tag, if any, be followed by at least 128 bytes. Then \<open>save\<close> to version 2.4 builds
  the frames and writes the new file, whatever the treatment of ID3v1 tags; it raises nothing but what
  building an ID3v1 tag raises, and nothing at all when the file has no ID3v1 tag and none is asked for. \<open>load\<close> of the new
  file with \<open>translate = False\<close> returns without an error a tag that has, under each key of the saved
  one, a frame of the same class with the same value in every attribute that is written - all fields, and the
  optional ones up to the first the frame lacks - and no other attribute; a text frame with nothing in
  it was not written and is missing; and there is no other key. For loading, the sizes must be taken for what they are: \<open>__determine_bpi\<close> must
  find them padded, or every frame has less than 128 bytes, where both readings agree.
\<close>

theorem save_load_roundtrip:
  assumes ok: "tag_ok t" and ne: "tg_frames t \<noteq> []"
    and unk: "tg_unknown t = [] \<or> tg_unknown_version t \<noteq> Some V24"
    and sav: "\<forall>(k, f) \<in> set (tg_frames t). savable f \<and> fd_key (fr_def f) \<noteq> KeyData"
    and size: "frames_size t + 1024 \<le> 2 ^ 28"
    and room: "old_tag_size filedata + 138 \<le> int (length filedata)"
  shows "\<exists>framedata out err. save_frames t V24 sep = Inr (Some framedata)
     \<and> tag_save mmap_works v1 4 sep t filedata = (t, out, err)
     \<and> (err = None \<or> (\<exists>e. make_id3v1 t = Inl e \<and> err = Some e))
     \<and> (v1 \<noteq> 2 \<and> v1_offset filedata = None \<longrightarrow> err = None)
     \<and> (sizes_read (take (new_tag_size (old_tag_size filedata) (length framedata)) (drop 10 out)) t \<longrightarrow>
          (\<exists>t'. tag_load inflate None False 4 new_id3 out = (t', None)
             \<and> (\<forall>key. case tag_get t key of
                  None \<Rightarrow> tag_get t' key = None
                | Some f \<Rightarrow> if nonempty_save t sep f then \<exists>g. tag_get t' key = Some g \<and> same_frame f g
                            else tag_get t' key = None)))"
proof -
  obtain framedata where fd: "save_frames t V24 sep = Inr (Some framedata)"
    "length framedata \<le> frames_size t"
    using save_frames_succeeds [OF _ ne unk, of sep] sav size by auto
  let ?n = "new_tag_size (old_tag_size filedata) (length framedata)"
  let ?rest = "drop (nat (old_tag_size filedata + 10)) filedata"
  have small: "?n < 2 ^ 28" by (rule new_tag_size_small [OF size fd(2) old_tag_size_small])
  have fit: "old_tag_size filedata + 10 \<le> int (length filedata)" using room by simp
  obtain sz pad where w: "write_v2 mmap_works 4 framedata filedata
        = Inr (''ID3'' @ [chr 4, CHR 0x00, CHR 0x00] @ sz @ framedata @ replicate pad (CHR 0x00) @ ?rest)"
    and sz: "length sz = 4" "has_valid_padding 7 sz" "bit_padded_int 7 True sz = length framedata + pad"
    and n: "length framedata + pad = ?n"
    using mp [OF conjunct1 [OF write_v2_layout [OF fit, of framedata mmap_works 4]] small]
    by (elim exE conjE) (rule that)
  define hd where "hd = ''ID3'' @ [chr 4, CHR 0x00, CHR 0x00] @ sz @ framedata @ replicate pad (CHR 0x00)"
  have lhd: "length hd = 10 + ?n" using sz(1) by (simp add: hd_def flip: n)
  have "nat (old_tag_size filedata + 10) + 128 \<le> length filedata"
    using room old_tag_size_ge [of filedata] by linarith
  then have lrest: "128 \<le> length ?rest" by simp
  obtain out err where v1: "write_v1 v1 t (hd @ ?rest) = (out, err)" by (meson surj_pair)
  have "take (length hd) out = hd"
    using write_v1_prefix [of "length hd" "hd @ ?rest" v1 t] lrest v1 by simp
  then have o: "out = hd @ drop (length hd) out" by (metis append_take_drop_id)
  have body: "take ?n (drop 10 out) = framedata @ replicate pad (CHR 0x00)"
    by (subst o) (use sz(1) in \<open>simp add: hd_def flip: n\<close>)
  have save: "tag_save mmap_works v1 4 sep t filedata = (t, out, err)"
    using fd(1) w v1 by (simp add: tag_save_def hd_def)
  have err: "err = None \<or> (\<exists>e. make_id3v1 t = Inl e \<and> err = Some e)"
    using v1 by (auto simp: write_v1_def Let_def split: if_splits sum.splits)
  have "v1_offset (hd @ ?rest) = None" if "v1_offset filedata = None"
    using v1_offset_suffix [OF lrest, of hd "take (nat (old_tag_size filedata + 10)) filedata"] that by simp
  then have none: "v1 \<noteq> 2 \<and> v1_offset filedata = None \<longrightarrow> err = None"
    using v1 by (auto simp: write_v1_def)
  have "\<exists>t'. tag_load inflate None False 4 new_id3 out = (t', None)
             \<and> (\<forall>key. case tag_get t key of
                  None \<Rightarrow> tag_get t' key = None
                | Some f \<Rightarrow> if nonempty_save t sep f then \<exists>g. tag_get t' key = Some g \<and> same_frame f g
                            else tag_get t' key = None)"
    if "sizes_read (take ?n (drop 10 out)) t"
    by (rule load_saved [OF ok unk sav fd(1) _ sz, of out "drop (length hd) out"])
      (use o that body in \<open>simp_all add: hd_def\<close>)
  then show ?thesis using fd(1) save err none by blast
qed


text \<open>A rating with its optional play counter, saved in the room of an empty tag.\<close>

definition rating :: frame where
  "rating = \<lparr>fr_def = own ''POPM'' FrameOpt [Latin1TextSpec ''email'', ByteSpec ''rating'']
       [IntegerSpec ''count''] KeyEmail,
     fr_attrs = [(''email'', FText [97]), (''rating'', FInt 200), (''count'', FInt 3)]\<rparr>"

definition rated_tag :: id3 where
  "rated_tag = new_id3\<lparr>tg_frames := [(uni ''POPM:a'', rating)]\<rparr>"

definition tagged_audio :: string where
  "tagged_audio = ''ID3'' @ [chr 4, CHR 0x00, CHR 0x00, CHR 0x00, CHR 0x00, CHR 0x00, chr 20]
     @ replicate 20 (CHR 0x00) @ replicate 128 (CHR ''a'')"

lemma find_POPM: "find_frame frames_v24 ''POPM'' = Some (fr_def rating)"
  by (simp add: find_frame_def frames_v24_def text_frames_1_def text_frames_2_def url_frames_def
      people_frames_def lyric_frames_def picture_frames_def plain_def own_def rating_def)

lemma rating_data: "write_data rating = Inr [CHR ''a'', CHR 0x00, chr 200, CHR 0x00, CHR 0x00, CHR 0x00, chr 3]"
  by code_simp

lemma rating_key: "hash_key_of rating = Inr (uni ''POPM:a'')"
  by code_simp

lemma rating_written: "nonempty_save t sep rating"
proof -
  have "V24 \<noteq> V23" by (simp add: V24_def V23_def)
  moreover have "\<not> is_text_frame (fr_def rating)" by (simp add: rating_def own_def is_text_frame_def)
  ultimately have "save_frame t rating None V24 sep \<noteq> Inr []"
    by (auto simp: save_frame_def rating_data bindR_Inr_iff)
  then show ?thesis by (simp add: nonempty_save_def)
qed

lemma tagged_audio_size: "old_tag_size tagged_audio = 20" "length tagged_audio = 158"
proof -
  have "take 10 tagged_audio = ''ID3'' @ [chr 4, CHR 0x00, CHR 0x00, CHR 0x00, CHR 0x00, CHR 0x00, chr 20]"
    by (simp add: tagged_audio_def)
  then show "old_tag_size tagged_audio = 20"
    by (simp add: old_tag_size_def unpack_tag_header_def bit_padded_int_value)
  show "length tagged_audio = 158" by (simp add: tagged_audio_def)
qed

lemma tagged_audio_v1: "v1_offset tagged_audio = None"
  by code_simp

theorem save_load_roundtrip_witness:
  "\<exists>out t' g. tag_save True 1 4 None rated_tag tagged_audio = (rated_tag, out, None)
     \<and> tag_load (\<lambda>_. None) None False 4 new_id3 out = (t', None)
     \<and> tag_get t' (uni ''POPM:a'') = Some g
     \<and> map_of (fr_attrs g) ''rating'' = Some (FInt 200) \<and> map_of (fr_attrs g) ''count'' = Some (FInt 3)"
proof -
  have frames: "tg_frames rated_tag = [(uni ''POPM:a'', rating)]" by (simp add: rated_tag_def)
  have ok: "tag_ok rated_tag" by (simp add: tag_ok_def frames wf_dict_def rating_key)
  have ne: "tg_frames rated_tag \<noteq> []" by (simp add: frames)
  have unk: "tg_unknown rated_tag = [] \<or> tg_unknown_version rated_tag \<noteq> Some V24"
    by (simp add: rated_tag_def new_id3_def)
  have "frame_fits (fr_def rating) (fr_attrs rating) 1"
    by (simp add: rating_def frame_fits_def own_def field_fits_def byte_val_def text_ok_def)
  moreover have "fd_name (fr_def rating) = ''POPM''" "fd_key (fr_def rating) \<noteq> KeyData"
    by (simp_all add: rating_def own_def)
  ultimately have sav: "\<forall>(k, f) \<in> set (tg_frames rated_tag). savable f \<and> fd_key (fr_def f) \<noteq> KeyData"
    using find_POPM by (auto simp: frames savable_def)
  have size: "frames_size rated_tag + 1024 \<le> 2 ^ 28"
    by (simp add: frames_size_def frames data_size_def rating_data)
  have room: "old_tag_size tagged_audio + 138 \<le> int (length tagged_audio)"
    by (simp add: tagged_audio_size)
  have sizes: "sizes_read body rated_tag" for body
    by (simp add: sizes_read_def frames rating_data)
  obtain out t' where r: "tag_save True 1 4 None rated_tag tagged_audio = (rated_tag, out, None)"
    "tag_load (\<lambda>_. None) None False 4 new_id3 out = (t', None)"
    "\<forall>key. case tag_get rated_tag key of None \<Rightarrow> tag_get t' key = None
        | Some f \<Rightarrow> if nonempty_save rated_tag None f then \<exists>g. tag_get t' key = Some g \<and> same_frame f g
                    else tag_get t' key = None"
    using save_load_roundtrip [OF ok ne unk sav size room, of None True 1 "\<lambda>_. None"] sizes
      tagged_audio_v1 by auto
  have "tag_get rated_tag (uni ''POPM:a'') = Some rating" by (simp add: tag_get_def frames)
  then obtain g where g: "tag_get t' (uni ''POPM:a'') = Some g" "same_frame rating g"
    using r(3) [rule_format, of "uni ''POPM:a''"] rating_written by auto
  have "map_of (fr_attrs g) ''rating'' = Some (FInt 200)" "map_of (fr_attrs g) ''count'' = Some (FInt 3)"
    using g(2) by (simp_all add: same_frame_def written_names_def rating_def own_def)
  then show ?thesis using r g(1) by blast
qed

end
