(* ===== verification/Mut_MP3.thy ===== *)
theory Mut_MP3
  imports Mut_Save
begin

unbundle bit_operations_syntax

text \<open>
  \<open>mutagen/mp3.py\<close>: the search for an MPEG audio frame and what its header, and the Xing or VBRI
  header behind it, say about the stream.

  The three positions at 30, 60 and 90 per cent of the file are computed as Python does, with the
  double nearest to the factor and the product rounded to 53 bits. Lengths, which Python holds
  as doubles, are exact rationals.
\<close>

section \<open>Tables\<close>

datatype mpeg_version = MPEG1 | MPEG2 | MPEG25

fun bitrates :: "mpeg_version \<Rightarrow> nat \<Rightarrow> nat list" where
  "bitrates MPEG1 lay =
     (if lay = 1 then map (\<lambda>i. 32 * i) [0..<15]
      else if lay = 2 then [0, 32, 48, 56, 64, 80, 96, 112, 128, 160, 192, 224, 256, 320, 384]
      else [0, 32, 40, 48, 56, 64, 80, 96, 112, 128, 160, 192, 224, 256, 320])"
| "bitrates _ lay =
     (if lay = 1 then [0, 32, 48, 56, 64, 80, 96, 112, 128, 144, 160, 176, 192, 224, 256]
      else [0, 8, 16, 24, 32, 40, 48, 56, 64, 80, 96, 112, 128, 144, 160])"

fun mpeg_rates :: "mpeg_version \<Rightarrow> nat list" where
  "mpeg_rates MPEG1 = [44100, 48000, 32000]"
| "mpeg_rates MPEG2 = [22050, 24000, 16000]"
| "mpeg_rates MPEG25 = [11025, 12000, 8000]"

section \<open>The frame header\<close>

record mpeg_header =
  mh_version :: nat
  mh_layer :: nat
  mh_protection :: nat
  mh_bitrate :: nat
  mh_sample_rate :: nat
  mh_padding :: nat
  mh_mode :: nat

definition decode_header :: "nat \<Rightarrow> mpeg_header" where
  "decode_header w = \<lparr>mh_version = drop_bit 19 w AND 0x3, mh_layer = drop_bit 17 w AND 0x3,
     mh_protection = drop_bit 16 w AND 0x1, mh_bitrate = drop_bit 12 w AND 0xF,
     mh_sample_rate = drop_bit 10 w AND 0x3, mh_padding = drop_bit 9 w AND 0x1,
     mh_mode = drop_bit 6 w AND 0x3\<rparr>"

definition synced :: "nat \<Rightarrow> bool" where
  "synced w \<longleftrightarrow> drop_bit 16 w AND 0xE0 = 0xE0"

definition header_valid :: "mpeg_header \<Rightarrow> bool" where
  "header_valid h \<longleftrightarrow> \<not> (mh_version h = 1 \<or> mh_layer h = 0 \<or> mh_sample_rate h = 3
     \<or> mh_bitrate h = 0 \<or> mh_bitrate h = 0xF)"

definition word_at :: "string \<Rightarrow> nat \<Rightarrow> nat" where
  "word_at data i = struct_value True (take 4 (drop i data))"

text \<open>The \<open>while\<close> loop; \<open>None\<close> is its \<open>else\<close>.\<close>

function find_header :: "string \<Rightarrow> nat \<Rightarrow> (nat \<times> mpeg_header) option" where
  "find_header data start =
     (case str_find data [CHR 0xFF] start of
        None \<Rightarrow> None
      | Some frame_1 \<Rightarrow>
          if length data < frame_1 + 4 then None
          else let w = word_at data frame_1; h = decode_header w
               in if synced w \<and> header_valid h then Some (frame_1, h)
                  else find_header data (frame_1 + 2))"
  by pat_completeness auto
termination
  by (relation "measure (\<lambda>(data, start). Suc (length data) - start)") (auto dest: str_find_ge)

declare find_header.simps [simp del]

section \<open>Stream information\<close>

record mpeg_info =
  mi_version :: mpeg_version
  mi_layer :: nat
  mi_mode :: nat
  mi_protected :: bool
  mi_padding :: bool
  mi_bitrate :: int
  mi_sample_rate :: nat
  mi_length :: rat
  mi_sketchy :: bool

definition mpeg_version_of :: "nat \<Rightarrow> mpeg_version" where
  "mpeg_version_of v = (if v = 0 then MPEG25 else if v = 2 then MPEG2 else MPEG1)"

definition info_of_header :: "mpeg_header \<Rightarrow> mpeg_info" where
  "info_of_header h =
     (let ver = mpeg_version_of (mh_version h); lay = 4 - mh_layer h
      in \<lparr>mi_version = ver, mi_layer = lay, mi_mode = mh_mode h,
          mi_protected = (mh_protection h = 0), mi_padding = (mh_padding h \<noteq> 0),
          mi_bitrate = int (bitrates ver lay ! mh_bitrate h * 1000),
          mi_sample_rate = mpeg_rates ver ! mh_sample_rate h, mi_length = 0, mi_sketchy = False\<rparr>)"

text \<open>\<open>frame_length\<close> and \<open>frame_size\<close>, with Python 2's integer division.\<close>

definition frame_length :: "mpeg_info \<Rightarrow> nat \<Rightarrow> nat" where
  "frame_length i padding =
     (let br = nat (mi_bitrate i); sr = mi_sample_rate i
      in if mi_layer i = 1 then (12 * br div sr + padding) * 4
         else if mi_version i \<noteq> MPEG1 \<and> mi_layer i = 3 then 72 * br div sr + padding
         else 144 * br div sr + padding)"

definition frame_samples :: "mpeg_info \<Rightarrow> nat" where
  "frame_samples i =
     (if mi_layer i = 1 then 384
      else if mi_version i \<noteq> MPEG1 \<and> mi_layer i = 3 then 576 else 1152)"

definition second_header :: "string \<Rightarrow> nat \<Rightarrow> bool" where
  "second_header data possible \<longleftrightarrow>
     possible \<le> length data + 4 \<and> length (take 2 (drop possible data)) = 2
     \<and> struct_value True (take 2 (drop possible data)) AND 0xFFE0 = 0xFFE0"

text \<open>\<open>(samples / self.sample_rate) or self.length\<close>.\<close>

definition samples_length :: "mpeg_info \<Rightarrow> int \<Rightarrow> rat" where
  "samples_length i frame_count =
     (let l = of_int (int (frame_samples i) * frame_count) / of_nat (mi_sample_rate i)
      in if l = 0 then mi_length i else l)"

definition xing_frames :: "string \<Rightarrow> nat \<Rightarrow> int \<Rightarrow> mpeg_info \<Rightarrow> merr + mpeg_info" where
  "xing_frames data xing flags i =
     (if flags AND 1 \<noteq> 0 then
        bindR (uint_be (take 4 (drop (xing + 8) data))) (\<lambda>n.
          Inr (i\<lparr>mi_length := samples_length i n\<rparr>))
      else Inr i)"

definition xing_bytes :: "string \<Rightarrow> nat \<Rightarrow> int \<Rightarrow> mpeg_info \<Rightarrow> merr + mpeg_info" where
  "xing_bytes data xing flags i =
     (if flags AND 2 \<noteq> 0 then
        bindR (uint_be (take 4 (drop (xing + 12) data))) (\<lambda>b.
          if mi_length i = 0 then Inl ZeroDivisionError
          else Inr (i\<lparr>mi_bitrate := \<lfloor>of_int (b * 8) / mi_length i\<rfloor>\<rparr>))
      else Inr i)"

definition vbri_info :: "string \<Rightarrow> nat \<Rightarrow> mpeg_info \<Rightarrow> merr + mpeg_info" where
  "vbri_info data vbri i =
     bindR (ushort_be (take 2 (drop (vbri + 4) data))) (\<lambda>ver.
       if ver = 1 then
         bindR (uint_be (take 4 (drop (vbri + 14) data))) (\<lambda>n.
           Inr (i\<lparr>mi_length := samples_length i n\<rparr>))
       else Inr i)"

text \<open>\<open>data[:-n]\<close>.\<close>

definition drop_last :: "nat \<Rightarrow> string \<Rightarrow> string" where
  "drop_last n data = take (length data - n) data"

definition vbr_info :: "string \<Rightarrow> mpeg_info \<Rightarrow> merr + mpeg_info" where
  "vbr_info data i =
     (case str_find (drop_last 4 data) ''Xing'' 0 of
        Some xing \<Rightarrow>
          bindR (uint_be (take 4 (drop (xing + 4) data))) (\<lambda>flags.
            bindR (xing_frames data xing flags i) (xing_bytes data xing flags))
      | None \<Rightarrow>
          (case str_find (drop_last 24 data) ''VBRI'' 0 of
             Some vbri \<Rightarrow> vbri_info data vbri i
           | None \<Rightarrow> Inr i))"

text \<open>\<open>__try\<close>: the 32 kB read at the offset are read again for the second part.\<close>

definition try_header :: "string \<Rightarrow> nat \<Rightarrow> int \<Rightarrow> bool \<Rightarrow> merr + mpeg_info" where
  "try_header filedata offset real_size check_second =
     (let data = take 32768 (drop offset filedata)
      in case find_header data 0 of
           None \<Rightarrow> Inl HeaderNotFoundError
         | Some (frame_1, h) \<Rightarrow>
             (let i = info_of_header h
              in if check_second \<and> \<not> second_header data (frame_1 + frame_length i (mh_padding h))
                 then Inl HeaderNotFoundError
                 else vbr_info data (i\<lparr>mi_length := of_int (8 * real_size) / of_int (mi_bitrate i)\<rparr>)))"

section \<open>MPEGInfo\<close>

fun bit_length :: "nat \<Rightarrow> nat" where
  "bit_length n = (if n = 0 then 0 else Suc (bit_length (n div 2)))"

declare bit_length.simps [simp del]

text \<open>Rounding to 53 significant bits, half to even.\<close>

definition round53 :: "nat \<Rightarrow> nat" where
  "round53 p =
     (let e = bit_length p - 53; q = p div 2 ^ e; r = p mod 2 ^ e
      in if 0 < e \<and> (2 ^ e < 2 * r \<or> 2 * r = 2 ^ e \<and> odd q) then Suc q * 2 ^ e else q * 2 ^ e)"

text \<open>\<open>int(0.3 * size)\<close>, \<open>int(0.6 * size)\<close> and \<open>int(0.9 * size)\<close>.\<close>

definition at_30 :: "nat \<Rightarrow> nat" where
  "at_30 sz = round53 (5404319552844595 * sz) div 2 ^ 54"

definition at_60 :: "nat \<Rightarrow> nat" where
  "at_60 sz = round53 (5404319552844595 * sz) div 2 ^ 53"

definition at_90 :: "nat \<Rightarrow> nat" where
  "at_90 sz = round53 (8106479329266893 * sz) div 2 ^ 53"

definition skip_id3 :: "string \<Rightarrow> nat" where
  "skip_id3 filedata =
     (let idata = take 10 filedata
      in if length idata = 10 \<and> take 3 idata = ''ID3'' \<and> 0 < bit_padded_int 7 True (drop 6 idata)
         then bit_padded_int 7 True (drop 6 idata) + 10 else 0)"

text \<open>The loop over the offsets: an \<open>mp3.error\<close> tries the next one, any other exception ends it.\<close>

fun try_offsets :: "string \<Rightarrow> int \<Rightarrow> nat list \<Rightarrow> (merr + mpeg_info) option" where
  "try_offsets filedata real_size [] = None"
| "try_offsets filedata real_size (i # is) =
     (case try_header filedata i real_size True of
        Inl HeaderNotFoundError \<Rightarrow> try_offsets filedata real_size is
      | r \<Rightarrow> Some r)"

definition mpeg_info :: "string \<Rightarrow> nat option \<Rightarrow> merr + mpeg_info" where
  "mpeg_info filedata off =
     (let sz = length filedata;
          offset = (case off of Some n \<Rightarrow> n | None \<Rightarrow> skip_id3 filedata);
          real_size = int sz - int offset
      in case try_offsets filedata real_size [offset, at_30 sz, at_60 sz, at_90 sz] of
           Some r \<Rightarrow> r
         | None \<Rightarrow> bindR (try_header filedata offset real_size False) (\<lambda>i.
                     Inr (i\<lparr>mi_sketchy := True\<rparr>)))"

section \<open>Facts\<close>

lemma find_header_Some:
  "find_header data start = Some (i, h) \<Longrightarrow>
     start \<le> i \<and> i + 4 \<le> length data \<and> data ! i = CHR 0xFF
   \<and> h = decode_header (word_at data i) \<and> synced (word_at data i) \<and> header_valid h"
proof (induction data start rule: find_header.induct)
  case (1 data start)
  obtain f where f: "str_find data [CHR 0xFF] start = Some f"
    using "1.prems" by (subst (asm) find_header.simps) (auto split: option.splits)
  note S = str_find_Some [OF f]
  have len: "\<not> length data < f + 4"
    using "1.prems" f by (subst (asm) find_header.simps) (auto split: if_splits)
  show ?case
  proof (cases "synced (word_at data f) \<and> header_valid (decode_header (word_at data f))")
    case True
    then have "find_header data start = Some (f, decode_header (word_at data f))"
      using f len by (subst find_header.simps) (simp add: Let_def)
    then have "i = f" "h = decode_header (word_at data f)" using "1.prems" by simp_all
    moreover have "data ! f = CHR 0xFF" using S
      by (metis One_nat_def Cons_nth_drop_Suc length_Cons list.size(3) less_eq_Suc_le add.commute
          plus_1_eq_Suc take_Suc_Cons take0 list.inject take_eq_Nil2 le_add1 le_trans)
    ultimately show ?thesis using True S len by auto
  next
    case False
    then have "find_header data (f + 2) = Some (i, h)"
      using "1.prems" f len by (subst (asm) find_header.simps) (auto simp: Let_def)
    from "1.IH" [OF f len refl refl False this] S show ?thesis by auto
  qed
qed

lemma and_low_bits:
  "(x::nat) AND 1 = x mod 2" "x AND 3 = x mod 4" "x AND 15 = x mod 16"
  using and_mask_mod [of x 1] and_mask_mod [of x 2] and_mask_mod [of x 4]
  by (simp_all add: mask_eq_exp_minus_1)

lemma header_valid_tables:
  assumes "header_valid (decode_header w)"
  shows "mh_bitrate (decode_header w) < 15" "0 < mh_bitrate (decode_header w)"
    "mh_sample_rate (decode_header w) < 3"
    "mh_layer (decode_header w) = 1 \<or> mh_layer (decode_header w) = 2 \<or> mh_layer (decode_header w) = 3"
proof -
  have "mh_bitrate (decode_header w) < 16" "mh_sample_rate (decode_header w) < 4"
    "mh_layer (decode_header w) < 4"
    by (simp_all add: decode_header_def and_low_bits)
  then show "mh_bitrate (decode_header w) < 15" "0 < mh_bitrate (decode_header w)"
    "mh_sample_rate (decode_header w) < 3"
    "mh_layer (decode_header w) = 1 \<or> mh_layer (decode_header w) = 2 \<or> mh_layer (decode_header w) = 3"
    using assms unfolding header_valid_def by linarith+
qed

lemma length_bitrates: "length (bitrates v lay) = 15"
  by (cases v) simp_all

lemma bitrates_pos: "k < 15 \<Longrightarrow> 0 < k \<Longrightarrow> 8 \<le> bitrates v lay ! k"
proof -
  assume "k < 15" "0 < k"
  then have "k \<in> {1..<15}" by simp
  then have "k \<in> set [1..<15]" by (simp only: set_upt)
  moreover have "\<forall>k \<in> set [1..<15]. 8 \<le> bitrates v lay ! k"
    by (cases v) (simp_all add: upt_rec)
  ultimately show ?thesis by blast
qed

lemma mpeg_rates_pos: "k < 3 \<Longrightarrow> 8000 \<le> mpeg_rates v ! k"
proof -
  assume "k < 3"
  then have "k = 0 \<or> k = 1 \<or> k = 2" by linarith
  then show ?thesis by (cases v) (auto simp: numeral_2_eq_2)
qed

text \<open>What a header in the tables gives.\<close>

definition good_info :: "mpeg_info \<Rightarrow> bool" where
  "good_info i \<longleftrightarrow> (mi_layer i = 1 \<or> mi_layer i = 2 \<or> mi_layer i = 3) \<and> 8000 \<le> mi_sample_rate i"

lemma good_info_of_header:
  assumes "header_valid (decode_header w)"
  shows "good_info (info_of_header (decode_header w))"
    "8000 \<le> mi_bitrate (info_of_header (decode_header w))"
  using header_valid_tables [OF assms] bitrates_pos mpeg_rates_pos
  by (auto simp: good_info_def info_of_header_def Let_def)

end
