(* ===== verification/Mut_Behaviour.thy ===== *)
theory Mut_Behaviour
  imports Mut_Save_Props Mut_MP3
begin

text \<open>
  Behaviour of the tag library at its edges: ID3v1 tags, frames that do not survive, errors that
  escape, and what the MPEG parser reports.
\<close>

section \<open>ID3v1\<close>

definition table_frames :: "id3 \<Rightarrow> bool" where
  "table_frames t \<longleftrightarrow>
     (\<forall>(k, f) \<in> set (tg_frames t). find_frame frames_v24 (fd_name (fr_def f)) = Some (fr_def f))"

lemma COMM_key: "case find_frame frames_v24 ''COMM'' of Some d \<Rightarrow> fd_key d = KeyDescLang | None \<Rightarrow> False"
  by (simp add: find_frame_def frames_v24_def text_frames_1_def text_frames_2_def url_frames_def
      people_frames_def lyric_frames_def plain_def own_def)

lemma no_COMM_key:
  assumes "tag_ok t" "table_frames t" shows "tag_get t (uni ''COMM'') = None"
proof (rule ccontr)
  assume "tag_get t (uni ''COMM'') \<noteq> None"
  then obtain f where f: "tag_get t (uni ''COMM'') = Some f" by auto
  then have h: "hash_key_of f = Inr (uni ''COMM'')" using assms(1) by (rule tag_ok_get [rotated])
  then have k: "fd_key (fr_def f) = KeyID" by (rule plain_key) (simp add: uni_def)
  then have "uni (fd_name (fr_def f)) = uni ''COMM''" using h KeyID_hash by auto
  then have n: "fd_name (fr_def f) = ''COMM''" by (simp only: inj_uni)
  have "(uni ''COMM'', f) \<in> set (tg_frames t)" using f by (simp add: tag_get_def map_of_SomeD)
  then have "find_frame frames_v24 ''COMM'' = Some (fr_def f)"
    using assms(2) n by (auto simp: table_frames_def)
  then show False using COMM_key k by simp
qed

lemma v1_field_length: "v1_field t name m w = Inr s \<Longrightarrow> m \<le> w \<Longrightarrow> length s = w"
  by (auto simp: v1_field_def bindR_Inr_iff split: option.splits)

text \<open>
  A written ID3v1 tag is always 128 bytes and starts with TAG; and for a tag of frames of the
  tables its comment field is always empty: a comment's key is COMM:description:language, never
  COMM.
\<close>

theorem id3v1_layout:
  assumes "make_id3v1 t = Inr s"
  shows "length s = 128 \<and> take 3 s = ''TAG''
       \<and> (tag_ok t \<and> table_frames t \<longrightarrow> take 29 (drop 97 s) = replicate 29 (CHR 0x00))"
proof -
  obtain title artist album comment track genre year where f:
    "v1_field t ''TIT2'' 30 30 = Inr title" "v1_field t ''TPE1'' 30 30 = Inr artist"
    "v1_field t ''TALB'' 30 30 = Inr album" "v1_field t ''COMM'' 28 29 = Inr comment"
    "v1_track t = Inr track" "v1_genre t = Inr genre" "v1_year t = Inr year"
    and s: "s = ''TAG'' @ title @ artist @ album @ year @ comment @ [track] @ [genre]"
    using assms unfolding make_id3v1_def bindR_Inr_iff by auto
  have y: "length year = 4" using f(7) by (auto simp: v1_year_def bindR_Inr_iff)
  have len: "length title = 30" "length artist = 30" "length album = 30" "length comment = 29"
    using f(1-4) by (auto intro: v1_field_length)
  have "take 29 (drop 97 s) = comment" using len y by (simp add: s)
  moreover have "comment = replicate 29 (CHR 0x00)" if "tag_ok t" "table_frames t"
    using f(4) no_COMM_key [OF that] by (simp add: v1_field_def)
  ultimately show ?thesis using len y by (simp add: s)
qed

theorem id3v1_layout_witness:
  "\<exists>s. make_id3v1 new_id3 = Inr s \<and> length s = 128 \<and> take 29 (drop 97 s) = replicate 29 (CHR 0x00)"
proof -
  have "\<exists>s. make_id3v1 new_id3 = Inr s"
    by (simp add: make_id3v1_def v1_field_def v1_track_def v1_genre_def v1_year_def tag_get_def
        new_id3_def)
  moreover have "table_frames new_id3" by (simp add: table_frames_def new_id3_def)
  ultimately show ?thesis using id3v1_layout [of new_id3] by auto
qed

text \<open>
  The search for an ID3v1 tag looks anywhere in the last 128 bytes: whatever holds the letters
  TAG there is taken for one, and everything from that place on is replaced by the new tag, or cut
  off when there is to be none. Before the place nothing changes.
\<close>

theorem v1_rewrite:
  assumes "v1_offset data = Some i"
  shows "length data - 128 \<le> i \<and> i + 3 \<le> length data \<and> take 3 (drop i data) = ''TAG''
       \<and> write_v1 0 t data = (take i data, None)
       \<and> (make_id3v1 t = Inr s \<longrightarrow> write_v1 1 t data = (take i data @ s, None))"
proof -
  obtain j where j: "128 \<le> length data" "str_find (drop (length data - 128) data) ''TAG'' 0 = Some j"
    "i = length data - 128 + j"
    using assms by (auto simp: v1_offset_def split: if_splits)
  note F = str_find_Some [OF j(2)]
  have i: "i + 3 \<le> length data" "take 3 (drop i data) = ''TAG''"
    using F j by (auto simp: numeral_3_eq_3 add.commute)
  have "length s = 128" if "make_id3v1 t = Inr s"
    using that unfolding make_id3v1_def bindR_Inr_iff
    by (auto simp: v1_year_def bindR_Inr_iff dest!: v1_field_length)
  then have "write_v1 1 t data = (take i data @ s, None)" if "make_id3v1 t = Inr s"
    using that assms i j by (auto simp: write_v1_def f_write_def Let_def)
  then show ?thesis using assms i j by (simp add: write_v1_def)
qed


text \<open>The last 128 bytes of a file with an APEv2 footer.\<close>

definition ape_file :: string where
  "ape_file = replicate 96 (CHR ''x'') @ ''APETAGEX'' @ replicate 24 (CHR 0x00)"

lemma find_past_x:
  "a \<noteq> b \<Longrightarrow> str_find (replicate n a @ s) (b # sub) 0 = map_option ((+) n) (str_find s (b # sub) 0)"
proof (induction n)
  case 0
  show ?case by (simp add: option.map_ident)
next
  case (Suc n)
  have "find_at s sub (Suc i) = map_option Suc (find_at s sub i)" for s sub i
    by (induction s sub i rule: find_at.induct) auto
  then show ?case using Suc by (simp add: str_find_def option.map_comp comp_def)
qed

lemma ape_offset: "v1_offset ape_file = Some 99"
proof -
  have "str_find ape_file ''TAG'' 0 = Some 99"
    unfolding ape_file_def by (subst find_past_x) (simp_all add: str_find_def)
  then show ?thesis by (simp add: v1_offset_def ape_file_def)
qed

theorem v1_rewrite_witness:
  "write_v1 0 new_id3 ape_file = (replicate 96 (CHR ''x'') @ ''APE'', None)"
proof -
  have "take 99 ape_file = replicate 96 (CHR ''x'') @ ''APE''" by (simp add: ape_file_def)
  then show ?thesis using v1_rewrite [OF ape_offset, of new_id3 "[]"] by simp
qed

section \<open>Frames that do not survive\<close>

lemma LNK_class:
  "case find_frame frames_v22 ''LNK'' of
     Some d \<Rightarrow> fd_name d = ''LNK'' \<and> fd_spec d = [StringSpec ''frameid'' 3, Latin1TextSpec ''url'']
        \<and> fd_base d = Sub ''LINK''
   | None \<Rightarrow> False"
  by code_simp

lemma LINK_class:
  "case find_frame frames_v24 ''LINK'' of
     Some d \<Rightarrow> fd_spec d = [StringSpec ''frameid'' 4, Latin1TextSpec ''url'']
   | None \<Rightarrow> False"
  by code_simp

text \<open>
  A link frame of ID3v2.2 cannot be loaded: its frame id has at most three bytes, the class it
  is turned into wants four, so adding any LNK frame that was read raises ValueError, which
  \<open>load\<close> lets through.
\<close>

theorem lnk_frames_fail:
  assumes "find_frame frames_v22 ''LNK'' = Some d" and "from_data d ctx flags data = Inr f"
  shows "loaded_frame t f = Inl ValueError
       \<and> add_produced t (produce (Loaded f) later) = (t, Some ValueError)"
proof -
  have d: "fd_name d = ''LNK''" "fd_spec d = [StringSpec ''frameid'' 3, Latin1TextSpec ''url'']"
    "fd_base d = Sub ''LINK''"
    using LNK_class assms(1) by auto
  obtain e where e: "find_frame frames_v24 ''LINK'' = Some e"
    "fd_spec e = [StringSpec ''frameid'' 4, Latin1TextSpec ''url'']"
    using LINK_class by (auto split: option.splits)
  have "layout_ok d" using frames_v22_layout find_frame_Some [OF assms(1)] by (auto simp: list_all_iff)
  then have f: "fr_def f = d" "frame_typed f" using from_data_typed [OF _ assms(2)] by simp_all
  obtain b where "map_of (fr_attrs f) ''frameid'' = Some (FBytes b)" "length b \<le> 3"
    using f d by (auto simp: frame_typed_def field_typed_def split: option.splits fval.splits)
  then have "upgrade_frame f = Inl ValueError"
    using d e f(1) by (simp add: upgrade_frame_def base_class_def frame_copy_def getattr_def)
  then have "loaded_frame t f = Inl ValueError" by (simp add: loaded_frame_def)
  then show ?thesis by (simp add: add_produced_def produce_def)
qed

theorem lnk_frames_fail_witness:
  "\<exists>d f. find_frame frames_v22 ''LNK'' = Some d
     \<and> from_data d \<lparr>ctx_version = V22, ctx_unsynch = False, ctx_pedantic = True, ctx_inflate = (\<lambda>_. None)\<rparr>
         0 ''TT2http'' = Inr f
     \<and> loaded_frame new_id3 f = Inl ValueError"
proof -
  obtain d where d: "find_frame frames_v22 ''LNK'' = Some d"
    "fd_spec d = [StringSpec ''frameid'' 3, Latin1TextSpec ''url'']"
    using LNK_class by (auto split: option.splits)
  have "d \<in> set frames_v22" using d(1) by (simp add: find_frame_Some)
  then obtain f0 where f0: "frame_init d [] [] = Inr f0" using frame_constructed by blast
  have "\<exists>f. from_data d \<lparr>ctx_version = V22, ctx_unsynch = False, ctx_pedantic = True,
      ctx_inflate = (\<lambda>_. None)\<rparr> 0 ''TT2http'' = Inr f"
    by (simp add: from_data_def V22_def V23_def V24_def f0 read_data_def d(2) read_latin1_text_def)
  then show ?thesis using d(1) lnk_frames_fail by blast
qed

lemma copy_fields_names:
  "copy_fields a specs other = Inr c \<Longrightarrow> n \<notin> set (map spec_name specs) \<Longrightarrow> map_of c n = map_of a n"
  by (induction a specs other rule: copy_fields.induct) (auto simp: bindR_Inr_iff map_of_setattr)

lemma base_class_layout: "layout_ok (base_class d)"
proof -
  have "layout_ok bare_frame" by (simp add: layout_ok_def bare_frame_def own_def)
  then show ?thesis using frames_v24_layout
    by (auto simp: base_class_def list_all_iff split: frame_base.split option.split dest: find_frame_Some)
qed

text \<open>
  A frame of ID3v2.2 that is upgraded when it is added loses its optional fields (the play count
  of POP, for example): the copy has its base class and none of the optional fields of that class.
\<close>

theorem upgrade_drops_optional:
  assumes "find_frame frames_v22 (fd_name (fr_def f)) = Some (fr_def f)" and "upgrade_frame f = Inr g"
  shows "fr_def g = base_class (fr_def f)
       \<and> (\<forall>s \<in> set (fd_opt (fr_def g)). map_of (fr_attrs g) (spec_name s) = None)"
proof -
  let ?d = "base_class (fr_def f)"
  have "length (fd_name (fr_def f)) = 3"
    using frames_v22_names find_frame_Some [OF assms(1)] by (auto simp: list_all_iff)
  then have copy: "frame_copy ?d f = Inr g" using assms(2) by (simp add: upgrade_frame_def)
  have o: "init_optional a ss [] = Inr a" for a ss by (cases ss) simp_all
  obtain a where a: "copy_fields [] (fd_spec ?d) (fr_attrs f) = Inr a" "g = \<lparr>fr_def = ?d, fr_attrs = a\<rparr>"
    using copy by (auto simp: frame_copy_def bindR_Inr_iff o split: if_splits)
  have "map_of a (spec_name s) = None" if "s \<in> set (fd_opt ?d)" for s
  proof -
    have "spec_name s \<notin> set (map spec_name (fd_spec ?d))"
      using layout_from_distinct [of "[]" "fd_spec ?d @ fd_opt ?d"] base_class_layout [of "fr_def f"] that
      by (auto simp: layout_ok_def)
    then show ?thesis using copy_fields_names [OF a(1)] by simp
  qed
  then show ?thesis by (simp add: a(2))
qed

lemma POP_class:
  "case find_frame frames_v22 ''POP'' of Some d \<Rightarrow> fd_name d = ''POP'' \<and> fd_base d = Sub ''POPM'' | None \<Rightarrow> False"
  by code_simp

lemma POPM_class:
  "case find_frame frames_v24 ''POPM'' of
     Some d \<Rightarrow> fd_spec d = [Latin1TextSpec ''email'', ByteSpec ''rating'']
        \<and> fd_opt d = [IntegerSpec ''count''] \<and> fd_root d = FrameOpt
   | None \<Rightarrow> False"
  by code_simp

theorem upgrade_drops_optional_witness:
  "\<exists>d g. find_frame frames_v22 ''POP'' = Some d
     \<and> upgrade_frame \<lparr>fr_def = d, fr_attrs = [(''email'', FText [97]), (''rating'', FInt 9),
          (''count'', FInt 5)]\<rparr> = Inr g
     \<and> map_of (fr_attrs g) ''rating'' = Some (FInt 9) \<and> map_of (fr_attrs g) ''count'' = None"
proof -
  obtain d where d: "find_frame frames_v22 ''POP'' = Some d" "fd_name d = ''POP''" "fd_base d = Sub ''POPM''"
    using POP_class by (auto split: option.splits)
  obtain e where e: "find_frame frames_v24 ''POPM'' = Some e"
    "fd_spec e = [Latin1TextSpec ''email'', ByteSpec ''rating'']" "fd_opt e = [IntegerSpec ''count'']"
    using POPM_class by (auto split: option.splits)
  let ?f = "\<lparr>fr_def = d, fr_attrs = [(''email'', FText [97]), (''rating'', FInt 9), (''count'', FInt 5)]\<rparr>"
  have b: "base_class d = e" using d e by (simp add: base_class_def)
  have "\<exists>g. upgrade_frame ?f = Inr g \<and> map_of (fr_attrs g) ''rating'' = Some (FInt 9)"
    using d(2) e b by (simp add: upgrade_frame_def frame_copy_def getattr_def to_unicode_def
        write_byte_def setattr_def)
  then obtain g where g: "upgrade_frame ?f = Inr g" "map_of (fr_attrs g) ''rating'' = Some (FInt 9)" by blast
  then have "map_of (fr_attrs g) ''count'' = None"
    using upgrade_drops_optional [of ?f g] d b e by auto
  then show ?thesis using d g by blast
qed

section \<open>Errors\<close>

text \<open>
  Synchronised lyrics written in UTF-16 cannot be read back: the search for the two zero bytes
  behind a text does not keep to the two-byte units, so for a text of one Latin-1 character it
  stops one byte early and the rest is undecodable.
\<close>

theorem sylt_utf16_unreadable:
  assumes "0 < c" and "c < 256" and "u_fits 4 time"
  shows "\<exists>out. write_sync_pair 1 (FList [FText [c], FInt time]) = Inr out
             \<and> read_sync_text 1 out = Inl UnicodeDecodeError"
proof -
  obtain t where t: "pack_u True 4 time = Inr t" using assms(3) pack_u_fits by blast
  have z: "chr c \<noteq> CHR 0x00" using assms(1,2) by (metis nul_eq_chr less_numeral_extra(3))
  let ?out = "[CHR 0xFF, CHR 0xFE, chr c, CHR 0x00, CHR 0x00, CHR 0x00] @ t"
  have z0: "chr 0 = CHR 0x00" by code_simp
  have "\<not> high_surrogate c" "\<not> low_surrogate c" using assms(2)
    by (simp_all add: high_surrogate_def low_surrogate_def)
  then have "utf16_encode [c] = [CHR 0xFF, CHR 0xFE, chr c, CHR 0x00]"
    using assms(2) by (simp add: utf16_encode_def utf16_enc_def utf16_char_def utf16_unit_def z0)
  then have w: "write_sync_pair 1 (FList [FText [c], FInt time]) = Inr ?out"
    using t by (simp add: write_sync_pair_def value_encode_def text_encode_def text_term_def)
  have "str_find ?out [CHR 0x00, CHR 0x00] 0 = Some 3"
    using z by (simp add: str_find_def startswith_def)
  moreover have "utf16_decode [CHR 0xFF, CHR 0xFE, chr c] = Inl UnicodeDecodeError"
    by (simp add: utf16_decode_def)
  ultimately have "read_sync_text 1 ?out = Inl UnicodeDecodeError"
    by (subst read_sync_text.simps) (simp add: text_term_def text_decode_def numeral_3_eq_3)
  then show ?thesis using w by blast
qed

theorem sylt_utf16_unreadable_witness:
  "\<exists>out. write_sync_pair 1 (FList [FText [97], FInt 5]) = Inr out
       \<and> read_sync_text 1 out = Inl UnicodeDecodeError"
  by (rule sylt_utf16_unreadable) (simp_all add: u_fits_def)


text \<open>What reading a field can raise besides undecodable text.\<close>

lemma read_fields_junk: "read_fields False a specs data \<noteq> Inl UnicodeDecodeError"
  by (induction "False" a specs data rule: read_fields.induct) (auto split: sum.splits)

lemma data_no_unicode_error:
  "data_v24 ctx flags data \<noteq> Inl UnicodeDecodeError" "data_v23 ctx flags data \<noteq> Inl UnicodeDecodeError"
  by (auto simp: data_v24_def data_v23_def undo_unsynch_def Let_def bindR_Inl_iff
      split: sum.splits option.splits if_splits)

lemma COMR_class:
  "case find_frame frames_v24 ''COMR'' of
     Some d \<Rightarrow> is_opt d \<and> (\<exists>rest. fd_spec d = [EncodingSpec ''encoding'', Latin1TextSpec ''price'',
        StringSpec ''valid_until'' 8, Latin1TextSpec ''contact'', ByteSpec ''format'',
        EncodedTextSpec ''seller''] @ rest)
   | None \<Rightarrow> False"
  by (simp add: find_frame_def frames_v24_def text_frames_1_def text_frames_2_def url_frames_def
      people_frames_def lyric_frames_def picture_frames_def link_frames_def owner_frames_def plain_def
      own_def is_opt_def)

text \<open>Bytes of a commercial frame whose seller is not UTF-8.\<close>

definition bad_seller :: string where
  "bad_seller = [chr 3, CHR 0x00] @ ''20130101'' @ [CHR 0x00, CHR ''A'', CHR 0xFF, CHR 0x00]"

text \<open>
  Undecodable text makes a frame of a class without optional fields a junk frame, which \<open>load\<close>
  skips: \<open>fromData\<close> never raises UnicodeDecodeError for it. The classes with optional fields have
  their own loop without that conversion: a COMR frame whose seller is not valid UTF-8 raises
  UnicodeDecodeError, and reading the tag ends there.
\<close>

theorem undecodable_text:
  assumes "d \<in> set frames_v24 \<or> d \<in> set frames_v22" and "\<not> is_opt d"
  shows "from_data d ctx flags data \<noteq> Inl UnicodeDecodeError
       \<and> (\<exists>e. find_frame frames_v24 ''COMR'' = Some e
            \<and> from_data e plain_ctx 0 bad_seller = Inl UnicodeDecodeError)"
proof
  obtain f where f: "frame_init d [] [] = Inr f" using frame_constructed [OF assms(1)] by blast
  have "read_data d a x \<noteq> Inl UnicodeDecodeError" for a x
    using assms(2) read_fields_junk by (auto simp: read_data_def bindR_Inl_iff)
  then show "from_data d ctx flags data \<noteq> Inl UnicodeDecodeError"
    using f data_no_unicode_error by (auto simp: from_data_def bindR_Inl_iff)
  obtain e rest where e: "find_frame frames_v24 ''COMR'' = Some e" "is_opt e"
    "fd_spec e = [EncodingSpec ''encoding'', Latin1TextSpec ''price'', StringSpec ''valid_until'' 8,
       Latin1TextSpec ''contact'', ByteSpec ''format'', EncodedTextSpec ''seller''] @ rest"
    using COMR_class by (auto split: option.splits)
  have "e \<in> set frames_v24" using e(1) by (simp add: find_frame_Some)
  then obtain g where g: "frame_init e [] [] = Inr g" using frame_constructed by blast
  have "utf8_decode [CHR 0xFF] = Inl UnicodeDecodeError" by code_simp
  then have "read_data e (fr_attrs g) bad_seller = Inl UnicodeDecodeError"
    by (simp add: read_data_def e bad_seller_def read_latin1_text_def read_encoded_text_def
        text_encoding_def getattr_def map_of_setattr split_term_def text_term_def text_decode_def)
  then have "from_data e plain_ctx 0 bad_seller = Inl UnicodeDecodeError"
    using g by (simp add: from_data_def plain_ctx_def V24_def data_v24_def undo_unsynch_def flag_set_def)
  then show "\<exists>e. find_frame frames_v24 ''COMR'' = Some e
            \<and> from_data e plain_ctx 0 bad_seller = Inl UnicodeDecodeError"
    using e(1) by blast
qed

theorem undecodable_text_witness:
  "\<exists>d. find_frame frames_v24 ''PCNT'' = Some d \<and> from_data d plain_ctx 0 [CHR 0xFF] \<noteq> Inl UnicodeDecodeError"
proof -
  obtain d where d: "find_frame frames_v24 ''PCNT'' = Some d" "\<not> is_opt d"
    by (simp add: find_frame_def frames_v24_def text_frames_1_def text_frames_2_def url_frames_def
        people_frames_def lyric_frames_def picture_frames_def plain_def own_def is_opt_def)
  then have "d \<in> set frames_v24" by (simp add: find_frame_Some)
  then show ?thesis using undecodable_text [of d plain_ctx 0 "[CHR 0xFF]"] d by blast
qed

text \<open>
  The encoding byte of a text frame may be anything below 16 when it is read, but only four
  encodings exist: a text frame with any other byte from 4 to 15 and some text makes \<open>fromData\<close>
  raise IndexError, which neither \<open>load\<close> nor \<open>mutagen.File\<close> expects.
\<close>

theorem bad_encoding_byte:
  assumes "d \<in> set frames_v24" and "fd_spec d = base_spec TextFrame" and "4 \<le> e" and "e < 16"
  shows "from_data d plain_ctx 0 (chr e # c # cs) = Inl IndexError
       \<and> \<not> is_id3_error IndexError"
proof -
  obtain f where f: "frame_init d [] [] = Inr f" using frame_constructed assms(1) by blast
  have "read_data d (fr_attrs f) (chr e # c # cs) = Inl IndexError"
    using assms(2-4) by (simp add: read_data_def read_encoded_text_def text_encoding_def getattr_def
        map_of_setattr multi_loop.simps)
  then show ?thesis using f
    by (simp add: from_data_def plain_ctx_def V24_def data_v24_def undo_unsynch_def flag_set_def)
qed

theorem bad_encoding_byte_witness:
  "\<exists>d. find_frame frames_v24 ''TIT2'' = Some d \<and> from_data d plain_ctx 0 [chr 4, CHR ''x''] = Inl IndexError"
proof -
  obtain d where d: "find_frame frames_v24 ''TIT2'' = Some d" "fd_spec d = base_spec TextFrame"
    by (simp add: find_frame_def frames_v24_def text_frames_1_def text_frames_2_def plain_def)
  then have "d \<in> set frames_v24" by (simp add: find_frame_Some)
  then show ?thesis using bad_encoding_byte [of d 4 "CHR ''x''" "[]"] d by auto
qed


lemma GENRES_lines: "list_all (\<lambda>g. list_all (\<lambda>c. ord c \<noteq> 10) g \<and> g \<noteq> ''CR'' \<and> g \<noteq> ''RX'') GENRES"
  by code_simp

text \<open>
  Rewriting genres is not stable. An escaped parenthesis is unescaped by \<open>genres\<close>, and the
  update on loading stores the result as the new text, so ((51) - the name "(51)" - is genre number
  51 when the saved file is read again; a list of known names is stable.
\<close>

theorem genres_unescape_once:
  "genres_of_value (uni ''((51)'') = [uni ''(51)'']
 \<and> genres_of_value (uni ''(51)'') = [uni ''Techno-Industrial'']
 \<and> (g \<in> set GENRES \<longrightarrow> genres_of_value (uni g) = [uni g])"
proof (intro conjI impI)
  have g51: "GENRES ! 51 = ''Techno-Industrial''" by (simp add: GENRES_def genres_80_def)
  have p0: "paren_ids v = ([], v)" if "paren_id v = None" for v
    using that by (subst paren_ids.simps) simp
  have "paren_id (uni ''((51)'') = None" by (simp add: paren_id_def uni_def)
  then have p1: "paren_ids (uni ''((51)'') = ([], uni ''((51)'')" by (rule p0)
  then show "genres_of_value (uni ''((51)'') = [uni ''(51)'']"
    by (simp add: genres_of_value_def rest_of_line_def) (simp add: uni_def u_isdigit_def)
  have "paren_id (uni ''(51)'') = Some (uni ''51'', [])" by (simp add: paren_id_def uni_def Let_def)
  moreover have "paren_ids [] = ([], [])" by (rule p0) (simp add: paren_id_def)
  ultimately have p2: "paren_ids (uni ''(51)'') = ([uni ''51''], [])"
    by (subst paren_ids.simps) simp
  have "genre_of_id (uni ''51'') = uni ''Techno-Industrial''"
    using length_GENRES g51 by (simp add: genre_of_id_def u_isdigit_def u_int_def) (simp add: uni_def)
  then show "genres_of_value (uni ''(51)'') = [uni ''Techno-Industrial'']"
    by (simp add: genres_of_value_def p2 rest_of_line_def) (simp add: uni_def u_isdigit_def)
next
  assume g: "g \<in> set GENRES"
  then obtain c r where c: "g = c # r" "\<not> is_digit c" "c \<noteq> CHR 0x28"
    using GENRES_letters by (auto simp: list_all_iff)
  have "chr 40 = CHR 0x28" by code_simp
  then have o: "ord c \<noteq> 40" using c(3) by (metis char_of_char)
  have d: "\<not> u_isdigit (uni g)" using c by (auto simp: u_isdigit_def uni_def is_digit_def)
  have p: "paren_ids (uni g) = ([], uni g)"
    by (subst paren_ids.simps) (use o c in \<open>simp add: paren_id_def uni_def\<close>)
  have nl: "rest_of_line (uni g) = uni g" and two: "g \<noteq> ''CR'' \<and> g \<noteq> ''RX''"
    using g GENRES_lines by (auto simp: list_all_iff rest_of_line_def uni_def takeWhile_eq_all_conv)
  have "uni g \<noteq> []" "take 2 (uni g) \<noteq> [40, 40]" using o c by (auto simp: uni_def)
  then show "genres_of_value (uni g) = [uni g]"
    using d two by (simp add: genres_of_value_def p nl inj_uni)
qed

theorem genres_unescape_once_witness: "genres_of_value (uni (GENRES ! 17)) = [uni (GENRES ! 17)]"
  using genres_unescape_once [of "GENRES ! 17"] length_GENRES by simp

section \<open>Frames in a tag\<close>

lemma yield_frame_bound:
  "length (fst (yield_frame ctx frames name flags header framedata later)) \<le> Suc (length (fst later))"
  by (auto simp: yield_frame_def produce_def split: option.split sum.split)

lemma frames_loop_length: "10 * length (fst (frames_loop ctx frames bpi data)) \<le> length data"
proof (induction ctx frames bpi data rule: frames_loop.induct)
  case (1 ctx frames bpi data)
  show ?case
  proof (cases "data = [] \<or> unpack_frame_header (take 10 data) = None")
    case True
    then show ?thesis by (subst frames_loop.simps) auto
  next
    case False
    then obtain name sz flags where h: "unpack_frame_header (take 10 data) = Some (name, sz, flags)"
      by (metis option.exhaust prod_cases3)
    let ?later = "frames_loop ctx frames bpi (drop (10 + bpi sz) data)"
    have ten: "10 \<le> length data" using h by (auto simp: unpack_frame_header_def split: if_splits)
    show ?thesis
    proof (cases "only_nuls name")
      case True
      then show ?thesis using h by (subst frames_loop.simps) simp
    next
      case n: False
      have IH: "10 * length (fst ?later) \<le> length (drop (10 + bpi sz) data)"
        using "1.IH" False h n by auto
      have "frames_loop ctx frames bpi data = ?later \<or>
          frames_loop ctx frames bpi data
            = yield_frame ctx frames name flags (take 10 data) (take (bpi sz) (drop 10 data)) ?later"
        using False h n by (subst (1 3) frames_loop.simps) (simp add: Let_def)
      then have "length (fst (frames_loop ctx frames bpi data)) \<le> Suc (length (fst ?later))"
        using yield_frame_bound by (metis le_SucI order_refl)
      then show ?thesis using IH ten by simp
    qed
  qed
qed

lemma frames_loop_22_length: "6 * length (fst (frames_loop_22 ctx frames data)) \<le> length data"
proof (induction ctx frames data rule: frames_loop_22.induct)
  case (1 ctx frames data)
  let ?name = "take 3 (take 6 data)"
  let ?sz = "struct_value True (CHR 0x00 # drop 3 (take 6 data))"
  let ?later = "frames_loop_22 ctx frames (drop (6 + ?sz) data)"
  show ?case
  proof (cases "length data < 6 \<or> only_nuls ?name")
    case True
    then show ?thesis by (subst frames_loop_22.simps) (auto simp: Let_def)
  next
    case False
    have IH: "6 * length (fst ?later) \<le> length (drop (6 + ?sz) data)"
      using "1.IH" [OF _ refl refl refl] False by auto
    have "frames_loop_22 ctx frames data = ?later \<or>
        frames_loop_22 ctx frames data
          = yield_frame ctx frames ?name 0 (take 6 data) (take ?sz (drop 6 data)) ?later"
      using False by (subst (1 3) frames_loop_22.simps) (simp add: Let_def)
    then have n: "length (fst (frames_loop_22 ctx frames data)) \<le> Suc (length (fst ?later))"
      using yield_frame_bound by (metis le_SucI order_refl)
    have "length (drop (6 + ?sz) data) \<le> length data - 6" by simp
    then have "6 * length (fst ?later) \<le> length data - 6" using IH by (rule order_trans [rotated])
    then show ?thesis using n False by linarith
  qed
qed

text \<open>
  However the sizes are read and whatever the bytes, the frame loops end, and they yield at most
  one frame for every ten bytes of tag (six in ID3v2.2).
\<close>

theorem frames_loop_bound:
  "10 * length (fst (frames_loop ctx frames bpi data)) \<le> length data
 \<and> 6 * length (fst (frames_loop_22 ctx frames data)) \<le> length data"
  using frames_loop_length frames_loop_22_length by blast

section \<open>MPEG streams\<close>

lemma good_info_update [simp]:
  "good_info (i\<lparr>mi_length := l\<rparr>) = good_info i" "good_info (i\<lparr>mi_bitrate := b\<rparr>) = good_info i"
  "good_info (i\<lparr>mi_sketchy := s\<rparr>) = good_info i"
  by (simp_all add: good_info_def)

definition sound_info :: "mpeg_info \<Rightarrow> bool" where
  "sound_info i \<longleftrightarrow> good_info i \<and> 0 \<le> mi_length i \<and> 0 \<le> mi_bitrate i"

lemma samples_length_pos: "good_info i \<Longrightarrow> 0 \<le> mi_length i \<Longrightarrow> 0 \<le> n \<Longrightarrow> 0 \<le> samples_length i n"
  by (simp add: samples_length_def Let_def)

lemma uint_be_nonneg: "keeps (\<lambda>n. 0 \<le> n) (uint_be s)"
  by (simp add: uint_be_def unpack_u_def)

lemma byte_rate_nonneg: "0 \<le> b \<Longrightarrow> 0 \<le> l \<Longrightarrow> 0 \<le> \<lfloor>of_int (b * 8) / (l::rat)\<rfloor>"
  by simp

lemma xing_frames_sound: "sound_info i \<Longrightarrow> keeps sound_info (xing_frames data p fl i)"
  unfolding xing_frames_def
  by (intro keeps_if keeps_bind [OF uint_be_nonneg]) (auto simp: sound_info_def samples_length_pos)

lemma xing_bytes_sound: "sound_info i \<Longrightarrow> keeps sound_info (xing_bytes data p fl i)"
  unfolding xing_bytes_def
  by (intro keeps_if keeps_bind [OF uint_be_nonneg])
    (simp_all add: sound_info_def byte_rate_nonneg del: of_int_mult)

lemma vbri_info_sound: "sound_info i \<Longrightarrow> keeps sound_info (vbri_info data p i)"
  unfolding vbri_info_def
  by (intro keeps_any keeps_if keeps_bind [OF uint_be_nonneg]) (auto simp: sound_info_def samples_length_pos)

lemma vbr_info_sound:
  assumes "sound_info i" shows "keeps sound_info (vbr_info data i)"
proof (cases "str_find (drop_last 4 data) ''Xing'' 0")
  case None
  then show ?thesis by (auto simp: vbr_info_def assms vbri_info_sound split: option.split)
next
  case (Some p)
  have "keeps sound_info (bindR (xing_frames data p fl i) (xing_bytes data p fl))" for fl
    by (rule keeps_bind [OF xing_frames_sound [OF assms]]) (rule xing_bytes_sound)
  then show ?thesis using Some by (simp add: vbr_info_def keeps_any)
qed

lemma try_header_sound:
  assumes "0 \<le> real_size" "try_header filedata offset real_size check = Inr i"
  shows "sound_info i"
proof -
  obtain f h where h: "find_header (take 32768 (drop offset filedata)) 0 = Some (f, h)"
    using assms(2) by (auto simp: try_header_def Let_def split: option.splits)
  note H = find_header_Some [OF h]
  let ?i = "info_of_header h"
  have b: "8000 \<le> mi_bitrate ?i" "good_info ?i" using good_info_of_header H by auto
  have "vbr_info (take 32768 (drop offset filedata))
      (?i\<lparr>mi_length := of_int (8 * real_size) / of_int (mi_bitrate ?i)\<rparr>) = Inr i"
    using assms(2) h by (auto simp: try_header_def Let_def split: if_splits)
  moreover have "sound_info (?i\<lparr>mi_length := of_int (8 * real_size) / of_int (mi_bitrate ?i)\<rparr>)"
    using b assms(1) by (simp add: sound_info_def)
  ultimately show ?thesis using keepsD [OF vbr_info_sound] by blast
qed

lemma try_offsets_sound:
  "0 \<le> real_size \<Longrightarrow> try_offsets filedata real_size offs = Some (Inr i) \<Longrightarrow> sound_info i"
  by (induction offs) (auto split: sum.splits merr.splits dest: try_header_sound)


lemma info_sound:
  assumes "mpeg_info filedata off = Inr i"
    and "(case off of Some n \<Rightarrow> n | None \<Rightarrow> skip_id3 filedata) \<le> length filedata"
  shows "sound_info i"
proof -
  let ?off = "case off of Some n \<Rightarrow> n | None \<Rightarrow> skip_id3 filedata"
  let ?rs = "int (length filedata) - int ?off"
  have rs: "0 \<le> ?rs" using assms(2) by simp
  show ?thesis
  proof (cases "try_offsets filedata ?rs [?off, at_30 (length filedata), at_60 (length filedata), at_90 (length filedata)]")
    case None
    then obtain j where "try_header filedata ?off ?rs False = Inr j" "i = j\<lparr>mi_sketchy := True\<rparr>"
      using assms(1) by (auto simp: mpeg_info_def Let_def bindR_Inr_iff simp del: try_offsets.simps)
    then show ?thesis using try_header_sound [OF rs] by (auto simp: sound_info_def)
  next
    case (Some r)
    then have "r = Inr i" using assms(1) by (simp add: mpeg_info_def Let_def del: try_offsets.simps)
    then show ?thesis using try_offsets_sound [OF rs] Some by blast
  qed
qed

lemma info_not_negative:
  "mpeg_info filedata (Some n) = Inr i \<Longrightarrow> n \<le> length filedata \<Longrightarrow> 0 \<le> mi_length i \<and> 0 \<le> mi_bitrate i"
  using info_sound [of filedata "Some n" i] by (simp add: sound_info_def)

text \<open>
  What \<open>MPEGInfo\<close> reports is consistent: when the stream starts within the file, the layer is 1,
  2 or 3, the sample rate at least 8000 Hz, and the bit rate and the length are not negative,
  whatever a Xing or VBRI header claims.
\<close>

theorem mpeg_info_sound:
  assumes "mpeg_info filedata off = Inr i"
    and "(case off of Some n \<Rightarrow> n | None \<Rightarrow> skip_id3 filedata) \<le> length filedata"
  shows "(mi_layer i = 1 \<or> mi_layer i = 2 \<or> mi_layer i = 3) \<and> 8000 \<le> mi_sample_rate i
       \<and> 0 \<le> mi_bitrate i \<and> 0 \<le> mi_length i"
  using info_sound [OF assms] by (simp add: sound_info_def good_info_def)

lemma no_FF: "CHR 0xFF \<notin> set s \<Longrightarrow> find_at [CHR 0xFF] s i = None"
  by (induction s arbitrary: i) auto

lemma FB90:
  "struct_value True [CHR 0xFF, CHR 0xFF, CHR 0xFB, CHR 0x90] = 4294966160"
  "struct_value True [CHR 0xFF, CHR 0xFB, CHR 0x90, CHR 0x00] = 4294676480"
  by (simp_all add: struct_value_def)

lemma FB90_valid:
  "\<not> header_valid (decode_header 4294966160)"
  "synced 4294676480 \<and> header_valid (decode_header 4294676480)"
  by (simp_all add: header_valid_def decode_header_def synced_def)

definition tiny_stream :: string where
  "tiny_stream = [CHR 0xFF, CHR 0xFB, CHR 0x90, CHR 0x00]"

lemma tiny_header: "find_header tiny_stream 0 = Some (0, decode_header 4294676480)"
proof -
  have "str_find tiny_stream [CHR 0xFF] 0 = Some 0" by (simp add: str_find_def tiny_stream_def)
  moreover have "word_at tiny_stream 0 = 4294676480" using FB90 by (simp add: word_at_def tiny_stream_def)
  ultimately show ?thesis
    using FB90_valid(2) by (subst find_header.simps) (simp add: Let_def tiny_stream_def)
qed

lemma tiny_info:
  "info_of_header (decode_header 4294676480)
   = \<lparr>mi_version = MPEG1, mi_layer = 3, mi_mode = 0, mi_protected = False, mi_padding = False,
      mi_bitrate = 128000, mi_sample_rate = 44100, mi_length = 0, mi_sketchy = False\<rparr>"
  by (simp add: info_of_header_def decode_header_def mpeg_version_of_def Let_def)

lemma tiny_second:
  "\<not> second_header [CHR 0xFF, CHR 0xFB, CHR 0x90, CHR 0x00] (frame_length (info_of_header (decode_header 4294676480)) p)"
  by (simp add: second_header_def tiny_info frame_length_def)

lemma tiny_checked: "try_header tiny_stream n rs True = Inl HeaderNotFoundError"
proof (cases n)
  case 0
  then show ?thesis
    using tiny_header by (simp add: try_header_def Let_def tiny_second tiny_stream_def)
next
  case (Suc m)
  let ?d = "take 32768 (drop n tiny_stream)"
  have "set ?d \<subseteq> {CHR 0xFB, CHR 0x90, CHR 0x00}"
    using Suc by (auto simp: tiny_stream_def dest!: in_set_takeD in_set_dropD)
  then have "CHR 0xFF \<notin> set ?d" by auto
  then have "find_header ?d 0 = None" by (subst find_header.simps) (simp add: str_find_def no_FF)
  then show ?thesis by (simp add: try_header_def Let_def)
qed

lemma tiny_unchecked: "\<exists>i. try_header tiny_stream 0 4 False = Inr i"
  using tiny_header by (simp add: try_header_def vbr_info_def drop_last_def str_find_def Let_def tiny_stream_def)

theorem mpeg_info_sound_witness:
  "\<exists>i. mpeg_info tiny_stream (Some 0) = Inr i \<and> 0 \<le> mi_bitrate i"
proof -
  obtain j where j: "try_header tiny_stream 0 4 False = Inr j" using tiny_unchecked by blast
  have "length tiny_stream = 4" by (simp add: tiny_stream_def)
  then have "mpeg_info tiny_stream (Some 0) = Inr (j\<lparr>mi_sketchy := True\<rparr>)"
    using j by (simp add: mpeg_info_def tiny_checked)
  then show ?thesis using mpeg_info_sound [of tiny_stream "Some 0"] by fastforce
qed

text \<open>
  The search for a frame skips two bytes after a byte FF that starts no frame, so a stray FF right
  before a valid frame header hides it; without the stray byte the frame is found.
\<close>

theorem hidden_header:
  assumes "CHR 0xFF \<notin> set rest"
  shows "find_header ([CHR 0xFF, CHR 0xFF, CHR 0xFB, CHR 0x90] @ CHR 0x00 # rest) 0 = None
       \<and> (\<exists>h. find_header ([CHR 0xFF, CHR 0xFB, CHR 0x90] @ CHR 0x00 # rest) 0 = Some (0, h))"
proof
  let ?a = "[CHR 0xFF, CHR 0xFF, CHR 0xFB, CHR 0x90] @ CHR 0x00 # rest"
  have "find_header ?a (0 + 2) = None"
    using assms by (subst find_header.simps) (simp add: str_find_def no_FF)
  moreover have "str_find ?a [CHR 0xFF] 0 = Some 0" by (simp add: str_find_def)
  moreover have "word_at ?a 0 = 4294966160" using FB90 by (simp add: word_at_def)
  ultimately show "find_header ?a 0 = None"
    using FB90_valid(1) by (subst find_header.simps) (simp add: Let_def)
  let ?b = "[CHR 0xFF, CHR 0xFB, CHR 0x90] @ CHR 0x00 # rest"
  have "str_find ?b [CHR 0xFF] 0 = Some 0" by (simp add: str_find_def)
  moreover have "word_at ?b 0 = 4294676480" using FB90 by (simp add: word_at_def)
  ultimately show "\<exists>h. find_header ?b 0 = Some (0, h)"
    using FB90_valid(2) by (subst find_header.simps) (simp add: Let_def)
qed

theorem hidden_header_witness:
  "find_header [CHR 0xFF, CHR 0xFF, CHR 0xFB, CHR 0x90, CHR 0x00, CHR 0x00] 0 = None"
  using hidden_header [of "[CHR 0x00]"] by simp

end
