(* ===== verification/Mut_FileType.thy ===== *)
theory Mut_FileType
  imports Mut_Save Mut_MP3 "HOL-Library.Product_Lexorder" "HOL-Library.List_Lexorder"
begin

text \<open>
  The file classes: \<open>FileType\<close> and \<open>File\<close> of \<open>mutagen/__init__.py\<close>, \<open>ID3FileType\<close> of \<open>id3.py\<close>, the
  two classes that read ID3 tags (\<open>MP3\<close>, \<open>TrueAudio\<close>), and the score functions of all sixteen formats
  by which \<open>File\<close> chooses.

  A file that is open for a tag library is its bytes. Deprecation warnings are output only and left
  out; a file object always keeps the name it was loaded from, so the \<open>filename\<close> attribute is
  not part of the state.
\<close>

section \<open>The sixteen formats\<close>

datatype file_kind =
    K_MP3 | K_TrueAudio | K_OggTheora | K_OggSpeex | K_OggVorbis | K_OggFLAC | K_FLAC | K_APEv2File
  | K_MP4 | K_ID3FileType | K_WavPack | K_Musepack | K_MonkeysAudio | K_OptimFROG | K_ASF | K_OggOpus

fun kind_name :: "file_kind \<Rightarrow> string" where
  "kind_name K_MP3 = ''MP3''"
| "kind_name K_TrueAudio = ''TrueAudio''"
| "kind_name K_OggTheora = ''OggTheora''"
| "kind_name K_OggSpeex = ''OggSpeex''"
| "kind_name K_OggVorbis = ''OggVorbis''"
| "kind_name K_OggFLAC = ''OggFLAC''"
| "kind_name K_FLAC = ''FLAC''"
| "kind_name K_APEv2File = ''APEv2File''"
| "kind_name K_MP4 = ''MP4''"
| "kind_name K_ID3FileType = ''ID3FileType''"
| "kind_name K_WavPack = ''WavPack''"
| "kind_name K_Musepack = ''Musepack''"
| "kind_name K_MonkeysAudio = ''MonkeysAudio''"
| "kind_name K_OptimFROG = ''OptimFROG''"
| "kind_name K_ASF = ''ASF''"
| "kind_name K_OggOpus = ''OggOpus''"

text \<open>The score functions; a truth value counts as 0 or 1.\<close>

definition mp3_score :: "string \<Rightarrow> string \<Rightarrow> int" where
  "mp3_score filename header =
     (let filename = str_lower filename
      in of_bool (startswith header ''ID3'') * 2 + of_bool (endswith filename ''.mp3'')
         + of_bool (endswith filename ''.mp2'') + of_bool (endswith filename ''.mpg'')
         + of_bool (endswith filename ''.mpeg''))"

definition trueaudio_score :: "string \<Rightarrow> string \<Rightarrow> int" where
  "trueaudio_score filename header =
     of_bool (startswith header ''ID3'') + of_bool (startswith header ''TTA'')
     + of_bool (endswith (str_lower filename) ''.tta'') * 2"

definition oggtheora_score :: "string \<Rightarrow> int" where
  "oggtheora_score header =
     of_bool (startswith header ''OggS'')
     * (of_bool (str_contains header (CHR 0x80 # ''theora''))
        + of_bool (str_contains header (CHR 0x81 # ''theora'')))"

definition oggspeex_score :: "string \<Rightarrow> int" where
  "oggspeex_score header =
     of_bool (startswith header ''OggS'') * of_bool (str_contains header ''Speex   '')"

definition oggvorbis_score :: "string \<Rightarrow> int" where
  "oggvorbis_score header =
     of_bool (startswith header ''OggS'') * of_bool (str_contains header (CHR 0x01 # ''vorbis''))"

definition oggflac_score :: "string \<Rightarrow> int" where
  "oggflac_score header =
     of_bool (startswith header ''OggS'')
     * (of_bool (str_contains header ''FLAC'') + of_bool (str_contains header ''fLaC''))"

definition oggopus_score :: "string \<Rightarrow> int" where
  "oggopus_score header =
     of_bool (startswith header ''OggS'') * of_bool (str_contains header ''OpusHead'')"

definition flac_score :: "string \<Rightarrow> string \<Rightarrow> int" where
  "flac_score filename header =
     of_bool (startswith header ''fLaC'') + of_bool (endswith (str_lower filename) ''.flac'') * 3"

text \<open>The last 160 bytes, or the whole of a shorter file.\<close>

definition apev2_score :: "string \<Rightarrow> string \<Rightarrow> int" where
  "apev2_score filedata header =
     of_bool (str_contains (drop (length filedata - 160) filedata) ''APETAGEX'')
     - of_bool (startswith header ''ID3'')"

definition mp4_score :: "string \<Rightarrow> int" where
  "mp4_score header = of_bool (str_contains header ''ftyp'') + of_bool (str_contains header ''mp4'')"

definition id3_score :: "string \<Rightarrow> int" where
  "id3_score header = of_bool (startswith header ''ID3'')"

definition wavpack_score :: "string \<Rightarrow> int" where
  "wavpack_score header = of_bool (startswith header ''wvpk'') * 2"

definition musepack_score :: "string \<Rightarrow> string \<Rightarrow> int" where
  "musepack_score filename header =
     of_bool (startswith header ''MP+'') + of_bool (startswith header ''MPCK'')
     + of_bool (endswith (str_lower filename) ''.mpc'')"

definition monkeysaudio_score :: "string \<Rightarrow> string \<Rightarrow> int" where
  "monkeysaudio_score filename header =
     of_bool (startswith header ''MAC '') + of_bool (endswith (str_lower filename) ''.ape'')"

definition optimfrog_score :: "string \<Rightarrow> string \<Rightarrow> int" where
  "optimfrog_score filename header =
     (let filename = str_lower filename
      in of_bool (startswith header ''OFR'') + of_bool (endswith filename ''.ofr'')
         + of_bool (endswith filename ''.ofs''))"

definition asf_guid :: string where
  "asf_guid = [CHR 0x30, CHR 0x26, CHR 0xB2, CHR 0x75, CHR 0x8E, CHR 0x66, CHR 0xCF, CHR 0x11,
     CHR 0xA6, CHR 0xD9, CHR 0x00, CHR 0xAA, CHR 0x00, CHR 0x62, CHR 0xCE, CHR 0x6C]"

definition asf_score :: "string \<Rightarrow> int" where
  "asf_score header = of_bool (startswith header asf_guid) * 2"

fun kind_score :: "string \<Rightarrow> string \<Rightarrow> string \<Rightarrow> file_kind \<Rightarrow> int" where
  "kind_score filename filedata header K_MP3 = mp3_score filename header"
| "kind_score filename filedata header K_TrueAudio = trueaudio_score filename header"
| "kind_score filename filedata header K_OggTheora = oggtheora_score header"
| "kind_score filename filedata header K_OggSpeex = oggspeex_score header"
| "kind_score filename filedata header K_OggVorbis = oggvorbis_score header"
| "kind_score filename filedata header K_OggFLAC = oggflac_score header"
| "kind_score filename filedata header K_FLAC = flac_score filename header"
| "kind_score filename filedata header K_APEv2File = apev2_score filedata header"
| "kind_score filename filedata header K_MP4 = mp4_score header"
| "kind_score filename filedata header K_ID3FileType = id3_score header"
| "kind_score filename filedata header K_WavPack = wavpack_score header"
| "kind_score filename filedata header K_Musepack = musepack_score filename header"
| "kind_score filename filedata header K_MonkeysAudio = monkeysaudio_score filename header"
| "kind_score filename filedata header K_OptimFROG = optimfrog_score filename header"
| "kind_score filename filedata header K_ASF = asf_score header"
| "kind_score filename filedata header K_OggOpus = oggopus_score header"

section \<open>File\<close>

definition all_kinds :: "file_kind list" where
  "all_kinds = [K_MP3, K_TrueAudio, K_OggTheora, K_OggSpeex, K_OggVorbis, K_OggFLAC, K_FLAC,
     K_APEv2File, K_MP4, K_ID3FileType, K_WavPack, K_Musepack, K_MonkeysAudio, K_OptimFROG, K_ASF,
     K_OggOpus]"

text \<open>
  The class \<open>File\<close> opens the file with, if any: the last of the options in the order of score and
  name. Names differ, so the sort never compares the classes themselves.
\<close>

definition choose_kind :: "file_kind list \<Rightarrow> string \<Rightarrow> string \<Rightarrow> file_kind option" where
  "choose_kind options filename filedata =
     (if options = [] then None
      else let header = take 128 filedata;
               results = map (\<lambda>k. ((kind_score filename filedata header k, kind_name k), k)) options;
               ((score, name), kind) = last (sort_key fst results)
           in if 0 < score then Some kind else None)"

section \<open>Files with an ID3 tag\<close>

record 'i id3_file =
  ft_tags :: "id3 option"
  ft_info :: 'i

text \<open>
  \<open>ID3FileType.load\<close>: an error of the tag library leaves the file without tags, any other exception
  ends the call; the stream information is read behind the tag.
\<close>

definition id3_file_load ::
  "(string \<Rightarrow> string option) \<Rightarrow> (string \<Rightarrow> nat option \<Rightarrow> merr + 'i) \<Rightarrow> string \<Rightarrow> merr + 'i id3_file"
  where
  "id3_file_load inflate info filedata =
     bindR (case tag_load inflate None True 4 new_id3 filedata of
              (t, None) \<Rightarrow> Inr (Some t)
            | (t, Some e) \<Rightarrow> if is_id3_error e then Inr None else Inl e) (\<lambda>tags.
     bindR (info filedata (map_option tg_size tags)) (\<lambda>i.
       Inr \<lparr>ft_tags = tags, ft_info = i\<rparr>))"

definition mp3_load :: "(string \<Rightarrow> string option) \<Rightarrow> string \<Rightarrow> merr + mpeg_info id3_file" where
  "mp3_load inflate filedata = id3_file_load inflate mpeg_info filedata"

text \<open>\<open>ID3FileType._Info\<close> reads nothing.\<close>

definition unknown_info :: "string \<Rightarrow> nat option \<Rightarrow> merr + rat" where
  "unknown_info filedata offset = Inr 0"

record trueaudio_info =
  ta_sample_rate :: int
  ta_length :: rat

definition trueaudio_info_of :: "string \<Rightarrow> nat option \<Rightarrow> merr + trueaudio_info" where
  "trueaudio_info_of filedata offset =
     (let header = take 18 (drop (case offset of None \<Rightarrow> 0 | Some n \<Rightarrow> n) filedata)
      in if length header \<noteq> 18 \<or> \<not> startswith header ''TTA'' then Inl TrueAudioHeaderError
         else bindR (int_le (take 4 (drop 10 header))) (\<lambda>rate.
              bindR (uint_le (take 4 (drop 14 header))) (\<lambda>samples.
                if rate = 0 then Inl ZeroDivisionError
                else Inr \<lparr>ta_sample_rate = rate, ta_length = of_int samples / of_int rate\<rparr>)))"

definition ft_add_tags :: "'i id3_file \<Rightarrow> merr + 'i id3_file" where
  "ft_add_tags f =
     (case ft_tags f of None \<Rightarrow> Inr (f\<lparr>ft_tags := Some new_id3\<rparr>) | Some _ \<Rightarrow> Inl ID3Error)"

definition ft_getitem :: "'i id3_file \<Rightarrow> unicode \<Rightarrow> merr + frame" where
  "ft_getitem f key =
     (case ft_tags f of None \<Rightarrow> Inl KeyError | Some t \<Rightarrow> dp_getitem (tg_frames t) key)"

definition ft_setitem :: "'i id3_file \<Rightarrow> unicode \<Rightarrow> frame \<Rightarrow> 'i id3_file" where
  "ft_setitem f key value =
     (let t = (case ft_tags f of None \<Rightarrow> new_id3 | Some t \<Rightarrow> t)
      in f\<lparr>ft_tags := Some (t\<lparr>tg_frames := dp_setitem (tg_frames t) key value\<rparr>)\<rparr>)"

definition ft_delitem :: "'i id3_file \<Rightarrow> unicode \<Rightarrow> merr + 'i id3_file" where
  "ft_delitem f key =
     (case ft_tags f of
        None \<Rightarrow> Inl KeyError
      | Some t \<Rightarrow> bindR (dp_delitem (tg_frames t) key) (\<lambda>fs.
                    Inr (f\<lparr>ft_tags := Some (t\<lparr>tg_frames := fs\<rparr>)\<rparr>)))"

definition ft_keys :: "'i id3_file \<Rightarrow> unicode list" where
  "ft_keys f = (case ft_tags f of None \<Rightarrow> [] | Some t \<Rightarrow> dp_keys (tg_frames t))"

definition ft_delete :: "bool \<Rightarrow> 'i id3_file \<Rightarrow> string \<Rightarrow> 'i id3_file \<times> string \<times> merr option" where
  "ft_delete mmap_works f filedata =
     (case ft_tags f of
        None \<Rightarrow> (f, filedata, None)
      | Some t \<Rightarrow>
          (case tag_delete mmap_works True True t filedata of
             (t, data, e) \<Rightarrow> (f\<lparr>ft_tags := Some t\<rparr>, data, e)))"

definition ft_save ::
  "bool \<Rightarrow> nat \<Rightarrow> nat \<Rightarrow> unicode option \<Rightarrow> 'i id3_file \<Rightarrow> string \<Rightarrow> 'i id3_file \<times> string \<times> merr option"
  where
  "ft_save mmap_works v1 v2_version v23_sep f filedata =
     (case ft_tags f of
        None \<Rightarrow> (f, filedata, Some ValueError)
      | Some t \<Rightarrow>
          (case tag_save mmap_works v1 v2_version v23_sep t filedata of
             (t, data, e) \<Rightarrow> (f\<lparr>ft_tags := Some t\<rparr>, data, e)))"

text \<open>The \<open>mime\<close> property over the class and its ancestors, each with its list.\<close>

definition add_mimes :: "string list \<Rightarrow> string list \<Rightarrow> string list" where
  "add_mimes mimes ms = foldl (\<lambda>acc m. if m \<in> set acc then acc else acc @ [m]) mimes ms"

definition mime_list :: "string list list \<Rightarrow> string list" where
  "mime_list mro = foldl add_mimes [] mro"

definition file_mimes :: "string list" where
  "file_mimes = [''application/octet-stream'']"

definition mp3_mimes :: "string list" where
  "mp3_mimes = [''audio/mp3'', ''audio/x-mp3'', ''audio/mpeg'', ''audio/mpg'', ''audio/x-mpeg'']"

definition mp3_mime :: "string list" where
  "mp3_mime = mime_list [mp3_mimes, file_mimes, file_mimes, [], []]"

section \<open>The dictionary interface\<close>

text \<open>The tag dictionary, empty when there is no tag.\<close>

definition ft_contents :: "'i id3_file \<Rightarrow> unicode \<Rightarrow> frame option" where
  "ft_contents f = (case ft_tags f of None \<Rightarrow> Map.empty | Some t \<Rightarrow> map_of (tg_frames t))"

definition ft_ok :: "'i id3_file \<Rightarrow> bool" where
  "ft_ok f \<longleftrightarrow> pred_option (\<lambda>t. wf_dict (tg_frames t)) (ft_tags f)"

interpretation file_dict: item_methods ft_getitem ft_setitem ft_delitem ft_keys ft_contents ft_ok
proof unfold_locales
  fix f :: "'i id3_file" and key v
  assume ok: "ft_ok f"
  show "ft_getitem f key = (case ft_contents f key of None \<Rightarrow> Inl KeyError | Some v \<Rightarrow> Inr v)"
    by (simp add: ft_getitem_def ft_contents_def dp_getitem_def split: option.split)
  show "ft_ok (ft_setitem f key v)"
    using ok by (cases "ft_tags f") (simp_all add: ft_ok_def ft_setitem_def new_id3_def proxy.ok_setitem)
  show "ft_contents (ft_setitem f key v) = (ft_contents f)(key \<mapsto> v)"
    using ok by (auto simp: ft_ok_def ft_contents_def ft_setitem_def Let_def new_id3_def
        proxy.contents_setitem split: option.split)
  show "set (ft_keys f) = dom (ft_contents f)" "distinct (ft_keys f)"
    using ok by (cases "ft_tags f"; simp add: ft_ok_def ft_keys_def ft_contents_def proxy.keys_dom
        proxy.keys_distinct)+
  show "ft_delitem f key = Inl KeyError" if "ft_contents f key = None"
    using ok that by (cases "ft_tags f") (simp_all add: ft_ok_def ft_delitem_def ft_contents_def
        proxy.delitem_missing)
  show "\<exists>f'. ft_delitem f key = Inr f' \<and> ft_ok f' \<and> ft_contents f' = (ft_contents f)(key := None)"
    if some: "ft_contents f key = Some v"
  proof -
    obtain t where t: "ft_tags f = Some t" "wf_dict (tg_frames t)" "map_of (tg_frames t) key = Some v"
      using ok some by (auto simp: ft_ok_def ft_contents_def split: option.splits)
    then show ?thesis
      using proxy.delitem_present [OF t(2,3)]
      by (auto simp: ft_delitem_def ft_ok_def ft_contents_def)
  qed
qed

end
