(* ===== verification/Mut_FileType_Props.thy ===== *)
theory Mut_FileType_Props
  imports Mut_FileType Mut_Behaviour
begin

text \<open>
  Properties of the file classes: which class \<open>File\<close> chooses, the dictionary a file is, and what
  loading an MP3 file guarantees about its tag and its stream.
\<close>

section \<open>The choice\<close>

lemma last_sort_key_max:
  assumes "xs \<noteq> []"
  shows "last (sort_key f xs) \<in> set xs \<and> (\<forall>x \<in> set xs. f x \<le> f (last (sort_key f xs)))"
proof -
  have ne: "sort_key f xs \<noteq> []" using assms by (metis length_sort length_0_conv)
  have "last (sort_key f xs) \<in> set xs" using last_in_set [OF ne] by simp
  moreover have "f x \<le> f (last (sort_key f xs))" if "x \<in> set xs" for x
  proof -
    have "x \<in> set (sort_key f xs)" using that by simp
    then obtain i where i: "i < length (sort_key f xs)" "x = sort_key f xs ! i"
      unfolding in_set_conv_nth by blast
    have "sorted (map f (sort_key f xs))" by simp
    then have "map f (sort_key f xs) ! i \<le> map f (sort_key f xs) ! (length (sort_key f xs) - 1)"
      using i(1) by (intro sorted_nth_mono) auto
    then show ?thesis using i ne by (simp add: last_conv_nth)
  qed
  ultimately show ?thesis by blast
qed

abbreviation rating :: "string \<Rightarrow> string \<Rightarrow> file_kind \<Rightarrow> int \<times> string" where
  "rating filename filedata k \<equiv> (kind_score filename filedata (take 128 filedata) k, kind_name k)"

lemma choose_kind_max:
  assumes "options \<noteq> []"
  obtains k where "k \<in> set options" "\<forall>j \<in> set options. rating filename filedata j \<le> rating filename filedata k"
    "choose_kind options filename filedata
       = (if 0 < kind_score filename filedata (take 128 filedata) k then Some k else None)"
proof -
  let ?results = "map (\<lambda>k. (rating filename filedata k, k)) options"
  obtain k where k: "last (sort_key fst ?results) = (rating filename filedata k, k)" "k \<in> set options"
    using last_sort_key_max [of ?results fst] assms by auto
  moreover have "\<forall>j \<in> set options. rating filename filedata j \<le> rating filename filedata k"
    using last_sort_key_max [of ?results fst] assms k by auto
  ultimately show ?thesis using assms by (intro that) (auto simp: choose_kind_def Let_def)
qed

lemma no_ogg: "startswith h ''ID3'' \<Longrightarrow> \<not> startswith h ''OggS''"
  "startswith h ''ID3'' \<Longrightarrow> \<not> startswith h ''TTA''" "startswith h ''ID3'' \<Longrightarrow> \<not> startswith h ''fLaC''"
  "startswith h ''ID3'' \<Longrightarrow> \<not> startswith h ''wvpk''" "startswith h ''ID3'' \<Longrightarrow> \<not> startswith h ''MP+''"
  "startswith h ''ID3'' \<Longrightarrow> \<not> startswith h ''MPCK''" "startswith h ''ID3'' \<Longrightarrow> \<not> startswith h ''MAC ''"
  "startswith h ''ID3'' \<Longrightarrow> \<not> startswith h ''OFR''" "startswith h ''ID3'' \<Longrightarrow> \<not> startswith h asf_guid"
  by (auto simp: startswith_iff asf_guid_def)

lemma mp3_ending:
  "endswith f ''.mp3'' \<Longrightarrow> \<not> endswith f ''.tta'' \<and> \<not> endswith f ''.flac'' \<and> \<not> endswith f ''.mpc''
     \<and> \<not> endswith f ''.ape'' \<and> \<not> endswith f ''.ofr'' \<and> \<not> endswith f ''.ofs''"
  unfolding endswith_iff by (auto dest: arg_cong [of _ _ rev])

lemma tagged_mp3_scores:
  assumes "startswith header ''ID3''" "endswith (str_lower filename) ''.mp3''" "k \<noteq> K_MP3"
  shows "kind_score filename filedata header k \<le> 2 \<and> 3 \<le> kind_score filename filedata header K_MP3"
  using assms no_ogg [OF assms(1)] mp3_ending [OF assms(2)]
  by (cases k) (simp_all add: mp3_score_def trueaudio_score_def oggtheora_score_def oggspeex_score_def
      oggvorbis_score_def oggflac_score_def oggopus_score_def flac_score_def apev2_score_def mp4_score_def
      id3_score_def wavpack_score_def musepack_score_def monkeysaudio_score_def optimfrog_score_def
      asf_score_def Let_def)

lemma tagged_mp3:
  assumes "startswith filedata ''ID3''" "endswith (str_lower filename) ''.mp3''"
  shows "choose_kind all_kinds filename filedata = Some K_MP3"
proof -
  let ?s = "kind_score filename filedata (take 128 filedata)"
  have "startswith (take 128 filedata) ''ID3''" using assms(1) by (auto simp: startswith_iff)
  then have s: "?s k \<le> 2 \<and> 3 \<le> ?s K_MP3" if "k \<noteq> K_MP3" for k
    using assms(2) that by (intro tagged_mp3_scores) simp_all
  have "all_kinds \<noteq> []" by (simp add: all_kinds_def)
  then obtain k where k: "\<forall>j \<in> set all_kinds. rating filename filedata j \<le> rating filename filedata k"
    "choose_kind all_kinds filename filedata = (if 0 < ?s k then Some k else None)"
    by (rule choose_kind_max)
  have "K_MP3 \<in> set all_kinds" by (simp add: all_kinds_def)
  then have "?s K_MP3 \<le> ?s k" using k(1) by (auto simp: less_eq_prod_def)
  then have "k = K_MP3" using s [of k] by (cases "k = K_MP3") auto
  then show ?thesis using k(2) s [of K_ASF] by simp
qed

lemma lower_mp3:
  assumes "endswith path ''.mp3''" shows "endswith (str_lower path) ''.mp3''"
proof -
  obtain a where "path = a @ ''.mp3''" using assms by (auto simp: endswith_iff)
  moreover have "str_lower ''.mp3'' = ''.mp3''" by code_simp
  ultimately have "str_lower path = str_lower a @ ''.mp3''" by (simp add: str_lower_def)
  then show ?thesis by (simp add: endswith_iff)
qed

text \<open>
  C26. \<open>File\<close> opens a file with the class of the highest score, the last in the alphabet among equals,
  and with none exactly when no score is positive. A file that starts with ID3 and whose name ends
  in .mp3, in upper or lower case, is always opened as an MP3 file, whatever else its first bytes
  hold.
\<close>

theorem file_choice:
  "(case choose_kind options filename filedata of
      None \<Rightarrow> \<forall>k \<in> set options. kind_score filename filedata (take 128 filedata) k \<le> 0
    | Some k \<Rightarrow> k \<in> set options \<and> 0 < kind_score filename filedata (take 128 filedata) k
        \<and> (\<forall>j \<in> set options. kind_score filename filedata (take 128 filedata) j
                                \<le> kind_score filename filedata (take 128 filedata) k
            \<and> (kind_score filename filedata (take 128 filedata) j
                 = kind_score filename filedata (take 128 filedata) k \<longrightarrow> kind_name j \<le> kind_name k)))
 \<and> (startswith filedata ''ID3'' \<and> endswith (str_lower filename) ''.mp3'' \<longrightarrow>
      choose_kind all_kinds filename filedata = Some K_MP3)"
proof
  let ?s = "kind_score filename filedata (take 128 filedata)"
  show "case choose_kind options filename filedata of
      None \<Rightarrow> \<forall>k \<in> set options. ?s k \<le> 0
    | Some k \<Rightarrow> k \<in> set options \<and> 0 < ?s k
        \<and> (\<forall>j \<in> set options. ?s j \<le> ?s k \<and> (?s j = ?s k \<longrightarrow> kind_name j \<le> kind_name k))"
  proof (cases "options = []")
    case True
    then show ?thesis by (simp add: choose_kind_def)
  next
    case False
    then obtain k where "k \<in> set options" "\<forall>j \<in> set options. rating filename filedata j \<le> rating filename filedata k"
      "choose_kind options filename filedata = (if 0 < ?s k then Some k else None)"
      by (rule choose_kind_max)
    then show ?thesis by (auto simp: less_eq_prod_def order_less_imp_le)
  qed
qed (use tagged_mp3 in blast)

theorem file_choice_witness: "choose_kind all_kinds ''Song.MP3'' ''ID3ftypmp4'' = Some K_MP3"
proof -
  have "startswith ''ID3ftypmp4'' ''ID3'' \<and> endswith (str_lower ''Song.MP3'') ''.mp3''" by code_simp
  then show ?thesis using file_choice [of "[]" "''Song.MP3''" "''ID3ftypmp4''"] by blast
qed

section \<open>A file as a dictionary\<close>

text \<open>
  A file object with well-formed tags is the dictionary of its tags, and one without tags the
  empty dictionary: looking up, storing, deleting and listing keys and the derived methods do what
  Python's dictionaries do, storing into a file without tags makes the tag, and saving one without
  tags is refused before the file is touched.
\<close>

theorem file_dictionary:
  fixes f :: "'i id3_file"
  assumes "ft_ok f"
  shows "(ft_tags f = None \<longrightarrow> ft_getitem f key = Inl KeyError \<and> ft_delitem f key = Inl KeyError
            \<and> ft_keys f = [] \<and> ft_save mmap_works v1 v2_version v23_sep f filedata = (f, filedata, Some ValueError))
       \<and> ft_getitem (ft_setitem f key v) key = Inr v \<and> ft_ok (ft_setitem f key v)
       \<and> (key' \<noteq> key \<longrightarrow> ft_getitem (ft_setitem f key v) key' = ft_getitem f key')
       \<and> (ft_getitem f key = Inr w \<longrightarrow>
            (\<exists>f'. dm_pop ft_getitem ft_delitem f key [] = Inr (w, f') \<and> ft_ok f'
               \<and> ft_getitem f' key = Inl KeyError
               \<and> (\<forall>k. k \<noteq> key \<longrightarrow> ft_getitem f' k = ft_getitem f k)))
       \<and> (\<exists>f'. dm_clear ft_delitem ft_keys f = Inr f' \<and> ft_keys f' = [])
       \<and> dm_len ft_keys f = card {k. \<exists>v. ft_getitem f k = Inr v}"
proof (intro conjI impI)
  note get = file_dict.getitem_eq [OF assms]
  have ok: "ft_ok (ft_setitem f key v)" using assms by (rule file_dict.ok_setitem)
  then show "ft_ok (ft_setitem f key v)" .
  show "ft_getitem (ft_setitem f key v) key = Inr v"
    using assms by (simp add: file_dict.getitem_eq [OF ok] file_dict.contents_setitem)
  show "ft_getitem (ft_setitem f key v) key' = ft_getitem f key'" if "key' \<noteq> key"
    using assms that by (simp add: file_dict.getitem_eq [OF ok] get file_dict.contents_setitem)
  show "\<exists>f'. dm_pop ft_getitem ft_delitem f key [] = Inr (w, f') \<and> ft_ok f'
      \<and> ft_getitem f' key = Inl KeyError \<and> (\<forall>k. k \<noteq> key \<longrightarrow> ft_getitem f' k = ft_getitem f k)"
    if "ft_getitem f key = Inr w"
  proof -
    have "ft_contents f key = Some w" using that get by (auto split: option.splits)
    from file_dict.pop_present [OF assms this, of "[]"] obtain f' where
      "dm_pop ft_getitem ft_delitem f key [] = Inr (w, f')" "ft_ok f'"
      "ft_contents f' = (ft_contents f)(key := None)" by auto
    then show ?thesis by (auto simp: file_dict.getitem_eq get)
  qed
  show "\<exists>f'. dm_clear ft_delitem ft_keys f = Inr f' \<and> ft_keys f' = []"
    using file_dict.clear [OF assms] file_dict.keys_dom by fastforce
  have "dom (ft_contents f) = {k. \<exists>v. ft_getitem f k = Inr v}"
    by (auto simp: get split: option.splits)
  then show "dm_len ft_keys f = card {k. \<exists>v. ft_getitem f k = Inr v}"
    using file_dict.len [OF assms] by simp
qed (simp_all add: ft_getitem_def ft_delitem_def ft_keys_def ft_save_def)

theorem file_dictionary_witness:
  "\<forall>g. dm_len ft_keys (ft_setitem \<lparr>ft_tags = None, ft_info = ()\<rparr> (uni ''TIT2'') g)
     = card {k. \<exists>v. ft_getitem (ft_setitem \<lparr>ft_tags = None, ft_info = ()\<rparr> (uni ''TIT2'') g) k = Inr v}"
proof
  fix g
  have "ft_ok \<lparr>ft_tags = None, ft_info = ()\<rparr>" by (simp add: ft_ok_def)
  from file_dict.ok_setitem [OF this] have "ft_ok (ft_setitem \<lparr>ft_tags = None, ft_info = ()\<rparr> (uni ''TIT2'') g)" .
  from file_dictionary [OF this] show "dm_len ft_keys (ft_setitem \<lparr>ft_tags = None, ft_info = ()\<rparr> (uni ''TIT2'') g)
     = card {k. \<exists>v. ft_getitem (ft_setitem \<lparr>ft_tags = None, ft_info = ()\<rparr> (uni ''TIT2'') g) k = Inr v}" by blast
qed

section \<open>Loading an MP3 file\<close>

lemma fullread_pos:
  "fullread n sz f = Inr (d, f') \<Longrightarrow> fbytes f' = fbytes f \<and> fpos f' = fpos f + nat n
     \<and> (0 < n \<longrightarrow> fpos f + nat n \<le> length (fbytes f))"
  by (auto simp: fullread_def f_read_def Let_def split: if_splits)

lemma map_snd_Inr: "map_sum id snd r = Inr x \<longleftrightarrow> (\<exists>d. r = Inr (d, x))"
  by (cases r) auto

lemma skip_extended_pos:
  assumes "skip_extended t n f = (t', Inr f')" "10 \<le> fpos f"
  shows "fbytes f' = fbytes f \<and> 10 \<le> fpos f' \<and> tg_size t' = tg_size t"
  using assms
  by (auto simp: skip_extended_def Let_def seek_cur_def seek_set_def map_snd_Inr split: sum.splits if_splits prod.splits
      dest!: fullread_pos)

lemma load_header_pos:
  assumes "load_header t n (open_file data) = (t', Inr f)"
  shows "fbytes f = data \<and> 10 \<le> fpos f \<and> 10 \<le> tg_size t'"
proof -
  obtain d g where g: "fullread 10 n (open_file data) = Inr (d, g)"
    using assms by (auto simp: load_header_def split: sum.splits)
  then have "fbytes g = data" "fpos g = 10" by (auto simp: open_file_def dest: fullread_pos)
  then show ?thesis using assms g
    by (auto simp: load_header_def Let_def split: if_splits option.splits dest!: skip_extended_pos)
qed

lemma load_body_size:
  assumes "load_body inflate known t data = (t', None)" "tag_ok t" shows "tg_size t' \<le> length data"
proof -
  obtain t1 r where h: "load_header t (length data) (open_file data) = (t1, r)" by (meson surj_pair)
  have ok: "tag_ok t1" using load_header_ok [OF assms(2)] h by (metis fst_conv)
  show ?thesis
  proof (cases r)
    case (Inl e)
    then have "load_v1 (t1\<lparr>tg_size := 0\<rparr>) e (open_file data) = (t', None)"
      using assms(1) h by (auto simp: load_body_def Let_def split: if_splits)
    then obtain frames :: "(string \<times> frame) list" where "add_items (t1\<lparr>tg_size := 0, tg_version := V11\<rparr>) (map (Loaded \<circ> snd) frames) = (t', None)"
      by (auto simp: load_v1_def split: sum.splits option.splits)
    then have "tg_size t' = 0"
      using ok sized.add_items [of "t1\<lparr>tg_size := 0, tg_version := V11\<rparr>" 0 "map (Loaded \<circ> snd) frames"] by simp
    then show ?thesis by simp
  next
    case (Inr f)
    note p = load_header_pos [OF h [unfolded Inr]]
    obtain d g where d: "fullread (int (tg_size t1) - 10) (length data) f = Inr (d, g)"
      using assms(1) h Inr by (auto simp: load_body_def Let_def split: sum.splits)
    have le: "tg_size t1 \<le> length data"
    proof (cases "tg_size t1 = 10")
      case True
      obtain d' g' where "fullread 10 (length data) (open_file data) = Inr (d', g')"
        using h Inr by (auto simp: load_header_def split: sum.splits)
      then have "10 \<le> length data" by (auto simp: open_file_def dest: fullread_pos)
      then show ?thesis using True by simp
    next
      case False
      then show ?thesis using fullread_pos [OF d] p by simp arith
    qed
    have "add_produced t1 x = (t', None) \<or> (\<exists>u. add_produced t1 x = (u, None)
        \<and> t' = u\<lparr>tg_unknown_version := Some (tg_version u)\<rparr>)"
      if "x = read_frames inflate t1 d (known_or_default known t1)" for x
      using assms(1) h Inr d that by (auto simp: load_body_def Let_def split: prod.splits option.splits)
    then have "tg_size t' = tg_size t1"
      using sized.add_produced [of t1 "tg_size t1" "read_frames inflate t1 d (known_or_default known t1)"] ok
      by fastforce
    then show ?thesis using le by simp
  qed
qed

lemma tag_load_size:
  assumes "tag_load inflate known translate v2 t data = (t', None)" "tag_ok t"
  shows "tag_ok t' \<and> tg_size t' \<le> length data"
proof -
  obtain t1 r where b: "load_body inflate known t data = (t1, r)" by (meson surj_pair)
  then have "r = None" using assms(1) by (auto simp: tag_load_def split: if_splits sum.splits)
  then have le: "tg_size t1 \<le> length data" using load_body_size b assms(2) by blast
  have ok: "tag_ok t1" using load_body_ok [OF assms(2)] b by (metis fst_conv)
  have cases: "translate \<and> (if v2 = 3 then update_to_v23 t1 else update_to_v24 inflate t1) = Inr t' \<or> t1 = t'"
    using assms(1) b by (auto simp: tag_load_def split: if_splits sum.splits)
  have "keeps (\<lambda>u. tag_ok u \<and> tg_size u = tg_size t1)
      (if v2 = 3 then update_to_v23 t1 else update_to_v24 inflate t1)"
    using sized.update_v23 [of t1 "tg_size t1"] sized.update_v24 [of t1 "tg_size t1"] ok by simp
  then have "tag_ok t' \<and> tg_size t' = tg_size t1" using cases ok by (auto dest: keepsD)
  then show ?thesis using le by simp
qed

lemma mp3_load_tag:
  assumes "mp3_load inflate filedata = Inr f" "ft_tags f = Some t"
  shows "tag_ok t \<and> tg_size t \<le> length filedata \<and> mpeg_info filedata (Some (tg_size t)) = Inr (ft_info f)"
proof -
  obtain u r where u: "tag_load inflate None True 4 new_id3 filedata = (u, r)" by (meson surj_pair)
  then have "r = None" "u = t" "mpeg_info filedata (Some (tg_size t)) = Inr (ft_info f)"
    using assms by (auto simp: mp3_load_def id3_file_load_def bindR_Inr_iff split: option.splits if_splits)
  then show ?thesis using tag_load_size [OF _ tag_ok_new] u by blast
qed

text \<open>
  C27. An MP3 file that was loaded with a tag has a well-formed one that lies within the file, and its
  length and bit rate are not negative. Loading raises, besides what reading the tag raises outside
  the library's own errors, only what the search for a frame raises.
\<close>

theorem mp3_load_sound:
  "(\<forall>f t. mp3_load inflate filedata = Inr f \<and> ft_tags f = Some t \<longrightarrow> tag_ok t \<and> ft_ok f \<and> tg_size t \<le> length filedata
            \<and> 0 \<le> mi_length (ft_info f) \<and> 0 \<le> mi_bitrate (ft_info f))
       \<and> (\<forall>e. mp3_load inflate filedata = Inl e \<longrightarrow> snd (tag_load inflate None True 4 new_id3 filedata) = Some e \<and> \<not> is_id3_error e
            \<or> (\<exists>off. mpeg_info filedata off = Inl e))"
proof (intro conjI allI impI)
  fix f t assume "mp3_load inflate filedata = Inr f \<and> ft_tags f = Some t"
  then have load: "mp3_load inflate filedata = Inr f" and t: "ft_tags f = Some t" by auto
  from mp3_load_tag [OF load t] show "tag_ok t" "tg_size t \<le> length filedata"
    "0 \<le> mi_length (ft_info f)" "0 \<le> mi_bitrate (ft_info f)"
    using info_not_negative [of filedata "tg_size t"] by auto
  then show "ft_ok f" using t by (simp add: ft_ok_def tag_ok_def)
next
  fix e assume "mp3_load inflate filedata = Inl e"
  then show "snd (tag_load inflate None True 4 new_id3 filedata) = Some e \<and> \<not> is_id3_error e
      \<or> (\<exists>off. mpeg_info filedata off = Inl e)"
    by (auto simp: mp3_load_def id3_file_load_def bindR_Inl_iff split: prod.splits option.splits if_splits)
qed

text \<open>An empty ID3v2.4 tag before a frame header.\<close>

definition empty_tag :: string where
  "empty_tag = ''ID3'' @ [CHR 0x04, CHR 0x00, CHR 0x00, CHR 0x00, CHR 0x00, CHR 0x00, CHR 0x00]"

lemma find_after: "CHR 0xFF \<notin> set p \<Longrightarrow> find_at [CHR 0xFF] (p @ CHR 0xFF # s) i = Some (i + length p)"
  by (induction p arbitrary: i) auto

lemma late_header:
  assumes "CHR 0xFF \<notin> set p"
  shows "find_header (p @ tiny_stream) 0 = Some (length p, decode_header 4294676480)"
proof -
  have "str_find (p @ tiny_stream) [CHR 0xFF] 0 = Some (length p)"
    using find_after [OF assms, of _ 0] by (simp add: str_find_def tiny_stream_def)
  moreover have "word_at (p @ tiny_stream) (length p) = 4294676480"
    using FB90 by (simp add: word_at_def tiny_stream_def)
  ultimately show ?thesis
    using FB90_valid(2) by (subst find_header.simps) (simp add: Let_def tiny_stream_def)
qed

lemma late_second: "length d \<le> 32 \<Longrightarrow>
  \<not> second_header d (k + frame_length (info_of_header (decode_header 4294676480)) q)"
  by (simp add: second_header_def tiny_info frame_length_def)

lemma tagged_checked: "try_header (empty_tag @ tiny_stream) n rs True = Inl HeaderNotFoundError"
proof (cases "n \<le> 10")
  case True
  have "length empty_tag = 10" "length tiny_stream = 4" by (simp_all add: empty_tag_def tiny_stream_def)
  then have d: "take 32768 (drop n (empty_tag @ tiny_stream)) = drop n empty_tag @ tiny_stream"
    using True by simp
  have "CHR 0xFF \<notin> set empty_tag" by (simp add: empty_tag_def)
  then have "CHR 0xFF \<notin> set (drop n empty_tag)" by (metis in_set_dropD)
  note h = late_header [OF this]
  have "length (drop n empty_tag @ tiny_stream) \<le> 32" by (simp add: empty_tag_def tiny_stream_def)
  then show ?thesis unfolding try_header_def d Let_def using late_second by (simp add: h)
next
  case False
  have "length empty_tag = 10" "length tiny_stream = 4" by (simp_all add: empty_tag_def tiny_stream_def)
  then have "take 32768 (drop n (empty_tag @ tiny_stream)) = drop (n - 10) tiny_stream"
    using False by simp
  moreover have "try_header tiny_stream (n - 10) rs True = Inl HeaderNotFoundError" by (rule tiny_checked)
  ultimately show ?thesis by (simp add: try_header_def tiny_stream_def)
qed

lemma tagged_unchecked:
  "try_header (empty_tag @ tiny_stream) 10 4 False
   = Inr ((info_of_header (decode_header 4294676480))\<lparr>mi_length := 32 / 128000\<rparr>)"
proof -
  have "take 32768 (drop 10 (empty_tag @ tiny_stream)) = tiny_stream"
    by (simp add: empty_tag_def tiny_stream_def)
  then show ?thesis using tiny_header
    by (simp add: try_header_def vbr_info_def tiny_info)
      (simp add: drop_last_def str_find_def tiny_stream_def)
qed

lemma tagged_info:
  "mpeg_info (empty_tag @ tiny_stream) (Some 10)
   = Inr ((info_of_header (decode_header 4294676480))\<lparr>mi_length := 32 / 128000, mi_sketchy := True\<rparr>)"
proof -
  have "length (empty_tag @ tiny_stream) = 14" by (simp add: empty_tag_def tiny_stream_def)
  then show ?thesis using tagged_unchecked by (simp add: mpeg_info_def tagged_checked)
qed

lemma update_empty:
  assumes "tg_frames t = []" "tg_version t = V24" "tg_unknown_version t \<noteq> Some V23"
  shows "update_to_v24 inflate t = Inr t"
proof -
  have get: "tag_get t k = None" "has_key t k = False" for k using assms(1) by (simp_all add: tag_get_def has_key_def)
  have "ver_le V23 V24" by (simp add: V23_def V24_def)
  then have "update_common t = Inr t" using get assms(2) by (simp add: update_common_def)
  moreover have "update_unknown inflate t = Inr t" using assms(3) by (simp add: update_unknown_def)
  moreover have "update_date t = Inr t" using get by (simp add: update_date_def year_parts_def pop_text_def)
  moreover have "update_original t = Inr t" "update_people t = Inr t"
    using get by (simp_all add: update_original_def update_people_def)
  moreover have "del_keys t keys = t" for keys
    unfolding del_keys_def by (induction keys) (simp_all add: get)
  ultimately show ?thesis by (simp add: update_to_v24_def)
qed

lemma empty_tag_header:
  "load_header new_id3 (length (empty_tag @ s)) (open_file (empty_tag @ s))
   = (new_id3\<lparr>tg_flags := 0, tg_size := 10, tg_version := V24\<rparr>, Inr \<lparr>fbytes = empty_tag @ s, fpos = 10\<rparr>)"
proof -
  have len: "length empty_tag = 10" by (simp add: empty_tag_def)
  have r: "fullread 10 (length (empty_tag @ s)) (open_file (empty_tag @ s))
      = Inr (empty_tag, \<lparr>fbytes = empty_tag @ s, fpos = 10\<rparr>)"
    by (simp add: fullread_def f_read_def open_file_def len)
  have fields: "ord (empty_tag ! 3) = 4" "ord (empty_tag ! 4) = 0" "ord (empty_tag ! 5) = 0"
    "take 3 empty_tag = ''ID3''" by code_simp+
  have sz: "drop 6 empty_tag = [CHR 0x00, CHR 0x00, CHR 0x00, CHR 0x00]" by (simp add: empty_tag_def)
  have sizes: "bit_padded_int 7 True (drop 6 empty_tag) = 0" "has_valid_padding 7 (drop 6 empty_tag)"
    unfolding sz by (simp_all add: bit_padded_int_value has_valid_padding_iff)
  have "f_extended (t\<lparr>tg_flags := 0, tg_size := n, tg_version := v\<rparr>) = False" for t n v
    by (simp add: f_extended_def flag_set_def)
  moreover have "header_checks (t\<lparr>tg_flags := 0, tg_size := n, tg_version := v\<rparr>) (drop 6 empty_tag) = None" for t n v
    using sizes by (simp add: header_checks_def)
  ultimately show ?thesis unfolding load_header_def r
    by (simp add: fields sizes V24_def Let_def)
qed

lemma tagged_load:
  "tag_load inflate None True 4 new_id3 (empty_tag @ s)
   = (new_id3\<lparr>tg_flags := 0, tg_size := 10, tg_version := V24, tg_unknown_version := Some V24\<rparr>, None)"
proof -
  let ?t = "new_id3\<lparr>tg_flags := 0, tg_size := 10, tg_version := V24\<rparr>"
  have "read_frames inflate ?t [] fs = ([], None)" for fs
    by (simp add: read_frames_def V22_def V23_def V24_def Let_def) (simp add: frames_loop.simps)
  then have "load_body inflate None new_id3 (empty_tag @ s) = (?t\<lparr>tg_unknown_version := Some V24\<rparr>, None)"
    using empty_tag_header [of s] by (simp add: load_body_def fullread_def f_read_def add_produced_def)
  moreover have "update_to_v24 inflate (?t\<lparr>tg_unknown_version := Some V24\<rparr>)
      = Inr (?t\<lparr>tg_unknown_version := Some V24\<rparr>)"
    by (rule update_empty) (simp_all add: new_id3_def V23_def V24_def)
  ultimately show ?thesis by (simp add: tag_load_def)
qed

lemma tagged_file: "\<exists>f t. mp3_load inflate (empty_tag @ tiny_stream) = Inr f \<and> ft_tags f = Some t
   \<and> tg_frames t = [] \<and> mi_length (ft_info f) = 32 / 128000"
  using tagged_load [of inflate tiny_stream] tagged_info
  by (simp add: mp3_load_def id3_file_load_def new_id3_def)

theorem mp3_load_sound_witness:
  "\<exists>f t. mp3_load (\<lambda>s. None) (empty_tag @ tiny_stream) = Inr f \<and> ft_tags f = Some t \<and> tag_ok t
       \<and> 0 \<le> mi_length (ft_info f)"
  using tagged_file [of "\<lambda>s. None"] mp3_load_sound [of "\<lambda>s. None" "empty_tag @ tiny_stream"] by blast

end
