(* ===== verification/Mut_EasyID3.thy ===== *)
theory Mut_EasyID3
  imports Mut_FileType
begin

text \<open>
  \<open>mutagen/easyid3.py\<close>: the dictionary of plain names over an ID3 tag. Getters, setters, deleters and
  listers are registered under keys or patterns; the class keeps four dictionaries of them, in which
  every operation looks up its key without regard to case.

  \<open>EasyID3KeyError\<close>, a subclass of \<open>KeyError\<close>, is \<open>KeyError\<close> here. Values to set are lists of unicode
  strings (\<open>__setitem__\<close> makes a list of a single one). A frame that a setter changes in place is
  replaced in the tag under the same key. Floating point numbers are exact rationals; \<open>float\<close> reads
  decimal notation, infinities and nan are refused.
\<close>

section \<open>Frames of the tag\<close>

definition frame_at :: "id3 \<Rightarrow> unicode \<Rightarrow> merr + frame" where
  "frame_at t key = (case tag_get t key of None \<Rightarrow> Inl KeyError | Some f \<Rightarrow> Inr f)"

definition set_attr :: "string \<Rightarrow> fval \<Rightarrow> frame \<Rightarrow> frame" where
  "set_attr name v f = f\<lparr>fr_attrs := setattr (fr_attrs f) name v\<rparr>"

definition del_frame :: "id3 \<Rightarrow> unicode \<Rightarrow> merr + id3" where
  "del_frame t key = (if has_key t key then Inr (tag_del t key) else Inl KeyError)"

definition list_attr :: "frame \<Rightarrow> string \<Rightarrow> merr + fval list" where
  "list_attr f name =
     bindR (getattr (fr_attrs f) name) (\<lambda>v. case v of FList vs \<Rightarrow> Inr vs | _ \<Rightarrow> Inl TypeError)"

definition texts :: "unicode list \<Rightarrow> fval" where
  "texts us = FList (map FText us)"

section \<open>Text and TXXX keys\<close>

definition text_get :: "string \<Rightarrow> id3 \<Rightarrow> string \<Rightarrow> merr + fval list" where
  "text_get frameid t key = bindR (frame_at t (uni frameid)) (\<lambda>f. list_attr f ''text'')"

definition text_set :: "string \<Rightarrow> id3 \<Rightarrow> string \<Rightarrow> unicode list \<Rightarrow> merr + id3" where
  "text_set frameid t key vs =
     (case tag_get t (uni frameid) of
        None \<Rightarrow> add_new t frameid [(''encoding'', FInt 3), (''text'', texts vs)]
      | Some f \<Rightarrow>
          Inr (tag_set t (uni frameid) (set_attr ''text'' (texts vs) (set_attr ''encoding'' (FInt 3) f))))"

definition text_del :: "string \<Rightarrow> id3 \<Rightarrow> string \<Rightarrow> merr + id3" where
  "text_del frameid t key = del_frame t (uni frameid)"

definition txxx_key :: "string \<Rightarrow> unicode" where
  "txxx_key desc = uni (''TXXX:'' @ desc)"

definition txxx_get :: "string \<Rightarrow> id3 \<Rightarrow> string \<Rightarrow> merr + fval list" where
  "txxx_get desc t key = bindR (frame_at t (txxx_key desc)) (\<lambda>f. list_attr f ''text'')"

definition txxx_set :: "string \<Rightarrow> id3 \<Rightarrow> string \<Rightarrow> unicode list \<Rightarrow> merr + id3" where
  "txxx_set desc t key vs =
     (case tag_get t (txxx_key desc) of
        None \<Rightarrow>
          (let enc = (if \<exists>v \<in> set vs. \<exists>c \<in> set v. 0x7F < c then 3 else 0)
           in add_new t ''TXXX'' [(''encoding'', FInt enc), (''text'', texts vs), (''desc'', FText (uni desc))])
      | Some f \<Rightarrow> Inr (tag_set t (txxx_key desc) (set_attr ''text'' (texts vs) f)))"

definition txxx_del :: "string \<Rightarrow> id3 \<Rightarrow> string \<Rightarrow> merr + id3" where
  "txxx_del desc t key = del_frame t (txxx_key desc)"

section \<open>Genre and date\<close>

definition genre_get :: "id3 \<Rightarrow> string \<Rightarrow> merr + fval list" where
  "genre_get t key =
     bindR (frame_at t (uni ''TCON'')) (\<lambda>f. bindR (get_genres f) (\<lambda>gs. Inr (map FText gs)))"

definition genre_set :: "id3 \<Rightarrow> string \<Rightarrow> unicode list \<Rightarrow> merr + id3" where
  "genre_set t key vs =
     (case tag_get t (uni ''TCON'') of
        None \<Rightarrow> add_new t ''TCON'' [(''encoding'', FInt 3), (''text'', texts vs)]
      | Some f \<Rightarrow> Inr (tag_set t (uni ''TCON'') (set_genres (set_attr ''encoding'' (FInt 3) f) vs)))"

definition genre_delete :: "id3 \<Rightarrow> string \<Rightarrow> merr + id3" where
  "genre_delete t key = del_frame t (uni ''TCON'')"

definition date_get :: "id3 \<Rightarrow> string \<Rightarrow> merr + fval list" where
  "date_get t key =
     bindR (frame_at t (uni ''TDRC'')) (\<lambda>f. bindR (list_attr f ''text'') (\<lambda>vs.
       mapR (\<lambda>v. case v of FStamp ts \<Rightarrow> Inr (FBytes (get_text ts)) | _ \<Rightarrow> Inl AttributeError) vs))"

definition date_set :: "id3 \<Rightarrow> string \<Rightarrow> unicode list \<Rightarrow> merr + id3" where
  "date_set t key vs = add_new t ''TDRC'' [(''encoding'', FInt 3), (''text'', texts vs)]"

definition date_delete :: "id3 \<Rightarrow> string \<Rightarrow> merr + id3" where
  "date_delete t key = del_frame t (uni ''TDRC'')"

section \<open>Performers\<close>

text \<open>\<open>key.split(":", 1)[1]\<close>.\<close>

definition wanted_role :: "string \<Rightarrow> merr + unicode" where
  "wanted_role key =
     (case dropWhile (\<lambda>c. c \<noteq> CHR '':'') key of [] \<Rightarrow> Inl IndexError | _ # role \<Rightarrow> Inr (uni role))"

definition person_pair :: "fval \<Rightarrow> merr + fval \<times> fval" where
  "person_pair v = (case v of FList [role, person] \<Rightarrow> Inr (role, person) | _ \<Rightarrow> Inl ValueError)"

definition person_role :: "fval \<Rightarrow> merr + fval" where
  "person_role v = (case v of FList (role # _) \<Rightarrow> Inr role | FList [] \<Rightarrow> Inl IndexError | _ \<Rightarrow> Inl TypeError)"

text \<open>\<open>[p for p in mcl.people if p[0] != wanted_role]\<close>.\<close>

fun other_people :: "unicode \<Rightarrow> fval list \<Rightarrow> merr + fval list" where
  "other_people role [] = Inr []"
| "other_people role (p # ps) =
     bindR (person_role p) (\<lambda>r. bindR (other_people role ps) (\<lambda>qs.
       Inr (if r \<noteq> FText role then p # qs else qs)))"

definition performer_get :: "id3 \<Rightarrow> string \<Rightarrow> merr + fval list" where
  "performer_get t key =
     bindR (wanted_role key) (\<lambda>role. bindR (frame_at t (uni ''TMCL'')) (\<lambda>mcl.
     bindR (list_attr mcl ''people'') (\<lambda>ps. bindR (mapR person_pair ps) (\<lambda>pairs.
       let people = map snd (filter (\<lambda>(r, person). r = FText role) pairs)
       in if people \<noteq> [] then Inr people else Inl KeyError))))"

definition performer_set :: "id3 \<Rightarrow> string \<Rightarrow> unicode list \<Rightarrow> merr + id3" where
  "performer_set t key vs =
     bindR (wanted_role key) (\<lambda>role.
     bindR (case tag_get t (uni ''TMCL'') of
              None \<Rightarrow> add_new t ''TMCL'' [(''encoding'', FInt 3), (''people'', FList [])]
            | Some _ \<Rightarrow> Inr t) (\<lambda>t.
     bindR (frame_at t (uni ''TMCL'')) (\<lambda>mcl.
     bindR (list_attr mcl ''people'') (\<lambda>ps. bindR (other_people role ps) (\<lambda>others.
       let people = others @ map (\<lambda>v. FList [FText role, FText v]) vs
       in Inr (tag_set t (uni ''TMCL'')
                 (set_attr ''people'' (FList people) (set_attr ''encoding'' (FInt 3) mcl))))))))"

definition performer_delete :: "id3 \<Rightarrow> string \<Rightarrow> merr + id3" where
  "performer_delete t key =
     bindR (wanted_role key) (\<lambda>role. bindR (frame_at t (uni ''TMCL'')) (\<lambda>mcl.
     bindR (list_attr mcl ''people'') (\<lambda>ps. bindR (other_people role ps) (\<lambda>people.
       if people = ps then Inl KeyError
       else if people \<noteq> [] then
         Inr (tag_set t (uni ''TMCL'') (set_attr ''people'' (FList people) mcl))
       else Inr (tag_del t (uni ''TMCL''))))))"

definition performer_list :: "id3 \<Rightarrow> string \<Rightarrow> merr + unicode list" where
  "performer_list t key =
     (case tag_get t (uni ''TMCL'') of
        None \<Rightarrow> Inr []
      | Some mcl \<Rightarrow>
          bindR (list_attr mcl ''people'') (\<lambda>ps. bindR (mapR person_role ps) (\<lambda>roles.
          bindR (texts_of roles) (\<lambda>us. Inr (remdups (map (\<lambda>u. uni ''performer:'' @ u) us))))))"

section \<open>Track id and website\<close>

definition ufid_key :: unicode where
  "ufid_key = uni ''UFID:http://musicbrainz.org''"

definition musicbrainz_trackid_get :: "id3 \<Rightarrow> string \<Rightarrow> merr + fval list" where
  "musicbrainz_trackid_get t key =
     bindR (frame_at t ufid_key) (\<lambda>f. bindR (getattr (fr_attrs f) ''data'') (\<lambda>v. case v of
       FBytes b \<Rightarrow> bindR (ascii_decode b) (\<lambda>u. Inr [FText u])
     | _ \<Rightarrow> Inl AttributeError))"

definition musicbrainz_trackid_set :: "id3 \<Rightarrow> string \<Rightarrow> unicode list \<Rightarrow> merr + id3" where
  "musicbrainz_trackid_set t key vs =
     (if length vs \<noteq> 1 then Inl ValueError
      else bindR (ascii_str (hd vs)) (\<lambda>v.
        case tag_get t ufid_key of
          None \<Rightarrow> add_new t ''UFID'' [(''owner'', FBytes ''http://musicbrainz.org''), (''data'', FBytes v)]
        | Some f \<Rightarrow> Inr (tag_set t ufid_key (set_attr ''data'' (FBytes v) f))))"

definition musicbrainz_trackid_delete :: "id3 \<Rightarrow> string \<Rightarrow> merr + id3" where
  "musicbrainz_trackid_delete t key = del_frame t ufid_key"

definition website_get :: "id3 \<Rightarrow> string \<Rightarrow> merr + fval list" where
  "website_get t key =
     bindR (mapR (\<lambda>f. getattr (fr_attrs f) ''url'') (getall t (uni ''WOAR''))) (\<lambda>urls.
       if urls \<noteq> [] then Inr urls else Inl KeyError)"

fun add_websites :: "id3 \<Rightarrow> unicode list \<Rightarrow> merr + id3" where
  "add_websites t [] = Inr t"
| "add_websites t (v # vs) = bindR (add_new t ''WOAR'' [(''url'', FText v)]) (\<lambda>t. add_websites t vs)"

definition website_set :: "id3 \<Rightarrow> string \<Rightarrow> unicode list \<Rightarrow> merr + id3" where
  "website_set t key vs = add_websites (delall t (uni ''WOAR'')) vs"

definition website_delete :: "id3 \<Rightarrow> string \<Rightarrow> merr + id3" where
  "website_delete t key = Inr (delall t (uni ''WOAR''))"

section \<open>Numbers as text\<close>

text \<open>\<open>%f\<close>: six decimals, rounded half to even; \<open>%+f\<close> always has a sign.\<close>

definition round_even :: "rat \<Rightarrow> int" where
  "round_even r =
     (let n = \<lfloor>r\<rfloor>; d = r - of_int n
      in if d < 1 / 2 \<or> d = 1 / 2 \<and> even n then n else n + 1)"

definition fmt_f :: "bool \<Rightarrow> rat \<Rightarrow> string" where
  "fmt_f show_plus r =
     (let n = nat (round_even (\<bar>r\<bar> * 1000000))
      in (if r < 0 then ''-'' else if show_plus then ''+'' else [])
         @ nat_str (n div 1000000) @ ''.'' @ zero_pad 6 (n mod 1000000))"

definition u_digit :: "nat \<Rightarrow> bool" where
  "u_digit c \<longleftrightarrow> 48 \<le> c \<and> c \<le> 57"

definition u_sign :: "unicode \<Rightarrow> bool \<times> unicode" where
  "u_sign s =
     (case s of
        c # r \<Rightarrow> if c = 45 then (True, r) else if c = 43 then (False, r) else (False, s)
      | [] \<Rightarrow> (False, s))"

definition exponent_of :: "unicode \<Rightarrow> int option" where
  "exponent_of s =
     (case s of
        [] \<Rightarrow> Some 0
      | c # r \<Rightarrow>
          (let (neg, ds) = u_sign r
           in if (c = 101 \<or> c = 69) \<and> ds \<noteq> [] \<and> list_all u_digit ds
              then Some (if neg then - int (u_int ds) else int (u_int ds)) else None))"

definition py_float :: "unicode \<Rightarrow> merr + rat" where
  "py_float v =
     (let (neg, s) = u_sign (str_strip is_uspace_code v);
          whole = takeWhile u_digit s; rest = dropWhile u_digit s;
          point = (rest \<noteq> [] \<and> hd rest = 46);
          part = (if point then takeWhile u_digit (tl rest) else []);
          after = (if point then dropWhile u_digit (tl rest) else rest)
      in if whole = [] \<and> part = [] then Inl ValueError
         else case exponent_of after of
           None \<Rightarrow> Inl ValueError
         | Some e \<Rightarrow>
             (let m = of_nat (u_int (whole @ part)) / 10 ^ length part;
                  r = (if 0 \<le> e then m * 10 ^ nat e else m / 10 ^ nat (- e))
              in Inr (if neg then - r else r)))"

section \<open>Gain and peak\<close>

text \<open>\<open>"RVA2:" + key[11:-5]\<close>.\<close>

definition rva2_desc :: "string \<Rightarrow> string" where
  "rva2_desc key = drop 11 (take (length key - 5) key)"

definition rva2_key :: "string \<Rightarrow> unicode" where
  "rva2_key key = uni (''RVA2:'' @ rva2_desc key)"

definition number_at :: "id3 \<Rightarrow> string \<Rightarrow> string \<Rightarrow> merr + rat" where
  "number_at t key name =
     bindR (frame_at t (rva2_key key)) (\<lambda>f. bindR (getattr (fr_attrs f) name) value_rat)"

definition gain_get :: "id3 \<Rightarrow> string \<Rightarrow> merr + fval list" where
  "gain_get t key =
     bindR (number_at t key ''gain'') (\<lambda>r. Inr [FText (uni (fmt_f True r @ '' dB''))])"

definition peak_get :: "id3 \<Rightarrow> string \<Rightarrow> merr + fval list" where
  "peak_get t key = bindR (number_at t key ''peak'') (\<lambda>r. Inr [FText (uni (fmt_f False r))])"

definition set_rva2 :: "id3 \<Rightarrow> string \<Rightarrow> string \<Rightarrow> rat \<Rightarrow> merr + id3" where
  "set_rva2 t key name r =
     bindR (if has_key t (rva2_key key) then Inr t
            else add_new t ''RVA2'' [(''desc'', FBytes (rva2_desc key)), (''gain'', FInt 0),
                   (''peak'', FInt 0), (''channel'', FInt 1)]) (\<lambda>t.
     bindR (frame_at t (rva2_key key)) (\<lambda>f.
       Inr (tag_set t (rva2_key key) (set_attr name (FRat r) f))))"

text \<open>The first word of the text, as \<open>split()[0]\<close> gives it.\<close>

definition first_word :: "unicode \<Rightarrow> merr + unicode" where
  "first_word v =
     (let s = dropWhile is_uspace_code v
      in if s = [] then Inl IndexError else Inr (takeWhile (\<lambda>c. \<not> is_uspace_code c) s))"

definition gain_set :: "id3 \<Rightarrow> string \<Rightarrow> unicode list \<Rightarrow> merr + id3" where
  "gain_set t key vs =
     (if length vs \<noteq> 1 then Inl ValueError
      else bindR (first_word (hd vs)) (\<lambda>w. bindR (py_float w) (set_rva2 t key ''gain'')))"

definition peak_set :: "id3 \<Rightarrow> string \<Rightarrow> unicode list \<Rightarrow> merr + id3" where
  "peak_set t key vs =
     (if length vs \<noteq> 1 then Inl ValueError
      else bindR (py_float (hd vs)) (\<lambda>peak.
        if 2 \<le> peak \<or> peak < 0 then Inl ValueError else set_rva2 t key ''peak'' peak))"

text \<open>Deleting one of the two numbers keeps the frame while the other is not zero.\<close>

definition del_number :: "string \<Rightarrow> string \<Rightarrow> id3 \<Rightarrow> string \<Rightarrow> merr + id3" where
  "del_number name other t key =
     (case tag_get t (rva2_key key) of
        None \<Rightarrow> Inr t
      | Some f \<Rightarrow>
          bindR (getattr (fr_attrs f) other) (\<lambda>v.
            if v \<notin> {FRat 0, FInt 0, FNone} then
              Inr (tag_set t (rva2_key key) (set_attr name (FRat 0) f))
            else Inr (tag_del t (rva2_key key))))"

definition gain_delete :: "id3 \<Rightarrow> string \<Rightarrow> merr + id3" where
  "gain_delete t key = del_number ''gain'' ''peak'' t key"

definition peak_delete :: "id3 \<Rightarrow> string \<Rightarrow> merr + id3" where
  "peak_delete t key = del_number ''peak'' ''gain'' t key"

definition peakgain_list :: "id3 \<Rightarrow> string \<Rightarrow> merr + unicode list" where
  "peakgain_list t key =
     bindR (mapR (\<lambda>f. attr_unicode f ''desc'') (getall t (uni ''RVA2''))) (\<lambda>descs.
       Inr (concat (map (\<lambda>d. [uni ''replaygain_'' @ d @ uni ''_gain'',
                                uni ''replaygain_'' @ d @ uni ''_peak'']) descs)))"

section \<open>The registry\<close>

type_synonym getter = "id3 \<Rightarrow> string \<Rightarrow> merr + fval list"
type_synonym setter = "id3 \<Rightarrow> string \<Rightarrow> unicode list \<Rightarrow> merr + id3"
type_synonym deleter = "id3 \<Rightarrow> string \<Rightarrow> merr + id3"
type_synonym lister = "id3 \<Rightarrow> string \<Rightarrow> merr + unicode list"

record easy_registry =
  er_get :: "(string \<times> getter) list"
  er_set :: "(string \<times> setter) list"
  er_delete :: "(string \<times> deleter) list"
  er_list :: "(string \<times> lister) list"

definition register_key ::
  "string \<Rightarrow> getter \<Rightarrow> setter \<Rightarrow> deleter \<Rightarrow> lister option \<Rightarrow> easy_registry \<Rightarrow> easy_registry" where
  "register_key key g s d l r =
     (let key = str_lower key
      in \<lparr>er_get = AList.update key g (er_get r), er_set = AList.update key s (er_set r),
          er_delete = AList.update key d (er_delete r),
          er_list = (case l of None \<Rightarrow> er_list r | Some x \<Rightarrow> AList.update key x (er_list r))\<rparr>)"

definition register_text_key :: "string \<Rightarrow> string \<Rightarrow> easy_registry \<Rightarrow> easy_registry" where
  "register_text_key key frameid r =
     register_key key (text_get frameid) (text_set frameid) (text_del frameid) None r"

definition register_txxx_key :: "string \<Rightarrow> string \<Rightarrow> easy_registry \<Rightarrow> easy_registry" where
  "register_txxx_key key desc r =
     register_key key (txxx_get desc) (txxx_set desc) (txxx_del desc) None r"

definition text_keys :: "(string \<times> string) list" where
  "text_keys = [
     (''TALB'', ''album''), (''TBPM'', ''bpm''), (''TCMP'', ''compilation''),
     (''TCOM'', ''composer''), (''TCOP'', ''copyright''), (''TENC'', ''encodedby''),
     (''TEXT'', ''lyricist''), (''TLEN'', ''length''), (''TMED'', ''media''),
     (''TMOO'', ''mood''), (''TIT2'', ''title''), (''TIT3'', ''version''),
     (''TPE1'', ''artist''), (''TPE2'', ''performer''), (''TPE3'', ''conductor''),
     (''TPE4'', ''arranger''), (''TPOS'', ''discnumber''), (''TPUB'', ''organization''),
     (''TRCK'', ''tracknumber''), (''TOLY'', ''author''), (''TSO2'', ''albumartistsort''),
     (''TSOA'', ''albumsort''), (''TSOC'', ''composersort''), (''TSOP'', ''artistsort''),
     (''TSOT'', ''titlesort''), (''TSRC'', ''isrc''), (''TSST'', ''discsubtitle'')]"

definition txxx_keys :: "(string \<times> string) list" where
  "txxx_keys = [
     (''MusicBrainz Artist Id'', ''musicbrainz_artistid''),
     (''MusicBrainz Album Id'', ''musicbrainz_albumid''),
     (''MusicBrainz Album Artist Id'', ''musicbrainz_albumartistid''),
     (''MusicBrainz TRM Id'', ''musicbrainz_trmid''), (''MusicIP PUID'', ''musicip_puid''),
     (''MusicMagic Fingerprint'', ''musicip_fingerprint''),
     (''MusicBrainz Album Status'', ''musicbrainz_albumstatus''),
     (''MusicBrainz Album Type'', ''musicbrainz_albumtype''),
     (''MusicBrainz Album Release Country'', ''releasecountry''),
     (''MusicBrainz Disc Id'', ''musicbrainz_discid''), (''ASIN'', ''asin''),
     (''ALBUMARTISTSORT'', ''albumartistsort''), (''BARCODE'', ''barcode'')]"

definition own_keys :: "easy_registry \<Rightarrow> easy_registry" where
  "own_keys r =
     register_key ''replaygain_*_peak'' peak_get peak_set peak_delete None
     (register_key ''replaygain_*_gain'' gain_get gain_set gain_delete (Some peakgain_list)
     (register_key ''website'' website_get website_set website_delete None
     (register_key ''musicbrainz_trackid'' musicbrainz_trackid_get musicbrainz_trackid_set
        musicbrainz_trackid_delete None
     (register_key ''performer:*'' performer_get performer_set performer_delete (Some performer_list)
     (register_key ''date'' date_get date_set date_delete None
     (register_key ''genre'' genre_get genre_set genre_delete None r))))))"

definition registry :: easy_registry where
  "registry =
     foldl (\<lambda>r (desc, key). register_txxx_key key desc r)
       (own_keys (foldl (\<lambda>r (frameid, key). register_text_key key frameid r)
          \<lparr>er_get = [], er_set = [], er_delete = [], er_list = []\<rparr> text_keys))
       txxx_keys"

section \<open>EasyID3\<close>

text \<open>
  \<open>dict_match\<close> in one of the dictionaries, with no fallback: the function registered for the key. A
  registered pattern never has an invalid expression, so that case does not arise.
\<close>

definition easy_func :: "(string \<times> 'f) list \<Rightarrow> string \<Rightarrow> merr + 'f" where
  "easy_func d key =
     (case dict_match (map (\<lambda>(k, f). (k, Some f)) d) key None of
        Some (Some f) \<Rightarrow> Inr f
      | _ \<Rightarrow> Inl KeyError)"

definition easy_getitem :: "id3 \<Rightarrow> string \<Rightarrow> merr + fval list" where
  "easy_getitem t key =
     (let key = str_lower key in bindR (easy_func (er_get registry) key) (\<lambda>func. func t key))"

definition easy_setitem :: "id3 \<Rightarrow> string \<Rightarrow> unicode list \<Rightarrow> merr + id3" where
  "easy_setitem t key vs =
     (let key = str_lower key in bindR (easy_func (er_set registry) key) (\<lambda>func. func t key vs))"

definition easy_delitem :: "id3 \<Rightarrow> string \<Rightarrow> merr + id3" where
  "easy_delitem t key =
     (let key = str_lower key in bindR (easy_func (er_delete registry) key) (\<lambda>func. func t key))"

fun easy_keys_of :: "id3 \<Rightarrow> string list \<Rightarrow> merr + unicode list" where
  "easy_keys_of t [] = Inr []"
| "easy_keys_of t (key # ks) =
     bindR (case map_of (er_list registry) key of
              Some lister \<Rightarrow> lister t key
            | None \<Rightarrow> bindR (dm_has_key easy_getitem t key) (\<lambda>b. Inr (if b then [uni key] else [])))
       (\<lambda>us. bindR (easy_keys_of t ks) (\<lambda>more. Inr (us @ more)))"

definition easy_keys :: "id3 \<Rightarrow> merr + unicode list" where
  "easy_keys t = easy_keys_of t (map fst (er_get registry))"

end
