(* ===== verification/Mut_Easy_Props.thy ===== *)
theory Mut_Easy_Props
  imports Mut_EasyID3 Mut_Tag_Props
begin

text \<open>
  Properties of \<open>EasyID3\<close>: which functions stand under a registered key, and that the text set
  under the name of a text frame is the text read back, in that frame alone.
\<close>

section \<open>The registry\<close>

text \<open>The three functions under a key.\<close>

definition bound :: "easy_registry \<Rightarrow> string \<Rightarrow> getter \<Rightarrow> setter \<Rightarrow> deleter \<Rightarrow> bool" where
  "bound r k g s d \<longleftrightarrow>
     map_of (er_get r) k = Some g \<and> map_of (er_set r) k = Some s \<and> map_of (er_delete r) k = Some d"

lemma bound_register:
  "bound (register_key key g s d l r) k g' s' d' =
     (if str_lower key = k then g' = g \<and> s' = s \<and> d' = d else bound r k g' s' d')"
  by (auto simp: bound_def register_key_def update_conv' Let_def)

lemma bound_txxx:
  "k \<notin> str_lower ` snd ` set xs \<Longrightarrow> bound r k g s d \<Longrightarrow>
     bound (foldl (\<lambda>r (desc, key). register_txxx_key key desc r) r xs) k g s d"
  by (induction xs arbitrary: r) (auto simp: register_txxx_key_def bound_register)

lemma bound_text_other:
  "k \<notin> str_lower ` snd ` set xs \<Longrightarrow> bound r k g s d \<Longrightarrow>
     bound (foldl (\<lambda>r (frameid, key). register_text_key key frameid r) r xs) k g s d"
  by (induction xs arbitrary: r) (auto simp: register_text_key_def bound_register)

lemma bound_text:
  "distinct (map (str_lower \<circ> snd) xs) \<Longrightarrow> (frameid, key) \<in> set xs \<Longrightarrow>
     bound (foldl (\<lambda>r (frameid, key). register_text_key key frameid r) r xs) (str_lower key)
       (text_get frameid) (text_set frameid) (text_del frameid)"
proof (induction xs arbitrary: r)
  case (Cons x xs)
  show ?case
  proof (cases "x = (frameid, key)")
    case True
    with Cons.prems have "str_lower key \<notin> str_lower ` snd ` set xs" by (auto simp: image_iff)
    moreover have "bound (register_text_key key frameid r) (str_lower key)
        (text_get frameid) (text_set frameid) (text_del frameid)"
      by (simp add: register_text_key_def bound_register)
    ultimately show ?thesis using True by (simp add: bound_text_other)
  qed (use Cons in auto)
qed simp

definition own_names :: "string list" where
  "own_names = [''genre'', ''date'', ''performer:*'', ''musicbrainz_trackid'', ''website'',
     ''replaygain_*_gain'', ''replaygain_*_peak'']"

lemma lower_own_names: "map str_lower own_names = own_names"
  by code_simp

lemma bound_other:
  "str_lower key \<noteq> k \<Longrightarrow> bound r k g s d \<Longrightarrow> bound (register_key key g' s' d' l r) k g s d"
  by (simp add: bound_register)

lemma bound_own:
  assumes "k \<notin> set own_names" "bound r k g s d" shows "bound (own_keys r) k g s d"
proof -
  have "str_lower n \<noteq> k" if "n \<in> set own_names" for n
    using assms(1) lower_own_names that by (metis list.set_map imageI)
  then show ?thesis unfolding own_keys_def
    by (intro bound_other assms(2)) (simp_all add: own_names_def)
qed

definition txxx_names :: "string list" where
  "txxx_names = [''musicbrainz_artistid'', ''musicbrainz_albumid'', ''musicbrainz_albumartistid'',
     ''musicbrainz_trmid'', ''musicip_puid'', ''musicip_fingerprint'', ''musicbrainz_albumstatus'',
     ''musicbrainz_albumtype'', ''releasecountry'', ''musicbrainz_discid'', ''asin'',
     ''albumartistsort'', ''barcode'']"

lemma lower_names:
  "map (str_lower \<circ> snd) text_keys = map snd text_keys"
  "map (str_lower \<circ> snd) txxx_keys = txxx_names"
  by code_simp+

lemma text_names:
  "distinct (map snd text_keys)"
  "list_all (\<lambda>(_, k). k = ''albumartistsort'' \<or> k \<notin> set own_names \<and> k \<notin> set txxx_names) text_keys"
  by code_simp+

lemma lower_text_key: "(frameid, k) \<in> set text_keys \<Longrightarrow> str_lower k = k"
  using lower_names(1) by (auto simp: map_eq_conv)

lemma bound_text_key:
  assumes "(frameid, k) \<in> set text_keys" "k \<noteq> ''albumartistsort''"
  shows "bound registry k (text_get frameid) (text_set frameid) (text_del frameid)"
proof -
  have k: "k \<notin> set own_names" "k \<notin> str_lower ` snd ` set txxx_keys"
    using assms text_names(2) arg_cong [OF lower_names(2), of set]
    by (auto simp: list_all_iff image_comp simp del: list.set_map)
  have "distinct (map (str_lower \<circ> snd) text_keys)" unfolding lower_names(1) by (rule text_names(1))
  from bound_text [OF this assms(1)] show ?thesis
    unfolding registry_def lower_text_key [OF assms(1)] by (intro bound_txxx [OF k(2)] bound_own [OF k(1)])
qed

lemma map_of_Some: "map_of (map (\<lambda>(k, f). (k, Some f)) d) k = map_option Some (map_of d k)"
  by (induction d) auto

lemma easy_func_exact: "map_of d k = Some f \<Longrightarrow> easy_func d k = Inr f"
  by (simp add: easy_func_def dict_match_def map_of_Some)

lemma bound_easy:
  assumes "bound registry (str_lower key) g s d"
  shows "easy_getitem t key = g t (str_lower key)" "easy_setitem t key vs = s t (str_lower key) vs"
    "easy_delitem t key = d t (str_lower key)"
  using assms by (simp_all add: bound_def easy_getitem_def easy_setitem_def easy_delitem_def
      easy_func_exact)

section \<open>Text frames\<close>

definition text_class :: "string \<Rightarrow> bool" where
  "text_class n = (case find_frame frames_v24 n of
     Some d \<Rightarrow> fd_spec d \<in> {base_spec TextFrame, base_spec NumericTextFrame,
       base_spec NumericPartTextFrame} \<and> \<not> is_opt d | None \<Rightarrow> False)"

lemma text_key_classes:
  "list_all (\<lambda>(frameid, _). own_key frameid \<and> text_class frameid \<and> 58 \<notin> set (uni frameid)) text_keys"
  by code_simp

lemma mapR_texts: "(\<And>u. w (FText u) = Inr (FText u)) \<Longrightarrow> mapR w (map FText vs) = Inr (map FText vs)"
  by (induction vs) simp_all

lemma getattr_setattr: "getattr (setattr a n v) m = (if m = n then Inr v else getattr a m)"
  by (simp add: getattr_def map_of_setattr)

lemma list_attr_set:
  "list_attr (set_attr n v f) m = (if m = n then (case v of FList vs \<Rightarrow> Inr vs | _ \<Rightarrow> Inl TypeError)
     else list_attr f m)"
  by (auto simp: list_attr_def set_attr_def getattr_setattr)

lemma set_attr_key: "fd_key (fr_def f) = KeyID \<Longrightarrow> hash_key_of (set_attr n v f) = hash_key_of f"
  by (simp add: KeyID_hash set_attr_def)

lemma text_frame_new:
  assumes "own_key n" "text_class n"
  obtains f where "add_new t n [(''encoding'', FInt 3), (''text'', texts vs)] = Inr (tag_set t (uni n) f)"
    "hash_key_of f = Inr (uni n)" "list_attr f ''text'' = Inr (map FText vs)"
proof -
  obtain d where d: "find_frame frames_v24 n = Some d" "fd_key d = KeyID" "fd_name d = n" "length n = 4"
    using assms(1) by (auto simp: own_key_def split: option.splits)
  let ?f = "\<lparr>fr_def = d, fr_attrs = setattr (setattr [] ''encoding'' (FInt 3)) ''text'' (texts vs)\<rparr>"
  have "frame_init d [] [(''encoding'', FInt 3), (''text'', texts vs)] = Inr ?f"
    using assms(2) d(1) by (auto simp: text_class_def frame_init_def kwarg_def validate_encoding_def
        texts_def validate_multi_def validate_values_def to_unicode_def mapR_texts)
  then have "add_new t n [(''encoding'', FInt 3), (''text'', texts vs)] = Inr (tag_set t (uni n) ?f)"
    using d KeyID_hash [of ?f]
    by (simp add: add_new_def make_frame_def loaded_frame_def upgrade_frame_def)
  moreover have "hash_key_of ?f = Inr (uni n)" using d KeyID_hash [of ?f] by simp
  moreover have "list_attr ?f ''text'' = Inr (map FText vs)"
    by (simp add: list_attr_def getattr_setattr texts_def)
  ultimately show ?thesis by (rule that)
qed

lemma text_set_result:
  assumes "tag_ok t" "own_key n" "text_class n" "58 \<notin> set (uni n)"
  obtains f where "text_set n t key vs = Inr (tag_set t (uni n) f)"
    "hash_key_of f = Inr (uni n)" "list_attr f ''text'' = Inr (map FText vs)"
proof (cases "tag_get t (uni n)")
  case None
  then show ?thesis using text_frame_new [OF assms(2,3), of t vs] that by (auto simp: text_set_def)
next
  case (Some f)
  have h: "hash_key_of f = Inr (uni n)" by (rule tag_ok_get [OF assms(1) Some])
  have "fd_key (fr_def (set_attr ''encoding'' (FInt 3) f)) = KeyID"
    using plain_key [OF h assms(4)] by (simp add: set_attr_def)
  then show ?thesis using Some h plain_key [OF h assms(4)]
    by (intro that [of "set_attr ''text'' (texts vs) (set_attr ''encoding'' (FInt 3) f)"])
      (simp_all add: text_set_def set_attr_key list_attr_set texts_def)
qed

text \<open>
  C28. \<open>EasyID3\<close> over a tag: for every name of a text frame except \<open>albumartistsort\<close> (which a
  later registration takes), in any case, setting a list of texts succeeds, keeps every frame under
  its own key, changes no frame but the one named, and the list is what is read back; deleting the
  name removes the frame and reading it is then a \<open>KeyError\<close>.
\<close>

theorem easy_text:
  assumes "tag_ok t" "(frameid, k) \<in> set text_keys" "k \<noteq> ''albumartistsort''" "str_lower key = k"
  shows "\<exists>t' u. easy_setitem t key vs = Inr t' \<and> tag_ok t' \<and> same_except [frameid] t t'
           \<and> easy_getitem t' key = Inr (map FText vs)
           \<and> easy_delitem t' key = Inr u \<and> tag_ok u \<and> same_except [frameid] t u
           \<and> easy_getitem u key = Inl KeyError \<and> easy_delitem u key = Inl KeyError"
proof -
  have n: "own_key frameid" "text_class frameid" "58 \<notin> set (uni frameid)"
    using bspec [OF text_key_classes [unfolded list_all_iff] assms(2)] by simp_all
  have b: "bound registry (str_lower key) (text_get frameid) (text_set frameid) (text_del frameid)"
    using bound_text_key [OF assms(2,3)] assms(4) by simp
  obtain f where f: "text_set frameid t k vs = Inr (tag_set t (uni frameid) f)"
    "hash_key_of f = Inr (uni frameid)" "list_attr f ''text'' = Inr (map FText vs)"
    by (rule text_set_result [OF assms(1) n])
  let ?t = "tag_set t (uni frameid) f" and ?u = "tag_del (tag_set t (uni frameid) f) (uni frameid)"
  have ok: "tag_ok ?t" by (rule tag_ok_set [OF assms(1) f(2)])
  have "same_except [frameid] t ?t" by (rule same_except_set) simp
  moreover have "same_except [frameid] t ?u"
    by (rule same_except_trans [OF calculation same_except_del [of frameid "[frameid]"]]) simp_all
  moreover have "easy_setitem t key vs = Inr ?t" "easy_getitem ?t key = Inr (map FText vs)"
    "easy_delitem ?t key = Inr ?u" "easy_getitem ?u key = Inl KeyError" "easy_delitem ?u key = Inl KeyError"
    using f assms(4) by (simp_all add: bound_easy [OF b] text_get_def text_del_def frame_at_def
        del_frame_def has_key_def tag_get_set tag_get_del)
  ultimately show ?thesis using ok tag_ok_del [OF ok] by blast
qed

lemma easy_text_witness:
  "\<exists>t' u. easy_setitem new_id3 ''Title'' [[72, 105]] = Inr t' \<and> tag_ok t'
     \<and> same_except [''TIT2''] new_id3 t' \<and> easy_getitem t' ''Title'' = Inr (map FText [[72, 105]])
     \<and> easy_delitem t' ''Title'' = Inr u \<and> tag_ok u \<and> same_except [''TIT2''] new_id3 u
     \<and> easy_getitem u ''Title'' = Inl KeyError \<and> easy_delitem u ''Title'' = Inl KeyError"
proof -
  have "str_lower ''Title'' = ''title''" by code_simp
  then show ?thesis
    by (intro easy_text [OF tag_ok_new, of "''TIT2''" "''title''" "''Title''" "[[72, 105]]"])
      (simp_all add: text_keys_def)
qed

section \<open>Performers\<close>

text \<open>The musician credits of the tag: pairs of a role and a person.\<close>

definition people :: "(fval \<times> fval) list \<Rightarrow> fval list" where
  "people qs = map (\<lambda>(r, q). FList [r, q]) qs"

definition credits :: "id3 \<Rightarrow> (fval \<times> fval) list \<Rightarrow> bool" where
  "credits t qs = (case tag_get t (uni ''TMCL'') of
     None \<Rightarrow> qs = [] | Some f \<Rightarrow> list_attr f ''people'' = Inr (people qs))"

lemma people_append: "people (qs @ map (\<lambda>v. (a, FText v)) vs) = people qs @ map (\<lambda>v. FList [a, FText v]) vs"
  by (simp add: people_def)

lemma mapR_pairs: "mapR person_pair (people qs) = Inr qs"
  by (induction qs) (auto simp: people_def person_pair_def)

lemma other_people_pairs:
  "other_people role (people qs) = Inr (people (filter (\<lambda>(r, _). r \<noteq> FText role) qs))"
  by (induction qs) (auto simp: people_def person_role_def)

lemma performer_get_credits:
  assumes "credits t qs" "wanted_role key = Inr role"
  shows "performer_get t key =
    (let ps = map snd (filter (\<lambda>(r, _). r = FText role) qs) in if ps = [] then Inl KeyError else Inr ps)"
proof (cases "tag_get t (uni ''TMCL'')")
  case None
  then show ?thesis using assms by (simp add: credits_def performer_get_def frame_at_def)
next
  case (Some f)
  then show ?thesis using assms
    by (simp add: credits_def performer_get_def frame_at_def mapR_pairs Let_def)
qed

lemma people_frame:
  obtains f where "add_new t ''TMCL'' [(''encoding'', FInt 3), (''people'', FList [])]
      = Inr (tag_set t (uni ''TMCL'') f)"
    "hash_key_of f = Inr (uni ''TMCL'')" "list_attr f ''people'' = Inr []"
proof -
  have own: "own_key ''TMCL''" by code_simp
  then obtain d where d: "find_frame frames_v24 ''TMCL'' = Some d" "fd_key d = KeyID"
      "fd_name d = ''TMCL''"
    by (auto simp: own_key_def split: option.splits)
  have spec: "case find_frame frames_v24 ''TMCL'' of
      Some d \<Rightarrow> fd_spec d = base_spec PairedTextFrame \<and> \<not> is_opt d | None \<Rightarrow> False"
    by code_simp
  let ?f = "\<lparr>fr_def = d, fr_attrs = setattr (setattr [] ''encoding'' (FInt 3)) ''people'' (FList [])\<rparr>"
  have "frame_init d [] [(''encoding'', FInt 3), (''people'', FList [])] = Inr ?f"
    using spec d(1) by (simp add: frame_init_def kwarg_def validate_encoding_def validate_multi_def
        validate_values_def)
  then have "add_new t ''TMCL'' [(''encoding'', FInt 3), (''people'', FList [])]
      = Inr (tag_set t (uni ''TMCL'') ?f)"
    using d KeyID_hash [of ?f]
    by (simp add: add_new_def make_frame_def loaded_frame_def upgrade_frame_def)
  moreover have "hash_key_of ?f = Inr (uni ''TMCL'')" using d KeyID_hash [of ?f] by simp
  moreover have "list_attr ?f ''people'' = Inr []" by (simp add: list_attr_def getattr_setattr)
  ultimately show ?thesis by (rule that)
qed

lemma performer_set_frame:
  assumes "tag_ok t" "tag_get t (uni ''TMCL'') = Some f" "list_attr f ''people'' = Inr (people qs)"
    "wanted_role key = Inr role"
  obtains t' where "performer_set t key vs = Inr t'" "tag_ok t'" "same_except [''TMCL''] t t'"
    "credits t' (filter (\<lambda>(r, _). r \<noteq> FText role) qs @ map (\<lambda>v. (FText role, FText v)) vs)"
proof -
  let ?qs = "filter (\<lambda>(r, _). r \<noteq> FText role) qs @ map (\<lambda>v. (FText role, FText v)) vs"
  let ?f = "set_attr ''people'' (FList (people ?qs)) (set_attr ''encoding'' (FInt 3) f)"
  have h: "hash_key_of f = Inr (uni ''TMCL'')" by (rule tag_ok_get [OF assms(1,2)])
  then have "fd_key (fr_def f) = KeyID" by (rule plain_key) (simp add: uni_def)
  then have "hash_key_of ?f = Inr (uni ''TMCL'')"
    using h set_attr_key [of f "''encoding''" "FInt 3"]
      set_attr_key [of "set_attr ''encoding'' (FInt 3) f"] by (simp add: set_attr_def)
  moreover have "performer_set t key vs = Inr (tag_set t (uni ''TMCL'') ?f)"
    using assms(2-4) by (simp add: performer_set_def frame_at_def other_people_pairs people_append)
  moreover have "credits (tag_set t (uni ''TMCL'') ?f) ?qs"
    by (simp add: credits_def tag_get_set list_attr_set)
  moreover have "same_except [''TMCL''] t (tag_set t (uni ''TMCL'') ?f)" by (rule same_except_set) simp
  ultimately show ?thesis by (metis that tag_ok_set [OF assms(1)])
qed

lemma performer_set_new:
  assumes "tag_get t (uni ''TMCL'') = None"
    "add_new t ''TMCL'' [(''encoding'', FInt 3), (''people'', FList [])] = Inr (tag_set t (uni ''TMCL'') f)"
  shows "performer_set t key vs = performer_set (tag_set t (uni ''TMCL'') f) key vs"
  using assms by (simp add: performer_set_def tag_get_set)

lemma performer_set_credits:
  assumes "tag_ok t" "credits t qs" "wanted_role key = Inr role"
  obtains t' where "performer_set t key vs = Inr t'" "tag_ok t'" "same_except [''TMCL''] t t'"
    "credits t' (filter (\<lambda>(r, _). r \<noteq> FText role) qs @ map (\<lambda>v. (FText role, FText v)) vs)"
proof (cases "tag_get t (uni ''TMCL'')")
  case None
  obtain f where f: "add_new t ''TMCL'' [(''encoding'', FInt 3), (''people'', FList [])]
      = Inr (tag_set t (uni ''TMCL'') f)"
    "hash_key_of f = Inr (uni ''TMCL'')" "list_attr f ''people'' = Inr (people [])"
    using people_frame [of t] by (auto simp: people_def)
  have qs: "qs = []" using assms(2) None by (simp add: credits_def)
  let ?t = "tag_set t (uni ''TMCL'') f"
  have "tag_get ?t (uni ''TMCL'') = Some f" by (simp add: tag_get_set)
  from performer_set_frame [OF tag_ok_set [OF assms(1) f(2)] this f(3) assms(3), of vs]
  obtain t' where t': "performer_set ?t key vs = Inr t'" "tag_ok t'" "same_except [''TMCL''] ?t t'"
    "credits t' (filter (\<lambda>(r, _). r \<noteq> FText role) [] @ map (\<lambda>v. (FText role, FText v)) vs)" by blast
  have "same_except [''TMCL''] t t'"
    by (rule same_except_trans [OF same_except_set [of "''TMCL''" "[''TMCL'']"] t'(3)]) simp_all
  then show ?thesis using that t' performer_set_new [OF None f(1)] qs by simp
next
  case (Some f)
  then have "list_attr f ''people'' = Inr (people qs)" using assms(2) by (simp add: credits_def)
  from performer_set_frame [OF assms(1) Some this assms(3)] that show ?thesis by blast
qed

text \<open>
  Setting the performers of a role replaces the credits of that role and keeps every other:
  the persons set are read back under the role (an empty list leaves none, and reading is a
  \<open>KeyError\<close>), what any other role reads is unchanged, and no frame but \<open>TMCL\<close> is touched.
\<close>

theorem performers:
  assumes "tag_ok t" "credits t qs" "wanted_role key = Inr role"
  shows "\<exists>t'. performer_set t key vs = Inr t' \<and> tag_ok t' \<and> same_except [''TMCL''] t t'
      \<and> performer_get t' key = (if vs = [] then Inl KeyError else Inr (map FText vs))
      \<and> (\<forall>key' role'. wanted_role key' = Inr role' \<longrightarrow> role' \<noteq> role \<longrightarrow>
            performer_get t' key' = performer_get t key')"
proof -
  obtain t' where t': "performer_set t key vs = Inr t'" "tag_ok t'" "same_except [''TMCL''] t t'"
    and c: "credits t' (filter (\<lambda>(r, _). r \<noteq> FText role) qs @ map (\<lambda>v. (FText role, FText v)) vs)"
    by (rule performer_set_credits [OF assms])
  have "filter (\<lambda>(r, _). r = FText role) (filter (\<lambda>(r, _). r \<noteq> FText role) qs) = []"
    by (auto simp: filter_empty_conv)
  then have "performer_get t' key = (if vs = [] then Inl KeyError else Inr (map FText vs))"
    by (simp add: performer_get_credits [OF c assms(3)] filter_map comp_def Let_def)
  moreover have "performer_get t' key' = performer_get t key'"
    if "wanted_role key' = Inr role'" "role' \<noteq> role" for key' role'
  proof -
    have "filter (\<lambda>(r, _). r = FText role') (filter (\<lambda>(r, _). r \<noteq> FText role) qs)
        = filter (\<lambda>(r, _). r = FText role') qs"
      using that(2) by (auto simp: intro: filter_cong)
    then show ?thesis using that(2)
      by (simp add: performer_get_credits [OF c that(1)] performer_get_credits [OF assms(2) that(1)]
          filter_map comp_def)
  qed
  ultimately show ?thesis using t' by blast
qed

lemma performers_witness:
  "\<exists>t'. performer_set new_id3 ''performer:drums'' [[75]] = Inr t' \<and> tag_ok t'
     \<and> performer_get t' ''performer:drums'' = Inr [FText [75]]"
proof -
  have "credits new_id3 []" by (simp add: credits_def new_id3_def tag_get_def)
  moreover have "wanted_role ''performer:drums'' = Inr (uni ''drums'')" by code_simp
  ultimately show ?thesis
    using performers [OF tag_ok_new, of "[]" "''performer:drums''" "uni ''drums''" "[[75]]"] by auto
qed

end
