(* ===== verification/Ogg_Page.thy ===== *)
theory Ogg_Page
  imports Mut_File "HOL-Library.Word"
begin

text \<open>
  \<open>OggPage\<close> of \<open>mutagen/ogg.py\<close>: the pages of an Ogg stream, their flags, their checksum, and how
  they are read and written.

  The type flags are the private attribute the properties \<open>continued\<close>, \<open>first\<close> and \<open>last\<close> look
  into. Strings of packets are byte strings. The exception class \<open>error\<close> of the module is
  \<open>OggError\<close>. \<open>zlib.crc32\<close> is the CRC-32 of the standard library, over 32-bit words.
\<close>

section \<open>Pages and flags\<close>

record ogg_page =
  pg_version :: int
  pg_flags :: int
  pg_position :: int
  pg_serial :: int
  pg_sequence :: int
  pg_offset :: "nat option"
  pg_complete :: bool
  pg_packets :: "string list"

definition new_page :: ogg_page where
  "new_page = \<lparr>pg_version = 0, pg_flags = 0, pg_position = 0, pg_serial = 0, pg_sequence = 0,
     pg_offset = None, pg_complete = True, pg_packets = []\<rparr>"

definition set_flag :: "nat \<Rightarrow> bool \<Rightarrow> ogg_page \<Rightarrow> ogg_page" where
  "set_flag n val p =
     (let mask = push_bit n 1
      in p\<lparr>pg_flags := (if val then pg_flags p OR mask else pg_flags p AND NOT mask)\<rparr>)"

definition pg_continued :: "ogg_page \<Rightarrow> bool" where
  "pg_continued p = test_bit (pg_flags p) 0"

definition pg_first :: "ogg_page \<Rightarrow> bool" where
  "pg_first p = test_bit (pg_flags p) 1"

definition pg_last :: "ogg_page \<Rightarrow> bool" where
  "pg_last p = test_bit (pg_flags p) 2"

section \<open>The checksum\<close>

text \<open>One step of the reflected CRC-32, and \<open>zlib.crc32(data, start)\<close>.\<close>

definition crc32_bit :: "32 word \<Rightarrow> 32 word" where
  "crc32_bit c = (if bit c 0 then drop_bit 1 c XOR 0xEDB88320 else drop_bit 1 c)"

definition crc32_byte :: "32 word \<Rightarrow> char \<Rightarrow> 32 word" where
  "crc32_byte c b = (crc32_bit ^^ 8) (c XOR of_nat (ord b))"

definition crc32 :: "string \<Rightarrow> 32 word \<Rightarrow> 32 word" where
  "crc32 data start = NOT (foldl crc32_byte (NOT start) data)"

text \<open>\<open>data.translate(cdata.bitswap)\<close>.\<close>

definition swap_bits :: "string \<Rightarrow> string" where
  "swap_bits data = map (\<lambda>c. bitswap ! ord c) data"

definition page_crc :: "string \<Rightarrow> merr + string" where
  "page_crc data =
     (let crc = NOT (crc32 (swap_bits data) (-1))
      in bindR (to_uint_be (uint crc)) (\<lambda>s. Inr (swap_bits s)))"

section \<open>Writing\<close>

text \<open>The lacing values of a packet: its length in base one, by 255.\<close>

definition lacing_of :: "string \<Rightarrow> string" where
  "lacing_of datum =
     (let quot = length datum div 255; rem = length datum mod 255
      in replicate quot (chr 255) @ [chr rem])"

definition lacing_data :: "ogg_page \<Rightarrow> string" where
  "lacing_data p =
     (let s = concat (map lacing_of (pg_packets p))
      in if \<not> pg_complete p \<and> endswith s [chr 0] then butlast s else s)"

definition page_header :: "ogg_page \<Rightarrow> merr + string" where
  "page_header p =
     bindR (pack_u False 1 (pg_version p)) (\<lambda>version.
     bindR (pack_u False 1 (pg_flags p)) (\<lambda>flags.
     bindR (to_longlong_le (pg_position p)) (\<lambda>position.
     bindR (to_uint_le (pg_serial p)) (\<lambda>serial.
     bindR (to_uint_le (pg_sequence p)) (\<lambda>sequence.
     bindR (to_int_le 0) (\<lambda>zero.
       Inr (''OggS'' @ version @ flags @ position @ serial @ sequence @ zero)))))))"

definition write_page :: "ogg_page \<Rightarrow> merr + string" where
  "write_page p =
     bindR (page_header p) (\<lambda>header.
       let lacing = lacing_data p
       in if 255 < length lacing then Inl ValueError
          else let data = header @ [chr (length lacing)] @ lacing @ concat (pg_packets p)
               in bindR (page_crc data) (\<lambda>crc. Inr (take 22 data @ crc @ drop 26 data)))"

text \<open>\<open>size\<close>; the last remainder does not exist on an incomplete page without packets.\<close>

definition page_size :: "ogg_page \<Rightarrow> merr + nat" where
  "page_size p =
     (let laces = sum_list (map (\<lambda>d. length d div 255 + 1) (pg_packets p))
      in if pg_complete p then Inr (27 + laces + sum_list (map length (pg_packets p)))
         else if pg_packets p = [] then Inl UnboundLocalError
         else Inr (27 + laces - (if length (last (pg_packets p)) mod 255 = 0 then 1 else 0)
                   + sum_list (map length (pg_packets p))))"

text \<open>Two pages are the same if they write the same data.\<close>

definition page_eq :: "ogg_page \<Rightarrow> ogg_page \<Rightarrow> merr + bool" where
  "page_eq p q = bindR (write_page p) (\<lambda>a. bindR (write_page q) (\<lambda>b. Inr (a = b)))"

section \<open>Reading\<close>

text \<open>The loop over the lacing values: the lengths of the packets, and what is left open.\<close>

fun scan_lacings :: "nat \<Rightarrow> nat list \<Rightarrow> nat list \<times> nat" where
  "scan_lacings acc [] = ([], acc)"
| "scan_lacings acc (c # cs) =
     (if c < 255 then
        (let (lacings, rest) = scan_lacings 0 cs in ((acc + c) # lacings, rest))
      else scan_lacings (acc + c) cs)"

fun read_packets :: "nat list \<Rightarrow> fobj \<Rightarrow> string list \<times> fobj" where
  "read_packets [] f = ([], f)"
| "read_packets (n # ns) f =
     (let (data, f) = f_read (int n) f; (packets, f) = read_packets ns f in (data # packets, f))"

text \<open>\<open>struct.unpack("<4sBBqIIiB", header)\<close>, with the checksum field ignored.\<close>

definition unpack_header :: "string \<Rightarrow> merr + string \<times> int \<times> int \<times> int \<times> int \<times> int \<times> nat" where
  "unpack_header header =
     (if length header \<noteq> 27 then Inl StructError
      else bindR (unpack_u False 1 (str_slice header 4 5)) (\<lambda>version.
      bindR (unpack_u False 1 (str_slice header 5 6)) (\<lambda>flags.
      bindR (longlong_le (str_slice header 6 14)) (\<lambda>position.
      bindR (uint_le (str_slice header 14 18)) (\<lambda>serial.
      bindR (uint_le (str_slice header 18 22)) (\<lambda>sequence.
        Inr (take 4 header, version, flags, position, serial, sequence, ord (header ! 26))))))))"

text \<open>The constructor with a file; the file is left where reading stopped.\<close>

definition read_page :: "fobj \<Rightarrow> (merr + ogg_page) \<times> fobj" where
  "read_page f =
     (let offset = fpos f; (header, f) = f_read 27 f
      in if header = [] then (Inl EOFError, f)
         else case unpack_header header of
           Inl _ \<Rightarrow> (Inl OggError, f)
         | Inr (oggs, version, flags, position, serial, sequence, segments) \<Rightarrow>
             if oggs \<noteq> ''OggS'' then (Inl OggError, f)
             else if version \<noteq> 0 then (Inl OggError, f)
             else let (lacing_bytes, f) = f_read (int segments) f
                  in if length lacing_bytes \<noteq> segments then (Inl OggError, f)
                     else let (lacings, acc) = scan_lacings 0 (map ord lacing_bytes);
                              lacings = (if acc \<noteq> 0 then lacings @ [acc] else lacings);
                              (packets, f) = read_packets lacings f
                          in if map length packets \<noteq> lacings then (Inl OggError, f)
                             else (Inr \<lparr>pg_version = version, pg_flags = flags,
                                     pg_position = position, pg_serial = serial,
                                     pg_sequence = sequence, pg_offset = Some offset,
                                     pg_complete = (acc = 0), pg_packets = packets\<rparr>, f))"

end
