(* ===== verification/Ogg_Crc.thy ===== *)
theory Ogg_Crc
  imports Ogg_Page
begin

text \<open>
  The checksum of a page. RFC 3533 asks for the CRC with polynomial \<open>0x04C11DB7\<close>, most significant
  bit first, start value and final inversion zero; the code gets it from the reflected CRC-32 of
  \<open>zlib\<close> by swapping the bits of every byte before and after. Reversing the register turns one
  into the other, bit by bit.
\<close>

definition ogg_bit :: "32 word \<Rightarrow> 32 word" where
  "ogg_bit c = (if bit c 31 then push_bit 1 c XOR 0x04C11DB7 else push_bit 1 c)"

definition ogg_byte :: "32 word \<Rightarrow> char \<Rightarrow> 32 word" where
  "ogg_byte c b = (ogg_bit ^^ 8) (c XOR push_bit 24 (of_nat (ord b)))"

definition ogg_crc :: "string \<Rightarrow> 32 word" where
  "ogg_crc data = foldl ogg_byte 0 data"

lemma reverse_xor: "word_reverse (a XOR b) = word_reverse a XOR word_reverse (b :: 32 word)"
  by (rule bit_eqI) (auto simp: bit_simps)

lemma reverse_drop: "word_reverse (drop_bit 1 c) = push_bit 1 (word_reverse (c :: 32 word))"
proof (rule bit_word_eqI)
  fix n assume n: "n < LENGTH(32)"
  show "bit (word_reverse (drop_bit 1 c)) n = bit (push_bit 1 (word_reverse c)) n"
  proof (cases n)
    case 0
    have "\<not> bit c 32" using bit_imp_le_length [of c 32] by auto
    then show ?thesis using 0 by (simp only: bit_simps) simp
  next
    case (Suc m)
    then have "1 + (32 - Suc n) = 32 - Suc m" using n by simp
    then show ?thesis using Suc n by (simp only: bit_simps len_num1 len_num0) simp
  qed
qed

lemma reverse_poly: "word_reverse (0xEDB88320 :: 32 word) = 0x04C11DB7"
  by code_simp

lemma reverse_bit: "word_reverse (crc32_bit c) = ogg_bit (word_reverse c)"
proof -
  have "bit (word_reverse c) 31 = bit c 0" by (simp add: bit_simps)
  then show ?thesis unfolding crc32_bit_def ogg_bit_def
    by (simp only: reverse_xor reverse_drop reverse_poly if_distrib [of word_reverse])
qed

lemma reverse_bits: "word_reverse ((crc32_bit ^^ n) c) = (ogg_bit ^^ n) (word_reverse c)"
  by (induction n) (simp_all add: reverse_bit)

lemma and_one_bit: "drop_bit i (v :: nat) AND 1 = of_bool (bit v i)"
  by (simp add: and_one_eq bit_iff_odd_drop_bit mod_2_eq_odd)

lemma upt_8: "[0..<8] = [0, 1, 2, 3, 4, 5, 6, 7 :: nat]"
  by code_simp

lemma swap_value:
  "sum_list (map (\<lambda>i. push_bit (7 - i) (drop_bit i (v :: nat) AND 1)) [0..<8])
     = horner_sum of_bool 2 (map (\<lambda>i. bit v (7 - i)) [0..<8])"
proof -
  have "sum_list (map (\<lambda>i. push_bit (7 - i) (g i)) [0..<8])
      = horner_sum id 2 (map (\<lambda>i. g (7 - i)) [0..<8])" for g :: "nat \<Rightarrow> nat"
    unfolding upt_8 by (simp add: push_bit_eq_mult)
  from this [of "\<lambda>i. of_bool (bit v i)"] show ?thesis unfolding and_one_bit upt_8 by simp
qed

lemma bit_bitswap:
  assumes "v < 256" shows "bit (ord (bitswap ! v)) n \<longleftrightarrow> n < 8 \<and> bit v (7 - n)"
proof -
  let ?h = "horner_sum of_bool 2 (map (\<lambda>i. bit v (7 - i)) [0..<8]) :: nat"
  have b: "bit ?h n \<longleftrightarrow> n < 8 \<and> bit v (7 - n)" for n by (auto simp: bit_horner_sum_bit_iff)
  have "take_bit 8 ?h = ?h" by (rule bit_eqI) (auto simp: bit_take_bit_iff b)
  then have "?h < 256" by (simp add: take_bit_nat_eq_self_iff)
  moreover have "bitswap ! v = chr ?h" using assms by (simp only: bitswap_def swap_value) simp
  ultimately show ?thesis using b by simp
qed

lemma reverse_byte:
  "word_reverse (of_nat (ord (bitswap ! ord c)) :: 32 word) = push_bit 24 (of_nat (ord c))"
proof (rule bit_word_eqI)
  fix n assume "n < LENGTH(32)"
  have "\<not> bit (ord c) m" if "8 \<le> m" for m
  proof -
    have "take_bit 8 (ord c) = ord c" by (simp add: take_bit_nat_eq_self_iff)
    then show ?thesis using that by (metis bit_take_bit_iff not_le)
  qed
  then show "bit (word_reverse (of_nat (ord (bitswap ! ord c)) :: 32 word)) n
      = bit (push_bit 24 (of_nat (ord c) :: 32 word)) n"
    using \<open>n < LENGTH(32)\<close>
    by (auto simp: bit_simps bit_bitswap)
qed

lemma reverse_crc: "word_reverse (foldl crc32_byte c (swap_bits data)) = foldl ogg_byte (word_reverse c) data"
  by (induction data arbitrary: c)
    (simp_all add: swap_bits_def crc32_byte_def ogg_byte_def reverse_bits reverse_xor reverse_byte)

lemma digits_4:
  "digits 8 4 v = map (\<lambda>k. take_bit 8 (drop_bit (8 * k) v)) [0, 1, 2, 3]"
proof -
  have "(4 :: nat) = Suc (Suc (Suc (Suc 0)))" by simp
  then have "digits 8 4 v = digits 8 (Suc (Suc (Suc (Suc 0)))) v" by (simp only:)
  also have "\<dots> = map (\<lambda>k. take_bit 8 (drop_bit (8 * k) v)) [0, 1, 2, 3]"
    by (simp only: digits.simps list.map) (simp add: take_bit_eq_mod drop_bit_eq_div flip: div_mult2_eq)
  finally show ?thesis .
qed

lemma swap_byte:
  assumes "k < 4"
  shows "bitswap ! take_bit 8 (drop_bit (8 * k) (unat c))
     = chr (take_bit 8 (drop_bit (8 * (3 - k)) (unat (word_reverse (c :: 32 word)))))"
proof -
  let ?v = "take_bit 8 (drop_bit (8 * k) (unat c))"
  let ?w = "take_bit 8 (drop_bit (8 * (3 - k)) (unat (word_reverse c)))"
  have v: "?v < 256" "?w < 256" using take_bit_nat_less_exp [of 8] by simp_all
  have "ord (bitswap ! ?v) = ?w"
  proof (rule bit_eqI)
    fix n
    show "bit (ord (bitswap ! ?v)) n = bit ?w n"
    proof (cases "n < 8")
      case True
      then have "31 - (8 * (3 - k) + n) = 8 * k + (7 - n)" "8 * (3 - k) + n < 32"
        using assms by simp_all
      moreover have "7 - n < 8" using True by simp
      ultimately show ?thesis using True by (simp add: bit_bitswap [OF v(1)] bit_simps)
    next
      case False
      then show ?thesis by (simp add: bit_bitswap [OF v(1)] bit_simps)
    qed
  qed
  then show ?thesis by (metis char_of_char)
qed

lemma swap_bits_word:
  "swap_bits (struct_bytes True 4 (unat c)) = struct_bytes False 4 (unat (word_reverse (c :: 32 word)))"
proof -
  have "ord (chr (take_bit 8 (x :: nat))) = take_bit 8 x" for x
    using take_bit_nat_less_exp [of 8 x] by simp
  then show ?thesis
    using swap_byte [of 0 c] swap_byte [of 1 c] swap_byte [of 2 c] swap_byte [of 3 c]
    by (simp add: swap_bits_def struct_bytes_def digits_4)
qed

lemma page_crc_eq: "page_crc data = Inr (struct_bytes False 4 (unat (ogg_crc data)))"
proof -
  let ?c = "foldl crc32_byte 0 (swap_bits data)"
  have c: "NOT (crc32 (swap_bits data) (-1)) = ?c" by (simp add: crc32_def)
  have "uint ?c < 2 ^ 32" using uint_lt2p [of ?c] by simp
  then have "to_uint_be (uint ?c) = Inr (struct_bytes True 4 (unat ?c))"
    by (simp add: to_uint_be_def pack_u_def nat_uint_eq)
  moreover have "word_reverse (0 :: 32 word) = 0" by (rule bit_word_eqI) (simp add: bit_simps)
  then have "word_reverse ?c = ogg_crc data" by (simp add: reverse_crc ogg_crc_def)
  ultimately show ?thesis by (simp add: page_crc_def c swap_bits_word)
qed

lemma length_page_crc: "page_crc data = Inr crc \<Longrightarrow> length crc = 4"
  by (auto simp: page_crc_eq)

end
