(* ===== verification/Ogg_Page_Laws.thy ===== *)
theory Ogg_Page_Laws
  imports Ogg_Crc
begin

text \<open>
  What a written page looks like, that reading it gives the page back, and that its size is the
  number of bytes it takes.
\<close>

section \<open>Lacing values\<close>

text \<open>An incomplete page can only end with a packet whose lacing values are all 255.\<close>

definition open_end :: "ogg_page \<Rightarrow> bool" where
  "open_end p \<longleftrightarrow> pg_packets p \<noteq> [] \<and> last (pg_packets p) \<noteq> [] \<and> 255 dvd length (last (pg_packets p))"

definition framed :: "ogg_page \<Rightarrow> bool" where
  "framed p \<longleftrightarrow> pg_complete p \<or> open_end p"

lemma scan_full: "scan_lacings acc (replicate q 255 @ cs) = scan_lacings (acc + 255 * q) cs"
  by (induction q arbitrary: acc) (simp_all add: algebra_simps)

lemma map_ord_lacing: "map ord (lacing_of d) = replicate (length d div 255) 255 @ [length d mod 255]"
proof -
  have "length d mod 255 < 256" using mod_less_divisor [of 255 "length d"] by linarith
  then show ?thesis by (simp add: lacing_of_def Let_def)
qed

lemma scan_packet:
  "scan_lacings acc (map ord (lacing_of d) @ cs) =
     (let (lacings, rest) = scan_lacings 0 cs in ((acc + length d) # lacings, rest))"
proof -
  have "length d mod 255 < 255" by simp
  then show ?thesis by (simp add: map_ord_lacing scan_full add.commute [of acc] split: prod.split)
qed

lemma scan_packets:
  "scan_lacings 0 (map ord (concat (map lacing_of ds)) @ cs) =
     (let (lacings, rest) = scan_lacings 0 cs in (map length ds @ lacings, rest))"
  by (induction ds) (simp_all add: scan_packet split: prod.split)

lemma lacing_complete: "pg_complete p \<Longrightarrow> lacing_data p = concat (map lacing_of (pg_packets p))"
  by (simp add: lacing_data_def)

lemma lacing_open:
  assumes "\<not> pg_complete p" "open_end p"
  obtains ds d k where "pg_packets p = ds @ [d]" "length d = 255 * k" "0 < k"
    "lacing_data p = concat (map lacing_of ds) @ replicate k (chr 255)"
proof -
  obtain ds d where p: "pg_packets p = ds @ [d]"
    using assms(2) by (metis open_end_def append_butlast_last_id)
  then obtain k where k: "length d = 255 * k" "0 < k"
    using assms(2) by (auto simp: open_end_def dvd_def) (metis length_greater_0_conv mult_0_right neq0_conv)
  have l: "lacing_of d = replicate k (chr 255) @ [chr 0]" by (simp add: lacing_of_def k)
  have "concat (map lacing_of (pg_packets p)) = (concat (map lacing_of ds) @ replicate k (chr 255)) @ [chr 0]"
    by (simp add: p l)
  then have "lacing_data p = concat (map lacing_of ds) @ replicate k (chr 255)"
    unfolding lacing_data_def using assms(1) by (simp only: Let_def endswith_append butlast_snoc) simp
  then show ?thesis using that p k by blast
qed

lemma scan_written:
  assumes "framed p"
  shows "\<exists>lacings acc. scan_lacings 0 (map ord (lacing_data p)) = (lacings, acc)
    \<and> (acc = 0 \<longleftrightarrow> pg_complete p)
    \<and> map length (pg_packets p) = (if acc \<noteq> 0 then lacings @ [acc] else lacings)"
proof (cases "pg_complete p")
  case True
  then show ?thesis using scan_packets [of "pg_packets p" "[]"] by (simp add: lacing_complete)
next
  case False
  then obtain ds d k where p: "pg_packets p = ds @ [d]" "length d = 255 * k" "0 < k"
    "lacing_data p = concat (map lacing_of ds) @ replicate k (chr 255)"
    using assms lacing_open by (metis framed_def)
  have "scan_lacings 0 (replicate k 255) = ([], 255 * k)"
    using scan_full [of 0 k "[]"] by simp
  then show ?thesis using scan_packets [of ds "replicate k 255"] p False by simp
qed

lemma length_lacings: "length (concat (map lacing_of ds)) = sum_list (map (\<lambda>d. length d div 255 + 1) ds)"
  by (induction ds) (simp_all add: lacing_of_def Let_def)

section \<open>The bytes of a page\<close>

definition fields_fit :: "ogg_page \<Rightarrow> bool" where
  "fields_fit p \<longleftrightarrow> u_fits 1 (pg_version p) \<and> u_fits 1 (pg_flags p) \<and> s_fits 8 (pg_position p)
     \<and> u_fits 4 (pg_serial p) \<and> u_fits 4 (pg_sequence p)"

definition page_head :: "ogg_page \<Rightarrow> string" where
  "page_head p = ''OggS'' @ struct_bytes False 1 (nat (pg_version p))
     @ struct_bytes False 1 (nat (pg_flags p))
     @ struct_bytes False 8 (nat (pg_position p mod 2 ^ 64))
     @ struct_bytes False 4 (nat (pg_serial p)) @ struct_bytes False 4 (nat (pg_sequence p))"

definition page_body :: "ogg_page \<Rightarrow> string" where
  "page_body p = chr (length (lacing_data p)) # lacing_data p @ concat (pg_packets p)"

definition page_sum :: "ogg_page \<Rightarrow> string" where
  "page_sum p = struct_bytes False 4 (unat (ogg_crc (page_head p @ replicate 4 (chr 0) @ page_body p)))"

definition page_bytes :: "ogg_page \<Rightarrow> string" where
  "page_bytes p = page_head p @ page_sum p @ page_body p"

lemma length_page_head [simp]: "length (page_head p) = 22"
  by (simp add: page_head_def)

lemma length_page_sum [simp]: "length (page_sum p) = 4"
  by (simp add: page_sum_def)

lemma pack_u_iff: "pack_u big n v = Inr s \<longleftrightarrow> u_fits n v \<and> s = struct_bytes big n (nat v)"
  by (auto simp: pack_u_def u_fits_def)

lemma pack_s_iff: "pack_s big n v = Inr s \<longleftrightarrow> s_fits n v \<and> s = struct_bytes big n (nat (v mod 2 ^ (8 * n)))"
  by (auto simp: pack_s_def s_fits_def)

lemma page_header_iff:
  "page_header p = Inr s \<longleftrightarrow> fields_fit p \<and> s = page_head p @ replicate 4 (chr 0)"
proof -
  have z: "pack_s False 4 0 = Inr (replicate 4 (chr 0))"
    by (simp add: pack_s_def struct_bytes_def)
  show ?thesis
    by (auto simp: page_header_def bindR_Inr_iff to_longlong_le_def to_uint_le_def to_int_le_def
        pack_u_iff pack_s_iff z fields_fit_def page_head_def)
qed

lemma write_page_iff:
  "write_page p = Inr data \<longleftrightarrow> fields_fit p \<and> length (lacing_data p) \<le> 255 \<and> data = page_bytes p"
proof -
  have "take 22 (page_head p @ replicate 4 (chr 0) @ page_body p) = page_head p"
    "drop 26 (page_head p @ replicate 4 (chr 0) @ page_body p) = page_body p" by simp_all
  then show ?thesis
    by (auto simp: write_page_def bindR_Inr_iff page_header_iff page_crc_eq Let_def page_bytes_def
        page_sum_def page_body_def simp del: take_append drop_append split: if_splits)
qed

lemma length_page_bytes: "length (page_bytes p) = 27 + length (lacing_data p) + length (concat (pg_packets p))"
  by (simp add: page_bytes_def page_body_def)

text \<open>The size of a page is the number of bytes written.\<close>

lemma page_size_bytes:
  assumes "framed p" shows "page_size p = Inr (length (page_bytes p))"
proof (cases "pg_complete p")
  case True
  then show ?thesis
    by (simp add: page_size_def length_page_bytes lacing_complete length_lacings)
      (simp add: length_concat)
next
  case False
  then obtain ds d k where p: "pg_packets p = ds @ [d]" "length d = 255 * k" "0 < k"
    "lacing_data p = concat (map lacing_of ds) @ replicate k (chr 255)"
    using assms lacing_open by (metis framed_def)
  show ?thesis using False p
    by (simp add: page_size_def length_page_bytes length_lacings) (simp add: length_concat)
qed

section \<open>Reading\<close>

lemma read_packets_here:
  "drop (fpos f) (fbytes f) = concat ds @ t \<Longrightarrow>
     read_packets (map length ds) f = (ds, f\<lparr>fpos := fpos f + length (concat ds)\<rparr>)"
proof (induction ds arbitrary: f)
  case (Cons d ds)
  let ?f = "f\<lparr>fpos := fpos f + length d\<rparr>"
  have d: "drop (fpos f) (fbytes f) = d @ (concat ds @ t)" using Cons.prems by simp
  have "read_packets (map length ds) ?f = (ds, ?f\<lparr>fpos := fpos ?f + length (concat ds)\<rparr>)"
    by (rule Cons.IH) (rule f_read_here(2) [OF d refl])
  then show ?case by (simp add: f_read_here(1) [OF d refl] add.assoc)
qed simp

lemma longlong_bytes: "s_fits 8 v \<Longrightarrow> longlong_le (struct_bytes False 8 (nat (v mod 18446744073709551616))) = Inr v"
  using unpack_pack_s [of 8 v False]
  by (simp add: longlong_le_def pack_s_def s_fits_def)

lemma unpack_bytes: "u_fits n v \<Longrightarrow> unpack_u False n (struct_bytes False n (nat v)) = Inr v"
  using unpack_pack_u [of n v False] by (simp add: pack_u_def u_fits_def)

lemma unpack_head:
  assumes "fields_fit p" "length crc = 4"
  shows "unpack_header (page_head p @ crc @ [c]) = Inr (''OggS'', pg_version p, pg_flags p,
    pg_position p, pg_serial p, pg_sequence p, ord c)"
proof -
  let ?h = "page_head p @ crc @ [c]"
  have "length ?h = 27" "?h ! 26 = c" "take 4 ?h = ''OggS''"
    "str_slice ?h 4 5 = struct_bytes False 1 (nat (pg_version p))"
    "str_slice ?h 5 6 = struct_bytes False 1 (nat (pg_flags p))"
    "str_slice ?h 6 14 = struct_bytes False 8 (nat (pg_position p mod 2 ^ 64))"
    "str_slice ?h 14 18 = struct_bytes False 4 (nat (pg_serial p))"
    "str_slice ?h 18 22 = struct_bytes False 4 (nat (pg_sequence p))"
    using assms(2) by (simp_all add: nth_append page_head_def str_slice_def)
  then show ?thesis using assms(1)
    by (simp add: unpack_header_def fields_fit_def unpack_bytes longlong_bytes uint_le_def del: append_assoc)
qed

text \<open>A page is read from its bytes, whatever the checksum is.\<close>

lemma read_page_here:
  assumes p: "fields_fit p" "pg_version p = 0" "length (lacing_data p) \<le> 255" "framed p"
    and b: "drop (fpos f) (fbytes f) = page_head p @ crc @ page_body p @ post" "length crc = 4"
  shows "read_page f = (Inr (p\<lparr>pg_offset := Some (fpos f)\<rparr>),
    f\<lparr>fpos := fpos f + length (page_bytes p)\<rparr>)"
proof -
  let ?lac = "lacing_data p"
  let ?h = "page_head p @ crc @ [chr (length ?lac)]"
  define i j where "i = fpos f + 27" and "j = i + length ?lac"
  let ?f1 = "f\<lparr>fpos := i\<rparr>" and ?f2 = "f\<lparr>fpos := j\<rparr>"
  have d0: "drop (fpos f) (fbytes f) = ?h @ (?lac @ concat (pg_packets p) @ post)" "27 = length ?h"
    using b by (simp_all add: page_body_def)
  have r0: "f_read 27 f = (?h, ?f1)" using f_read_here(1) [OF d0] by (simp add: i_def)
  have d1: "drop (fpos ?f1) (fbytes ?f1) = ?lac @ (concat (pg_packets p) @ post)"
    using f_read_here(2) [OF d0] by (simp add: i_def)
  have r1: "f_read (int (length ?lac)) ?f1 = (?lac, ?f2)" using f_read_here(1) [OF d1 refl] by (simp add: j_def)
  have d2: "drop (fpos ?f2) (fbytes ?f2) = concat (pg_packets p) @ post"
    using f_read_here(2) [OF d1 refl] by (simp add: j_def)
  obtain ls acc where s: "scan_lacings 0 (map ord ?lac) = (ls, acc)" "acc = 0 \<longleftrightarrow> pg_complete p"
    "map length (pg_packets p) = (if acc \<noteq> 0 then ls @ [acc] else ls)"
    using scan_written [OF p(4)] by blast
  let ?ls = "if acc \<noteq> 0 then ls @ [acc] else ls" and ?k = "j + length (concat (pg_packets p))"
  have r2: "read_packets ?ls ?f2 = (pg_packets p, f\<lparr>fpos := ?k\<rparr>)"
    using read_packets_here [OF d2] s(3) by simp
  have "length ?lac < 256" using p(3) by simp
  then have h: "unpack_header ?h = Inr (''OggS'', 0, pg_flags p, pg_position p, pg_serial p,
      pg_sequence p, length ?lac)"
    using unpack_head [OF p(1) b(2), of "chr (length ?lac)"] p(2) by simp
  have "?h \<noteq> []" by simp
  moreover have "fpos f + length (page_bytes p) = ?k" by (simp add: length_page_bytes i_def j_def)
  moreover have "p\<lparr>pg_offset := Some (fpos f)\<rparr> = \<lparr>pg_version = 0, pg_flags = pg_flags p,
      pg_position = pg_position p, pg_serial = pg_serial p, pg_sequence = pg_sequence p,
      pg_offset = Some (fpos f), pg_complete = (acc = 0), pg_packets = pg_packets p\<rparr>"
    using s(2) p(2) by simp
  ultimately show ?thesis unfolding read_page_def Let_def r0 prod.case
    using h r1 r2 s(1) s(3) by (simp only: if_False sum.case prod.case length_map refl simp_thms)
qed

end
