(* ===== verification/Ogg_Read.thy ===== *)
theory Ogg_Read
  imports Ogg_Page_Laws
begin

text \<open>
  The converse of \<open>Ogg_Page_Laws\<close>: a page that was read from a file stood there, byte for byte
  except for the checksum, which the code never compares.
\<close>

section \<open>Lacing values\<close>

definition lace :: "nat \<Rightarrow> nat list" where
  "lace n = replicate (n div 255) 255 @ [n mod 255]"

lemma map_ord_lacings: "map ord (concat (map lacing_of ds)) = concat (map lace (map length ds))"
  by (induction ds) (simp_all add: map_ord_lacing lace_def)

lemma scan_inverse:
  "list_all (\<lambda>c. c \<le> 255) cs \<Longrightarrow> scan_lacings (255 * j) cs = (ls, acc) \<Longrightarrow>
     replicate j 255 @ cs = concat (map lace ls) @ replicate (acc div 255) 255 \<and> 255 dvd acc"
proof (induction cs arbitrary: j ls acc)
  case (Cons c cs)
  show ?case
  proof (cases "c < 255")
    case True
    then obtain ls' where ls: "scan_lacings (255 * 0) cs = (ls', acc)" "ls = (255 * j + c) # ls'"
      using Cons.prems(2) by (auto split: prod.splits)
    then have "cs = concat (map lace ls') @ replicate (acc div 255) 255 \<and> 255 dvd acc"
      using Cons.IH [OF _ ls(1)] Cons.prems(1) by simp
    moreover have "lace (255 * j + c) = replicate j 255 @ [c]" using True by (simp add: lace_def)
    ultimately show ?thesis using ls(2) by simp
  next
    case False
    then have c: "c = 255" using Cons.prems(1) by simp
    have "scan_lacings (255 * Suc j) cs = (ls, acc)" using Cons.prems(2) c by (simp add: add.commute)
    with Cons.IH [OF _ this] Cons.prems(1) c show ?thesis
      by (simp add: replicate_append_same [symmetric])
  qed
qed auto

section \<open>Files\<close>

lemma f_read_result:
  assumes "f_read (int n) f = (s, f')"
  shows "f' = f\<lparr>fpos := fpos f + length s\<rparr>" "drop (fpos f) (fbytes f) = s @ drop (fpos f') (fbytes f)"
proof -
  have s: "s = take n (drop (fpos f) (fbytes f))" and f: "f' = f\<lparr>fpos := fpos f + length s\<rparr>"
    using assms by (auto simp: f_read_def Let_def)
  show "f' = f\<lparr>fpos := fpos f + length s\<rparr>" by (rule f)
  have "drop (fpos f') (fbytes f) = drop (length s) (drop (fpos f) (fbytes f))"
    by (simp add: f add.commute)
  also have "\<dots> = drop n (drop (fpos f) (fbytes f))" by (simp add: s min_def)
  finally show "drop (fpos f) (fbytes f) = s @ drop (fpos f') (fbytes f)"
    using s by (metis append_take_drop_id)
qed

lemma read_packets_result:
  "read_packets ns f = (ds, f') \<Longrightarrow>
     f' = f\<lparr>fpos := fpos f + length (concat ds)\<rparr>
     \<and> drop (fpos f) (fbytes f) = concat ds @ drop (fpos f') (fbytes f)"
proof (induction ns arbitrary: f ds)
  case (Cons n ns)
  obtain d f1 ds' where d: "f_read (int n) f = (d, f1)" "read_packets ns f1 = (ds', f')" "ds = d # ds'"
    using Cons.prems by (auto split: prod.splits)
  note r = f_read_result [OF d(1)]
  from Cons.IH [OF d(2)] r show ?case by (simp add: d(3) add.assoc)
qed auto

section \<open>Headers\<close>

lemma unpack_u_result:
  "unpack_u False n s = Inr v \<Longrightarrow> u_fits n v \<and> s = struct_bytes False n (nat v)"
  using struct_value_bound [of False s] struct_bytes_value [of False s]
  by (auto simp: unpack_u_def u_fits_def split: if_splits)

lemma longlong_result:
  assumes "longlong_le s = Inr v" shows "s_fits 8 v \<and> s = struct_bytes False 8 (nat (v mod 2 ^ 64))"
proof -
  define u where "u = int (struct_value False s)"
  have l: "length s = 8" and v: "v = (if u < 2 ^ 63 then u else u - 2 ^ 64)"
    using assms by (auto simp: longlong_le_def unpack_s_def unpack_u_def u_def split: if_splits)
  have "struct_value False s < 2 ^ 64" using struct_value_bound [of False s] l by simp
  then have u: "0 \<le> u" "u < 2 ^ 64" unfolding u_def by (simp_all add: of_nat_less_iff [symmetric])
  have "v mod 2 ^ 64 = u mod 2 ^ 64" by (simp add: v)
  then have "v mod 2 ^ 64 = u" using u mod_pos_pos_trivial [of u "2 ^ 64"] by (simp only:)
  then have "nat (v mod 2 ^ 64) = struct_value False s" by (simp add: u_def)
  then have "s = struct_bytes False 8 (nat (v mod 2 ^ 64))"
    using struct_bytes_value [of False s] l by simp
  moreover have "s_fits 8 v" using u by (simp add: s_fits_def v)
  ultimately show ?thesis by blast
qed

lemma slice_step: "i \<le> j \<Longrightarrow> drop i h = str_slice h i j @ drop j h"
  by (simp add: str_slice_def) (metis add.commute append_take_drop_id drop_drop drop_take le_add_diff_inverse2)

lemma unpack_header_result:
  assumes "unpack_header h = Inr (oggs, version, flags, position, serial, sequence, n)"
    "oggs = ''OggS''"
    "pg_version p = version" "pg_flags p = flags" "pg_position p = position" "pg_serial p = serial"
    "pg_sequence p = sequence"
  shows "fields_fit p" "\<exists>crc c. length crc = 4 \<and> h = page_head p @ crc @ [c] \<and> n = ord c"
proof -
  have len: "length h = 27" and o: "take 4 h = ''OggS''" and n: "n = ord (h ! 26)"
    and u: "unpack_u False 1 (str_slice h 4 5) = Inr version"
      "unpack_u False 1 (str_slice h 5 6) = Inr flags"
      "longlong_le (str_slice h 6 14) = Inr position"
      "unpack_u False 4 (str_slice h 14 18) = Inr serial"
      "unpack_u False 4 (str_slice h 18 22) = Inr sequence"
    using assms(1,2) by (auto simp: unpack_header_def uint_le_def bindR_Inr_iff split: if_splits)
  note r = unpack_u_result [OF u(1)] unpack_u_result [OF u(2)] longlong_result [OF u(3)]
    unpack_u_result [OF u(4)] unpack_u_result [OF u(5)]
  show "fields_fit p" using r assms(3-7) by (simp add: fields_fit_def)
  have "h = take 4 h @ str_slice h 4 5 @ str_slice h 5 6 @ str_slice h 6 14 @ str_slice h 14 18
      @ str_slice h 18 22 @ str_slice h 22 26 @ drop 26 h"
    using slice_step [of 4 5 h] slice_step [of 5 6 h] slice_step [of 6 14 h] slice_step [of 14 18 h]
      slice_step [of 18 22 h] slice_step [of 22 26 h] append_take_drop_id [of 4 h] by simp
  moreover have "drop 26 h = [h ! 26]" using len by (simp add: Cons_nth_drop_Suc [symmetric])
  moreover have "length (str_slice h 22 26) = 4" using len by (simp add: str_slice_def)
  ultimately show "\<exists>crc c. length crc = 4 \<and> h = page_head p @ crc @ [c] \<and> n = ord c"
    using r assms(3-7) o n
    by (intro exI [of _ "str_slice h 22 26"] exI [of _ "h ! 26"]) (simp add: page_head_def)
qed

section \<open>Pages\<close>

text \<open>The lacing values determine, and are determined by, the packets.\<close>

lemma lacing_read:
  assumes scan: "scan_lacings 0 (map ord lac) = (ls, acc)"
    and lens: "map length (pg_packets p) = (if acc \<noteq> 0 then ls @ [acc] else ls)"
    and c: "pg_complete p \<longleftrightarrow> acc = 0"
  shows "framed p" "lacing_data p = lac"
proof -
  have "list_all (\<lambda>c. c \<le> 255) (map ord lac)"
  proof -
    have "ord c \<le> 255" for c using ord_less [of c] by linarith
    then show ?thesis by (simp add: list_all_iff)
  qed
  then have inv: "map ord lac = concat (map lace ls) @ replicate (acc div 255) 255" "255 dvd acc"
    using scan_inverse [of "map ord lac" 0 ls acc] scan by auto
  have "framed p \<and> map ord (lacing_data p) = map ord lac"
  proof (cases "acc = 0")
    case True
    then show ?thesis using c lens inv by (simp add: framed_def lacing_complete map_ord_lacings)
  next
    case False
    then have m: "map length (pg_packets p) = ls @ [acc]" using lens by simp
    then have ne: "pg_packets p \<noteq> []" by auto
    then have "length (last (pg_packets p)) = acc" using m last_map [of "pg_packets p" length] by simp
    then have "open_end p" using ne inv(2) False by (auto simp: open_end_def)
    moreover have n: "\<not> pg_complete p" using c False by simp
    ultimately obtain ds d k where p: "pg_packets p = ds @ [d]" "length d = 255 * k"
      "lacing_data p = concat (map lacing_of ds) @ replicate k (chr 255)"
      using lacing_open by metis
    then have "map length ds = ls" "255 * k = acc" using lens False by simp_all
    then show ?thesis using p inv \<open>open_end p\<close> by (auto simp: framed_def map_ord_lacings)
  qed
  moreover have "inj (ord :: char \<Rightarrow> nat)" by (rule injI) simp
  ultimately show "framed p" "lacing_data p = lac" by (simp_all add: inj_map_eq_map)
qed

lemma read_page_sound:
  assumes "read_page f = (Inr p, f')"
  obtains crc where "length crc = 4"
    "drop (fpos f) (fbytes f) = page_head p @ crc @ page_body p @ drop (fpos f') (fbytes f)"
    "fields_fit p" "pg_version p = 0" "framed p" "length (lacing_data p) \<le> 255"
    "pg_offset p = Some (fpos f)" "f' = f\<lparr>fpos := fpos f + length (page_bytes p)\<rparr>"
proof -
  obtain h f1 where r0: "f_read (int 27) f = (h, f1)" by (cases "f_read (int 27) f")
  obtain oggs ver fl pos ser sq n where h: "unpack_header h = Inr (oggs, ver, fl, pos, ser, sq, n)"
    using assms r0 by (auto simp: read_page_def Let_def split: if_splits sum.splits)
  obtain lac f2 where r1: "f_read (int n) f1 = (lac, f2)" by (cases "f_read (int n) f1")
  obtain ls acc where sc: "scan_lacings 0 (map ord lac) = (ls, acc)" by (cases "scan_lacings 0 (map ord lac)")
  obtain ps f3 where r2: "read_packets (if acc \<noteq> 0 then ls @ [acc] else ls) f2 = (ps, f3)"
    by (cases "read_packets (if acc \<noteq> 0 then ls @ [acc] else ls) f2")
  have e: "oggs = ''OggS''" "ver = 0" "length lac = n" "f' = f3"
    "map length ps = (if acc \<noteq> 0 then ls @ [acc] else ls)"
    and p: "p = \<lparr>pg_version = ver, pg_flags = fl, pg_position = pos, pg_serial = ser, pg_sequence = sq,
      pg_offset = Some (fpos f), pg_complete = (acc = 0), pg_packets = ps\<rparr>"
    using assms r0 r1 r2 h sc by (auto simp: read_page_def Let_def split: if_splits)
  note l = lacing_read [OF sc, of p]
  have fr: "framed p" "lacing_data p = lac" using l e(5) p by simp_all
  obtain crc c where c: "fields_fit p" "length crc = 4" "h = page_head p @ crc @ [c]" "n = ord c"
    using unpack_header_result [OF h e(1), of p] p by auto
  have b: "drop (fpos f) (fbytes f) = h @ drop (fpos f1) (fbytes f)"
    "drop (fpos f1) (fbytes f) = lac @ drop (fpos f2) (fbytes f)"
    "drop (fpos f2) (fbytes f) = concat ps @ drop (fpos f3) (fbytes f)"
    "f3 = f\<lparr>fpos := fpos f + length h + length lac + length (concat ps)\<rparr>"
    using f_read_result [OF r0] f_read_result [OF r1] read_packets_result [OF r2] by simp_all
  have "page_body p = c # lac @ concat ps" using fr e(3) c(4) p by (simp add: page_body_def)
  then have "drop (fpos f) (fbytes f) = page_head p @ crc @ page_body p @ drop (fpos f') (fbytes f)"
    using b c e(4) by simp
  moreover have "length (lacing_data p) < 256" using ord_less [of c] fr e(3) c(4) by (simp del: ord_less)
  moreover have "f' = f\<lparr>fpos := fpos f + length (page_bytes p)\<rparr>"
    using b(4) c(2,3) fr e(4) p by (simp add: length_page_bytes add.assoc)
  ultimately show ?thesis using that [of crc] c fr e(2) p by simp
qed

lemma f_read_bytes: "f_read n f = (s, f') \<Longrightarrow> fbytes f' = fbytes f"
  by (auto simp: f_read_def Let_def)

lemma read_packets_bytes: "read_packets ns f = (ds, f') \<Longrightarrow> fbytes f' = fbytes f"
  by (drule read_packets_result) simp

lemma read_page_fails: "read_page f = (Inl e, f') \<Longrightarrow> e \<in> {EOFError, OggError} \<and> fbytes f' = fbytes f"
  by (auto simp: read_page_def Let_def dest!: f_read_bytes read_packets_bytes split: if_splits sum.splits prod.splits)

end
