(* ===== verification/Ogg_Stream.thy ===== *)
theory Ogg_Stream
  imports Ogg_Read
begin

text \<open>
  The class methods of \<open>OggPage\<close>: packets from pages and pages from packets, renumbering and
  replacing the pages of a file, and the search for the last page.

  A method that changes a file returns the file as it is left and the exception, if any.
  \<open>default_size\<close> and \<open>wiggle_room\<close> are natural numbers. The inner loop of \<open>from_packets\<close> may run
  forever (a \<open>default_size\<close> below 255 makes empty chunks), so it is a partial function and \<open>None\<close>
  is not returning. New pages are objects of their own, none of them an old page.
\<close>

section \<open>to_packets\<close>

fun packets_loop :: "int \<Rightarrow> int \<Rightarrow> string list list \<Rightarrow> ogg_page list \<Rightarrow> merr + string list list" where
  "packets_loop serial sequence packets [] = Inr packets"
| "packets_loop serial sequence packets (page # pages) =
     (if serial \<noteq> pg_serial page then Inl ValueError
      else if sequence \<noteq> pg_sequence page then Inl ValueError
      else case pg_packets page of
        [] \<Rightarrow> Inl IndexError
      | p # ps \<Rightarrow>
          if pg_continued page then
            (if packets = [] then Inl IndexError
             else packets_loop serial (sequence + 1)
                    (butlast packets @ [last packets @ [p]] @ map (\<lambda>p. [p]) ps) pages)
          else packets_loop serial (sequence + 1) (packets @ [[p]] @ map (\<lambda>p. [p]) ps) pages)"

definition to_packets :: "ogg_page list \<Rightarrow> bool \<Rightarrow> merr + string list" where
  "to_packets pages strict =
     (case pages of
        [] \<Rightarrow> Inl IndexError
      | page # _ \<Rightarrow>
          if strict \<and> pg_continued page then Inl ValueError
          else if strict \<and> \<not> pg_complete (last pages) then Inl ValueError
          else bindR (packets_loop (pg_serial page) (pg_sequence page)
                        (if pg_continued page then [[[]]] else []) pages)
                 (\<lambda>packets. Inr (map concat packets)))"

section \<open>from_packets\<close>

text \<open>\<open>page.packets[-1] += data\<close>.\<close>

definition add_data :: "string \<Rightarrow> ogg_page \<Rightarrow> ogg_page" where
  "add_data data page =
     page\<lparr>pg_packets := butlast (pg_packets page) @ [last (pg_packets page) @ data]\<rparr>"

text \<open>The page is full: it is finished, and a new one starts with the data.\<close>

definition close_page :: "ogg_page \<Rightarrow> ogg_page" where
  "close_page page =
     (if last (pg_packets page) \<noteq> [] then
        (let page = page\<lparr>pg_complete := False\<rparr>
         in if length (pg_packets page) = 1 then page\<lparr>pg_position := -1\<rparr> else page)
      else page\<lparr>pg_packets := butlast (pg_packets page)\<rparr>)"

definition next_page :: "string \<Rightarrow> ogg_page \<Rightarrow> ogg_page" where
  "next_page data prev =
     (set_flag 0 (\<not> pg_complete prev) new_page)
       \<lparr>pg_sequence := pg_sequence prev + 1, pg_packets := [data]\<rparr>"

text \<open>One round of the loop over a packet.\<close>

definition pack_step ::
  "nat \<Rightarrow> nat \<Rightarrow> ogg_page list \<Rightarrow> ogg_page \<Rightarrow> string \<Rightarrow> merr + ogg_page list \<times> ogg_page \<times> string" where
  "pack_step default_size wiggle_room pages page packet =
     (let chunk_size = default_size div 255 * 255;
          data = take chunk_size packet; packet = drop chunk_size packet
      in bindR (page_size page) (\<lambda>sz.
         let (pages, page) =
               (if sz < default_size \<and> length (pg_packets page) < 255
                then (pages, add_data data page)
                else (pages @ [close_page page], next_page data (close_page page)))
         in Inr (if length packet < wiggle_room then (pages, add_data packet page, [])
                 else (pages, page, packet))))"

partial_function (option) pack_loop ::
  "nat \<Rightarrow> nat \<Rightarrow> ogg_page list \<Rightarrow> ogg_page \<Rightarrow> string \<Rightarrow> (merr + ogg_page list \<times> ogg_page) option" where
  "pack_loop default_size wiggle_room pages page packet =
     (if packet = [] then Some (Inr (pages, page))
      else case pack_step default_size wiggle_room pages page packet of
        Inl e \<Rightarrow> Some (Inl e)
      | Inr (pages, page, packet) \<Rightarrow> pack_loop default_size wiggle_room pages page packet)"

fun pack_all ::
  "nat \<Rightarrow> nat \<Rightarrow> ogg_page list \<Rightarrow> ogg_page \<Rightarrow> string list \<Rightarrow> (merr + ogg_page list \<times> ogg_page) option" where
  "pack_all default_size wiggle_room pages page [] = Some (Inr (pages, page))"
| "pack_all default_size wiggle_room pages page (packet # packets) =
     (case pack_loop default_size wiggle_room pages
             (page\<lparr>pg_packets := pg_packets page @ [[]]\<rparr>) packet of
        None \<Rightarrow> None
      | Some (Inl e) \<Rightarrow> Some (Inl e)
      | Some (Inr (pages, page)) \<Rightarrow> pack_all default_size wiggle_room pages page packets)"

definition from_packets :: "string list \<Rightarrow> int \<Rightarrow> nat \<Rightarrow> nat \<Rightarrow> (merr + ogg_page list) option" where
  "from_packets packets sequence default_size wiggle_room =
     (case pack_all default_size wiggle_room [] (new_page\<lparr>pg_sequence := sequence\<rparr>) packets of
        None \<Rightarrow> None
      | Some (Inl e) \<Rightarrow> Some (Inl e)
      | Some (Inr (pages, page)) \<Rightarrow>
          Some (Inr (if pg_packets page \<noteq> [] then pages @ [page] else pages)))"

section \<open>renumber\<close>

text \<open>Reading moves forward, which the loops over pages rest on.\<close>

lemma read_page_moves:
  assumes "read_page f = (Inr p, f')"
  shows "fbytes f' = fbytes f" "fpos f < fpos f'" "fpos f' \<le> length (fbytes f)"
proof -
  obtain crc where c: "length crc = 4"
    "drop (fpos f) (fbytes f) = page_head p @ crc @ page_body p @ drop (fpos f') (fbytes f)"
    "f' = f\<lparr>fpos := fpos f + length (page_bytes p)\<rparr>"
    by (rule read_page_sound [OF assms])
  have "length (page_bytes p) = 22 + 4 + length (page_body p)" by (simp add: page_bytes_def)
  moreover have "length (fbytes f) - fpos f = 22 + 4 + length (page_body p) + (length (fbytes f) - fpos f')"
    using arg_cong [OF c(2), of length] c(1) by simp
  ultimately show "fbytes f' = fbytes f" "fpos f < fpos f'" "fpos f' \<le> length (fbytes f)"
    using c(3) by auto
qed

text \<open>A page that was read and given another number takes the place it was read from.\<close>

lemma rewrite_in_place:
  assumes "read_page f = (Inr p, f')" "page_size p = Inr sz" "seek_cur (- int sz) f' = Inr g"
    "write_page (p\<lparr>pg_sequence := n\<rparr>) = Inr data"
  shows "length (fbytes (f_write data g)) = length (fbytes f)"
    "pg_offset p = Some (fpos f)" "fpos f + sz = fpos f'"
proof -
  obtain crc where c: "framed p" "pg_offset p = Some (fpos f)"
    "f' = f\<lparr>fpos := fpos f + length (page_bytes p)\<rparr>"
    by (rule read_page_sound [OF assms(1)])
  have sz: "sz = length (page_bytes p)" using page_size_bytes [OF c(1)] assms(2) by simp
  then have g: "g = f\<lparr>fpos := fpos f\<rparr>"
    using assms(3) c(3) by (simp add: seek_cur_def seek_set_def)
  have "lacing_data (p\<lparr>pg_sequence := n\<rparr>) = lacing_data p" by (simp add: lacing_data_def)
  then have "length data = sz"
    using assms(4) sz by (simp add: write_page_iff length_page_bytes)
  moreover note read_page_moves [OF assms(1)]
  ultimately show "length (fbytes (f_write data g)) = length (fbytes f)"
    using g c(3) sz by (auto simp: length_f_write)
  show "pg_offset p = Some (fpos f)" "fpos f + sz = fpos f'" using c sz by simp_all
qed

function renumber :: "fobj \<Rightarrow> int \<Rightarrow> int \<Rightarrow> fobj \<times> merr option" where
  "renumber f serial number =
     (case read_page f of
        (Inl e, g) \<Rightarrow> (g, if e = EOFError then None else Some e)
      | (Inr page, g) \<Rightarrow>
          if pg_serial page \<noteq> serial then renumber g serial number
          else case page_size page of
            Inl e \<Rightarrow> (g, Some e)
          | Inr sz \<Rightarrow>
              (case seek_cur (- int sz) g of
                 Inl e \<Rightarrow> (g, Some e)
               | Inr h \<Rightarrow>
                   (case write_page (page\<lparr>pg_sequence := number\<rparr>) of
                      Inl e \<Rightarrow> (h, Some e)
                    | Inr data \<Rightarrow>
                        (case pg_offset page of
                           None \<Rightarrow> (f_write data h, Some TypeError)
                         | Some offset \<Rightarrow>
                             renumber ((f_write data h)\<lparr>fpos := offset + sz\<rparr>) serial
                               (number + 1)))))"
  by pat_completeness auto
termination
proof (relation "measure (\<lambda>(f, serial, number). length (fbytes f) - fpos f)", goal_cases)
  case 1
  then show ?case by simp
next
  case (2 f serial number r g page)
  then have "read_page f = (Inr page, g)" by simp
  from read_page_moves [OF this] show ?case by simp
next
  case (3 f serial number r g page sz h data offset)
  then have r: "read_page f = (Inr page, g)" by simp
  from read_page_moves [OF r] rewrite_in_place [OF r 3(4,5,6)] 3(7) show ?case by simp
qed

declare renumber.simps [simp del]

section \<open>replace\<close>

text \<open>The numbers, serial and flags the new pages take over from the old ones.\<close>

definition adopt_pages :: "ogg_page list \<Rightarrow> ogg_page list \<Rightarrow> ogg_page list" where
  "adopt_pages old_pages new_pages =
     (let a = hd old_pages; z = last old_pages;
          pages = map2 (\<lambda>page i. page\<lparr>pg_sequence := pg_sequence a + int i, pg_serial := pg_serial a\<rparr>)
                    new_pages [0..<length new_pages];
          pages = pages[0 := set_flag 0 (pg_continued a) (set_flag 2 (pg_last a)
                               (set_flag 1 (pg_first a) (pages ! 0)))];
          n = length pages - 1;
          page = (set_flag 2 (pg_last z) (set_flag 1 (pg_first z) (pages ! n)))
                   \<lparr>pg_complete := pg_complete z\<rparr>;
          page = (if \<not> pg_complete page \<and> length (pg_packets page) = 1
                  then page\<lparr>pg_position := -1\<rparr> else page)
      in pages[n := page])"

text \<open>The loop that deletes the old pages, which stand \<open>delta\<close> bytes further on.\<close>

fun delete_pages :: "bool \<Rightarrow> nat \<Rightarrow> ogg_page list \<Rightarrow> fobj \<Rightarrow> fobj \<times> merr option" where
  "delete_pages mmap_works delta [] f = (f, None)"
| "delete_pages mmap_works delta (page # pages) f =
     (case (pg_offset page, page_size page) of
        (None, _) \<Rightarrow> (f, Some TypeError)
      | (_, Inl e) \<Rightarrow> (f, Some e)
      | (Some offset, Inr sz) \<Rightarrow>
          (case delete_bytes mmap_works f (int sz) (int (offset + delta)) of
             Inl e \<Rightarrow> (f, Some e)
           | Inr f \<Rightarrow> delete_pages mmap_works delta pages f))"

definition replace :: "bool \<Rightarrow> fobj \<Rightarrow> ogg_page list \<Rightarrow> ogg_page list \<Rightarrow> fobj \<times> merr option" where
  "replace mmap_works f old_pages new_pages =
     (if old_pages = [] \<or> new_pages = [] then (f, Some IndexError)
      else let new_pages = adopt_pages old_pages new_pages
           in case (mapR write_page new_pages, pg_offset (hd old_pages)) of
             (Inl e, _) \<Rightarrow> (f, Some e)
           | (Inr _, None) \<Rightarrow> (f, Some TypeError)
           | (Inr datas, Some offset) \<Rightarrow>
               (let new_data = concat datas; delta = length new_data
                in case insert_bytes mmap_works (f\<lparr>fpos := offset\<rparr>) (int delta) (int offset) of
                  Inl e \<Rightarrow> (f, Some e)
                | Inr f \<Rightarrow>
                    (case delete_pages mmap_works delta (rev old_pages)
                            (f_write new_data (f\<lparr>fpos := offset\<rparr>)) of
                       (f, Some e) \<Rightarrow> (f, Some e)
                     | (f, None) \<Rightarrow>
                         if length old_pages \<noteq> length new_pages then
                           renumber (f\<lparr>fpos := offset + delta\<rparr>) (pg_serial (last new_pages))
                             (pg_sequence (last new_pages) + 1)
                         else (f, None))))"

section \<open>find_last\<close>

text \<open>Reading on to the first page with a property, whose test may raise.\<close>

function read_until :: "(ogg_page \<Rightarrow> merr + bool) \<Rightarrow> fobj \<Rightarrow> (merr + ogg_page) \<times> fobj" where
  "read_until P f =
     (case read_page f of
        (Inl e, g) \<Rightarrow> (Inl e, g)
      | (Inr page, g) \<Rightarrow>
          (case P page of
             Inl e \<Rightarrow> (Inl e, g)
           | Inr b \<Rightarrow> if b then (Inr page, g) else read_until P g))"
  by pat_completeness auto
termination
proof (relation "measure (\<lambda>(P, f). length (fbytes f) - fpos f)", goal_cases)
  case (2 P f r g page b)
  then have "read_page f = (Inr page, g)" by simp
  from read_page_moves [OF this] show ?case by simp
qed simp

declare read_until.simps [simp del]

lemma read_until_moves:
  "read_until P f = (Inr p, g) \<Longrightarrow> fbytes g = fbytes f \<and> fpos f < fpos g \<and> fpos g \<le> length (fbytes f)"
proof (induction P f rule: read_until.induct)
  case (1 P f)
  obtain page h where r: "read_page f = (Inr page, h)"
    using "1.prems" by (subst (asm) read_until.simps) (auto split: prod.splits sum.splits)
  note m = read_page_moves [OF r]
  show ?case
  proof (cases "P page = Inr True")
    case True
    then show ?thesis using "1.prems" r m by (subst (asm) read_until.simps) simp
  next
    case False
    then have "P page = Inr False" "read_until P h = (Inr p, g)"
      using "1.prems" r by (subst (asm) read_until.simps; auto split: sum.splits if_splits)+
    with "1.IH" r m show ?thesis by (metis less_trans)
  qed
qed

text \<open>The slow search, over the pages of the whole file.\<close>

function find_slow :: "int \<Rightarrow> ogg_page option \<Rightarrow> ogg_page \<Rightarrow> fobj \<Rightarrow> ogg_page option" where
  "find_slow serial best page f =
     (if pg_last page then Some page
      else case read_until (\<lambda>p. Inr (pg_serial p = serial)) f of
        (Inl _, _) \<Rightarrow> best
      | (Inr page, g) \<Rightarrow> find_slow serial (Some page) page g)"
  by pat_completeness auto
termination
proof (relation "measure (\<lambda>(serial, best, page, f). length (fbytes f) - fpos f)", goal_cases)
  case (2 serial best page f r g p)
  then have "read_until (\<lambda>p. Inr (pg_serial p = serial)) f = (Inr p, g)" by simp
  then have "fbytes g = fbytes f" "fpos f < fpos g" "fpos g \<le> length (fbytes f)"
    using read_until_moves by blast+
  then show ?case by simp
qed simp

declare find_slow.simps [simp del]

text \<open>\<open>data.rindex(sub)\<close>.\<close>

fun rfind_at :: "string \<Rightarrow> string \<Rightarrow> nat \<Rightarrow> nat option" where
  "rfind_at s sub 0 = (if startswith s sub then Some 0 else None)"
| "rfind_at s sub (Suc n) = (if startswith (drop (Suc n) s) sub then Some (Suc n) else rfind_at s sub n)"

definition find_last :: "fobj \<Rightarrow> int \<Rightarrow> merr + ogg_page option" where
  "find_last f serial =
     (let start = length (fbytes f) - 256 * 256; data = drop start (fbytes f)
      in case rfind_at data ''OggS'' (length data) of
        None \<Rightarrow> Inl OggError
      | Some i \<Rightarrow>
          (let quick = (case fst (read_page (open_file (drop i data))) of
                          Inr page \<Rightarrow> if pg_serial page = serial then Some page else None
                        | Inl _ \<Rightarrow> None)
           in case quick of
                Some page \<Rightarrow>
                  if pg_last page then Inr quick
                  else Inr (case read_page (f\<lparr>fpos := 0\<rparr>) of
                              (Inl _, _) \<Rightarrow> quick
                            | (Inr page, g) \<Rightarrow> find_slow serial quick page g)
              | None \<Rightarrow>
                  Inr (case read_page (f\<lparr>fpos := 0\<rparr>) of
                         (Inl _, _) \<Rightarrow> None
                       | (Inr page, g) \<Rightarrow> find_slow serial None page g)))"

end
