(* ===== verification/Ogg_Packets.thy ===== *)
theory Ogg_Packets
  imports Ogg_Stream
begin

text \<open>
  Packets and pages. What a sequence of pages carries is a fold over the pages; \<open>to_packets\<close>
  computes it, and every round of \<open>from_packets\<close> moves a piece of the packet into it.
\<close>

section \<open>The packets a sequence of pages carries\<close>

definition join :: "string list \<Rightarrow> ogg_page \<Rightarrow> string list" where
  "join out p = (if pg_continued p
     then butlast out @ [last out @ hd (pg_packets p)] @ tl (pg_packets p) else out @ pg_packets p)"

fun numbered :: "int \<Rightarrow> int \<Rightarrow> ogg_page list \<Rightarrow> bool" where
  "numbered serial n [] = True"
| "numbered serial n (p # ps) =
     (pg_serial p = serial \<and> pg_sequence p = n \<and> pg_packets p \<noteq> [] \<and> numbered serial (n + 1) ps)"

text \<open>A page continues a packet exactly when the page before it is incomplete.\<close>

fun chained :: "bool \<Rightarrow> ogg_page list \<Rightarrow> bool" where
  "chained c [] = True"
| "chained c (p # ps) = (pg_continued p = c \<and> chained (\<not> pg_complete p) ps)"

lemma numbered_append [simp]:
  "numbered serial n (ps @ qs) \<longleftrightarrow> numbered serial n ps \<and> numbered serial (n + int (length ps)) qs"
  by (induction ps arbitrary: n) (auto simp: add.assoc add.commute)

lemma chained_append:
  "chained c (ps @ qs) \<longleftrightarrow> chained c ps \<and> chained (if ps = [] then c else \<not> pg_complete (last ps)) qs"
  by (induction ps arbitrary: c) auto

lemma join_empty: "join out p = [] \<Longrightarrow> out = [] \<and> pg_packets p = [] \<and> \<not> pg_continued p"
  by (auto simp: join_def split: if_splits)

lemma packets_loop_join:
  "numbered serial n pages \<Longrightarrow> packets \<noteq> [] \<or> pages = [] \<or> \<not> pg_continued (hd pages) \<Longrightarrow>
     \<exists>res. packets_loop serial n packets pages = Inr res
        \<and> map concat res = foldl join (map concat packets) pages"
proof (induction pages arbitrary: n packets)
  case (Cons page pages)
  then obtain p ps where p: "pg_packets page = p # ps" by (cases "pg_packets page") auto
  have m: "map concat (map (\<lambda>p. [p]) ps) = ps" by (simp add: comp_def)
  have num: "numbered serial (n + 1) pages" using Cons.prems(1) by simp
  show ?case
  proof (cases "pg_continued page")
    case True
    let ?q = "butlast packets @ [last packets @ [p]] @ map (\<lambda>p. [p]) ps"
    have ne: "packets \<noteq> []" using True Cons.prems(2) by simp
    have "map concat ?q = join (map concat packets) page"
      using True p ne by (simp add: join_def map_butlast last_map comp_def)
    then show ?thesis using Cons.IH [OF num, of ?q] Cons.prems(1) True p ne by simp
  next
    case False
    let ?q = "packets @ [[p]] @ map (\<lambda>p. [p]) ps"
    have "map concat ?q = join (map concat packets) page" using False p by (simp add: join_def comp_def)
    then show ?thesis using Cons.IH [OF num, of ?q] Cons.prems(1) False p by simp
  qed
qed simp

lemma to_packets_join:
  assumes "numbered serial n pages" "pages \<noteq> []" "\<not> pg_continued (hd pages)" "pg_complete (last pages)"
  shows "to_packets pages strict = Inr (foldl join [] pages)"
proof -
  obtain page ps where p: "pages = page # ps" using assms(2) by (cases pages) auto
  then have "pg_serial page = serial" "pg_sequence page = n" using assms(1) by simp_all
  then show ?thesis using packets_loop_join [OF assms(1), of "[]"] assms p
    by (auto simp: to_packets_def)
qed

section \<open>One page being filled\<close>

lemma join_add_data:
  assumes "pg_packets p \<noteq> []"
  shows "join out (add_data s p) = butlast (join out p) @ [last (join out p) @ s]"
  using assms by (cases "pg_packets p") (auto simp: join_def add_data_def pg_continued_def butlast_append)

lemma join_last: "pg_packets p \<noteq> [] \<Longrightarrow> \<not> pg_continued p \<or> 1 < length (pg_packets p) \<Longrightarrow>
    last (join out p) = last (pg_packets p)"
  by (cases "pg_packets p") (auto simp: join_def)

lemma join_butlast:
  assumes "pg_packets p \<noteq> []" "\<not> pg_continued p \<or> 1 < length (pg_packets p)"
    "pg_packets q = butlast (pg_packets p)" "pg_flags q = pg_flags p"
  shows "join out q = butlast (join out p)"
  using assms by (cases "pg_packets p") (auto simp: join_def pg_continued_def butlast_append)

lemma continued_next [simp]: "pg_continued (next_page s p) \<longleftrightarrow> \<not> pg_complete p"
  by (simp add: next_page_def set_flag_def pg_continued_def test_bit_def new_page_def)

lemma next_page_fields [simp]:
  "pg_packets (next_page s p) = [s]" "pg_sequence (next_page s p) = pg_sequence p + 1"
  "pg_serial (next_page s p) = 0" "pg_complete (next_page s p)" "pg_version (next_page s p) = 0"
  "pg_position (next_page s p) = 0" "pg_flags (next_page s p) \<in> {0, 1}"
  by (simp_all add: next_page_def set_flag_def new_page_def)

lemma close_page_fields [simp]:
  "pg_sequence (close_page p) = pg_sequence p" "pg_serial (close_page p) = pg_serial p"
  "pg_flags (close_page p) = pg_flags p" "pg_version (close_page p) = pg_version p"
  "pg_continued (close_page p) = pg_continued p"
  by (simp_all add: close_page_def pg_continued_def Let_def)

lemma add_data_fields [simp]:
  "pg_sequence (add_data s p) = pg_sequence p" "pg_serial (add_data s p) = pg_serial p"
  "pg_flags (add_data s p) = pg_flags p" "pg_version (add_data s p) = pg_version p"
  "pg_continued (add_data s p) = pg_continued p" "pg_complete (add_data s p) = pg_complete p"
  "pg_position (add_data s p) = pg_position p" "pg_packets (add_data s p) \<noteq> []"
  "last (pg_packets (add_data s p)) = last (pg_packets p) @ s"
  by (simp_all add: add_data_def pg_continued_def)

text \<open>The fields \<open>from_packets\<close> gives its pages.\<close>

definition plain_page :: "ogg_page \<Rightarrow> bool" where
  "plain_page p \<longleftrightarrow> pg_version p = 0 \<and> pg_flags p \<in> {0, 1} \<and> pg_position p \<in> {0, -1}"

definition filling :: "int \<Rightarrow> ogg_page list \<Rightarrow> ogg_page \<Rightarrow> string list \<Rightarrow> bool" where
  "filling n pages page out \<longleftrightarrow>
     numbered 0 n pages \<and> pg_serial page = 0 \<and> pg_sequence page = n + int (length pages)
   \<and> chained False (pages @ [page]) \<and> list_all framed pages \<and> pg_complete page
   \<and> list_all plain_page (pages @ [page])
   \<and> foldl join [] (pages @ [page]) = out \<and> (pg_packets page = [] \<longrightarrow> pages = [])
   \<and> (pg_continued page \<longrightarrow> pg_packets page \<noteq> [] \<and> hd (pg_packets page) \<noteq> [])"

lemma filling_start: "filling n [] (new_page\<lparr>pg_sequence := n\<rparr>) []"
  by (simp add: filling_def new_page_def pg_continued_def test_bit_def plain_page_def join_def)

lemma filling_packet:
  assumes "filling n pages page out"
  shows "filling n pages (page\<lparr>pg_packets := pg_packets page @ [[]]\<rparr>) (out @ [[]])"
proof -
  let ?p = "page\<lparr>pg_packets := pg_packets page @ [[]]\<rparr>"
  have "join xs ?p = join xs page @ [[]]" for xs
    using assms by (cases "pg_packets page") (auto simp: filling_def join_def pg_continued_def)
  moreover have "pg_continued ?p = pg_continued page" by (simp add: pg_continued_def)
  moreover have "pg_packets page \<noteq> [] \<Longrightarrow> hd (pg_packets page @ [[]]) = hd (pg_packets page)" by simp
  ultimately show ?thesis using assms
    by (cases "pg_packets page = []"; clarsimp simp: filling_def chained_append plain_page_def)
qed

lemma filling_add:
  assumes "filling n pages page out" "pg_packets page \<noteq> []"
  shows "filling n pages (add_data s page) (butlast out @ [last out @ s])"
proof -
  have "hd (pg_packets (add_data s page)) \<noteq> []" if "hd (pg_packets page) \<noteq> []"
    using that assms(2) by (cases "pg_packets page") (auto simp: add_data_def)
  then show ?thesis using assms
    by (auto simp: filling_def chained_append plain_page_def join_add_data)
qed

text \<open>A full page is closed, and the next one takes the data.\<close>

lemma filling_close:
  assumes f: "filling n pages page out" and ne: "pg_packets page \<noteq> []" "pg_packets page \<noteq> [[]]"
    and d: "255 dvd length (last (pg_packets page))" and s: "s \<noteq> []"
  shows "filling n (pages @ [close_page page]) (next_page s (close_page page))
           (butlast out @ [last out @ s])"
proof -
  let ?c = "close_page page" and ?acc = "foldl join [] pages"
  have o: "join ?acc page = out" and fp: "plain_page page" using f by (simp_all add: filling_def)
  have c: "pg_packets ?c \<noteq> [] \<and> framed ?c \<and> plain_page ?c
      \<and> foldl join [] (pages @ [?c, next_page s ?c]) = butlast out @ [last out @ s]"
  proof (cases "last (pg_packets page) = []")
    case True
    have pk: "pg_packets ?c = butlast (pg_packets page)" "pg_complete ?c" "pg_position ?c = pg_position page"
      using True f by (simp_all add: close_page_def filling_def)
    have b: "butlast (pg_packets page) \<noteq> []"
      using True ne by (metis append_Nil append_butlast_last_id)
    then have l: "1 < length (pg_packets page)" by (cases "pg_packets page" rule: rev_cases) auto
    have "join ?acc ?c = butlast out"
      using join_butlast [OF ne(1) _ pk(1), of ?acc] l o by simp
    moreover have "last out = []" using join_last [OF ne(1), of ?acc] l o True by simp
    ultimately show ?thesis using pk b f
      by (simp add: join_def [of _ "next_page s ?c"] framed_def plain_page_def filling_def)
  next
    case False
    have pk: "pg_packets ?c = pg_packets page" "\<not> pg_complete ?c"
      "pg_position ?c \<in> {pg_position page, -1}"
      using False by (simp_all add: close_page_def Let_def)
    have "join ?acc ?c = join ?acc page" by (simp add: join_def pk(1))
    then have "join ?acc ?c = out" using o by simp
    moreover have "framed ?c" using pk(1) ne(1) False d by (simp add: framed_def open_end_def)
    moreover have "plain_page ?c" using fp pk(3) by (auto simp: plain_page_def)
    moreover have "join out (next_page s ?c) = butlast out @ [last out @ s]"
      using pk(2) by (simp add: join_def)
    ultimately show ?thesis using pk(1) ne(1) by (simp del: butlast_append)
  qed
  have "chained False (pages @ [page])" using f by (simp add: filling_def)
  then have "chained False (pages @ [?c, next_page s ?c])" by (simp add: chained_append)
  moreover have "plain_page (next_page s ?c)"
    using next_page_fields(7) [of s ?c] by (simp add: plain_page_def)
  moreover have "numbered 0 n pages" "pg_serial page = 0" "pg_sequence page = n + int (length pages)"
    "list_all framed pages" "list_all plain_page pages" using f by (simp_all add: filling_def)
  ultimately show ?thesis using c s unfolding filling_def by (simp del: foldl_append)
qed

section \<open>The loops\<close>

lemma pack_step_filling:
  assumes f: "filling n pages page out" and ne: "pg_packets page \<noteq> []"
    and d: "255 dvd length (last (pg_packets page))" and p: "packet \<noteq> []" and ds: "255 \<le> default_size"
  obtains pages' page' used rest where
    "pack_step default_size wiggle pages page packet = Inr (pages', page', rest)"
    "packet = used @ rest" "length rest < length packet"
    "filling n pages' page' (butlast out @ [last out @ used])" "pg_packets page' \<noteq> []"
    "rest = [] \<or> 255 dvd length (last (pg_packets page'))"
proof -
  define chunk where "chunk = default_size div 255 * 255"
  define data where "data = take chunk packet"
  define more where "more = drop chunk packet"
  have "1 \<le> default_size div 255" using ds by (simp add: div_greater_zero_iff Suc_le_eq)
  then have "255 \<le> chunk" by (simp add: chunk_def)
  then have data: "data \<noteq> []" "packet = data @ more" "length more < length packet"
    "more \<noteq> [] \<Longrightarrow> 255 dvd length data"
    using p by (auto simp: data_def more_def chunk_def min_def)
  obtain sz where sz: "page_size page = Inr sz" using f by (simp add: page_size_def filling_def Let_def)
  let ?fits = "sz < default_size \<and> length (pg_packets page) < 255"
  obtain ps q where q: "(ps, q) = (if ?fits then (pages, add_data data page)
      else (pages @ [close_page page], next_page data (close_page page)))" by (metis surj_pair)
  have "pg_packets page \<noteq> [[]]" if "\<not> ?fits"
  proof
    assume "pg_packets page = [[]]"
    moreover from this have "sz = 28" using sz f by (simp add: page_size_def filling_def)
    ultimately show False using that ds by simp
  qed
  then have 1: "filling n ps q (butlast out @ [last out @ data])"
    using filling_add [OF f ne, of data] filling_close [OF f ne _ d data(1)] q by (simp split: if_splits)
  have "length (last (pg_packets q)) \<in> {length (last (pg_packets page)) + length data, length data}"
    using q by (cases ?fits) simp_all
  then have 2: "pg_packets q \<noteq> []" "more = [] \<or> 255 dvd length (last (pg_packets q))"
    using q d data(4) by (auto simp: dvd_add_right_iff split: if_splits)
  have step: "pack_step default_size wiggle pages page packet
      = Inr (if length more < wiggle then (ps, add_data more q, []) else (ps, q, more))"
    unfolding pack_step_def Let_def sz bindR_simps chunk_def [symmetric] data_def [symmetric]
      more_def [symmetric] q [symmetric] by simp
  show ?thesis
  proof (cases "length more < wiggle")
    case True
    then show ?thesis using step filling_add [OF 1 2(1), of more] data(2) p
      by (intro that [of ps "add_data more q" "[]" packet]) simp_all
  next
    case False
    then show ?thesis using step 1 2 data by (intro that [of ps q more data]) simp_all
  qed
qed

lemma pack_loop_filling:
  "filling n pages page out \<Longrightarrow> pg_packets page \<noteq> [] \<Longrightarrow>
     packet = [] \<or> 255 dvd length (last (pg_packets page)) \<Longrightarrow> out \<noteq> [] \<Longrightarrow> 255 \<le> default_size \<Longrightarrow>
     \<exists>pages' page'. pack_loop default_size wiggle pages page packet = Some (Inr (pages', page'))
       \<and> filling n pages' page' (butlast out @ [last out @ packet]) \<and> pg_packets page' \<noteq> []"
proof (induction "length packet" arbitrary: packet pages page out rule: less_induct)
  case less
  show ?case
  proof (cases "packet = []")
    case True
    then show ?thesis using less.prems by (subst pack_loop.simps) simp
  next
    case False
    then have d: "255 dvd length (last (pg_packets page))" using less.prems(3) by simp
    obtain pages1 page1 used rest where s:
      "pack_step default_size wiggle pages page packet = Inr (pages1, page1, rest)"
      "packet = used @ rest" "length rest < length packet"
      "filling n pages1 page1 (butlast out @ [last out @ used])" "pg_packets page1 \<noteq> []"
      "rest = [] \<or> 255 dvd length (last (pg_packets page1))"
      by (rule pack_step_filling [OF less.prems(1,2) d False less.prems(5)])
    from less.hyps [OF s(3,4,5,6) _ less.prems(5)] s(2)
    obtain pages2 page2 where "pack_loop default_size wiggle pages1 page1 rest = Some (Inr (pages2, page2))"
      "filling n pages2 page2 (butlast out @ [last out @ packet])" "pg_packets page2 \<noteq> []" by auto
    then show ?thesis using False s(1) by (subst pack_loop.simps) simp
  qed
qed

lemma pack_all_filling:
  "filling n pages page out \<Longrightarrow> 255 \<le> default_size \<Longrightarrow>
     \<exists>pages' page'. pack_all default_size wiggle pages page packets = Some (Inr (pages', page'))
       \<and> filling n pages' page' (out @ packets) \<and> (packets \<noteq> [] \<longrightarrow> pg_packets page' \<noteq> [])"
proof (induction packets arbitrary: pages page out)
  case (Cons packet packets)
  let ?p = "page\<lparr>pg_packets := pg_packets page @ [[]]\<rparr>"
  obtain pages1 page1 where l: "pack_loop default_size wiggle pages ?p packet = Some (Inr (pages1, page1))"
    "filling n pages1 page1 (out @ [packet])" "pg_packets page1 \<noteq> []"
    using pack_loop_filling [OF filling_packet [OF Cons.prems(1)], of packet default_size wiggle] Cons.prems(2)
    by auto
  from Cons.IH [OF l(2) Cons.prems(2)] show ?case using l(1,3) by (cases "packets = []") auto
qed simp

lemma from_packets_pages:
  assumes "255 \<le> default_size"
  obtains pages where "from_packets packets n default_size wiggle = Some (Inr pages)"
    "numbered 0 n pages" "chained False pages" "list_all framed pages" "list_all plain_page pages"
    "packets \<noteq> [] \<longrightarrow> pages \<noteq> [] \<and> pg_complete (last pages)" "foldl join [] pages = packets"
proof -
  obtain pages page where p: "pack_all default_size wiggle [] (new_page\<lparr>pg_sequence := n\<rparr>) packets
      = Some (Inr (pages, page))" "filling n pages page packets" "packets \<noteq> [] \<longrightarrow> pg_packets page \<noteq> []"
    using pack_all_filling [OF filling_start assms, of wiggle n packets] by auto
  show ?thesis
  proof (cases "pg_packets page = []")
    case True
    then have "packets = []" "pages = []" using p(2,3) by (auto simp: filling_def)
    then show ?thesis using p(1) True by (intro that [of "[]"]) (simp_all add: from_packets_def)
  next
    case False
    then show ?thesis using p(1,2)
      by (intro that [of "pages @ [page]"]) (simp_all add: from_packets_def filling_def framed_def)
  qed
qed

end
