(* ===== verification/Ogg_Replace.thy ===== *)
theory Ogg_Replace
  imports Ogg_Stream
begin

text \<open>
  What \<open>renumber\<close> and \<open>replace\<close> do to the bytes of a file that consists of pages.
\<close>

definition storable :: "ogg_page \<Rightarrow> bool" where
  "storable p \<longleftrightarrow> fields_fit p \<and> pg_version p = 0 \<and> framed p \<and> length (lacing_data p) \<le> 255"

text \<open>A page in a file, with the checksum it has there.\<close>

definition raw_page :: "ogg_page \<Rightarrow> string \<Rightarrow> string" where
  "raw_page p crc = page_head p @ crc @ page_body p"

definition pages_bytes :: "(ogg_page \<times> string) list \<Rightarrow> string" where
  "pages_bytes pcs = concat (map (\<lambda>(p, crc). raw_page p crc) pcs)"

text \<open>The pages of the stream numbered on, with new checksums; all others as they are.\<close>

fun renumbered :: "int \<Rightarrow> int \<Rightarrow> (ogg_page \<times> string) list \<Rightarrow> (ogg_page \<times> string) list" where
  "renumbered serial n [] = []"
| "renumbered serial n ((p, crc) # pcs) =
     (if pg_serial p \<noteq> serial then (p, crc) # renumbered serial n pcs
      else let q = p\<lparr>pg_sequence := n\<rparr> in (q, page_sum q) # renumbered serial (n + 1) pcs)"

lemma page_bytes_raw: "page_bytes p = raw_page p (page_sum p)"
  by (simp add: page_bytes_def raw_page_def)

lemma length_raw_page: "length crc = 4 \<Longrightarrow> length (raw_page p crc) = length (page_bytes p)"
  by (simp add: page_bytes_raw) (simp add: raw_page_def)

lemma page_bytes_offset [simp]:
  "page_bytes (p\<lparr>pg_offset := x\<rparr>) = page_bytes p"
  "page_bytes (p\<lparr>pg_offset := x, pg_sequence := n\<rparr>) = page_bytes (p\<lparr>pg_sequence := n\<rparr>)"
  by (simp_all add: page_bytes_def page_head_def page_body_def page_sum_def lacing_data_def)

lemma length_renumbered_page [simp]: "length (page_bytes (p\<lparr>pg_sequence := n\<rparr>)) = length (page_bytes p)"
  by (simp add: length_page_bytes lacing_data_def)

lemma f_write_here:
  assumes "fbytes f = pre @ old @ post" "length old = length new" "fpos f = length pre"
  shows "fbytes (f_write new f) = pre @ new @ post"
  using assms by (auto simp: f_write_def)

lemma read_stop:
  assumes "drop (fpos f) (fbytes f) = rest" "rest = [] \<or> take 4 rest \<noteq> ''OggS''"
  shows "\<exists>g. read_page f = (Inl (if rest = [] then EOFError else OggError), g) \<and> fbytes g = fbytes f"
proof -
  obtain h g where r: "f_read 27 f = (h, g)" by (cases "f_read 27 f")
  then have h: "h = take 27 rest" "fbytes g = fbytes f"
    using assms(1) by (auto simp: f_read_def Let_def)
  show ?thesis
  proof (cases "rest = []")
    case True
    then show ?thesis using h r by (simp add: read_page_def)
  next
    case False
    have "oggs = take 4 h" if "unpack_header h = Inr (oggs, x)" for oggs x
      using that by (cases x) (auto simp: unpack_header_def bindR_Inr_iff split: if_splits)
    moreover have "take 4 h \<noteq> ''OggS''" using assms(2) False h(1) by (simp add: min_def)
    ultimately have "\<forall>oggs x. unpack_header h = Inr (oggs, x) \<longrightarrow> oggs \<noteq> ''OggS''" by metis
    then have "read_page f = (Inl OggError, g)"
      using r h(1) False by (simp add: read_page_def split: sum.split)
    then show ?thesis using h(2) False by simp
  qed
qed

lemma renumber_page:
  assumes s: "storable p" "length crc = 4" and b: "fbytes f = pre @ raw_page p crc @ post"
    "fpos f = length pre" and n: "0 \<le> n" "n < 2 ^ 32"
  shows "renumber f serial n =
    (if pg_serial p \<noteq> serial
     then renumber (f\<lparr>fpos := length pre + length (page_bytes p)\<rparr>) serial n
     else renumber \<lparr>fbytes = pre @ page_bytes (p\<lparr>pg_sequence := n\<rparr>) @ post,
            fpos = length pre + length (page_bytes p)\<rparr> serial (n + 1))"
proof -
  let ?p = "p\<lparr>pg_offset := Some (length pre)\<rparr>" and ?q = "p\<lparr>pg_sequence := n\<rparr>"
  let ?g = "f\<lparr>fpos := length pre + length (page_bytes p)\<rparr>"
  have "drop (fpos f) (fbytes f) = page_head p @ crc @ page_body p @ post"
    using b by (simp add: raw_page_def)
  from read_page_here [OF _ _ _ _ this s(2)] have r: "read_page f = (Inr ?p, ?g)"
    using s(1) b(2) by (simp add: storable_def)
  show ?thesis
  proof (cases "pg_serial p = serial")
    case False
    then show ?thesis using r by (subst renumber.simps) simp
  next
    case True
    have "framed ?p" using s(1) by (simp add: storable_def framed_def open_end_def)
    then have sz: "page_size ?p = Inr (length (page_bytes p))" using page_size_bytes by simp
    have sk: "seek_cur (- int (length (page_bytes p))) ?g = Inr (f\<lparr>fpos := length pre\<rparr>)"
      by (simp add: seek_cur_def seek_set_def)
    have w: "write_page (?p\<lparr>pg_sequence := n\<rparr>) = Inr (page_bytes ?q)"
      using s(1) n by (auto simp: write_page_iff storable_def fields_fit_def lacing_data_def u_fits_def)
    have "fbytes (f_write (page_bytes ?q) (f\<lparr>fpos := length pre\<rparr>)) = pre @ page_bytes ?q @ post"
      using b(1) length_raw_page [OF s(2), of p] by (intro f_write_here [of _ pre "raw_page p crc"]) simp_all
    then have "(f_write (page_bytes ?q) (f\<lparr>fpos := length pre\<rparr>))\<lparr>fpos := length pre + length (page_bytes p)\<rparr>
        = \<lparr>fbytes = pre @ page_bytes ?q @ post, fpos = length pre + length (page_bytes p)\<rparr>"
      by simp
    then show ?thesis using True r sz sk w by (subst renumber.simps) simp
  qed
qed

lemma renumber_pages:
  "list_all (\<lambda>(p, crc). storable p \<and> length crc = 4) pcs \<Longrightarrow> fbytes f = pre @ pages_bytes pcs @ rest \<Longrightarrow>
     fpos f = length pre \<Longrightarrow> 0 \<le> n \<Longrightarrow> n + int (length pcs) \<le> 2 ^ 32 \<Longrightarrow>
     rest = [] \<or> take 4 rest \<noteq> ''OggS'' \<Longrightarrow>
     \<exists>g. renumber f serial n = (g, if rest = [] then None else Some OggError)
       \<and> fbytes g = pre @ pages_bytes (renumbered serial n pcs) @ rest"
proof (induction pcs arbitrary: f pre n)
  case Nil
  then have "drop (fpos f) (fbytes f) = rest" by (simp add: pages_bytes_def)
  from read_stop [OF this Nil.prems(6)]
  obtain g where "read_page f = (Inl (if rest = [] then EOFError else OggError), g)" "fbytes g = fbytes f"
    by blast
  then show ?case using Nil.prems(2) by (subst renumber.simps) (simp add: pages_bytes_def)
next
  case (Cons pc pcs)
  obtain p crc where pc: "pc = (p, crc)" by (cases pc)
  let ?q = "p\<lparr>pg_sequence := n\<rparr>" and ?len = "length (page_bytes p)"
  have s: "storable p" "length crc = 4" and pcs: "list_all (\<lambda>(p, crc). storable p \<and> length crc = 4) pcs"
    using Cons.prems(1) pc by simp_all
  have b: "fbytes f = pre @ raw_page p crc @ (pages_bytes pcs @ rest)"
    using Cons.prems(2) by (simp add: pc pages_bytes_def)
  have n: "n < 2 ^ 32" "n + int (length pcs) \<le> 2 ^ 32" "n + 1 + int (length pcs) \<le> 2 ^ 32"
    using Cons.prems(5) by simp_all
  note step = renumber_page [OF s b Cons.prems(3,4) n(1)]
  show ?case
  proof (cases "pg_serial p = serial")
    case False
    have "fbytes (f\<lparr>fpos := length pre + ?len\<rparr>) = (pre @ raw_page p crc) @ pages_bytes pcs @ rest"
      "fpos (f\<lparr>fpos := length pre + ?len\<rparr>) = length (pre @ raw_page p crc)"
      using b length_raw_page [OF s(2), of p] by simp_all
    from Cons.IH [OF pcs this Cons.prems(4) n(2) Cons.prems(6)] False show ?thesis
      using step by (simp add: pc pages_bytes_def)
  next
    case True
    let ?f = "\<lparr>fbytes = pre @ page_bytes ?q @ (pages_bytes pcs @ rest), fpos = length pre + ?len\<rparr>"
    have "fbytes ?f = (pre @ page_bytes ?q) @ pages_bytes pcs @ rest"
      "fpos ?f = length (pre @ page_bytes ?q)" "0 \<le> n + 1" using Cons.prems(4) by simp_all
    from Cons.IH [OF pcs this n(3) Cons.prems(6)]
    obtain g where "renumber ?f serial (n + 1) = (g, if rest = [] then None else Some OggError)"
      "fbytes g = (pre @ page_bytes ?q) @ pages_bytes (renumbered serial (n + 1) pcs) @ rest" by blast
    moreover have "pages_bytes (renumbered serial n (pc # pcs))
        = page_bytes ?q @ pages_bytes (renumbered serial (n + 1) pcs)"
      using True by (simp add: pc pages_bytes_def page_bytes_raw Let_def)
    ultimately show ?thesis using step True by simp
  qed
qed

section \<open>replace\<close>

text \<open>The old pages with what stands between them: page, checksum, the bytes up to the next.\<close>

type_synonym placed_page = "ogg_page \<times> string \<times> string"

definition placed_bytes :: "placed_page list \<Rightarrow> string" where
  "placed_bytes xs = concat (map (\<lambda>(p, crc, gap). raw_page p crc @ gap) xs)"

definition gaps :: "placed_page list \<Rightarrow> string" where
  "gaps xs = concat (map (\<lambda>(p, crc, gap). gap) xs)"

fun placed :: "nat \<Rightarrow> placed_page list \<Rightarrow> bool" where
  "placed n [] = True"
| "placed n ((p, crc, gap) # xs) =
     (pg_offset p = Some n \<and> framed p \<and> length crc = 4
      \<and> placed (n + length (raw_page p crc @ gap)) xs)"

lemma placed_append [simp]:
  "placed n (xs @ ys) \<longleftrightarrow> placed n xs \<and> placed (n + length (placed_bytes xs)) ys"
  by (induction xs arbitrary: n) (auto simp: placed_bytes_def add.assoc)

lemma delete_pages_bytes:
  "fbytes f = pre @ placed_bytes xs @ post \<Longrightarrow> placed n xs \<Longrightarrow> length pre = n + delta \<Longrightarrow>
     \<exists>g. delete_pages mm delta (rev (map fst xs)) f = (g, None) \<and> fbytes g = pre @ gaps xs @ post"
proof (induction xs arbitrary: f post rule: rev_induct)
  case (snoc x xs)
  obtain p crc gap where x: "x = (p, crc, gap)" by (cases x)
  let ?o = "n + length (placed_bytes xs)" and ?len = "length (page_bytes p)"
  have p: "pg_offset p = Some ?o" "framed p" "length crc = 4" "placed n xs"
    using snoc.prems(2) x by simp_all
  have b: "fbytes f = (pre @ placed_bytes xs) @ raw_page p crc @ (gap @ post)"
    using snoc.prems(1) by (simp add: x placed_bytes_def)
  have l: "length (raw_page p crc) = ?len" "0 < ?len"
    using length_raw_page [OF p(3)] by (simp_all add: length_page_bytes)
  have o: "?o + delta = length (pre @ placed_bytes xs)" using snoc.prems(3) by simp
  then have "?o + delta + ?len \<le> length (fbytes f)" using b l by simp
  from delete_bytes_closed [OF l(2) this, of mm] obtain g where
    g: "delete_bytes mm f (int ?len) (int (?o + delta)) = Inr g"
    "fbytes g = closed ?len (?o + delta) (fbytes f)" by blast
  have "fbytes g = pre @ placed_bytes xs @ (gap @ post)"
    unfolding g(2) closed_def o b using l by simp
  from snoc.IH [OF this p(4) snoc.prems(3)] show ?case
    using g(1) p(1) page_size_bytes [OF p(2)] by (simp add: x gaps_def)
qed (simp add: placed_bytes_def gaps_def)

lemma length_adopt_pages [simp]: "length (adopt_pages old_pages new_pages) = length new_pages"
  by (simp add: adopt_pages_def Let_def)

lemma written_pages:
  "mapR write_page ps = Inr datas \<Longrightarrow> datas = map page_bytes ps \<and> list_all fields_fit ps"
  by (induction ps arbitrary: datas) (auto simp: bindR_Inr_iff write_page_iff)

lemma replace_bytes:
  assumes b: "fbytes f = pre @ placed_bytes xs" "placed (length pre) xs" "xs \<noteq> []" "new \<noteq> []"
    and w: "mapR write_page (adopt_pages (map fst xs) new) = Inr datas"
  obtains g where "fbytes g = pre @ concat datas @ gaps xs"
    "replace mm f (map fst xs) new =
      (if length xs = length new then (g, None)
       else renumber (g\<lparr>fpos := length pre + length (concat datas)\<rparr>)
              (pg_serial (last (adopt_pages (map fst xs) new)))
              (pg_sequence (last (adopt_pages (map fst xs) new)) + 1))"
proof -
  let ?ps = "adopt_pages (map fst xs) new" and ?data = "concat datas" and ?o = "length pre"
  have "datas = map page_bytes ?ps" using written_pages [OF w] by simp
  moreover have "?ps \<noteq> []" using b(4) length_adopt_pages [of "map fst xs" new] by (metis length_0_conv)
  ultimately have d: "0 < length ?data"
    by (cases ?ps) (simp_all add: length_page_bytes)
  have "?o \<le> length (fbytes (f\<lparr>fpos := ?o\<rparr>))" using b(1) by simp
  from insert_bytes_opened [OF d this, of mm] obtain f1 where f1:
    "insert_bytes mm (f\<lparr>fpos := ?o\<rparr>) (int (length ?data)) (int ?o) = Inr f1"
    "fbytes f1 = opened (length ?data) ?o (fbytes f)" by auto
  obtain hole where "fbytes f1 = pre @ hole @ placed_bytes xs" "length hole = length ?data"
    using f1(2) b(1) by (auto simp: opened_def)
  then have "fbytes (f_write ?data (f1\<lparr>fpos := ?o\<rparr>)) = pre @ ?data @ placed_bytes xs"
    by (intro f_write_here [of _ pre hole]) simp_all
  then have "fbytes (f_write ?data (f1\<lparr>fpos := ?o\<rparr>)) = (pre @ ?data) @ placed_bytes xs @ []" by simp
  from delete_pages_bytes [OF this b(2), of "length ?data" mm] obtain g where g:
    "delete_pages mm (length ?data) (rev (map fst xs)) (f_write ?data (f1\<lparr>fpos := ?o\<rparr>)) = (g, None)"
    "fbytes g = pre @ ?data @ gaps xs" by auto
  obtain p crc gap ys where xs: "xs = (p, crc, gap) # ys" using b(3) by (cases xs) auto
  then have "pg_offset (hd (map fst xs)) = Some ?o" using b(2) by simp
  then show ?thesis using g f1(1) w b(3,4)
    by (intro that [OF g(2)]) (simp add: replace_def Let_def)
qed

end
