(* ===== verification/Ogg_Props.thy ===== *)
theory Ogg_Props
  imports Ogg_Packets Ogg_Replace
begin

text \<open>
  Properties of Ogg pages: reading what was written, the checksum of RFC 3533, packets through
  pages and back, when \<open>from_packets\<close> returns and what it can produce, and what renumbering and
  replacing pages do to a file.
\<close>

section \<open>Pages\<close>

text \<open>
  C18. A page that can be written, of version 0 and ending with a full lacing value if it is
  incomplete, has the size it announces and is read back from any place of a file, with all its
  fields and packets, and the file is left behind it.
\<close>

theorem page_roundtrip:
  assumes "write_page p = Inr data" "pg_version p = 0" "framed p"
    and "fbytes f = pre @ data @ post" "fpos f = length pre"
  shows "page_size p = Inr (length data)
    \<and> read_page f = (Inr (p\<lparr>pg_offset := Some (length pre)\<rparr>), f\<lparr>fpos := length pre + length data\<rparr>)"
proof -
  have w: "fields_fit p" "length (lacing_data p) \<le> 255" "data = page_bytes p"
    using assms(1) by (simp_all add: write_page_iff)
  have "drop (fpos f) (fbytes f) = page_head p @ page_sum p @ page_body p @ post"
    using assms(4,5) w(3) by (simp add: page_bytes_def)
  from read_page_here [OF w(1) assms(2) w(2) assms(3) this] show ?thesis
    using page_size_bytes [OF assms(3)] w(3) assms(5) by simp
qed

lemma page_roundtrip_witness:
  "\<exists>p data. pg_packets p = [''abc'', []] \<and> write_page p = Inr data
     \<and> read_page (open_file data) = (Inr (p\<lparr>pg_offset := Some 0\<rparr>), \<lparr>fbytes = data, fpos = length data\<rparr>)"
proof -
  let ?p = "new_page\<lparr>pg_packets := [''abc'', []], pg_sequence := 3\<rparr>"
  have "write_page ?p = Inr (page_bytes ?p)"
    by (simp add: write_page_iff fields_fit_def new_page_def u_fits_def s_fits_def lacing_data_def
        lacing_of_def)
  from page_roundtrip [OF this, of "open_file (page_bytes ?p)" "[]" "[]"] this show ?thesis
    by (intro exI [of _ ?p] exI [of _ "page_bytes ?p"])
      (simp add: open_file_def framed_def new_page_def)
qed

text \<open>
  C19. The checksum of a written page is the one RFC 3533 prescribes - polynomial \<open>0x04C11DB7\<close>, most
  significant bit first, no inversion - of the page with its checksum field zero, stored little
  endian, although the code computes it with the reflected CRC-32 of \<open>zlib\<close> on bit-swapped bytes.
\<close>

theorem page_checksum:
  assumes "write_page p = Inr data"
  shows "str_slice data 22 26 =
    struct_bytes False 4 (unat (ogg_crc (take 22 data @ replicate 4 (CHR 0x00) @ drop 26 data)))"
proof -
  have "data = page_head p @ page_sum p @ page_body p"
    using assms by (simp add: write_page_iff page_bytes_def)
  then have "str_slice data 22 26 = page_sum p" "take 22 data = page_head p" "drop 26 data = page_body p"
    by (simp_all add: str_slice_def)
  moreover have "chr 0 = CHR 0x00" by (simp add: char_of_eq_iff)
  ultimately show ?thesis by (simp add: page_sum_def)
qed

lemma page_checksum_witness:
  "\<exists>data. write_page new_page = Inr data \<and> str_slice data 22 26 =
     struct_bytes False 4 (unat (ogg_crc (take 22 data @ replicate 4 (CHR 0x00) @ drop 26 data)))"
proof -
  have "write_page new_page = Inr (page_bytes new_page)"
    by (simp add: write_page_iff fields_fit_def new_page_def u_fits_def s_fits_def lacing_data_def)
  then show ?thesis using page_checksum by blast
qed

section \<open>Packets\<close>

text \<open>
  C16. Packets split into pages and joined again are the packets, for every page size from 255 on
  and any wiggle room: \<open>from_packets\<close> returns, its pages are numbered on without a gap, each
  continues a packet exactly when the one before it is incomplete, all of them have the shape that
  survives writing, and \<open>to_packets\<close>, strict or not, gives the packets back.
\<close>

theorem packets_roundtrip:
  assumes "255 \<le> default_size" "packets \<noteq> []"
  shows "\<exists>pages. from_packets packets n default_size wiggle = Some (Inr pages)
    \<and> to_packets pages strict = Inr packets
    \<and> numbered 0 n pages \<and> chained False pages \<and> list_all framed pages"
proof -
  obtain pages where p: "from_packets packets n default_size wiggle = Some (Inr pages)"
    "numbered 0 n pages" "chained False pages" "list_all framed pages"
    "packets \<noteq> [] \<longrightarrow> pages \<noteq> [] \<and> pg_complete (last pages)" "foldl join [] pages = packets"
    by (rule from_packets_pages [OF assms(1)])
  have "pages \<noteq> []" "pg_complete (last pages)" using p(5) assms(2) by simp_all
  moreover from this(1) have "\<not> pg_continued (hd pages)" using p(3) by (cases pages) simp_all
  ultimately show ?thesis using to_packets_join [OF p(2)] p by metis
qed

lemma packets_roundtrip_witness:
  "\<exists>pages. from_packets [''ab'', [], ''c''] 7 4096 2048 = Some (Inr pages)
     \<and> to_packets pages True = Inr [''ab'', [], ''c''] \<and> numbered 0 7 pages"
  using packets_roundtrip [of 4096 "[''ab'', [], ''c'']" 7 2048 True] by auto

text \<open>With chunks of size zero a packet never gets shorter, except by the wiggle room.\<close>

lemma pack_step_stuck:
  assumes "pg_complete page" "default_size < 255"
  obtains pages' page' where "pg_complete page'"
    "pack_step default_size wiggle pages page packet =
      Inr (if length packet < wiggle then (pages', page', []) else (pages', page', packet))"
proof -
  have c: "default_size div 255 * 255 = 0" using assms(2) by simp
  obtain sz where sz: "page_size page = Inr sz" using assms(1) by (simp add: page_size_def Let_def)
  obtain ps q where q: "(ps, q) = (if sz < default_size \<and> length (pg_packets page) < 255
      then (pages, add_data [] page) else (pages @ [close_page page], next_page [] (close_page page)))"
    by (metis surj_pair)
  then have "pg_complete q" using assms(1) by (auto split: if_splits)
  moreover have "pack_step default_size wiggle pages page packet =
      Inr (if length packet < wiggle then (ps, add_data packet q, []) else (ps, q, packet))"
    unfolding pack_step_def Let_def sz bindR_simps c take_0 drop_0 q [symmetric] by simp
  ultimately show ?thesis using that [of "add_data packet q" ps] that [of q ps]
    by (cases "length packet < wiggle") simp_all
qed

lemma pack_loop_stuck:
  assumes "pack_loop default_size wiggle pages page packet = Some r"
  shows "default_size < 255 \<longrightarrow> pg_complete page \<longrightarrow> packet = [] \<or> length packet < wiggle"
proof (rule pack_loop.raw_induct [where P = "\<lambda>ds w pages page packet r.
    ds < 255 \<longrightarrow> pg_complete page \<longrightarrow> packet = [] \<or> length packet < w", OF _ assms], intro impI)
  fix f ds w pages page packet r
  assume IH: "\<And>ds w pages page packet r. f ds w pages page packet = Some r \<Longrightarrow>
      ds < 255 \<longrightarrow> pg_complete page \<longrightarrow> packet = [] \<or> length packet < w"
    and eq: "(if packet = [] then Some (Inr (pages, page))
      else case pack_step ds w pages page packet of Inl e \<Rightarrow> Some (Inl e)
        | Inr (pages, page, packet) \<Rightarrow> f ds w pages page packet) = Some r"
    and a: "ds < 255" "pg_complete page"
  obtain ps q where q: "pg_complete q" "pack_step ds w pages page packet =
      Inr (if length packet < w then (ps, q, []) else (ps, q, packet))"
    by (rule pack_step_stuck [OF a(2,1)])
  then show "packet = [] \<or> length packet < w"
    using eq IH [of ds w ps q packet r] a(1) by (auto split: if_splits)
qed

lemma pack_loop_short:
  assumes "pg_complete page" "default_size < 255" "packet = [] \<or> length packet < wiggle"
  shows "\<exists>pages' page'. pack_loop default_size wiggle pages page packet = Some (Inr (pages', page'))
    \<and> pg_complete page'"
proof (cases "packet = []")
  case True
  then show ?thesis using assms(1) by (subst pack_loop.simps) simp
next
  case False
  obtain ps q where q: "pg_complete q" "pack_step default_size wiggle pages page packet = Inr (ps, q, [])"
    by (rule pack_step_stuck [OF assms(1,2), of wiggle pages packet]) (use assms(3) False in auto)
  have "pack_loop default_size wiggle pages page packet = pack_loop default_size wiggle ps q []"
    using False q(2) by (subst pack_loop.simps) simp
  then show ?thesis using q(1) by (simp add: pack_loop.simps [of default_size wiggle ps q "[]"])
qed

lemma pack_all_short:
  "pg_complete page \<Longrightarrow> default_size < 255 \<Longrightarrow>
     (if \<exists>p \<in> set packets. p \<noteq> [] \<and> wiggle \<le> length p
      then pack_all default_size wiggle pages page packets = None
      else \<exists>ps p. pack_all default_size wiggle pages page packets = Some (Inr (ps, p)))"
proof (induction packets arbitrary: pages page)
  case (Cons packet packets)
  let ?p = "page\<lparr>pg_packets := pg_packets page @ [[]]\<rparr>"
  have c: "pg_complete ?p" using Cons.prems(1) by simp
  show ?case
  proof (cases "packet = [] \<or> length packet < wiggle")
    case True
    obtain ps q where q: "pack_loop default_size wiggle pages ?p packet = Some (Inr (ps, q))" "pg_complete q"
      using pack_loop_short [OF c Cons.prems(2) True] by blast
    have e: "(\<exists>p \<in> set (packet # packets). p \<noteq> [] \<and> wiggle \<le> length p)
        \<longleftrightarrow> (\<exists>p \<in> set packets. p \<noteq> [] \<and> wiggle \<le> length p)" using True by auto
    show ?thesis unfolding e using Cons.IH [OF q(2) Cons.prems(2), of ps] q(1) by (simp split: if_splits)
  next
    case False
    then have "pack_loop default_size wiggle pages ?p packet = None"
      using pack_loop_stuck [of default_size wiggle pages ?p packet] Cons.prems(2) c
      by (cases "pack_loop default_size wiggle pages ?p packet") auto
    then show ?thesis using False by auto
  qed
qed simp

text \<open>
  C32. \<open>from_packets\<close> never raises, and it runs forever exactly when \<open>default_size\<close> is below 255 and
  some packet is not empty and at least as long as the wiggle room.
\<close>

theorem from_packets_returns:
  "from_packets packets n default_size wiggle \<noteq> Some (Inl e)
   \<and> (from_packets packets n default_size wiggle = None \<longleftrightarrow>
        default_size < 255 \<and> list_ex (\<lambda>p. p \<noteq> [] \<and> wiggle \<le> length p) packets)"
proof (cases "default_size < 255")
  case True
  have "pg_complete (new_page\<lparr>pg_sequence := n\<rparr>)" by (simp add: new_page_def)
  from pack_all_short [OF this True, of packets wiggle "[]"] show ?thesis
    using True by (auto simp: from_packets_def list_ex_iff split: if_splits prod.splits)
next
  case False
  then obtain pages where "from_packets packets n default_size wiggle = Some (Inr pages)"
    using from_packets_pages [of default_size packets n wiggle] by (metis not_le)
  then show ?thesis using False by simp
qed

lemma pack_all_empty:
  "pack_all default_size wiggle pages page (replicate k []) =
     Some (Inr (pages, page\<lparr>pg_packets := pg_packets page @ replicate k []\<rparr>))"
proof (induction k arbitrary: page)
  case (Suc k)
  have "replicate (Suc k) ([] :: string) = [] # replicate k []" by simp
  then show ?case using Suc [of "page\<lparr>pg_packets := pg_packets page @ [[]]\<rparr>"]
    by (simp add: pack_loop.simps [of default_size wiggle pages _ "[]"])
qed simp

text \<open>
  The count of packets on a page is only looked at when a packet has data, and their lacing
  values are never counted: more than 255 empty packets all go to one page, which cannot be
  written.
\<close>

theorem overfull_page:
  assumes "255 < k" "0 \<le> n" "n < 2 ^ 32"
  shows "\<exists>p. from_packets (replicate k []) n default_size wiggle = Some (Inr [p])
    \<and> length (pg_packets p) = k \<and> write_page p = Inl ValueError"
proof -
  let ?p = "new_page\<lparr>pg_sequence := n, pg_packets := replicate k []\<rparr>"
  have "page_header ?p = Inr (page_head ?p @ replicate 4 (chr 0))"
    using assms(2,3) by (simp add: page_header_iff fields_fit_def new_page_def u_fits_def s_fits_def)
  moreover have "length (lacing_data ?p) = k"
    by (simp add: lacing_complete new_page_def lacing_of_def length_concat sum_list_replicate)
  ultimately have "write_page ?p = Inl ValueError" using assms(1) by (simp add: write_page_def)
  moreover have "from_packets (replicate k []) n default_size wiggle = Some (Inr [?p])"
    using assms(1) by (simp add: from_packets_def pack_all_empty new_page_def)
  ultimately show ?thesis by (intro exI [of _ ?p]) simp
qed

lemma overfull_page_witness:
  "\<exists>p. from_packets (replicate 300 []) 0 4096 2048 = Some (Inr [p])
     \<and> length (pg_packets p) = 300 \<and> write_page p = Inl ValueError"
  using overfull_page [of 300 0 4096 2048] by simp

section \<open>Files\<close>

text \<open>
  \<open>renumber\<close> from a place where pages start: the pages of the logical stream are numbered on
  from the given number, with new checksums; pages of other streams, whatever stands before, and
  whatever stands behind the last page are left as they are. It ends without an exception at the
  end of the file, and with \<open>OggError\<close> where something else than a page follows.
\<close>

theorem renumber_spec:
  assumes "list_all (\<lambda>(p, crc). storable p \<and> length crc = 4) pcs"
    and "fbytes f = pre @ pages_bytes pcs @ rest" "fpos f = length pre"
    and "0 \<le> n" "n + int (length pcs) \<le> 2 ^ 32" "rest = [] \<or> take 4 rest \<noteq> ''OggS''"
  shows "\<exists>g. renumber f serial n = (g, if rest = [] then None else Some OggError)
    \<and> fbytes g = pre @ pages_bytes (renumbered serial n pcs) @ rest"
  by (rule renumber_pages [OF assms])

lemma storable_example: "storable (new_page\<lparr>pg_serial := 5, pg_packets := [''ab'']\<rparr>)"
  by (simp add: storable_def fields_fit_def new_page_def u_fits_def s_fits_def framed_def
      lacing_data_def lacing_of_def)

lemma renumber_spec_witness:
  "\<exists>p g. storable p \<and> renumber \<lparr>fbytes = ''x'' @ pages_bytes [(p, ''0000'')] @ ''end'', fpos = 1\<rparr> 5 9
       = (g, Some OggError)
     \<and> fbytes g = ''x'' @ pages_bytes (renumbered 5 9 [(p, ''0000'')]) @ ''end''"
proof -
  let ?p = "new_page\<lparr>pg_serial := 5, pg_packets := [''ab'']\<rparr>"
  show ?thesis
    using renumber_spec [of "[(?p, ''0000'')]"
        "\<lparr>fbytes = ''x'' @ pages_bytes [(?p, ''0000'')] @ ''end'', fpos = 1\<rparr>" "''x''" "''end''" 9 5]
      storable_example by (intro exI [of _ ?p]) simp
qed

text \<open>
  C17. \<open>replace\<close> puts the new pages, with the numbers, the serial and the flags taken over from the
  old ones, where the first old page was, removes exactly the old pages, and keeps everything
  between and behind them; if the number of pages changed, the pages of the stream that follow are
  numbered on.
\<close>

theorem replace_spec:
  assumes "fbytes f = pre @ placed_bytes xs" "placed (length pre) xs" "xs \<noteq> []" "new \<noteq> []"
    and "mapR write_page (adopt_pages (map fst xs) new) = Inr datas"
    and "gaps xs = pages_bytes pcs @ rest" "rest = [] \<or> take 4 rest \<noteq> ''OggS''"
    and "list_all (\<lambda>(p, crc). storable p \<and> length crc = 4) pcs"
    and "z = last (adopt_pages (map fst xs) new)" "pg_sequence z + 1 + int (length pcs) \<le> 2 ^ 32"
  shows "\<exists>g. replace mmap_works f (map fst xs) new =
      (g, if length xs = length new \<or> rest = [] then None else Some OggError)
    \<and> fbytes g = pre @ concat datas @
        (if length xs = length new then gaps xs
         else pages_bytes (renumbered (pg_serial z) (pg_sequence z + 1) pcs) @ rest)"
proof -
  let ?ps = "adopt_pages (map fst xs) new" and ?data = "concat datas"
  obtain g where g: "fbytes g = pre @ ?data @ gaps xs" "replace mmap_works f (map fst xs) new =
      (if length xs = length new then (g, None)
       else renumber (g\<lparr>fpos := length pre + length ?data\<rparr>) (pg_serial z) (pg_sequence z + 1))"
    using replace_bytes [OF assms(1-5), of mmap_works] assms(9) by metis
  show ?thesis
  proof (cases "length xs = length new")
    case True
    then show ?thesis using g by simp
  next
    case False
    have "?ps \<noteq> []" using assms(4) length_adopt_pages [of "map fst xs" new] by (metis length_0_conv)
    then have "fields_fit z" using written_pages [OF assms(5)] assms(9) by (simp add: list_all_iff)
    then have "0 \<le> pg_sequence z + 1" by (simp add: fields_fit_def u_fits_def)
    moreover have "fbytes (g\<lparr>fpos := length pre + length ?data\<rparr>) = (pre @ ?data) @ pages_bytes pcs @ rest"
      "fpos (g\<lparr>fpos := length pre + length ?data\<rparr>) = length (pre @ ?data)"
      using g(1) assms(6) by simp_all
    ultimately obtain h where "renumber (g\<lparr>fpos := length pre + length ?data\<rparr>) (pg_serial z) (pg_sequence z + 1)
        = (h, if rest = [] then None else Some OggError)"
      "fbytes h = (pre @ ?data) @ pages_bytes (renumbered (pg_serial z) (pg_sequence z + 1) pcs) @ rest"
      using renumber_pages [OF assms(8), of "g\<lparr>fpos := length pre + length ?data\<rparr>" "pre @ ?data" rest
          "pg_sequence z + 1" "pg_serial z"] assms(7,10) by auto
    then show ?thesis using g(2) False by simp
  qed
qed

lemma adopt_example:
  "adopt_pages [new_page\<lparr>pg_offset := Some 2, pg_sequence := 4, pg_packets := [''ab'']\<rparr>]
     [new_page\<lparr>pg_packets := [''c'']\<rparr>, new_page\<lparr>pg_packets := [''d'']\<rparr>]
   = [new_page\<lparr>pg_sequence := 4, pg_packets := [''c'']\<rparr>, new_page\<lparr>pg_sequence := 5, pg_packets := [''d'']\<rparr>]"
  by (simp add: adopt_pages_def Let_def upt_rec set_flag_def pg_continued_def pg_first_def pg_last_def
      test_bit_def new_page_def)

lemma replace_spec_witness:
  "\<exists>p a b g. replace False \<lparr>fbytes = ''xy'' @ placed_bytes [(p, ''0000'', ''gap'')], fpos = 0\<rparr> [p]
       [new_page\<lparr>pg_packets := [''c'']\<rparr>, new_page\<lparr>pg_packets := [''d'']\<rparr>] = (g, Some OggError)
     \<and> pg_packets a = [''c''] \<and> pg_packets b = [''d''] \<and> pg_sequence b = 5
     \<and> fbytes g = ''xy'' @ page_bytes a @ page_bytes b @ ''gap''"
proof -
  define p a b where "p = new_page\<lparr>pg_offset := Some 2, pg_sequence := 4, pg_packets := [''ab'']\<rparr>"
    and "a = new_page\<lparr>pg_sequence := 4, pg_packets := [''c'']\<rparr>"
    and "b = new_page\<lparr>pg_sequence := 5, pg_packets := [''d'']\<rparr>"
  define new where "new = [new_page\<lparr>pg_packets := [''c'']\<rparr>, new_page\<lparr>pg_packets := [''d'']\<rparr>]"
  let ?xs = "[(p, ''0000'', ''gap'')]"
  let ?f = "\<lparr>fbytes = ''xy'' @ placed_bytes ?xs, fpos = 0\<rparr>"
  have adopt: "adopt_pages (map fst ?xs) new = [a, b]"
    using adopt_example by (simp add: p_def a_def b_def new_def)
  have "write_page a = Inr (page_bytes a)" "write_page b = Inr (page_bytes b)"
    by (simp_all add: a_def b_def write_page_iff fields_fit_def new_page_def u_fits_def s_fits_def
        lacing_data_def lacing_of_def)
  then have w: "mapR write_page (adopt_pages (map fst ?xs) new) = Inr [page_bytes a, page_bytes b]"
    unfolding adopt by simp
  have f: "fbytes ?f = ''xy'' @ placed_bytes ?xs" by simp
  have pl: "placed (length ''xy'') ?xs" by (simp add: p_def new_page_def framed_def)
  have g: "gaps ?xs = pages_bytes [] @ ''gap''" by (simp add: gaps_def pages_bytes_def)
  have n: "pg_sequence b + 1 + int (length ([] :: (ogg_page \<times> string) list)) \<le> 2 ^ 32" "length new = 2"
    "new \<noteq> []" "b = last (adopt_pages (map fst ?xs) new)"
    unfolding adopt by (simp_all add: b_def new_def)
  have e: "?xs \<noteq> []" "''gap'' = [] \<or> take 4 ''gap'' \<noteq> ''OggS''"
    "list_all (\<lambda>(p, crc). storable p \<and> length crc = 4) []" by simp_all
  obtain h where "replace False ?f (map fst ?xs) new = (h, Some OggError)"
    "fbytes h = ''xy'' @ concat [page_bytes a, page_bytes b] @ pages_bytes [] @ ''gap''"
    using replace_spec [OF f pl e(1) n(3) w g e(2,3) n(4,1), of False] n(2) by auto
  then show ?thesis unfolding new_def
    by (intro exI [of _ p] exI [of _ a] exI [of _ b] exI [of _ h]) (simp add: a_def b_def pages_bytes_def)
qed

end
