(* ===== verification/Vorbis.thy ===== *)
theory Vorbis
  imports Mut_Specs
begin

text \<open>
  \<open>mutagen/_vorbis.py\<close>: Vorbis comments, the tags of the Ogg formats and of FLAC. A comment is its
  vendor and its list of keys and values; keys are byte strings, values unicode text (\<open>FText\<close>) or
  byte strings (\<open>FBytes\<close>), as callers may store either.

  A file to load from is the bytes left to read. Of the error handlers of \<open>decode\<close>, \<open>strict\<close> is
  modelled; what \<open>replace\<close> and \<open>ignore\<close> make of bytes that are not UTF-8 differs between releases of
  Python and is the parameter \<open>lossy\<close>. The class \<open>error\<close> of the module is \<open>VorbisError\<close>. The list
  methods \<open>VComment\<close> inherits, \<open>pop\<close> and \<open>append\<close> among them, are Python's own.
\<close>

datatype vc_errors = Strict | Replace | Ignore

record vcomment =
  vc_vendor :: fval
  vc_pairs :: "(string \<times> fval) list"

definition new_comment :: vcomment where
  "new_comment = \<lparr>vc_vendor = FText (map ord ''Mutagen 1.22''), vc_pairs = []\<rparr>"

definition is_valid_key :: "string \<Rightarrow> bool" where
  "is_valid_key key \<longleftrightarrow>
     list_all (\<lambda>c. \<not> (ord c < 32 \<or> 125 < ord c \<or> c = CHR ''='')) key \<and> key \<noteq> []"

section \<open>Loading\<close>

definition decode_utf8 :: "(vc_errors \<Rightarrow> string \<Rightarrow> unicode) \<Rightarrow> vc_errors \<Rightarrow> string \<Rightarrow> merr + unicode" where
  "decode_utf8 lossy errors s =
     (case utf8_decode s of
        Inr u \<Rightarrow> Inr u
      | Inl e \<Rightarrow> if errors = Strict then Inl e else Inr (lossy errors s))"

text \<open>\<open>tag.encode('ascii', errors)\<close>.\<close>

definition encode_ascii :: "vc_errors \<Rightarrow> unicode \<Rightarrow> merr + string" where
  "encode_ascii errors u =
     (if list_all (\<lambda>cp. cp < 128) u then Inr (map chr u)
      else case errors of
        Strict \<Rightarrow> Inl UnicodeEncodeError
      | Replace \<Rightarrow> Inr (map (\<lambda>cp. if cp < 128 then chr cp else CHR ''?'') u)
      | Ignore \<Rightarrow> Inr (map chr (filter (\<lambda>cp. cp < 128) u)))"

text \<open>One comment string: \<open>None\<close> is one that is skipped.\<close>

definition parse_comment :: "vc_errors \<Rightarrow> nat \<Rightarrow> unicode \<Rightarrow> merr + (string \<times> fval) option" where
  "parse_comment errors i str =
     (let split = (case str_split1 61 str of
                     Some (tag, v) \<Rightarrow> Inr (Some (tag, v))
                   | None \<Rightarrow>
                       (case errors of
                          Ignore \<Rightarrow> Inr None
                        | Replace \<Rightarrow> Inr (Some (map ord (''unknown'' @ nat_str i), str))
                        | Strict \<Rightarrow> Inl VorbisEncodingError))
      in bindR split (\<lambda>x. case x of
           None \<Rightarrow> Inr None
         | Some (tag, v) \<Rightarrow>
             (case encode_ascii errors tag of
                Inl _ \<Rightarrow> Inl VorbisEncodingError
              | Inr tag \<Rightarrow> Inr (if is_valid_key tag then Some (tag, FText v) else None))))"

definition read_uint :: "string \<Rightarrow> merr + nat \<times> string" where
  "read_uint data = bindR (uint_le (take 4 data)) (\<lambda>n. Inr (nat n, drop 4 data))"

lemma read_uint_shorter: "read_uint data = Inr (n, rest) \<Longrightarrow> length data = length rest + 4"
  by (auto simp: read_uint_def uint_le_def unpack_u_def bindR_Inr_iff split: if_splits)

text \<open>The loop over the comments: what was appended so far stays when it raises.\<close>

function load_comments ::
  "(vc_errors \<Rightarrow> string \<Rightarrow> unicode) \<Rightarrow> vc_errors \<Rightarrow> nat \<Rightarrow> nat \<Rightarrow> vcomment \<Rightarrow> string
     \<Rightarrow> vcomment \<times> (merr + string)" where
  "load_comments lossy errors i count self data =
     (if count \<le> i then (self, Inr data)
      else case read_uint data of
        Inl e \<Rightarrow> (self, Inl e)
      | Inr (len, data) \<Rightarrow>
          (case decode_utf8 lossy errors (take len data) of
             Inl e \<Rightarrow> (self, Inl e)
           | Inr str \<Rightarrow>
               (case parse_comment errors i str of
                  Inl e \<Rightarrow> (self, Inl e)
                | Inr None \<Rightarrow> load_comments lossy errors (Suc i) count self (drop len data)
                | Inr (Some pair) \<Rightarrow>
                    load_comments lossy errors (Suc i) count
                      (self\<lparr>vc_pairs := vc_pairs self @ [pair]\<rparr>) (drop len data))))"
  by pat_completeness auto
termination
  by (relation "measure (\<lambda>(lossy, errors, i, count, self, data). count - i)") auto

declare load_comments.simps [simp del]

definition load_body ::
  "(vc_errors \<Rightarrow> string \<Rightarrow> unicode) \<Rightarrow> vc_errors \<Rightarrow> bool \<Rightarrow> vcomment \<Rightarrow> string
     \<Rightarrow> vcomment \<times> (merr + string)" where
  "load_body lossy errors framing self data =
     (case bindR (read_uint data) (\<lambda>(len, data).
             bindR (decode_utf8 lossy errors (take len data)) (\<lambda>u. Inr (u, drop len data))) of
        Inl e \<Rightarrow> (self, Inl e)
      | Inr (vendor, data) \<Rightarrow>
          (let self = self\<lparr>vc_vendor := FText vendor\<rparr>
           in case read_uint data of
             Inl e \<Rightarrow> (self, Inl e)
           | Inr (count, data) \<Rightarrow>
               (case load_comments lossy errors 0 count self data of
                  (self, Inl e) \<Rightarrow> (self, Inl e)
                | (self, Inr data) \<Rightarrow>
                    if \<not> framing then (self, Inr data)
                    else case data of
                      [] \<Rightarrow> (self, Inl TypeError)
                    | c # rest \<Rightarrow>
                        if even (ord c) then (self, Inl VorbisUnsetFrameError) else (self, Inr rest))))"

definition vc_load ::
  "(vc_errors \<Rightarrow> string \<Rightarrow> unicode) \<Rightarrow> vc_errors \<Rightarrow> bool \<Rightarrow> vcomment \<Rightarrow> string
     \<Rightarrow> vcomment \<times> (merr + string)" where
  "vc_load lossy errors framing self data =
     (case load_body lossy errors framing self data of
        (self, Inl e) \<Rightarrow> (self, Inl (if e \<in> {StructError, TypeError} then VorbisError else e))
      | r \<Rightarrow> r)"

section \<open>Validation and writing\<close>

fun validate_pairs :: "(string \<times> fval) list \<Rightarrow> merr + unit" where
  "validate_pairs [] = Inr ()"
| "validate_pairs ((key, v) # ps) =
     (if \<not> is_valid_key key then Inl ValueError
      else case v of
        FText _ \<Rightarrow> validate_pairs ps
      | FBytes b \<Rightarrow> (case ascii_decode b of Inl _ \<Rightarrow> Inl ValueError | Inr _ \<Rightarrow> validate_pairs ps)
      | _ \<Rightarrow> Inl ValueError)"

definition vc_validate :: "vcomment \<Rightarrow> merr + unit" where
  "vc_validate self =
     bindR (case vc_vendor self of
              FText _ \<Rightarrow> Inr ()
            | FBytes b \<Rightarrow> (case utf8_decode b of Inl _ \<Rightarrow> Inl ValueError | Inr _ \<Rightarrow> Inr ())
            | _ \<Rightarrow> Inl AttributeError) (\<lambda>_. validate_pairs (vc_pairs self))"

text \<open>\<open>v.encode('utf-8')\<close>; a byte string is decoded as ASCII first.\<close>

definition encode_value :: "fval \<Rightarrow> merr + string" where
  "encode_value v =
     (case v of
        FText u \<Rightarrow> Inr (utf8_encode u)
      | FBytes b \<Rightarrow> bindR (ascii_decode b) (\<lambda>u. Inr (utf8_encode u))
      | _ \<Rightarrow> Inl AttributeError)"

definition write_field :: "string \<Rightarrow> merr + string" where
  "write_field s = bindR (to_uint_le (int (length s))) (\<lambda>n. Inr (n @ s))"

definition write_pair :: "string \<times> fval \<Rightarrow> merr + string" where
  "write_pair = (\<lambda>(tag, v). bindR (encode_value v) (\<lambda>s. write_field (tag @ ''='' @ s)))"

definition vc_write :: "bool \<Rightarrow> vcomment \<Rightarrow> merr + string" where
  "vc_write framing self =
     bindR (vc_validate self) (\<lambda>_.
     bindR (encode_value (vc_vendor self)) (\<lambda>v.
     bindR (write_field v) (\<lambda>vendor.
     bindR (to_uint_le (int (length (vc_pairs self)))) (\<lambda>count.
     bindR (mapR write_pair (vc_pairs self)) (\<lambda>comments.
       Inr (vendor @ count @ concat comments @ (if framing then [CHR 0x01] else [])))))))"

definition vc_clear :: "vcomment \<Rightarrow> vcomment" where
  "vc_clear self = self\<lparr>vc_pairs := []\<rparr>"

section \<open>The dictionary\<close>

text \<open>\<open>key.lower().encode('ascii')\<close> of a byte string.\<close>

definition lower_key :: "string \<Rightarrow> merr + string" where
  "lower_key key = bindR (ascii_decode (str_lower key)) (\<lambda>_. Inr (str_lower key))"

definition vc_getitem :: "vcomment \<Rightarrow> string \<Rightarrow> merr + fval list" where
  "vc_getitem self key =
     bindR (lower_key key) (\<lambda>key.
       let values = map snd (filter (\<lambda>(k, v). str_lower k = key) (vc_pairs self))
       in if values = [] then Inl KeyError else Inr values)"

text \<open>Equality of values, in which ASCII byte strings equal their text.\<close>

definition value_eq :: "fval \<Rightarrow> fval \<Rightarrow> bool" where
  "value_eq v w =
     (case (v, w) of
        (FText u, FBytes b) \<Rightarrow> ascii_decode b = Inr u
      | (FBytes b, FText u) \<Rightarrow> ascii_decode b = Inr u
      | _ \<Rightarrow> v = w)"

text \<open>\<open>self.remove(x)\<close>: the first item that is equal.\<close>

fun list_remove :: "string \<times> fval \<Rightarrow> (string \<times> fval) list \<Rightarrow> merr + (string \<times> fval) list" where
  "list_remove x [] = Inl ValueError"
| "list_remove x (p # ps) =
     (if fst p = fst x \<and> value_eq (snd p) (snd x) then Inr ps
      else bindR (list_remove x ps) (\<lambda>qs. Inr (p # qs)))"

fun remove_all :: "(string \<times> fval) list \<Rightarrow> (string \<times> fval) list \<Rightarrow> merr + (string \<times> fval) list" where
  "remove_all [] ps = Inr ps"
| "remove_all (x # xs) ps = bindR (list_remove x ps) (remove_all xs)"

definition vc_delitem :: "vcomment \<Rightarrow> string \<Rightarrow> merr + vcomment" where
  "vc_delitem self key =
     bindR (lower_key key) (\<lambda>key.
       let to_delete = filter (\<lambda>x. str_lower (fst x) = key) (vc_pairs self)
       in if to_delete = [] then Inl KeyError
          else bindR (remove_all to_delete (vc_pairs self)) (\<lambda>ps. Inr (self\<lparr>vc_pairs := ps\<rparr>)))"

definition vc_contains :: "vcomment \<Rightarrow> string \<Rightarrow> merr + bool" where
  "vc_contains self key =
     bindR (lower_key key) (\<lambda>key. Inr (list_ex (\<lambda>(k, v). str_lower k = key) (vc_pairs self)))"

definition vc_setitem :: "vcomment \<Rightarrow> string \<Rightarrow> fval list \<Rightarrow> merr + vcomment" where
  "vc_setitem self key values =
     bindR (ascii_decode key) (\<lambda>_.
     bindR (case vc_delitem self key of
              Inl e \<Rightarrow> if e = KeyError then Inr self else Inl e
            | Inr s \<Rightarrow> Inr s) (\<lambda>self.
       Inr (self\<lparr>vc_pairs := vc_pairs self @ map (\<lambda>v. (key, v)) values\<rparr>)))"

definition vc_keys :: "vcomment \<Rightarrow> string list" where
  "vc_keys self = remdups (map (\<lambda>(k, v). str_lower k) (vc_pairs self))"

definition vc_as_dict :: "vcomment \<Rightarrow> merr + (string \<times> fval list) list" where
  "vc_as_dict self = mapR (\<lambda>key. bindR (vc_getitem self key) (\<lambda>vs. Inr (key, vs))) (vc_keys self)"

end
