(* ===== verification/Vorbis_Props.thy ===== *)
theory Vorbis_Props
  imports Vorbis
begin

text \<open>
  Properties of Vorbis comments: what is written is loaded again, what loading any data can give and
  raise, and the case-insensitive dictionary of value lists they are.
\<close>

section \<open>Writing and loading\<close>

lemma read_uint_bytes [simp]:
  "n < 2 ^ 32 \<Longrightarrow> read_uint (struct_bytes False 4 n @ rest) = Inr (n, rest)"
  by (simp add: read_uint_def uint_le_def unpack_u_def struct_value_bytes)

lemma to_uint_le_iff:
  "to_uint_le (int n) = Inr s \<longleftrightarrow> n < 2 ^ 32 \<and> s = struct_bytes False 4 n"
  by (auto simp: to_uint_le_def pack_u_def)

lemma write_field_iff:
  "write_field s = Inr t \<longleftrightarrow> length s < 2 ^ 32 \<and> t = struct_bytes False 4 (length s) @ s"
  by (auto simp: write_field_def bindR_Inr_iff to_uint_le_iff)

text \<open>Keys and texts that survive: every text is unicode, without surrogates.\<close>

definition clean_pair :: "string \<times> fval \<Rightarrow> bool" where
  "clean_pair p \<longleftrightarrow> is_valid_key (fst p) \<and> (\<exists>u. snd p = FText u \<and> list_all scalar u)"

definition clean_comment :: "vcomment \<Rightarrow> bool" where
  "clean_comment c \<longleftrightarrow> (\<exists>u. vc_vendor c = FText u \<and> list_all scalar u) \<and> list_all clean_pair (vc_pairs c)"

lemma chr_equals: "chr 61 = CHR ''=''"
  by code_simp

lemma equals_code: "ord c = 61 \<Longrightarrow> c = CHR ''=''"
proof -
  assume "ord c = 61"
  moreover have "chr (ord c) = c" by simp
  ultimately show ?thesis using chr_equals by (simp only:)
qed

lemma valid_key_ascii:
  assumes "is_valid_key key"
  shows "list_all (\<lambda>cp. cp < 128) (map ord key)" "61 \<notin> set (map ord key)"
proof -
  have c: "ord c < 128 \<and> ord c \<noteq> 61" if "c \<in> set key" for c
  proof -
    have "\<not> (ord c < 32 \<or> 125 < ord c \<or> c = CHR ''='')"
      using assms that unfolding is_valid_key_def list_all_iff by blast
    then show ?thesis using equals_code [of c] by (auto simp del: ord_less)
  qed
  show "list_all (\<lambda>cp. cp < 128) (map ord key)" using c by (simp add: list_all_iff)
  show "61 \<notin> set (map ord key)"
  proof
    assume "61 \<in> set (map ord key)"
    then obtain x where "x \<in> set key" "61 = ord x" unfolding list.set_map by (rule imageE)
    then show False using c [of x] by simp
  qed
qed

lemma parse_written:
  assumes "is_valid_key key"
  shows "parse_comment errors i (map ord key @ 61 # u) = Inr (Some (key, FText u))"
  using assms valid_key_ascii [OF assms]
  by (simp add: parse_comment_def encode_ascii_def comp_def)

lemma decode_written:
  assumes "is_valid_key key" "list_all scalar u"
  shows "decode_utf8 lossy errors (key @ CHR ''='' # utf8_encode u) = Inr (map ord key @ 61 # u)"
proof -
  have a: "utf8_char (ord c) = [c] \<and> scalar (ord c)" if "c \<in> set key" for c
    using valid_key_ascii(1) [OF assms(1)] that
    by (auto simp: utf8_char_def scalar_def high_surrogate_def low_surrogate_def list_all_iff)
  then have "concat (map utf8_char (map ord key)) = key" by (induction key) auto
  moreover have "utf8_char 61 = ''=''" by (simp add: utf8_char_def chr_equals)
  moreover have s: "list_all scalar (map ord key @ 61 # u)"
    using a assms(2) by (auto simp: list_all_iff scalar_def high_surrogate_def low_surrogate_def)
  ultimately have "utf8_encode (map ord key @ 61 # u) = key @ CHR ''='' # utf8_encode u"
    using utf8_encode_concat [OF s] utf8_encode_concat [OF assms(2)] by simp
  with utf8_decode_encode [OF s] show ?thesis by (simp add: decode_utf8_def)
qed

lemma load_comments_written:
  "list_all clean_pair ps \<Longrightarrow> mapR write_pair ps = Inr strs \<Longrightarrow> count = i + length ps \<Longrightarrow>
     load_comments lossy errors i count self (concat strs @ rest)
       = (self\<lparr>vc_pairs := vc_pairs self @ ps\<rparr>, Inr rest)"
proof (induction ps arbitrary: i strs self)
  case Nil
  then show ?case by (subst load_comments.simps) simp
next
  case (Cons p ps)
  obtain key u where p: "p = (key, FText u)" "is_valid_key key" "list_all scalar u"
    using Cons.prems(1) by (cases p) (auto simp: clean_pair_def)
  let ?s = "key @ CHR ''='' # utf8_encode u"
  obtain ts where t: "length ?s < 2 ^ 32" "mapR write_pair ps = Inr ts"
    "strs = (struct_bytes False 4 (length ?s) @ ?s) # ts"
    using Cons.prems(2) by (auto simp: bindR_Inr_iff p(1) write_pair_def encode_value_def write_field_iff)
  have ps: "list_all clean_pair ps" "count = Suc i + length ps" using Cons.prems by simp_all
  have "read_uint (concat strs @ rest) = Inr (length ?s, ?s @ concat ts @ rest)"
    using t(1) by (simp add: t(3))
  moreover have "take (length ?s) (?s @ concat ts @ rest) = ?s"
    "drop (length ?s) (?s @ concat ts @ rest) = concat ts @ rest" by simp_all
  ultimately show ?case
    using Cons.IH [OF ps(1) t(2) ps(2), of "self\<lparr>vc_pairs := vc_pairs self @ [p]\<rparr>"] Cons.prems(3)
      decode_written [OF p(2,3)] parse_written [OF p(2)] p(1)
    by (subst load_comments.simps) (simp del: take_append drop_append)
qed

lemma write_clean:
  assumes "vc_write framing c = Inr data" "vc_vendor c = FText u"
  obtains strs where "mapR write_pair (vc_pairs c) = Inr strs" "length (vc_pairs c) < 2 ^ 32"
    "length (utf8_encode u) < 2 ^ 32"
    "data = struct_bytes False 4 (length (utf8_encode u)) @ utf8_encode u
      @ struct_bytes False 4 (length (vc_pairs c)) @ concat strs @ (if framing then [CHR 0x01] else [])"
  using assms by (auto simp: vc_write_def bindR_Inr_iff encode_value_def write_field_iff to_uint_le_iff)

lemma load_written:
  assumes "clean_comment c" "vc_write framing c = Inr data"
  shows "vc_load lossy errors framing s (data @ rest) =
    (\<lparr>vc_vendor = vc_vendor c, vc_pairs = vc_pairs s @ vc_pairs c\<rparr>, Inr rest)"
proof -
  obtain u where u: "vc_vendor c = FText u" "list_all scalar u" and ps: "list_all clean_pair (vc_pairs c)"
    using assms(1) by (auto simp: clean_comment_def)
  obtain strs where w: "mapR write_pair (vc_pairs c) = Inr strs" "length (vc_pairs c) < 2 ^ 32"
    "length (utf8_encode u) < 2 ^ 32"
    "data = struct_bytes False 4 (length (utf8_encode u)) @ utf8_encode u
      @ struct_bytes False 4 (length (vc_pairs c)) @ concat strs @ (if framing then [CHR 0x01] else [])"
    by (rule write_clean [OF assms(2) u(1)])
  have v: "decode_utf8 lossy errors (utf8_encode u) = Inr u"
    by (simp add: decode_utf8_def utf8_decode_encode [OF u(2)])
  have "load_body lossy errors framing s (data @ rest) =
      (\<lparr>vc_vendor = FText u, vc_pairs = vc_pairs s @ vc_pairs c\<rparr>, Inr rest)"
    using load_comments_written [OF ps w(1), of "length (vc_pairs c)" 0 lossy errors
        "s\<lparr>vc_vendor := FText u\<rparr>" "(if framing then [CHR 0x01] else []) @ rest"] w v
    by (cases s) (simp add: load_body_def)
  then show ?thesis using u(1) by (simp add: vc_load_def)
qed

text \<open>
  C20. A comment whose texts are unicode without surrogates, once written, is loaded again, with any
  error handler, framed or not: the same vendor, the same pairs in the same order, and nothing is
  read beyond the comment.
\<close>

theorem vorbis_roundtrip:
  assumes "clean_comment c" "vc_write framing c = Inr data"
  shows "vc_load lossy errors framing new_comment (data @ rest) = (c, Inr rest)"
  using load_written [OF assms, of lossy errors new_comment rest]
  by (cases c) (simp add: new_comment_def)

lemma vorbis_roundtrip_witness:
  "\<exists>data. vc_write True \<lparr>vc_vendor = FText [77], vc_pairs = [(''TITLE'', FText [233]), (''x'', FText [])]\<rparr> = Inr data
     \<and> vc_load (\<lambda>_ _. []) Strict True new_comment data
        = (\<lparr>vc_vendor = FText [77], vc_pairs = [(''TITLE'', FText [233]), (''x'', FText [])]\<rparr>, Inr [])"
proof -
  let ?c = "\<lparr>vc_vendor = FText [77], vc_pairs = [(''TITLE'', FText [233]), (''x'', FText [])]\<rparr>"
  have "clean_comment ?c"
    by (simp add: clean_comment_def clean_pair_def is_valid_key_def scalar_def high_surrogate_def low_surrogate_def)
  moreover obtain data where "vc_write True ?c = Inr data"
    by (simp add: vc_write_def vc_validate_def is_valid_key_def encode_value_def write_pair_def
        write_field_def to_uint_le_def pack_u_def utf8_char_def)
  ultimately show ?thesis using vorbis_roundtrip [of ?c True data "\<lambda>_ _. []" Strict "[]"] by simp
qed

section \<open>Loading anything\<close>

definition loaded_pair :: "string \<times> fval \<Rightarrow> bool" where
  "loaded_pair p \<longleftrightarrow> is_valid_key (fst p) \<and> (\<exists>u. snd p = FText u)"

definition load_errors :: "vc_errors \<Rightarrow> merr set" where
  "load_errors errors = (if errors = Strict then {UnicodeDecodeError, VorbisEncodingError} else {})"

lemma utf8_decode_error: "utf8_decode s = Inl e \<Longrightarrow> e = UnicodeDecodeError"
proof (induction s rule: utf8_decode.induct)
  case (1 s)
  from "1.prems" show ?case
    by (subst (asm) utf8_decode.simps)
      (auto simp: bindR_Inl_iff dest: "1.IH" split: if_splits option.splits)
qed

lemma decode_utf8_error: "decode_utf8 lossy errors s = Inl e \<Longrightarrow> e \<in> load_errors errors"
  by (auto simp: decode_utf8_def load_errors_def dest: utf8_decode_error split: sum.splits if_splits)

lemma parse_comment_pair:
  assumes "parse_comment errors i str = Inr (Some p)" shows "loaded_pair p"
proof -
  obtain a where "(case a of None \<Rightarrow> Inr None
      | Some (tag, v) \<Rightarrow> (case encode_ascii errors tag of Inl _ \<Rightarrow> Inl VorbisEncodingError
          | Inr tag \<Rightarrow> Inr (if is_valid_key tag then Some (tag, FText v) else None))) = Inr (Some p)"
    using assms unfolding parse_comment_def Let_def bindR_Inr_iff by blast
  then show ?thesis by (auto simp: loaded_pair_def split: option.splits sum.splits if_splits)
qed

lemma parse_comment_error: "parse_comment errors i str = Inl e \<Longrightarrow> e \<in> load_errors errors"
  by (auto simp: parse_comment_def load_errors_def bindR_Inl_iff bindR_Inr_iff encode_ascii_def
      split: option.splits sum.splits vc_errors.splits if_splits)

lemma read_uint_error: "read_uint data = Inl e \<Longrightarrow> e = StructError"
  by (auto simp: read_uint_def uint_le_def unpack_u_def bindR_Inl_iff split: if_splits)

lemma load_comments_safe:
  "load_comments lossy errors i count self data = (self', r) \<Longrightarrow>
     vc_vendor self' = vc_vendor self
     \<and> (\<exists>new. vc_pairs self' = vc_pairs self @ new \<and> list_all loaded_pair new \<and> 4 * length new \<le> length data)
     \<and> (\<forall>e. r = Inl e \<longrightarrow> e \<in> insert StructError (load_errors errors))"
proof (induction lossy errors i count self data rule: load_comments.induct)
  case (1 lossy errors i count self data)
  note eq = "1.prems" [unfolded load_comments.simps [of lossy errors i count self data]]
  show ?case
  proof (cases "count \<le> i")
    case True
    then show ?thesis using eq by auto
  next
    case False
    show ?thesis
    proof (cases "read_uint data")
      case (Inl e)
      then show ?thesis using eq False read_uint_error by auto
    next
      case (Inr x)
      obtain len rest where x: "read_uint data = Inr (len, rest)" using Inr by (cases x) auto
      have l: "length data = length rest + 4" by (rule read_uint_shorter [OF x])
      show ?thesis
      proof (cases "decode_utf8 lossy errors (take len rest)")
        case (Inl e)
        then show ?thesis using eq False x decode_utf8_error by auto
      next
        case (Inr str)
        note d = Inr
        show ?thesis
        proof (cases "parse_comment errors i str")
          case (Inl e)
          then show ?thesis using eq False x d parse_comment_error by auto
        next
          case (Inr found)
          show ?thesis
          proof (cases found)
            case None
            then have "load_comments lossy errors (Suc i) count self (drop len rest) = (self', r)"
              using eq False x d Inr by simp
            from "1.IH"(1) [OF False x refl d Inr None this] show ?thesis using l
              by (auto dest: le_trans [OF _ diff_le_self])
          next
            case (Some p)
            let ?s = "self\<lparr>vc_pairs := vc_pairs self @ [p]\<rparr>"
            have "load_comments lossy errors (Suc i) count ?s (drop len rest) = (self', r)"
              using eq False x d Inr Some by simp
            from "1.IH"(2) [OF False x refl d Inr Some this]
            obtain new where "vc_vendor self' = vc_vendor self" "vc_pairs self' = vc_pairs self @ p # new"
              "list_all loaded_pair new" "4 * length new \<le> length (drop len rest)"
              "\<forall>e. r = Inl e \<longrightarrow> e \<in> insert StructError (load_errors errors)" by auto
            moreover from this(4) have "4 * length (p # new) \<le> length data" using l by simp
            moreover have "loaded_pair p" using parse_comment_pair Inr Some by blast
            ultimately show ?thesis by (intro conjI exI [of _ "p # new"]) simp_all
          qed
        qed
      qed
    qed
  qed
qed

lemma load_body_safe:
  assumes "load_body lossy errors framing self data = (self', r)"
  shows "(\<exists>new. vc_pairs self' = vc_pairs self @ new \<and> list_all loaded_pair new \<and> 4 * length new \<le> length data)
    \<and> (\<forall>e. r = Inl e \<longrightarrow> e \<in> {StructError, TypeError, VorbisUnsetFrameError} \<union> load_errors errors)"
proof (cases "bindR (read_uint data) (\<lambda>(len, data).
    bindR (decode_utf8 lossy errors (take len data)) (\<lambda>u. Inr (u, drop len data)))")
  case (Inl e)
  then have "e \<in> insert StructError (load_errors errors)"
    by (auto simp: bindR_Inl_iff dest: read_uint_error decode_utf8_error)
  then show ?thesis using assms Inl by (auto simp: load_body_def)
next
  case (Inr x)
  obtain vendor rest where x: "x = (vendor, rest)" by (cases x)
  then obtain len d where "read_uint data = Inr (len, d)" "rest = drop len d"
    using Inr by (auto simp: bindR_Inr_iff)
  then have l: "length rest \<le> length data" using read_uint_shorter by fastforce
  let ?s = "self\<lparr>vc_vendor := FText vendor\<rparr>"
  show ?thesis
  proof (cases "read_uint rest")
    case (Inl e)
    then show ?thesis using assms Inr x read_uint_error by (fastforce simp: load_body_def)
  next
    case (Inr y)
    obtain count d2 where y: "read_uint rest = Inr (count, d2)" using Inr by (cases y) auto
    obtain s2 q where c: "load_comments lossy errors 0 count ?s d2 = (s2, q)" by fastforce
    note safe = load_comments_safe [OF c]
    have "self' = s2 \<and> (\<forall>e. r = Inl e \<longrightarrow> q = Inl e \<or> e \<in> {TypeError, VorbisUnsetFrameError})"
      using assms \<open>bindR _ _ = Inr x\<close> x y c
      by (auto simp: load_body_def Let_def split: sum.splits list.splits if_splits)
    then show ?thesis using safe l read_uint_shorter [OF y] by fastforce
  qed
qed

text \<open>
  C33. Loading any bytes appends to the comment only pairs with a valid key and a unicode value, fewer
  than a quarter of the bytes there are, and keeps the pairs that were there, also when it raises.
  With \<open>replace\<close> (the default) or \<open>ignore\<close> it raises nothing but the module's own errors; \<open>strict\<close>
  lets \<open>UnicodeDecodeError\<close> escape, which is none of them.
\<close>

theorem vorbis_load_safe:
  assumes "vc_load lossy errors framing self data = (self', r)"
  shows "\<exists>new. vc_pairs self' = vc_pairs self @ new \<and> list_all loaded_pair new
      \<and> 4 * length new \<le> length data
      \<and> (\<forall>e. r = Inl e \<longrightarrow> e \<in> {VorbisError, VorbisUnsetFrameError}
            \<or> errors = Strict \<and> e \<in> {UnicodeDecodeError, VorbisEncodingError})"
proof -
  obtain s q where b: "load_body lossy errors framing self data = (s, q)" by fastforce
  have "self' = s \<and> (\<forall>e. r = Inl e \<longrightarrow> e = VorbisError \<or> q = Inl e \<and> e \<notin> {StructError, TypeError})"
    using assms b by (auto simp: vc_load_def split: sum.splits if_splits)
  then show ?thesis using load_body_safe [OF b] by (auto simp: load_errors_def split: if_splits)
qed

lemma vorbis_load_safe_witness:
  "\<exists>new. vc_load (\<lambda>_ _. []) Replace True new_comment (struct_bytes False 4 0)
       = (\<lparr>vc_vendor = FText [], vc_pairs = new\<rparr>, Inl VorbisError) \<and> list_all loaded_pair new"
proof -
  have "read_uint (struct_bytes False 4 0 @ []) = Inr (0, [])" by (rule read_uint_bytes) simp
  moreover have "read_uint [] = Inl StructError" by (simp add: read_uint_def uint_le_def unpack_u_def)
  ultimately have "vc_load (\<lambda>_ _. []) Replace True new_comment (struct_bytes False 4 0)
      = (\<lparr>vc_vendor = FText [], vc_pairs = []\<rparr>, Inl VorbisError)"
    by (simp add: vc_load_def load_body_def decode_utf8_def utf8_decode.simps new_comment_def)
  then show ?thesis using vorbis_load_safe [of "\<lambda>_ _. []" Replace True new_comment "struct_bytes False 4 0"]
    by (simp add: new_comment_def)
qed

section \<open>The dictionary\<close>

definition ascii :: "string \<Rightarrow> bool" where
  "ascii key \<longleftrightarrow> list_all (\<lambda>c. ord c < 128) key"

lemma ascii_decode_key: "ascii key \<Longrightarrow> ascii_decode key = Inr (map ord key)"
  by (simp add: ascii_def ascii_decode_def)

lemma ascii_lower: "ascii key \<Longrightarrow> ascii (str_lower key)"
  by (auto simp: ascii_def str_lower_def lower_char_def is_upper_char_def list_all_iff)

lemma lower_key_ascii: "ascii key \<Longrightarrow> lower_key key = Inr (str_lower key)"
  by (simp add: lower_key_def ascii_decode_key ascii_lower)

definition under :: "string \<Rightarrow> string \<times> fval \<Rightarrow> bool" where
  "under key x \<longleftrightarrow> str_lower (fst x) = str_lower key"

lemma list_remove_first:
  "\<forall>p \<in> set pre. fst p \<noteq> fst x \<Longrightarrow> list_remove x (pre @ x # qs) = Inr (pre @ qs)"
proof (induction pre)
  case Nil
  have "value_eq v v" for v by (simp add: value_eq_def split: fval.split)
  then show ?case by simp
qed auto

lemma remove_all_under:
  "\<forall>p \<in> set pre. \<not> under key p \<Longrightarrow>
     remove_all (filter (under key) qs) (pre @ qs) = Inr (pre @ filter (\<lambda>x. \<not> under key x) qs)"
proof (induction qs arbitrary: pre)
  case (Cons q qs)
  show ?case
  proof (cases "under key q")
    case True
    then have "\<forall>p \<in> set pre. fst p \<noteq> fst q" using Cons.prems by (auto simp: under_def)
    from list_remove_first [OF this, of qs] show ?thesis using True Cons by simp
  next
    case False
    then show ?thesis using Cons.IH [of "pre @ [q]"] Cons.prems by simp
  qed
qed simp

lemma getitem_under:
  "ascii key \<Longrightarrow> vc_getitem c key =
     (let vs = map snd (filter (under key) (vc_pairs c)) in if vs = [] then Inl KeyError else Inr vs)"
proof -
  assume "ascii key"
  moreover have "(\<lambda>(k, v). str_lower k = str_lower key) = under key" by (auto simp: under_def fun_eq_iff)
  ultimately show ?thesis by (simp add: vc_getitem_def lower_key_ascii Let_def)
qed

lemma delitem_under:
  assumes "ascii key"
  shows "vc_delitem c key = (if filter (under key) (vc_pairs c) = [] then Inl KeyError
     else Inr (c\<lparr>vc_pairs := filter (\<lambda>x. \<not> under key x) (vc_pairs c)\<rparr>))"
proof -
  have u: "(\<lambda>x. str_lower (fst x) = str_lower key) = under key" by (simp add: under_def fun_eq_iff)
  show ?thesis using remove_all_under [of "[]" key "vc_pairs c"]
    by (simp add: vc_delitem_def lower_key_ascii assms u Let_def)
qed

lemma setitem_under:
  assumes "ascii key"
  shows "vc_setitem c key vs =
    Inr (c\<lparr>vc_pairs := filter (\<lambda>x. \<not> under key x) (vc_pairs c) @ map (\<lambda>v. (key, v)) vs\<rparr>)"
proof -
  have "filter (\<lambda>x. \<not> under key x) (vc_pairs c) = vc_pairs c" if "filter (under key) (vc_pairs c) = []"
    using that by (simp add: filter_empty_conv filter_id_conv)
  then show ?thesis by (simp add: vc_setitem_def ascii_decode_key assms delitem_under)
qed

text \<open>
  C31. A Vorbis comment is a dictionary of value lists over keys compared without case: after setting,
  every spelling of the key reads the new values (none, a \<open>KeyError\<close>, if the list was empty) and
  every other key what it read before; deleting removes all values of the key in any spelling, keeps
  the other pairs in their order, and is a \<open>KeyError\<close> exactly where reading is; \<open>in\<close> and \<open>keys\<close> agree
  with reading.
\<close>

theorem vorbis_dictionary:
  assumes "ascii key" "ascii key'"
  shows "(\<exists>c'. vc_setitem c key vs = Inr c' \<and> vc_vendor c' = vc_vendor c
      \<and> vc_getitem c' key' = (if str_lower key' \<noteq> str_lower key then vc_getitem c key'
                              else if vs = [] then Inl KeyError else Inr vs))
    \<and> (case vc_delitem c key of
         Inl e \<Rightarrow> e = KeyError \<and> vc_getitem c key = Inl KeyError
       | Inr c' \<Rightarrow> vc_pairs c' = filter (\<lambda>x. str_lower (fst x) \<noteq> str_lower key) (vc_pairs c)
           \<and> vc_getitem c' key' = (if str_lower key' = str_lower key then Inl KeyError
                                   else vc_getitem c key'))
    \<and> vc_contains c key = Inr (vc_getitem c key \<noteq> Inl KeyError)
    \<and> (str_lower key \<in> set (vc_keys c)) = (vc_getitem c key \<noteq> Inl KeyError)"
proof -
  have same: "under key' = under key" if "str_lower key' = str_lower key"
    using that by (simp add: under_def fun_eq_iff)
  have other: "filter (under key') (filter (\<lambda>x. \<not> under key x) ps) = filter (under key') ps"
    "filter (under key') (map (\<lambda>v. (key, v)) vs) = []" if "str_lower key' \<noteq> str_lower key" for ps
    using that by (auto simp: under_def filter_empty_conv intro: filter_cong)
  have one: "filter (under key) (filter (\<lambda>x. \<not> under key x) ps) = []"
    "filter (under key) (map (\<lambda>v. (key, v)) vs) = map (\<lambda>v. (key, v)) vs" for ps
    by (auto simp: under_def filter_empty_conv filter_id_conv)
  have "\<exists>c'. vc_setitem c key vs = Inr c' \<and> vc_vendor c' = vc_vendor c
      \<and> vc_getitem c' key' = (if str_lower key' \<noteq> str_lower key then vc_getitem c key'
                              else if vs = [] then Inl KeyError else Inr vs)"
    using same other one
    by (cases "str_lower key' = str_lower key")
      (simp_all add: setitem_under getitem_under assms comp_def Let_def)
  moreover have "case vc_delitem c key of
         Inl e \<Rightarrow> e = KeyError \<and> vc_getitem c key = Inl KeyError
       | Inr c' \<Rightarrow> vc_pairs c' = filter (\<lambda>x. str_lower (fst x) \<noteq> str_lower key) (vc_pairs c)
           \<and> vc_getitem c' key' = (if str_lower key' = str_lower key then Inl KeyError
                                   else vc_getitem c key')"
    using same other one
    by (cases "str_lower key' = str_lower key")
      (simp_all add: delitem_under getitem_under assms Let_def under_def)
  moreover have g: "vc_getitem c key \<noteq> Inl KeyError \<longleftrightarrow> (\<exists>x \<in> set (vc_pairs c). under key x)"
    by (auto simp: getitem_under assms Let_def filter_empty_conv)
  moreover have "vc_contains c key = Inr (vc_getitem c key \<noteq> Inl KeyError)"
    unfolding g by (auto simp: vc_contains_def lower_key_ascii assms list_ex_iff under_def
        intro: bexI rev_bexI)
  moreover have "set (vc_keys c) = (\<lambda>x. str_lower (fst x)) ` set (vc_pairs c)"
    by (simp add: vc_keys_def split_def)
  then have "str_lower key \<in> set (vc_keys c) \<longleftrightarrow> vc_getitem c key \<noteq> Inl KeyError"
    unfolding g under_def by (simp add: image_iff eq_commute [of "str_lower key"])
  ultimately show ?thesis by blast
qed

lemma vorbis_dictionary_witness:
  "\<exists>c'. vc_setitem \<lparr>vc_vendor = FText [], vc_pairs = [(''Title'', FText [65])]\<rparr> ''TITLE'' [FText [66]] = Inr c'
     \<and> vc_getitem c' ''title'' = Inr [FText [66]]"
proof -
  have "str_lower ''title'' = str_lower ''TITLE''" by code_simp
  then show ?thesis
    using vorbis_dictionary [of "''TITLE''" "''title''"
        "\<lparr>vc_vendor = FText [], vc_pairs = [(''Title'', FText [65])]\<rparr>" "[FText [66]]"]
    by (auto simp: ascii_def)
qed

end
