(* ===== verification/Ogg_Files.thy ===== *)
theory Ogg_Files
  imports Ogg_Stream Vorbis
begin

text \<open>
  The Ogg file types: \<open>OggFileType\<close> of \<open>mutagen/ogg.py\<close> and the four formats whose tags are a Vorbis
  comment on pages of their own - \<open>oggvorbis.py\<close>, \<open>oggspeex.py\<close>, \<open>oggtheora.py\<close>, \<open>oggopus.py\<close>.

  Each format has a class for its stream information, read from the first page whose first packet
  starts with the format's mark, and a class for the comment, read from the pages that carry it and
  put back by replacing those pages. \<open>OggFileType\<close> is written over the classes \<open>_Info\<close>, \<open>_Tags\<close> and
  \<open>_Error\<close> of its subclass; here they are arguments. Every operation of the file class opens the
  file anew, so a file is its bytes. Lengths, doubles in the program, are exact rationals.
\<close>

section \<open>Pages with a packet\<close>

definition first_packet :: "ogg_page \<Rightarrow> merr + string" where
  "first_packet page = (case pg_packets page of [] \<Rightarrow> Inl IndexError | p # _ \<Rightarrow> Inr p)"

text \<open>The loop that reads on while \<open>page.packets[0]\<close> does not start with a mark.\<close>

definition find_packet :: "string \<Rightarrow> fobj \<Rightarrow> (merr + ogg_page) \<times> fobj" where
  "find_packet mark =
     read_until (\<lambda>page. bindR (first_packet page) (\<lambda>p. Inr (startswith p mark)))"

text \<open>The page on which the first packet ends.\<close>

definition page_ends :: "ogg_page \<Rightarrow> bool" where
  "page_ends page \<longleftrightarrow> pg_complete page \<or> 1 < length (pg_packets page)"

function collect_pages :: "int \<Rightarrow> ogg_page list \<Rightarrow> fobj \<Rightarrow> (merr + ogg_page list) \<times> fobj" where
  "collect_pages serial pages f =
     (if pages \<noteq> [] \<and> page_ends (last pages) then (Inr pages, f)
      else case read_page f of
        (Inl e, g) \<Rightarrow> (Inl e, g)
      | (Inr page, g) \<Rightarrow>
          collect_pages serial (if pg_serial page = serial then pages @ [page] else pages) g)"
  by pat_completeness auto
termination
proof (relation "measure (\<lambda>(serial, pages, f). length (fbytes f) - fpos f)", goal_cases)
  case (2 serial pages f r g page)
  then have "read_page f = (Inr page, g)" by simp
  from read_page_moves [OF this] show ?case by simp
qed simp

declare collect_pages.simps [simp del]

section \<open>The comment of a stream\<close>

text \<open>The constructor of the comment classes: the first packet of some pages.\<close>

definition read_comment ::
  "(string \<Rightarrow> merr + vcomment) \<Rightarrow> (merr + ogg_page list) \<times> fobj \<Rightarrow> (merr + vcomment) \<times> fobj" where
  "read_comment unpack = (\<lambda>(pages, f).
     (bindR pages (\<lambda>pages. bindR (to_packets pages False) (\<lambda>packets.
        case packets of [] \<Rightarrow> Inl IndexError | p # _ \<Rightarrow> unpack p)), f))"

text \<open>
  The end of \<open>_inject\<close>: the first packet of the old pages becomes the new comment. \<open>from_packets\<close>
  always returns here, its pages being larger than 255 bytes.
\<close>

definition put_comment :: "bool \<Rightarrow> fobj \<Rightarrow> ogg_page list \<Rightarrow> merr + string \<Rightarrow> fobj \<times> merr option" where
  "put_comment mmap_works f old_pages comment =
     (case bindR (to_packets old_pages False) (\<lambda>packets. bindR comment (\<lambda>c. Inr (c # tl packets))) of
        Inl e \<Rightarrow> (f, Some e)
      | Inr packets \<Rightarrow>
          (case from_packets packets (pg_sequence (hd old_pages)) 4096 2048 of
             None \<Rightarrow> (f, Some NonTermination)
           | Some (Inl e) \<Rightarrow> (f, Some e)
           | Some (Inr new_pages) \<Rightarrow> replace mmap_works f old_pages new_pages))"

definition inject_with ::
  "(fobj \<Rightarrow> (merr + ogg_page list) \<times> fobj) \<Rightarrow> (vcomment \<Rightarrow> merr + string)
     \<Rightarrow> bool \<Rightarrow> vcomment \<Rightarrow> fobj \<Rightarrow> fobj \<times> merr option" where
  "inject_with pages pack mmap_works c f =
     (case pages (f\<lparr>fpos := 0\<rparr>) of
        (Inl e, g) \<Rightarrow> (g, Some e)
      | (Inr old_pages, g) \<Rightarrow> put_comment mmap_works g old_pages (pack c))"

text \<open>The comment from a packet's data, with the default error handler.\<close>

definition comment_of :: "(vc_errors \<Rightarrow> string \<Rightarrow> unicode) \<Rightarrow> bool \<Rightarrow> string \<Rightarrow> merr + vcomment" where
  "comment_of lossy framing data =
     (case vc_load lossy Replace framing new_comment data of
        (_, Inl e) \<Rightarrow> Inl e
      | (c, Inr _) \<Rightarrow> Inr c)"

text \<open>The stream information is read from the page found, which has to start a stream.\<close>

definition read_info ::
  "string \<Rightarrow> merr \<Rightarrow> (ogg_page \<Rightarrow> string \<Rightarrow> merr + 'i) \<Rightarrow> fobj \<Rightarrow> (merr + 'i) \<times> fobj" where
  "read_info mark err decode f =
     (case find_packet mark f of
        (Inl e, g) \<Rightarrow> (Inl e, g)
      | (Inr page, g) \<Rightarrow>
          (bindR (first_packet page) (\<lambda>data.
             if \<not> pg_first page then Inl err else decode page data), g))"

text \<open>\<open>page.position\<close> of the page \<open>find_last\<close> gives; \<open>None\<close> has no position.\<close>

definition last_position :: "fobj \<Rightarrow> int \<Rightarrow> merr + int" where
  "last_position f serial =
     bindR (find_last f serial) (\<lambda>page.
       case page of None \<Rightarrow> Inl AttributeError | Some page \<Rightarrow> Inr (pg_position page))"

section \<open>Ogg Vorbis\<close>

record vorbis_info =
  ov_channels :: nat
  ov_sample_rate :: int
  ov_bitrate :: int
  ov_serial :: int
  ov_length :: rat

definition choose_bitrate :: "int \<Rightarrow> int \<Rightarrow> int \<Rightarrow> int" where
  "choose_bitrate max_bitrate nominal_bitrate min_bitrate =
     (let max_bitrate = max 0 max_bitrate; min_bitrate = max 0 min_bitrate;
          nominal_bitrate = max 0 nominal_bitrate
      in if nominal_bitrate = 0 then (max_bitrate + min_bitrate) div 2
         else if max_bitrate \<noteq> 0 \<and> max_bitrate < nominal_bitrate then max_bitrate
         else if nominal_bitrate < min_bitrate then min_bitrate
         else nominal_bitrate)"

definition vorbis_decode :: "ogg_page \<Rightarrow> string \<Rightarrow> merr + vorbis_info" where
  "vorbis_decode page data =
     (let s = str_slice data 11 28
      in if length s \<noteq> 17 then Inl StructError
         else bindR (int_le (str_slice s 1 5)) (\<lambda>rate.
              bindR (int_le (str_slice s 5 9)) (\<lambda>max_bitrate.
              bindR (int_le (str_slice s 9 13)) (\<lambda>nominal_bitrate.
              bindR (int_le (str_slice s 13 17)) (\<lambda>min_bitrate.
                Inr \<lparr>ov_channels = ord (hd s), ov_sample_rate = rate,
                  ov_bitrate = choose_bitrate max_bitrate nominal_bitrate min_bitrate,
                  ov_serial = pg_serial page, ov_length = 0\<rparr>)))))"

definition vorbis_mark :: string where
  "vorbis_mark = CHR 0x01 # ''vorbis''"

definition vorbis_info :: "fobj \<Rightarrow> (merr + vorbis_info) \<times> fobj" where
  "vorbis_info = read_info vorbis_mark OggVorbisHeaderError vorbis_decode"

definition vorbis_post :: "vorbis_info \<Rightarrow> fobj \<Rightarrow> merr + vorbis_info" where
  "vorbis_post info f =
     bindR (last_position f (ov_serial info)) (\<lambda>position.
       if ov_sample_rate info = 0 then Inl ZeroDivisionError
       else Inr (info\<lparr>ov_length := of_int position / of_int (ov_sample_rate info)\<rparr>))"

definition vorbis_comment_mark :: string where
  "vorbis_comment_mark = CHR 0x03 # ''vorbis''"

definition vorbis_unpack :: "(vc_errors \<Rightarrow> string \<Rightarrow> unicode) \<Rightarrow> string \<Rightarrow> merr + vcomment" where
  "vorbis_unpack lossy data = comment_of lossy True (drop 7 data)"

definition vorbis_tags ::
  "(vc_errors \<Rightarrow> string \<Rightarrow> unicode) \<Rightarrow> vorbis_info \<Rightarrow> fobj \<Rightarrow> (merr + vcomment) \<times> fobj" where
  "vorbis_tags lossy info f = read_comment (vorbis_unpack lossy) (collect_pages (ov_serial info) [] f)"

text \<open>The pages from the first one with a mark on.\<close>

definition marked_pages :: "string \<Rightarrow> fobj \<Rightarrow> (merr + ogg_page list) \<times> fobj" where
  "marked_pages mark f =
     (case find_packet mark f of
        (Inl e, g) \<Rightarrow> (Inl e, g)
      | (Inr page, g) \<Rightarrow> collect_pages (pg_serial page) [page] g)"

definition vorbis_pack :: "vcomment \<Rightarrow> merr + string" where
  "vorbis_pack c = bindR (vc_write True c) (\<lambda>data. Inr (vorbis_comment_mark @ data))"

definition vorbis_inject :: "bool \<Rightarrow> vcomment \<Rightarrow> fobj \<Rightarrow> fobj \<times> merr option" where
  "vorbis_inject = inject_with (marked_pages vorbis_comment_mark) vorbis_pack"

section \<open>Ogg Speex\<close>

record speex_info =
  sx_sample_rate :: int
  sx_channels :: int
  sx_bitrate :: int
  sx_serial :: int
  sx_length :: rat

definition speex_mark :: string where
  "speex_mark = ''Speex   ''"

definition speex_decode :: "ogg_page \<Rightarrow> string \<Rightarrow> merr + speex_info" where
  "speex_decode page data =
     bindR (uint_le (str_slice data 36 40)) (\<lambda>rate.
     bindR (uint_le (str_slice data 48 52)) (\<lambda>channels.
     bindR (int_le (str_slice data 52 56)) (\<lambda>bitrate.
       Inr \<lparr>sx_sample_rate = rate, sx_channels = channels, sx_bitrate = max 0 bitrate,
         sx_serial = pg_serial page, sx_length = 0\<rparr>)))"

definition speex_info :: "fobj \<Rightarrow> (merr + speex_info) \<times> fobj" where
  "speex_info = read_info speex_mark OggSpeexHeaderError speex_decode"

definition speex_post :: "speex_info \<Rightarrow> fobj \<Rightarrow> merr + speex_info" where
  "speex_post info f =
     bindR (last_position f (sx_serial info)) (\<lambda>position.
       if sx_sample_rate info = 0 then Inl ZeroDivisionError
       else Inr (info\<lparr>sx_length := of_int position / of_int (sx_sample_rate info)\<rparr>))"

text \<open>A framing byte is added to the data, but with \<open>framing = False\<close> it is not read.\<close>

definition speex_unpack :: "(vc_errors \<Rightarrow> string \<Rightarrow> unicode) \<Rightarrow> string \<Rightarrow> merr + vcomment" where
  "speex_unpack lossy data = comment_of lossy False (data @ [CHR 0x01])"

definition speex_tags ::
  "(vc_errors \<Rightarrow> string \<Rightarrow> unicode) \<Rightarrow> speex_info \<Rightarrow> fobj \<Rightarrow> (merr + vcomment) \<times> fobj" where
  "speex_tags lossy info f = read_comment (speex_unpack lossy) (collect_pages (sx_serial info) [] f)"

text \<open>The pages behind the stream's first page.\<close>

definition speex_pages :: "fobj \<Rightarrow> (merr + ogg_page list) \<times> fobj" where
  "speex_pages f =
     (case find_packet speex_mark f of
        (Inl e, g) \<Rightarrow> (Inl e, g)
      | (Inr page, g) \<Rightarrow>
          (let serial = pg_serial page
           in case read_until (\<lambda>page. Inr (pg_serial page = serial)) g of
                (Inl e, g) \<Rightarrow> (Inl e, g)
              | (Inr page, g) \<Rightarrow> collect_pages (pg_serial page) [page] g))"

definition speex_inject :: "bool \<Rightarrow> vcomment \<Rightarrow> fobj \<Rightarrow> fobj \<times> merr option" where
  "speex_inject = inject_with speex_pages (vc_write False)"

section \<open>Ogg Theora\<close>

record theora_info =
  th_fps :: rat
  th_bitrate :: int
  th_granule_shift :: nat
  th_serial :: int
  th_length :: rat

definition theora_mark :: string where
  "theora_mark = CHR 0x80 # ''theora''"

definition theora_decode :: "ogg_page \<Rightarrow> string \<Rightarrow> merr + theora_info" where
  "theora_decode page data =
     (let v = str_slice data 7 9; r = str_slice data 22 30
      in if length v \<noteq> 2 then Inl StructError
         else if map ord v \<noteq> [3, 2] then Inl OggTheoraHeaderError
         else if length r \<noteq> 8 then Inl StructError
         else bindR (uint_be (take 4 r)) (\<lambda>fps_num.
              bindR (uint_be (drop 4 r)) (\<lambda>fps_den.
                if fps_den = 0 then Inl ZeroDivisionError
                else bindR (uint_be (CHR 0x00 # str_slice data 37 40)) (\<lambda>bitrate.
                     bindR (ushort_be (str_slice data 40 42)) (\<lambda>shift.
                       Inr \<lparr>th_fps = of_int fps_num / of_int fps_den, th_bitrate = bitrate,
                         th_granule_shift = nat (drop_bit 5 shift AND 0x1F),
                         th_serial = pg_serial page, th_length = 0\<rparr>)))))"

definition theora_info :: "fobj \<Rightarrow> (merr + theora_info) \<times> fobj" where
  "theora_info = read_info theora_mark OggTheoraHeaderError theora_decode"

definition theora_post :: "theora_info \<Rightarrow> fobj \<Rightarrow> merr + theora_info" where
  "theora_post info f =
     bindR (last_position f (th_serial info)) (\<lambda>position.
       let mask = push_bit (th_granule_shift info) 1 - 1;
           frames = drop_bit (th_granule_shift info) position + (position AND mask)
       in if th_fps info = 0 then Inl ZeroDivisionError
          else Inr (info\<lparr>th_length := of_int frames / th_fps info\<rparr>))"

definition theora_comment_mark :: string where
  "theora_comment_mark = CHR 0x81 # ''theora''"

text \<open>The framing byte, which Theora does not have, is added for reading.\<close>

definition theora_unpack :: "(vc_errors \<Rightarrow> string \<Rightarrow> unicode) \<Rightarrow> string \<Rightarrow> merr + vcomment" where
  "theora_unpack lossy data = comment_of lossy True (drop 7 data @ [CHR 0x01])"

definition theora_tags ::
  "(vc_errors \<Rightarrow> string \<Rightarrow> unicode) \<Rightarrow> theora_info \<Rightarrow> fobj \<Rightarrow> (merr + vcomment) \<times> fobj" where
  "theora_tags lossy info f = read_comment (theora_unpack lossy) (collect_pages (th_serial info) [] f)"

definition theora_pack :: "vcomment \<Rightarrow> merr + string" where
  "theora_pack c = bindR (vc_write False c) (\<lambda>data. Inr (theora_comment_mark @ data))"

definition theora_inject :: "bool \<Rightarrow> vcomment \<Rightarrow> fobj \<Rightarrow> fobj \<times> merr option" where
  "theora_inject = inject_with (marked_pages theora_comment_mark) theora_pack"

section \<open>Ogg Opus\<close>

record opus_info =
  op_channels :: nat
  op_pre_skip :: int
  op_serial :: int
  op_length :: rat

definition opus_mark :: string where
  "opus_mark = ''OpusHead''"

definition opus_decode :: "ogg_page \<Rightarrow> string \<Rightarrow> merr + opus_info" where
  "opus_decode page data =
     (let s = str_slice data 8 19
      in if length s \<noteq> 11 then Inl StructError
         else bindR (ushort_le (str_slice s 2 4)) (\<lambda>pre_skip.
           let version = ord (hd s)
           in if drop_bit 4 version \<noteq> 0 then Inl OggOpusHeaderError
              else Inr \<lparr>op_channels = ord (s ! 1), op_pre_skip = pre_skip,
                     op_serial = pg_serial page, op_length = 0\<rparr>))"

definition opus_info :: "fobj \<Rightarrow> (merr + opus_info) \<times> fobj" where
  "opus_info = read_info opus_mark OggOpusHeaderError opus_decode"

definition opus_post :: "opus_info \<Rightarrow> fobj \<Rightarrow> merr + opus_info" where
  "opus_post info f =
     bindR (last_position f (op_serial info)) (\<lambda>position.
       Inr (info\<lparr>op_length := of_int (position - op_pre_skip info) / 48000\<rparr>))"

definition opus_comment_mark :: string where
  "opus_comment_mark = ''OpusTags''"

definition opus_pages :: "int \<Rightarrow> fobj \<Rightarrow> (merr + ogg_page list) \<times> fobj" where
  "opus_pages serial f =
     (case read_until (\<lambda>page.
             if serial \<noteq> pg_serial page then Inr False
             else bindR (first_packet page) (\<lambda>p. Inr (startswith p opus_comment_mark))) f of
        (Inl e, g) \<Rightarrow> (Inl e, g)
      | (Inr page, g) \<Rightarrow> collect_pages (pg_serial page) [page] g)"

definition opus_unpack :: "(vc_errors \<Rightarrow> string \<Rightarrow> unicode) \<Rightarrow> string \<Rightarrow> merr + vcomment" where
  "opus_unpack lossy data = comment_of lossy False (drop 8 data)"

definition opus_tags ::
  "(vc_errors \<Rightarrow> string \<Rightarrow> unicode) \<Rightarrow> opus_info \<Rightarrow> fobj \<Rightarrow> (merr + vcomment) \<times> fobj" where
  "opus_tags lossy info f = read_comment (opus_unpack lossy) (opus_pages (op_serial info) f)"

definition opus_pack :: "vcomment \<Rightarrow> merr + string" where
  "opus_pack c = bindR (vc_write False c) (\<lambda>data. Inr (opus_comment_mark @ data))"

definition opus_find :: "fobj \<Rightarrow> (merr + ogg_page list) \<times> fobj" where
  "opus_find f =
     (case opus_info f of
        (Inl e, g) \<Rightarrow> (Inl e, g)
      | (Inr info, g) \<Rightarrow> opus_pages (op_serial info) g)"

definition opus_inject :: "bool \<Rightarrow> vcomment \<Rightarrow> fobj \<Rightarrow> fobj \<times> merr option" where
  "opus_inject = inject_with opus_find opus_pack"

section \<open>Files\<close>

record 'i ogg_file =
  og_info :: 'i
  og_tags :: vcomment

text \<open>The class \<open>error\<close> of \<open>ogg.py\<close> and those below it; \<open>EOFError\<close> is handled like them.\<close>

definition is_ogg_error :: "merr \<Rightarrow> bool" where
  "is_ogg_error e \<longleftrightarrow> e \<in> {OggError, OggVorbisHeaderError, OggSpeexHeaderError,
     OggTheoraHeaderError, OggOpusHeaderError}"

definition ogg_error :: "merr \<Rightarrow> merr \<Rightarrow> merr" where
  "ogg_error err e = (if is_ogg_error e \<or> e = EOFError then err else e)"

definition ogg_load ::
  "(fobj \<Rightarrow> (merr + 'i) \<times> fobj) \<Rightarrow> ('i \<Rightarrow> fobj \<Rightarrow> (merr + vcomment) \<times> fobj)
     \<Rightarrow> ('i \<Rightarrow> fobj \<Rightarrow> merr + 'i) \<Rightarrow> merr \<Rightarrow> string \<Rightarrow> merr + 'i ogg_file" where
  "ogg_load info tags post err filedata =
     (case info (open_file filedata) of
        (Inl e, _) \<Rightarrow> Inl (ogg_error err e)
      | (Inr i, f) \<Rightarrow>
          (case tags i f of
             (Inl e, _) \<Rightarrow> Inl (ogg_error err e)
           | (Inr t, f) \<Rightarrow>
               (case post i f of
                  Inl e \<Rightarrow> Inl (ogg_error err e)
                | Inr i \<Rightarrow> Inr \<lparr>og_info = i, og_tags = t\<rparr>)))"

text \<open>Saving and deleting give the file's bytes as they are left, and the exception, if any.\<close>

definition ogg_save ::
  "(bool \<Rightarrow> vcomment \<Rightarrow> fobj \<Rightarrow> fobj \<times> merr option) \<Rightarrow> merr \<Rightarrow> bool \<Rightarrow> 'i ogg_file \<Rightarrow> string
     \<Rightarrow> string \<times> merr option" where
  "ogg_save inject err mmap_works file filedata =
     (case inject mmap_works (og_tags file) (open_file filedata) of
        (f, e) \<Rightarrow> (fbytes f, map_option (ogg_error err) e))"

definition ogg_delete ::
  "(bool \<Rightarrow> vcomment \<Rightarrow> fobj \<Rightarrow> fobj \<times> merr option) \<Rightarrow> merr \<Rightarrow> bool \<Rightarrow> 'i ogg_file \<Rightarrow> string
     \<Rightarrow> 'i ogg_file \<times> string \<times> merr option" where
  "ogg_delete inject err mmap_works file filedata =
     (let file = file\<lparr>og_tags := vc_clear (og_tags file)\<rparr>
      in (file, ogg_save inject err mmap_works file filedata))"

text \<open>The function \<open>delete\<close> of the modules.\<close>

definition ogg_delete_tags ::
  "(string \<Rightarrow> merr + 'i ogg_file) \<Rightarrow> (bool \<Rightarrow> vcomment \<Rightarrow> fobj \<Rightarrow> fobj \<times> merr option) \<Rightarrow> merr
     \<Rightarrow> bool \<Rightarrow> string \<Rightarrow> string \<times> merr option" where
  "ogg_delete_tags load inject err mmap_works filedata =
     (case load filedata of
        Inl e \<Rightarrow> (filedata, Some e)
      | Inr file \<Rightarrow> snd (ogg_delete inject err mmap_works file filedata))"

section \<open>The four formats\<close>

definition vorbis_load where
  "vorbis_load lossy = ogg_load vorbis_info (vorbis_tags lossy) vorbis_post OggVorbisHeaderError"

definition speex_load where
  "speex_load lossy = ogg_load speex_info (speex_tags lossy) speex_post OggSpeexHeaderError"

definition theora_load where
  "theora_load lossy = ogg_load theora_info (theora_tags lossy) theora_post OggTheoraHeaderError"

definition opus_load where
  "opus_load lossy = ogg_load opus_info (opus_tags lossy) opus_post OggOpusHeaderError"

end
