(* ===== verification/Ogg_Comment.thy ===== *)
theory Ogg_Comment
  imports Ogg_Files Ogg_Packets Ogg_Replace
begin

unbundle bit_operations_syntax

text \<open>
  What putting a comment back does: the pages \<open>from_packets\<close> makes can be written, and the pages
  \<open>replace\<close> leaves in the file carry the new comment, up to the page on which reading stops.
\<close>

section \<open>The pages of from_packets\<close>

text \<open>An open last packet stays open: its pieces all have lengths divisible by 255.\<close>

definition open_page :: "ogg_page \<Rightarrow> bool" where
  "open_page p \<longleftrightarrow> last (pg_packets p) \<noteq> [] \<and> 255 dvd length (last (pg_packets p))"

lemma pack_step_open:
  assumes "pack_step default_size wiggle pages page packet = Inr (pages', page', rest)"
    and "packet \<noteq> []" "255 \<le> default_size" "255 dvd length packet"
    and "pg_packets page \<noteq> []" "255 dvd length (last (pg_packets page))"
  shows "open_page page' \<and> pg_packets page' \<noteq> [] \<and> 255 dvd length rest \<and> length rest < length packet"
proof -
  define chunk where "chunk = default_size div 255 * 255"
  define data where "data = take chunk packet"
  define more where "more = drop chunk packet"
  have "1 \<le> default_size div 255" using assms(3) by (simp add: div_greater_zero_iff Suc_le_eq)
  then have "255 \<le> chunk" "255 dvd chunk" by (simp_all add: chunk_def)
  then have d: "data \<noteq> []" "255 dvd length data" "255 dvd length more" "length more < length packet"
    using assms(2,4) by (auto simp: data_def more_def min_def dvd_diff_nat)
  obtain sz where sz: "page_size page = Inr sz"
    using assms(1) by (cases "page_size page") (simp_all add: pack_step_def Let_def)
  obtain ps q where q: "(ps, q) = (if sz < default_size \<and> length (pg_packets page) < 255
      then (pages, add_data data page) else (pages @ [close_page page], next_page data (close_page page)))"
    by (metis surj_pair)
  then have o: "open_page q" "pg_packets q \<noteq> []"
    using d assms(6) by (auto simp: open_page_def split: if_splits)
  have "pack_step default_size wiggle pages page packet
      = Inr (if length more < wiggle then (ps, add_data more q, []) else (ps, q, more))"
    unfolding pack_step_def Let_def sz bindR_simps chunk_def [symmetric] data_def [symmetric]
      more_def [symmetric] q [symmetric] by simp
  then show ?thesis using assms(1,2) o d
    by (auto simp: open_page_def split: if_splits)
qed

lemma pack_loop_open:
  "pack_loop default_size wiggle pages page packet = Some (Inr (pages', page')) \<Longrightarrow>
     255 \<le> default_size \<Longrightarrow> 255 dvd length packet \<Longrightarrow> pg_packets page \<noteq> [] \<Longrightarrow>
     255 dvd length (last (pg_packets page)) \<Longrightarrow> packet \<noteq> [] \<or> open_page page \<Longrightarrow> open_page page'"
proof (induction "length packet" arbitrary: packet pages page rule: less_induct)
  case less
  show ?case
  proof (cases "packet = []")
    case True
    then show ?thesis using less.prems by (subst (asm) pack_loop.simps) simp
  next
    case False
    obtain ps q rest where s: "pack_step default_size wiggle pages page packet = Inr (ps, q, rest)"
      "pack_loop default_size wiggle ps q rest = Some (Inr (pages', page'))"
      using less.prems(1) False by (subst (asm) pack_loop.simps) (auto split: sum.splits)
    have o: "open_page q" "pg_packets q \<noteq> []" "255 dvd length rest" "length rest < length packet"
      using pack_step_open [OF s(1) False less.prems(2,3,4,5)] by simp_all
    then show ?thesis using less.hyps [OF o(4) s(2) less.prems(2) o(3,2)]
      by (simp add: open_page_def)
  qed
qed

lemma pack_all_open:
  "pack_all default_size wiggle pages page packets = Some (Inr (pages', page')) \<Longrightarrow>
     255 \<le> default_size \<Longrightarrow> packets \<noteq> [] \<Longrightarrow> last packets \<noteq> [] \<Longrightarrow> 255 dvd length (last packets) \<Longrightarrow>
     open_page page'"
proof (induction packets arbitrary: pages page)
  case (Cons packet packets)
  let ?p = "page\<lparr>pg_packets := pg_packets page @ [[]]\<rparr>"
  obtain ps q where s: "pack_loop default_size wiggle pages ?p packet = Some (Inr (ps, q))"
    "pack_all default_size wiggle ps q packets = Some (Inr (pages', page'))"
    using Cons.prems(1) by (auto split: option.splits sum.splits)
  show ?case
  proof (cases "packets = []")
    case True
    then show ?thesis using pack_loop_open [OF s(1)] s(2) Cons.prems by simp
  next
    case False
    then show ?thesis using Cons.IH [OF s(2)] Cons.prems by simp
  qed
qed simp

lemma from_packets_open:
  assumes "from_packets packets n default_size wiggle = Some (Inr pages)" "255 \<le> default_size"
    "packets \<noteq> []" "last packets \<noteq> []" "255 dvd length (last packets)"
  shows "open_page (last pages)"
proof -
  obtain ps q where s: "pack_all default_size wiggle [] (new_page\<lparr>pg_sequence := n\<rparr>) packets = Some (Inr (ps, q))"
    "pages = (if pg_packets q \<noteq> [] then ps @ [q] else ps)"
    using assms(1) by (auto simp: from_packets_def split: option.splits sum.splits)
  obtain ps' q' where "pack_all default_size wiggle [] (new_page\<lparr>pg_sequence := n\<rparr>) packets = Some (Inr (ps', q'))"
    "packets \<noteq> [] \<longrightarrow> pg_packets q' \<noteq> []"
    using pack_all_filling [OF filling_start assms(2)] by metis
  then show ?thesis using pack_all_open [OF s(1) assms(2-5)] s assms(3) by simp
qed

text \<open>With the default sizes a page has about ten kilobytes at most, and so at most forty lacing
  values beside one for each packet.\<close>

definition page_data :: "ogg_page \<Rightarrow> nat" where
  "page_data p = sum_list (map length (pg_packets p))"

definition small_page :: "nat \<Rightarrow> ogg_page \<Rightarrow> bool" where
  "small_page k p \<longleftrightarrow> length (pg_packets p) \<le> k \<and> page_data p \<le> 10222"

lemma lacing_count: "length (concat (map lacing_of ds)) \<le> sum_list (map length ds) div 255 + length ds"
proof (induction ds)
  case (Cons d ds)
  have "length (lacing_of d) = length d div 255 + 1" by (simp add: lacing_of_def Let_def)
  moreover have "length d div 255 + sum_list (map length ds) div 255
      \<le> (length d + sum_list (map length ds)) div 255"
    using div_add1_eq [of "length d" "sum_list (map length ds)" 255] by linarith
  ultimately show ?case using Cons by simp
qed simp

lemma page_data_add: "pg_packets p \<noteq> [] \<Longrightarrow> page_data (add_data s p) = page_data p + length s"
  by (cases "pg_packets p" rule: rev_cases) (simp_all add: page_data_def add_data_def)

lemma length_add_data: "pg_packets p \<noteq> [] \<Longrightarrow> length (pg_packets (add_data s p)) = length (pg_packets p)"
  by (simp add: add_data_def)

lemma page_data_next [simp]: "page_data (next_page s p) = length s"
  by (simp add: page_data_def)

lemma small_close: "small_page k p \<Longrightarrow> small_page k (close_page p)"
  by (cases "pg_packets p" rule: rev_cases)
    (auto simp: small_page_def page_data_def close_page_def Let_def)

lemma page_size_data: "page_size p = Inr sz \<Longrightarrow> page_data p \<le> sz"
proof -
  assume "page_size p = Inr sz"
  moreover have "(if length (last (pg_packets p)) mod 255 = 0 then 1 else 0) \<le> (27 :: nat)" by simp
  ultimately show ?thesis
    by (auto simp: page_size_def page_data_def Let_def split: if_splits)
qed

lemma pack_step_small:
  assumes "pack_step 4096 2048 pages page packet = Inr (pages', page', rest)"
    and "pg_packets page \<noteq> []" "small_page k page" "list_all (small_page k) pages"
  shows "pg_packets page' \<noteq> [] \<and> small_page k page' \<and> list_all (small_page k) pages'"
proof -
  define data where "data = take 4080 packet"
  define more where "more = drop 4080 packet"
  obtain sz where sz: "page_size page = Inr sz"
    using assms(1) by (cases "page_size page") (simp_all add: pack_step_def Let_def)
  obtain ps q where q: "(ps, q) = (if sz < 4096 \<and> length (pg_packets page) < 255
      then (pages, add_data data page) else (pages @ [close_page page], next_page data (close_page page)))"
    by (metis surj_pair)
  have "1 \<le> k" using assms(2,3) by (cases "pg_packets page") (simp_all add: small_page_def)
  then have o: "pg_packets q \<noteq> []" "length (pg_packets q) \<le> k" "page_data q \<le> 8175"
      "list_all (small_page k) ps"
    using q assms(2-4) small_close [OF assms(3)] page_size_data [OF sz]
    by (auto simp: page_data_add length_add_data small_page_def data_def split: if_splits)
  have c: "4096 div 255 * 255 = (4080 :: nat)" by simp
  have "pack_step 4096 2048 pages page packet
      = Inr (if length more < 2048 then (ps, add_data more q, []) else (ps, q, more))"
    unfolding pack_step_def Let_def sz bindR_simps c data_def [symmetric] more_def [symmetric]
      q [symmetric] by simp
  then show ?thesis using assms(1) o page_data_add [OF o(1), of more]
    by (cases "length more < 2048") (simp_all add: small_page_def length_add_data)
qed

lemma pack_loop_small:
  "pack_loop 4096 2048 pages page packet = Some (Inr (pages', page')) \<Longrightarrow> pg_packets page \<noteq> [] \<Longrightarrow>
     small_page k page \<Longrightarrow> list_all (small_page k) pages \<Longrightarrow>
     pg_packets page' \<noteq> [] \<and> small_page k page' \<and> list_all (small_page k) pages'"
proof (induction "length packet" arbitrary: packet pages page rule: less_induct)
  case less
  show ?case
  proof (cases "packet = []")
    case True
    then show ?thesis using less.prems by (subst (asm) pack_loop.simps) simp
  next
    case False
    obtain ps q rest where s: "pack_step 4096 2048 pages page packet = Inr (ps, q, rest)"
      "pack_loop 4096 2048 ps q rest = Some (Inr (pages', page'))"
      using less.prems(1) False by (subst (asm) pack_loop.simps) (auto split: sum.splits)
    have "length rest < length packet"
      using s(1) False by (auto simp: pack_step_def Let_def bindR_Inr_iff split: if_splits)
    then show ?thesis using less.hyps [OF _ s(2)] pack_step_small [OF s(1) less.prems(2-4)] by simp
  qed
qed

lemma pack_all_small:
  "pack_all 4096 2048 pages page packets = Some (Inr (pages', page')) \<Longrightarrow>
     small_page k page \<Longrightarrow> list_all (small_page k) pages \<Longrightarrow>
     small_page (k + length packets) page' \<and> list_all (small_page (k + length packets)) pages'"
proof (induction packets arbitrary: k pages page)
  case (Cons packet packets)
  let ?p = "page\<lparr>pg_packets := pg_packets page @ [[]]\<rparr>"
  obtain ps q where s: "pack_loop 4096 2048 pages ?p packet = Some (Inr (ps, q))"
    "pack_all 4096 2048 ps q packets = Some (Inr (pages', page'))"
    using Cons.prems(1) by (auto split: option.splits sum.splits)
  have "small_page (Suc k) ?p" "list_all (small_page (Suc k)) pages"
    using Cons.prems(2,3) by (auto simp: small_page_def page_data_def list_all_iff)
  then have "small_page (Suc k) q \<and> list_all (small_page (Suc k)) ps"
    using pack_loop_small [OF s(1), of "Suc k"] by simp
  then show ?case using Cons.IH [OF s(2), of "Suc k"] by simp
qed simp

lemma from_packets_small:
  assumes "from_packets packets n 4096 2048 = Some (Inr pages)" "length packets \<le> 215" "p \<in> set pages"
  shows "length (concat (map lacing_of (pg_packets p))) \<le> 255"
proof -
  obtain ps q where s: "pack_all 4096 2048 [] (new_page\<lparr>pg_sequence := n\<rparr>) packets = Some (Inr (ps, q))"
    "pages = (if pg_packets q \<noteq> [] then ps @ [q] else ps)"
    using assms(1) by (auto simp: from_packets_def split: option.splits sum.splits)
  have "small_page 0 (new_page\<lparr>pg_sequence := n\<rparr>)" by (simp add: small_page_def page_data_def new_page_def)
  from pack_all_small [OF s(1) this] have "small_page (length packets) p"
    using s(2) assms(3) by (auto simp: list_all_iff split: if_splits)
  then have "page_data p div 255 + length (pg_packets p) \<le> 10222 div 255 + length packets"
    unfolding small_page_def by (intro add_mono div_le_mono) simp_all
  then show ?thesis using lacing_count [of "pg_packets p"] assms(2) by (simp add: page_data_def)
qed

text \<open>Every page but the first takes a byte of a packet at least.\<close>

lemma pack_loop_count:
  "pack_loop default_size wiggle pages page packet = Some (Inr (pages', page')) \<Longrightarrow> 255 \<le> default_size \<Longrightarrow>
     length pages' \<le> length pages + length packet"
proof (induction "length packet" arbitrary: packet pages page rule: less_induct)
  case less
  show ?case
  proof (cases "packet = []")
    case True
    then show ?thesis using less.prems by (subst (asm) pack_loop.simps) simp
  next
    case False
    obtain ps q rest where s: "pack_step default_size wiggle pages page packet = Inr (ps, q, rest)"
      "pack_loop default_size wiggle ps q rest = Some (Inr (pages', page'))"
      using less.prems(1) False by (subst (asm) pack_loop.simps) (auto split: sum.splits)
    have "1 \<le> default_size div 255" using less.prems(2) by (simp add: div_greater_zero_iff Suc_le_eq)
    then have "0 < default_size div 255 * 255" by simp
    then have "length rest < length packet" "length ps \<le> Suc (length pages)"
      using s(1) False by (auto simp: pack_step_def Let_def bindR_Inr_iff split: if_splits)
    then show ?thesis using less.hyps [OF _ s(2) less.prems(2)] by linarith
  qed
qed

lemma pack_all_count:
  "pack_all default_size wiggle pages page packets = Some (Inr (pages', page')) \<Longrightarrow> 255 \<le> default_size \<Longrightarrow>
     length pages' \<le> length pages + sum_list (map length packets)"
proof (induction packets arbitrary: pages page)
  case (Cons packet packets)
  obtain ps q where s: "pack_loop default_size wiggle pages (page\<lparr>pg_packets := pg_packets page @ [[]]\<rparr>) packet
      = Some (Inr (ps, q))" "pack_all default_size wiggle ps q packets = Some (Inr (pages', page'))"
    using Cons.prems(1) by (auto split: option.splits sum.splits)
  show ?case using pack_loop_count [OF s(1) Cons.prems(2)] Cons.IH [OF s(2) Cons.prems(2)] by simp
qed simp

lemma from_packets_count:
  assumes "from_packets packets n default_size wiggle = Some (Inr pages)" "255 \<le> default_size"
  shows "length pages \<le> Suc (sum_list (map length packets))"
  using assms(1) pack_all_count [OF _ assms(2), of wiggle "[]" _ packets]
  by (fastforce simp: from_packets_def split: option.splits sum.splits if_splits)

section \<open>The pages replace writes\<close>

lemma flag_bit: "bit (pg_flags (set_flag n b p)) i \<longleftrightarrow> (if i = n then b else bit (pg_flags p) i)"
  by (auto simp: set_flag_def Let_def bit_simps)

lemma test_bit_iff: "test_bit v n = bit v n"
  by (simp add: test_bit_def and_one_eq bit_iff_odd_drop_bit odd_iff_mod_2_eq_one)

lemma set_flag_fields [simp]:
  "pg_packets (set_flag n b p) = pg_packets p" "pg_serial (set_flag n b p) = pg_serial p"
  "pg_sequence (set_flag n b p) = pg_sequence p" "pg_complete (set_flag n b p) = pg_complete p"
  "pg_version (set_flag n b p) = pg_version p" "pg_position (set_flag n b p) = pg_position p"
  by (simp_all add: set_flag_def Let_def)

lemma continued_set_flag [simp]:
  "pg_continued (set_flag 0 b p) = b"
  "0 < n \<Longrightarrow> pg_continued (set_flag n b p) = pg_continued p"
  by (simp_all add: pg_continued_def test_bit_iff flag_bit)

text \<open>Only the three lowest flags are ever set.\<close>

definition few_flags :: "ogg_page \<Rightarrow> bool" where
  "few_flags p \<longleftrightarrow> 0 \<le> pg_flags p \<and> pg_flags p < 8"

lemma few_flags_set:
  assumes "few_flags p" "n < 3" shows "few_flags (set_flag n b p)"
proof -
  have "pg_flags (set_flag n b p) = take_bit 3 (pg_flags (set_flag n b p))"
  proof (rule bit_eqI)
    fix i
    have "pg_flags p = take_bit 3 (pg_flags p)"
      using assms(1) by (simp add: few_flags_def take_bit_int_eq_self)
    then have "bit (pg_flags p) i \<Longrightarrow> i < 3" by (metis bit_take_bit_iff)
    then show "bit (pg_flags (set_flag n b p)) i = bit (take_bit 3 (pg_flags (set_flag n b p))) i"
      using assms(2) by (auto simp: flag_bit bit_take_bit_iff)
  qed
  moreover have "0 \<le> take_bit 3 x \<and> take_bit 3 x < 8" for x :: int
    using take_bit_int_less_exp [of 3 x] by simp
  ultimately show ?thesis by (metis few_flags_def)
qed

text \<open>The fields of the pages after \<open>replace\<close> has adopted them.\<close>

lemma adopt_nth:
  fixes old new :: "ogg_page list"
  assumes "new \<noteq> []" "i < length new"
  defines "q \<equiv> adopt_pages old new ! i"
  shows "pg_packets q = pg_packets (new ! i)" "pg_serial q = pg_serial (hd old)"
    "pg_sequence q = pg_sequence (hd old) + int i" "pg_version q = pg_version (new ! i)"
    "pg_continued q = (if i = 0 then pg_continued (hd old) else pg_continued (new ! i))"
    "pg_complete q = (if Suc i = length new then pg_complete (last old) else pg_complete (new ! i))"
    "pg_position q \<in> {pg_position (new ! i), -1}" "few_flags (new ! i) \<Longrightarrow> few_flags q"
proof -
  let ?n = "length new - 1"
  define a where "a = (new ! i)\<lparr>pg_sequence := pg_sequence (hd old) + int i, pg_serial := pg_serial (hd old)\<rparr>"
  define b where "b = (if i = 0 then set_flag 0 (pg_continued (hd old)) (set_flag 2 (pg_last (hd old))
      (set_flag 1 (pg_first (hd old)) a)) else a)"
  define c where "c = (if i = ?n then (set_flag 2 (pg_last (last old)) (set_flag 1 (pg_first (last old)) b))
      \<lparr>pg_complete := pg_complete (last old)\<rparr> else b)"
  define d where "d = (if i = ?n \<and> \<not> pg_complete c \<and> length (pg_packets c) = 1
      then c\<lparr>pg_position := -1\<rparr> else c)"
  have q: "q = d"
    using assms(1,2) unfolding q_def adopt_pages_def Let_def a_def b_def c_def d_def
    by (auto simp: nth_list_update)
  have a: "pg_packets a = pg_packets (new ! i)" "pg_serial a = pg_serial (hd old)"
    "pg_sequence a = pg_sequence (hd old) + int i" "pg_version a = pg_version (new ! i)"
    "pg_continued a = pg_continued (new ! i)" "pg_complete a = pg_complete (new ! i)"
    "pg_position a = pg_position (new ! i)" "few_flags a = few_flags (new ! i)"
    by (simp_all add: a_def pg_continued_def few_flags_def)
  have i: "Suc i = length new \<longleftrightarrow> i = ?n" using assms(1,2) by (cases new) auto
  have cont: "pg_continued (p\<lparr>pg_complete := x\<rparr>) = pg_continued p"
    "pg_continued (p\<lparr>pg_position := y\<rparr>) = pg_continued p" for p x y
    by (simp_all add: pg_continued_def)
  have few: "few_flags (p\<lparr>pg_complete := x\<rparr>) = few_flags p"
    "few_flags (p\<lparr>pg_position := y\<rparr>) = few_flags p" for p x y
    by (simp_all add: few_flags_def)
  show "pg_packets q = pg_packets (new ! i)" "pg_serial q = pg_serial (hd old)"
    "pg_sequence q = pg_sequence (hd old) + int i" "pg_version q = pg_version (new ! i)"
    "pg_position q \<in> {pg_position (new ! i), -1}"
    by (simp_all add: q d_def c_def b_def a)
  show "pg_continued q = (if i = 0 then pg_continued (hd old) else pg_continued (new ! i))"
    by (simp add: q d_def c_def b_def a cont)
  show "pg_complete q = (if Suc i = length new then pg_complete (last old) else pg_complete (new ! i))"
    by (simp add: i q d_def c_def b_def a)
  show "few_flags q" if "few_flags (new ! i)"
  proof -
    have "few_flags a" using that a(8) by simp
    then have "few_flags b" by (simp add: b_def few_flags_set)
    then have "few_flags c" by (simp add: c_def few few_flags_set)
    then show ?thesis by (simp add: q d_def few)
  qed
qed

lemma numbered_nth:
  "numbered s n ps \<longleftrightarrow> (\<forall>i < length ps. pg_serial (ps ! i) = s \<and> pg_sequence (ps ! i) = n + int i
     \<and> pg_packets (ps ! i) \<noteq> [])"
proof (induction ps arbitrary: n)
  case (Cons p ps)
  then show ?case by (auto simp: less_Suc_eq_0_disj all_conj_distrib algebra_simps)
qed simp

lemma chained_nth:
  "chained c ps \<longleftrightarrow> (\<forall>i < length ps. pg_continued (ps ! i) \<longleftrightarrow> (if i = 0 then c else \<not> pg_complete (ps ! (i - 1))))"
proof (induction ps arbitrary: c)
  case (Cons p ps)
  have 1: "(\<forall>i < length (p # ps). pg_continued ((p # ps) ! i) \<longleftrightarrow> (if i = 0 then c else \<not> pg_complete ((p # ps) ! (i - 1))))
      \<longleftrightarrow> pg_continued p = c \<and> (\<forall>j < length ps. pg_continued (ps ! j) \<longleftrightarrow> \<not> pg_complete ((p # ps) ! j))"
    by (auto simp: less_Suc_eq_0_disj)
  have 2: "(if j = 0 then \<not> pg_complete p else \<not> pg_complete (ps ! (j - 1))) \<longleftrightarrow> \<not> pg_complete ((p # ps) ! j)" for j
    by (cases j) simp_all
  show ?case unfolding 1 chained.simps Cons 2 ..
qed simp

lemma adopt_numbered:
  assumes "numbered t m new" "new \<noteq> []"
  shows "numbered (pg_serial (hd old)) (pg_sequence (hd old)) (adopt_pages old new)"
  using assms adopt_nth(1-3) [OF assms(2)] by (simp add: numbered_nth)

lemma adopt_chained:
  assumes "chained False new" "new \<noteq> []" "\<not> pg_continued (hd old)"
  shows "chained False (adopt_pages old new)"
proof -
  have "pg_continued (adopt_pages old new ! i) \<longleftrightarrow>
      (if i = 0 then False else \<not> pg_complete (adopt_pages old new ! (i - 1)))" if i: "i < length new" for i
  proof (cases "i = 0")
    case False
    then have "Suc (i - 1) \<noteq> length new" "i - 1 < length new" using i by simp_all
    then show ?thesis using False i assms(1) adopt_nth(5) [OF assms(2) i] adopt_nth(6) [OF assms(2), of "i - 1"]
      by (simp add: chained_nth)
  qed (use assms(3) adopt_nth(5) [OF assms(2) i] in simp)
  then show ?thesis by (simp add: chained_nth)
qed

lemma adopt_framed:
  assumes "list_all framed new" "new \<noteq> []" "pg_complete (last old) \<or> open_page (last new)"
    "numbered t m new"
  shows "list_all framed (adopt_pages old new)"
proof -
  have "framed (adopt_pages old new ! i)" if i: "i < length new" for i
  proof -
    have p: "pg_packets (new ! i) \<noteq> []" using assms(4) i by (simp add: numbered_nth)
    note a = adopt_nth(1,6) [OF assms(2) i, of old]
    have "framed (new ! i)" using assms(1) i by (simp add: list_all_length)
    moreover have "Suc i = length new \<Longrightarrow> last new = new ! i"
      by (metis last_conv_nth [OF assms(2)] diff_Suc_1)
    ultimately show ?thesis using a p assms(3) by (auto simp: framed_def open_end_def open_page_def)
  qed
  then show ?thesis by (simp add: list_all_length)
qed

lemma foldl_join_cong:
  "list_all2 (\<lambda>p q. pg_packets p = pg_packets q \<and> pg_continued p = pg_continued q) ps qs \<Longrightarrow>
     foldl join out ps = foldl join out qs"
  by (induction ps qs arbitrary: out rule: list_all2_induct) (simp_all add: join_def)

lemma adopt_join:
  assumes "new \<noteq> []" "\<not> pg_continued (hd new)" "\<not> pg_continued (hd old)"
  shows "foldl join [] (adopt_pages old new) = foldl join [] new"
proof (rule foldl_join_cong, unfold list_all2_conv_all_nth, safe)
  fix i assume "i < length (adopt_pages old new)"
  then have i: "i < length new" by simp
  show "pg_packets (adopt_pages old new ! i) = pg_packets (new ! i)" by (rule adopt_nth(1) [OF assms(1) i])
  have "i = 0 \<Longrightarrow> new ! i = hd new" using assms(1) by (simp add: hd_conv_nth)
  then have "pg_continued (adopt_pages old new ! i) = pg_continued (new ! i)"
    using adopt_nth(5) [OF assms(1) i, of old] assms(2,3) by (cases "i = 0") simp_all
  then show "pg_continued (adopt_pages old new ! i) \<Longrightarrow> pg_continued (new ! i)"
    "pg_continued (new ! i) \<Longrightarrow> pg_continued (adopt_pages old new ! i)" by simp_all
qed simp

section \<open>What the first pages carry\<close>

lemma join_head:
  assumes "pg_packets p \<noteq> []" "out \<noteq> []"
  shows "prefix (hd out) (hd (join out p))" "join out p \<noteq> []"
    "1 < length out \<or> \<not> pg_continued p \<Longrightarrow> hd (join out p) = hd out \<and> 1 < length (join out p)"
proof -
  obtain d ds where d: "pg_packets p = d # ds" using assms(1) by (cases "pg_packets p") auto
  obtain c cs where c: "out = c # cs" using assms(2) by (cases out) auto
  show "prefix (hd out) (hd (join out p))" "join out p \<noteq> []"
    "1 < length out \<or> \<not> pg_continued p \<Longrightarrow> hd (join out p) = hd out \<and> 1 < length (join out p)"
    by (auto simp: join_def d c)
qed

lemma foldl_join_head:
  "list_all (\<lambda>p. pg_packets p \<noteq> []) ps \<Longrightarrow> out \<noteq> [] \<Longrightarrow>
     prefix (hd out) (hd (foldl join out ps)) \<and> foldl join out ps \<noteq> []
   \<and> (1 < length out \<longrightarrow> hd (foldl join out ps) = hd out)"
proof (induction ps arbitrary: out)
  case (Cons p ps)
  have p: "pg_packets p \<noteq> []" "list_all (\<lambda>p. pg_packets p \<noteq> []) ps" using Cons.prems(1) by simp_all
  note j = join_head [OF p(1) Cons.prems(2)]
  from Cons.IH [OF p(2) j(2)] j show ?case by (auto intro: prefix_order.trans)
qed simp

text \<open>Behind a page on which the first packet ends, that packet does not change any more.\<close>

lemma foldl_join_stable:
  assumes "chained c (ps @ p # qs)" "list_all (\<lambda>p. pg_packets p \<noteq> []) (ps @ p # qs)" "page_ends p"
    "\<not> c \<or> out \<noteq> []"
  shows "hd (foldl join out (ps @ p # qs)) = hd (foldl join out (ps @ [p]))"
proof -
  define m where "m = foldl join out (ps @ [p])"
  have p: "pg_packets p \<noteq> []" "list_all (\<lambda>p. pg_packets p \<noteq> []) qs" using assms(2) by simp_all
  have m: "m = join (foldl join out ps) p" by (simp add: m_def)
  have l: "length (pg_packets p) \<le> length m"
    unfolding m join_def by (cases "pg_packets p") auto
  then have ne: "m \<noteq> []" using p(1) by auto
  have "hd (foldl join m qs) = hd m"
  proof (cases qs)
    case (Cons q rs)
    have q: "pg_packets q \<noteq> []" "list_all (\<lambda>p. pg_packets p \<noteq> []) rs" using p(2) Cons by simp_all
    have "pg_continued q \<longleftrightarrow> \<not> pg_complete p" using assms(1) Cons by (simp add: chained_append)
    then have "1 < length m \<or> \<not> pg_continued q" using assms(3) l by (auto simp: page_ends_def)
    from join_head(3) [OF q(1) ne this] foldl_join_head [OF q(2) join_head(2) [OF q(1) ne]]
    show ?thesis by (simp add: Cons)
  qed simp
  then show ?thesis by (simp add: m)
qed

text \<open>Pages on none of which it ends carry one packet.\<close>

lemma foldl_join_single:
  "chained c ps \<Longrightarrow> list_all (\<lambda>p. pg_packets p \<noteq> [] \<and> \<not> page_ends p) ps \<Longrightarrow> ps \<noteq> [] \<Longrightarrow>
     length out = (if c then 1 else 0) \<Longrightarrow> length (foldl join out ps) = 1"
proof (induction ps arbitrary: c out)
  case (Cons p ps)
  obtain d where d: "pg_packets p = [d]"
    using Cons.prems(2) by (cases "pg_packets p") (auto simp: page_ends_def)
  have "length (join out p) = 1" using Cons.prems(1,4) by (simp add: join_def d)
  then show ?case using Cons.IH [of True "join out p"] Cons.prems(1,2)
    by (cases "ps = []") (simp_all add: page_ends_def)
qed simp

lemma to_packets_lenient:
  assumes "numbered serial n pages" "pages \<noteq> []" "\<not> pg_continued (hd pages)"
  shows "to_packets pages False = Inr (foldl join [] pages)"
proof -
  obtain page ps where p: "pages = page # ps" using assms(2) by (cases pages) auto
  then have "pg_serial page = serial" "pg_sequence page = n" using assms(1) by simp_all
  then show ?thesis using packets_loop_join [OF assms(1), of "[]"] assms p
    by (auto simp: to_packets_def)
qed

section \<open>The pages of a new comment\<close>

lemma join_length: "length (pg_packets p) \<le> length (join out p)"
  by (cases "pg_packets p") (auto simp: join_def)

lemma first_end:
  assumes "list_ex P xs"
  obtains us v ws where "xs = us @ v # ws" "list_all (\<lambda>x. \<not> P x) us" "P v"
proof -
  have "\<exists>x \<in> set xs. P x" using assms by (simp add: list_ex_iff)
  then show ?thesis using split_list_first_prop [of xs P] that by (auto simp: list_all_iff)
qed

text \<open>The first packet of the first page is the comment, or begins it with at least 255 bytes.\<close>

lemma first_piece:
  assumes "chained False (p # ps)" "list_all (\<lambda>p. pg_packets p \<noteq> []) (p # ps)" "framed p"
    "hd (foldl join [] (p # ps)) = d"
  shows "prefix (hd (pg_packets p)) d" "hd (pg_packets p) = d \<or> 255 \<le> length (hd (pg_packets p))"
proof -
  have p: "pg_packets p \<noteq> []" "join [] p = pg_packets p" "list_all (\<lambda>p. pg_packets p \<noteq> []) ps"
    using assms(1,2) by (simp_all add: join_def)
  show "prefix (hd (pg_packets p)) d" using foldl_join_head [OF p(3,1)] assms(4) p(2) by simp
  show "hd (pg_packets p) = d \<or> 255 \<le> length (hd (pg_packets p))"
  proof (cases "page_ends p")
    case True
    then show ?thesis using foldl_join_stable [of False "[]" p ps "[]"] assms(1,2,4) p(2) by simp
  next
    case False
    then obtain x where "pg_packets p = [x]" using p(1) by (cases "pg_packets p") (auto simp: page_ends_def)
    moreover have "open_end p" using False assms(3) by (simp add: framed_def page_ends_def)
    ultimately show ?thesis by (auto simp: open_end_def dest: dvd_imp_le)
  qed
qed

lemma comment_pages:
  assumes old: "numbered s n old" "old \<noteq> []" "\<not> pg_continued (hd old)" "list_all framed old"
      "page_ends (last old)"
    and new: "from_packets (d # tl (foldl join [] old)) m 4096 2048 = Some (Inr new)"
  defines "qs \<equiv> adopt_pages old new"
  shows "new \<noteq> []" "numbered s n qs" "list_all framed qs" "chained False qs"
    "foldl join [] qs = d # tl (foldl join [] old)"
    "list_all (\<lambda>p. pg_version p = 0 \<and> few_flags p \<and> pg_position p \<in> {0, -1}) qs"
    "list_ex page_ends qs"
proof -
  define z where "z = last old"
  define rest where "rest = tl (foldl join [] old)"
  obtain new' where f: "from_packets (d # rest) m 4096 2048 = Some (Inr new')"
    "numbered 0 m new'" "chained False new'" "list_all framed new'" "list_all plain_page new'"
    "d # rest \<noteq> [] \<longrightarrow> new' \<noteq> [] \<and> pg_complete (last new')" "foldl join [] new' = d # rest"
    by (rule from_packets_pages [of 4096 "d # rest" m 2048]) simp
  have "new' = new" using f(1) new by (simp add: rest_def)
  note f = f [unfolded this]
  show ne: "new \<noteq> []" using f(6) by simp
  have h: "pg_serial (hd old) = s" "pg_sequence (hd old) = n" using old(1,2) by (cases old; simp)+
  have hn: "\<not> pg_continued (hd new)" using f(3) ne by (cases new) simp_all
  show num: "numbered s n qs" using adopt_numbered [OF f(2) ne, of old] h by (simp add: qs_def)
  show ch: "chained False qs" using adopt_chained [OF f(3) ne old(3)] by (simp add: qs_def)
  show j: "foldl join [] qs = d # tl (foldl join [] old)"
    using adopt_join [OF ne hn old(3)] f(7) by (simp add: qs_def rest_def)
  have o: "foldl join [] old = join (foldl join [] (butlast old)) z"
    using old(2) by (metis z_def append_butlast_last_id foldl_append foldl_Cons foldl_Nil)
  have two: "rest \<noteq> [] \<and> open_page (last new)" if inc: "\<not> pg_complete z"
  proof -
    have m: "1 < length (pg_packets z)" using inc old(5) by (simp add: page_ends_def z_def)
    then have "1 < length (foldl join [] old)" using join_length [of z] o by (metis less_le_trans)
    then have r: "rest \<noteq> []" "last rest = last (foldl join [] old)"
      by (cases "foldl join [] old"; simp add: rest_def)+
    then have "last rest = last (pg_packets z)"
      using join_last [of z "foldl join [] (butlast old)"] m o by fastforce
    moreover have "framed z" using old(2,4) by (simp add: z_def list_all_iff)
    ultimately have "last rest \<noteq> []" "255 dvd length (last rest)"
      using inc by (simp_all add: framed_def open_end_def)
    then show ?thesis using from_packets_open [OF f(1)] r(1) by simp
  qed
  have fr: "pg_complete (last old) \<or> open_page (last new)" using two z_def by blast
  show "list_all framed qs" using adopt_framed [OF f(4) ne fr f(2)] by (simp add: qs_def)
  show "list_all (\<lambda>p. pg_version p = 0 \<and> few_flags p \<and> pg_position p \<in> {0, -1}) qs"
  proof -
    have "pg_version (qs ! i) = 0 \<and> few_flags (qs ! i) \<and> pg_position (qs ! i) \<in> {0, -1}" if "i < length qs" for i
    proof -
      have i: "i < length new" using that by (simp add: qs_def)
      then have "plain_page (new ! i)" using f(5) by (simp add: list_all_length)
      then show ?thesis
        using adopt_nth(4,7,8) [OF ne i, of old] by (auto simp: plain_page_def few_flags_def qs_def)
    qed
    then show ?thesis by (simp add: list_all_length)
  qed
  show "list_ex page_ends qs"
  proof (rule ccontr)
    assume "\<not> list_ex page_ends qs"
    then have "list_all (\<lambda>p. pg_packets p \<noteq> [] \<and> \<not> page_ends p) qs"
      using num by (auto simp: list_ex_length list_all_length numbered_nth)
    moreover have "qs \<noteq> []" using ne by (metis length_adopt_pages length_0_conv qs_def)
    moreover note foldl_join_single [OF ch, of "[]"]
    ultimately have "length (foldl join [] qs) = 1" by simp
    then have "length (d # rest) = 1" using j by (simp only: rest_def)
    then have "rest = []" by simp
    then have "pg_complete z" using two by blast
    then have "page_ends (last qs)"
      using adopt_nth(6) [OF ne, of "length new - 1" old] ne \<open>qs \<noteq> []\<close>
      by (simp add: page_ends_def last_conv_nth qs_def z_def)
    then show False using \<open>\<not> list_ex page_ends qs\<close> \<open>qs \<noteq> []\<close> by (simp add: list_ex_iff)
  qed
qed

end
