(* ===== verification/Ogg_Inject.thy ===== *)
theory Ogg_Inject
  imports Ogg_Comment
begin

text \<open>
  Reading pages from a file that consists of pages, and what \<open>put_comment\<close> leaves of such a file:
  the pages in front of the comment stay, the pages of the comment are replaced, pages of other
  streams between them follow, and the pages behind are numbered on.
\<close>

section \<open>Files of pages\<close>

definition pages_ok :: "(ogg_page \<times> string) list \<Rightarrow> bool" where
  "pages_ok pcs \<longleftrightarrow> list_all (\<lambda>(p, crc). storable p \<and> length crc = 4) pcs"

text \<open>The pages as they are read from a place.\<close>

fun pages_at :: "nat \<Rightarrow> (ogg_page \<times> string) list \<Rightarrow> ogg_page list" where
  "pages_at n [] = []"
| "pages_at n ((p, crc) # pcs) = p\<lparr>pg_offset := Some n\<rparr> # pages_at (n + length (raw_page p crc)) pcs"

lemma pages_ok_simps [simp]:
  "pages_ok []" "pages_ok ((p, crc) # pcs) \<longleftrightarrow> storable p \<and> length crc = 4 \<and> pages_ok pcs"
  "pages_ok (xs @ ys) \<longleftrightarrow> pages_ok xs \<and> pages_ok ys"
  by (auto simp: pages_ok_def)

lemma pages_bytes_simps [simp]:
  "pages_bytes [] = []" "pages_bytes ((p, crc) # pcs) = raw_page p crc @ pages_bytes pcs"
  "pages_bytes (xs @ ys) = pages_bytes xs @ pages_bytes ys"
  by (simp_all add: pages_bytes_def)

lemma read_raw_page:
  assumes "storable p" "length crc = 4" "drop (fpos f) (fbytes f) = raw_page p crc @ post"
  shows "read_page f = (Inr (p\<lparr>pg_offset := Some (fpos f)\<rparr>), f\<lparr>fpos := fpos f + length (raw_page p crc)\<rparr>)"
    "drop (fpos f + length (raw_page p crc)) (fbytes f) = post"
proof -
  have "drop (fpos f) (fbytes f) = page_head p @ crc @ page_body p @ post"
    using assms(3) by (simp add: raw_page_def)
  from read_page_here [OF _ _ _ _ this assms(2)]
  show "read_page f = (Inr (p\<lparr>pg_offset := Some (fpos f)\<rparr>), f\<lparr>fpos := fpos f + length (raw_page p crc)\<rparr>)"
    using assms(1) length_raw_page [OF assms(2), of p] by (simp add: storable_def)
  have "drop (length (raw_page p crc)) (drop (fpos f) (fbytes f)) = post" using assms(3) by simp
  then show "drop (fpos f + length (raw_page p crc)) (fbytes f) = post" by (simp add: add.commute)
qed

lemma read_until_pages:
  "pages_ok us \<Longrightarrow> storable p \<Longrightarrow> length crc = 4 \<Longrightarrow>
     drop (fpos f) (fbytes f) = pages_bytes us @ raw_page p crc @ post \<Longrightarrow>
     list_all (\<lambda>(q, _). \<forall>o'. P (q\<lparr>pg_offset := o'\<rparr>) = Inr False) us \<Longrightarrow>
     (\<And>o'. P (p\<lparr>pg_offset := o'\<rparr>) = Inr True) \<Longrightarrow>
     read_until P f = (Inr (p\<lparr>pg_offset := Some (fpos f + length (pages_bytes us))\<rparr>),
       f\<lparr>fpos := fpos f + length (pages_bytes us) + length (raw_page p crc)\<rparr>)"
proof (induction us arbitrary: f)
  case Nil
  then have "drop (fpos f) (fbytes f) = raw_page p crc @ post" by simp
  from read_raw_page(1) [OF Nil.prems(2,3) this] Nil.prems(6) show ?case
    by (subst read_until.simps) simp
next
  case (Cons u us)
  obtain q c where u: "u = (q, c)" by (cases u)
  let ?f = "f\<lparr>fpos := fpos f + length (raw_page q c)\<rparr>"
  have q: "storable q" "length c = 4" "pages_ok us" "\<And>o'. P (q\<lparr>pg_offset := o'\<rparr>) = Inr False"
    "list_all (\<lambda>(q, _). \<forall>o'. P (q\<lparr>pg_offset := o'\<rparr>) = Inr False) us"
    using Cons.prems(1,5) u by simp_all
  have "drop (fpos f) (fbytes f) = raw_page q c @ (pages_bytes us @ raw_page p crc @ post)"
    using Cons.prems(4) u by simp
  note r = read_raw_page [OF q(1,2) this]
  have "drop (fpos ?f) (fbytes ?f) = pages_bytes us @ raw_page p crc @ post" using r(2) by simp
  from Cons.IH [OF q(3) Cons.prems(2,3) this q(5) Cons.prems(6)] r(1) q(4) show ?case
    by (subst read_until.simps) (simp add: u add.assoc)
qed

text \<open>Reading the pages of a stream up to the one on which the first packet ends.\<close>

definition up_to_end :: "int \<Rightarrow> (ogg_page \<times> string) list \<Rightarrow> bool" where
  "up_to_end s pcs \<longleftrightarrow> pcs \<noteq> [] \<and> pg_serial (fst (last pcs)) = s \<and> page_ends (fst (last pcs))
     \<and> list_all (\<lambda>(p, _). pg_serial p = s \<longrightarrow> \<not> page_ends p) (butlast pcs)"

lemma page_ends_offset [simp]: "page_ends (p\<lparr>pg_offset := x\<rparr>) = page_ends p"
  by (simp add: page_ends_def)

lemma collect_pages_here:
  "pages_ok pcs \<Longrightarrow> drop (fpos f) (fbytes f) = pages_bytes pcs @ post \<Longrightarrow> up_to_end s pcs \<Longrightarrow>
     acc = [] \<or> \<not> page_ends (last acc) \<Longrightarrow>
     collect_pages s acc f = (Inr (acc @ filter (\<lambda>p. pg_serial p = s) (pages_at (fpos f) pcs)),
       f\<lparr>fpos := fpos f + length (pages_bytes pcs)\<rparr>)"
proof (induction pcs arbitrary: f acc)
  case Nil
  then show ?case by (simp add: up_to_end_def)
next
  case (Cons pc pcs)
  obtain p crc where pc: "pc = (p, crc)" by (cases pc)
  let ?p = "p\<lparr>pg_offset := Some (fpos f)\<rparr>" and ?f = "f\<lparr>fpos := fpos f + length (raw_page p crc)\<rparr>"
  let ?acc = "if pg_serial p = s then acc @ [?p] else acc"
  have p: "storable p" "length crc = 4" "pages_ok pcs" using Cons.prems(1) pc by simp_all
  have "drop (fpos f) (fbytes f) = raw_page p crc @ (pages_bytes pcs @ post)" using Cons.prems(2) pc by simp
  note r = read_raw_page [OF p(1,2) this]
  have d: "drop (fpos ?f) (fbytes ?f) = pages_bytes pcs @ post" using r(2) by simp
  have step: "collect_pages s acc f = collect_pages s ?acc ?f"
    using r(1) Cons.prems(4) by (cases "acc = []"; subst collect_pages.simps) simp_all
  show ?case
  proof (cases "pcs = []")
    case True
    then have "pg_serial p = s" "page_ends p" using Cons.prems(3) pc by (simp_all add: up_to_end_def)
    then show ?thesis unfolding step using True
      by (subst collect_pages.simps) (simp add: pc)
  next
    case False
    then have "up_to_end s pcs" "pg_serial p = s \<longrightarrow> \<not> page_ends p"
      using Cons.prems(3) pc by (simp_all add: up_to_end_def)
    then show ?thesis unfolding step using Cons.IH [OF p(3) d, of ?acc] Cons.prems(4)
      by (simp add: pc add.assoc)
  qed
qed

section \<open>The old pages and what stands between them\<close>

text \<open>
  A run of pages as the pages of one stream, each with the bytes behind it, and the bytes in front.
\<close>

fun regroup :: "int \<Rightarrow> nat \<Rightarrow> (ogg_page \<times> string) list \<Rightarrow> string \<Rightarrow> string \<times> placed_page list" where
  "regroup s n [] post = (post, [])"
| "regroup s n ((p, crc) # pcs) post =
     (let (lead, xs) = regroup s (n + length (raw_page p crc)) pcs post
      in if pg_serial p = s then ([], (p\<lparr>pg_offset := Some n\<rparr>, crc, lead) # xs)
         else (raw_page p crc @ lead, xs))"

lemma raw_page_offset [simp]: "raw_page (p\<lparr>pg_offset := x\<rparr>) crc = raw_page p crc"
  by (simp add: raw_page_def page_head_def page_body_def lacing_data_def)

lemma framed_offset [simp]: "framed (p\<lparr>pg_offset := x\<rparr>) = framed p"
  by (simp add: framed_def open_end_def)

lemma regroup_result:
  "pages_ok pcs \<Longrightarrow> regroup s n pcs post = (lead, xs) \<Longrightarrow>
     pages_bytes pcs @ post = lead @ placed_bytes xs \<and> placed (n + length lead) xs
   \<and> map fst xs = filter (\<lambda>p. pg_serial p = s) (pages_at n pcs)
   \<and> lead @ gaps xs = pages_bytes (filter (\<lambda>(p, _). pg_serial p \<noteq> s) pcs) @ post"
proof (induction pcs arbitrary: n lead xs)
  case (Cons pc pcs)
  obtain p crc where pc: "pc = (p, crc)" by (cases pc)
  obtain l ys where r: "regroup s (n + length (raw_page p crc)) pcs post = (l, ys)" by fastforce
  have "pages_ok pcs" "framed p" "length crc = 4" using Cons.prems(1) pc by (simp_all add: storable_def)
  with Cons.IH [OF _ r] Cons.prems(2) r show ?case
    by (auto simp: pc placed_bytes_def gaps_def add.assoc split: if_splits)
qed (auto simp: placed_bytes_def gaps_def)

text \<open>Offsets do not matter for what pages carry.\<close>

lemma numbered_at:
  "numbered s n (filter (\<lambda>p. pg_serial p = t) (pages_at k pcs)) =
   numbered s n (filter (\<lambda>p. pg_serial p = t) (map fst pcs))"
  by (induction pcs arbitrary: n k) auto

lemma continued_offset [simp]: "pg_continued (p\<lparr>pg_offset := x\<rparr>) = pg_continued p"
  by (simp add: pg_continued_def)

lemma foldl_join_at:
  "foldl join out (filter (\<lambda>p. pg_serial p = t) (pages_at k pcs)) =
   foldl join out (filter (\<lambda>p. pg_serial p = t) (map fst pcs))"
  by (induction pcs arbitrary: out k) (auto simp: join_def)

lemma length_filter_at:
  "length (filter (\<lambda>p. pg_serial p = t) (pages_at k pcs)) =
   length (filter (\<lambda>p. pg_serial p = t) (map fst pcs))"
  by (induction pcs arbitrary: k) auto

lemma framed_at: "pages_ok pcs \<Longrightarrow> list_all framed (filter (\<lambda>p. pg_serial p = t) (pages_at k pcs))"
  by (induction pcs arbitrary: k) (auto simp: storable_def)

lemma pages_at_append: "pages_at k (xs @ ys) = pages_at k xs @ pages_at (k + length (pages_bytes xs)) ys"
  by (induction xs arbitrary: k) (auto simp: add.assoc)

section \<open>Putting the comment back\<close>

text \<open>The pages of the comment and the pages of other streams between them.\<close>

definition comment_region :: "int \<Rightarrow> int \<Rightarrow> (ogg_page \<times> string) list \<Rightarrow> bool" where
  "comment_region s n region \<longleftrightarrow> up_to_end s region \<and> pg_serial (fst (hd region)) = s
     \<and> \<not> pg_continued (fst (hd region))
     \<and> numbered s n (filter (\<lambda>p. pg_serial p = s) (map fst region))"

definition region_packets :: "int \<Rightarrow> (ogg_page \<times> string) list \<Rightarrow> string list" where
  "region_packets s region = foldl join [] (filter (\<lambda>p. pg_serial p = s) (map fst region))"

definition others :: "int \<Rightarrow> (ogg_page \<times> string) list \<Rightarrow> (ogg_page \<times> string) list" where
  "others s region = filter (\<lambda>(p, _). pg_serial p \<noteq> s) region"

lemma region_first:
  assumes "comment_region s n region"
  obtains p crc rs where "region = (p, crc) # rs" "pg_serial p = s" "\<not> pg_continued p"
proof -
  have "region \<noteq> []" "pg_serial (fst (hd region)) = s" "\<not> pg_continued (fst (hd region))"
    using assms by (simp_all add: comment_region_def up_to_end_def)
  then show ?thesis using that by (metis hd_Cons_tl prod.collapse)
qed

lemma region_old:
  fixes k :: nat
  assumes "comment_region s n region" "pages_ok region"
  defines "old \<equiv> filter (\<lambda>p. pg_serial p = s) (pages_at k region)"
  shows "numbered s n old" "old \<noteq> []" "\<not> pg_continued (hd old)" "list_all framed old"
    "page_ends (last old)" "foldl join [] old = region_packets s region" "pg_offset (hd old) = Some k"
    "pg_serial (hd old) = s" "pg_sequence (hd old) = n"
proof -
  show "numbered s n old" using assms(1) by (simp add: old_def numbered_at comment_region_def)
  show "list_all framed old" using framed_at [OF assms(2)] by (simp add: old_def)
  show "foldl join [] old = region_packets s region" by (simp add: old_def foldl_join_at region_packets_def)
  obtain p crc rs where r: "region = (p, crc) # rs" "pg_serial p = s" "\<not> pg_continued p"
    by (rule region_first [OF assms(1)])
  then have o: "old = p\<lparr>pg_offset := Some k\<rparr> # filter (\<lambda>p. pg_serial p = s) (pages_at (k + length (raw_page p crc)) rs)"
    by (simp add: old_def)
  then show "old \<noteq> []" "\<not> pg_continued (hd old)" "pg_offset (hd old) = Some k" "pg_serial (hd old) = s"
    using r by simp_all
  show "pg_sequence (hd old) = n" using \<open>numbered s n old\<close> o by simp
  have "region \<noteq> []" "pg_serial (fst (last region)) = s" "page_ends (fst (last region))"
    using assms(1) by (simp_all add: comment_region_def up_to_end_def)
  then obtain qs q c where l: "region = qs @ [(q, c)]" "pg_serial q = s" "page_ends q"
    by (metis append_butlast_last_id prod.collapse)
  then show "page_ends (last old)" by (simp add: old_def pages_at_append)
qed

text \<open>The data of the packets, and the bytes that hold them.\<close>

lemma join_data:
  "pg_packets p \<noteq> [] \<Longrightarrow> out \<noteq> [] \<or> \<not> pg_continued p \<Longrightarrow>
     sum_list (map length (join out p)) = sum_list (map length out) + page_data p"
proof -
  assume p: "pg_packets p \<noteq> []" and o: "out \<noteq> [] \<or> \<not> pg_continued p"
  obtain d ds where d: "pg_packets p = d # ds" using p by (cases "pg_packets p") auto
  show ?thesis
  proof (cases "pg_continued p")
    case True
    then obtain ys y where "out = ys @ [y]" using o by (metis append_butlast_last_id)
    then show ?thesis using True d by (simp add: join_def page_data_def)
  qed (simp add: join_def page_data_def)
qed

lemma foldl_join_data:
  "list_all (\<lambda>p. pg_packets p \<noteq> []) ps \<Longrightarrow> out \<noteq> [] \<or> ps = [] \<or> \<not> pg_continued (hd ps) \<Longrightarrow>
     sum_list (map length (foldl join out ps)) = sum_list (map length out) + sum_list (map page_data ps)"
proof (induction ps arbitrary: out)
  case (Cons p ps)
  have p: "pg_packets p \<noteq> []" "out \<noteq> [] \<or> \<not> pg_continued p" using Cons.prems by simp_all
  have "join out p \<noteq> []" using join_length [of p out] p(1) by auto
  then show ?case using Cons.IH [of "join out p"] Cons.prems(1) join_data [OF p] by simp
qed simp

lemma numbered_packets: "numbered s n ps \<Longrightarrow> list_all (\<lambda>p. pg_packets p \<noteq> []) ps"
  by (induction ps arbitrary: n) auto

lemma pages_bytes_size:
  "pages_ok pcs \<Longrightarrow>
     sum_list (map page_data (filter P (map fst pcs))) + 27 * length pcs \<le> length (pages_bytes pcs)"
proof (induction pcs)
  case (Cons pc pcs)
  obtain p crc where pc: "pc = (p, crc)" by (cases pc)
  have "27 + page_data p \<le> length (raw_page p crc)"
    using Cons.prems pc by (simp add: length_raw_page length_page_bytes page_data_def length_concat)
  then show ?case using Cons by (simp add: pc)
qed simp

lemma region_size:
  assumes "comment_region s n region" "pages_ok region"
  shows "sum_list (map length (region_packets s region)) + 27 * length region \<le> length (pages_bytes region)"
proof -
  let ?old = "filter (\<lambda>p. pg_serial p = s) (map fst region)"
  have n: "numbered s n ?old" "region \<noteq> []" "pg_serial (fst (hd region)) = s" "\<not> pg_continued (fst (hd region))"
    using assms(1) by (simp_all add: comment_region_def up_to_end_def)
  then have "\<not> pg_continued (hd ?old)" by (cases region) simp_all
  then have "sum_list (map length (region_packets s region)) = sum_list (map page_data ?old)"
    using foldl_join_data [OF numbered_packets [OF n(1)], of "[]"] by (simp add: region_packets_def)
  then show ?thesis using pages_bytes_size [OF assms(2), of "\<lambda>p. pg_serial p = s"] by simp
qed

lemma renumbered_others:
  "list_all (\<lambda>(p, _). pg_serial p \<noteq> s) xs \<Longrightarrow> renumbered s n (xs @ ys) = xs @ renumbered s n ys"
  by (induction xs) auto

lemma others_serial: "list_all (\<lambda>(p, _). pg_serial p \<noteq> s) (others s region)"
  by (auto simp: others_def list_all_iff)

lemma others_ok: "pages_ok region \<Longrightarrow> pages_ok (others s region)"
  by (auto simp: pages_ok_def others_def list_all_iff)

text \<open>The new pages can be stored.\<close>

lemma region_packets_ne:
  assumes "comment_region s n region" shows "region_packets s region \<noteq> []"
proof -
  obtain p ps where o: "filter (\<lambda>p. pg_serial p = s) (map fst region) = p # ps"
    by (rule region_first [OF assms]) simp
  then have "list_all (\<lambda>p. pg_packets p \<noteq> []) (p # ps)"
    using assms numbered_packets by (metis comment_region_def)
  moreover from this have "join [] p \<noteq> []" using join_length [of p "[]"] by auto
  ultimately show ?thesis using foldl_join_head by (auto simp: region_packets_def o)
qed

lemma adopted_storable:
  fixes k :: nat and new :: "ogg_page list"
  assumes "comment_region s n region" "pages_ok region"
    and "from_packets (d # tl (region_packets s region)) m 4096 2048 = Some (Inr new)"
    and "length (region_packets s region) \<le> 215" "n + int (length new) \<le> 2 ^ 32"
  defines "qs \<equiv> adopt_pages (filter (\<lambda>p. pg_serial p = s) (pages_at k region)) new"
  shows "list_all storable qs" "0 \<le> n"
proof -
  let ?old = "filter (\<lambda>p. pg_serial p = s) (pages_at k region)"
  note old = region_old [OF assms(1,2), of k]
  note q = comment_pages [OF old(1-5), unfolded old(6), OF assms(3), folded qs_def]
  obtain p crc rs where r: "region = (p, crc) # rs" "pg_serial p = s"
    by (rule region_first [OF assms(1)])
  then have "storable p" "pg_sequence p = n" using old(9) assms(2) by simp_all
  then have s: "u_fits 4 s" "0 \<le> n" using r by (auto simp: storable_def fields_fit_def u_fits_def)
  then show "0 \<le> n" by simp
  have l: "length (d # tl (region_packets s region)) \<le> 215"
    using assms(4) region_packets_ne [OF assms(1)] by (cases "region_packets s region") simp_all
  show "list_all storable qs"
    unfolding list_all_length
  proof (intro allI impI)
    fix i assume i: "i < length qs"
    then have i': "i < length new" by (simp add: qs_def)
    have f: "framed (qs ! i)" "pg_version (qs ! i) = 0" "few_flags (qs ! i)" "pg_position (qs ! i) \<in> {0, -1}"
      "pg_serial (qs ! i) = s" "pg_sequence (qs ! i) = n + int i"
      using q(2,3,6) i by (auto simp: list_all_length numbered_nth)
    have "pg_packets (qs ! i) = pg_packets (new ! i)" using adopt_nth(1) [OF q(1) i'] by (simp add: qs_def)
    moreover have "length (concat (map lacing_of (pg_packets (new ! i)))) \<le> 255"
      using from_packets_small [OF assms(3) l] i' by simp
    moreover have "length (lacing_data (qs ! i)) \<le> length (concat (map lacing_of (pg_packets (qs ! i))))"
      by (simp add: lacing_data_def Let_def)
    ultimately have "length (lacing_data (qs ! i)) \<le> 255" by simp
    moreover have "int i < int (length new)" using i' by simp
    ultimately show "storable (qs ! i)" using f s assms(5)
      by (auto simp: storable_def fields_fit_def u_fits_def s_fits_def few_flags_def)
  qed
qed

lemma mapR_write_pages:
  "list_all storable qs \<Longrightarrow> mapR write_page qs = Inr (map page_bytes qs)"
proof (induction qs)
  case (Cons q qs)
  have "write_page q = Inr (page_bytes q)" using Cons.prems by (simp add: write_page_iff storable_def)
  then show ?case using Cons by simp
qed simp

lemma pages_bytes_new: "pages_bytes (map (\<lambda>p. (p, page_sum p)) qs) = concat (map page_bytes qs)"
  by (induction qs) (simp_all add: page_bytes_raw)

text \<open>What \<open>put_comment\<close> leaves: the new pages carry the comment and the packets behind it.\<close>

definition comment_put ::
  "int \<Rightarrow> int \<Rightarrow> string \<Rightarrow> (ogg_page \<times> string) list \<Rightarrow> (ogg_page \<times> string) list
     \<Rightarrow> (ogg_page \<times> string) list \<Rightarrow> (ogg_page \<times> string) list \<Rightarrow> bool" where
  "comment_put s n d region tail new tail' \<longleftrightarrow>
     pages_ok new \<and> numbered s n (map fst new) \<and> chained False (map fst new)
   \<and> foldl join [] (map fst new) = d # tl (region_packets s region)
   \<and> list_ex page_ends (map fst new)
   \<and> tail' = (if length new = length region - length (others s region) then tail
              else renumbered s (n + int (length new)) tail)"

lemma put_comment_pages:
  assumes b: "fbytes f = pages_bytes heads @ pages_bytes region @ pages_bytes post"
    and ok: "pages_ok region" "pages_ok post" and r: "comment_region s n region"
    and small: "length (region_packets s region) \<le> 215" "n + int (length d + length (fbytes f)) < 2 ^ 32"
  defines "old \<equiv> filter (\<lambda>p. pg_serial p = s) (pages_at (length (pages_bytes heads)) region)"
  obtains g new tail' where "put_comment mm f old (Inr d) = (g, None)"
    "fbytes g = pages_bytes heads @ pages_bytes new @ pages_bytes (others s region) @ pages_bytes tail'"
    "comment_put s n d region post new tail'"
proof -
  let ?k = "length (pages_bytes heads)"
  define rest where "rest = tl (region_packets s region)"
  note old = region_old [OF r ok(1), of ?k, folded old_def]
  obtain ps where pk: "from_packets (d # rest) n 4096 2048 = Some (Inr ps)"
    using from_packets_pages [of 4096 "d # rest" n 2048] by auto
  define qs where "qs = adopt_pages old ps"
  note q = comment_pages [OF old(1-5), unfolded old(6), OF pk [unfolded rest_def], folded qs_def]
  have "length ps \<le> Suc (length d + sum_list (map length rest))" using from_packets_count [OF pk] by simp
  moreover have "sum_list (map length rest) \<le> sum_list (map length (region_packets s region))"
    unfolding rest_def by (cases "region_packets s region") simp_all
  moreover have "0 < length region" using r by (simp add: comment_region_def up_to_end_def)
  moreover have "length (others s region) \<le> length region" "length post \<le> length (pages_bytes post)"
    using pages_bytes_size [OF ok(2), of "\<lambda>_. True"] by (simp_all add: others_def)
  ultimately have count: "length ps + length (others s region) + length post \<le> length d + length (fbytes f)"
    using region_size [OF r ok(1)] unfolding b length_append by linarith
  then have n: "n + int (length ps) + int (length (others s region @ post)) \<le> 2 ^ 32" using small(2) by simp
  then have "n + int (length ps) \<le> 2 ^ 32" by simp
  note ad = adopted_storable [OF r ok(1) pk [unfolded rest_def] small(1) this]
  have st: "list_all storable qs" "0 \<le> n"
    using ad(1) [of ?k] ad(2) by (simp_all add: old_def qs_def)
  define new where "new = map (\<lambda>p. (p, page_sum p)) qs"
  have new: "map fst new = qs" "pages_ok new" "length new = length ps"
    using st(1) by (simp_all add: new_def comp_def pages_ok_def list_all_iff qs_def)
  have "length old + length (others s region) = length region"
    unfolding old_def length_filter_at others_def by (induction region) auto
  then have lenold: "length old = length region - length (others s region)" by simp
  obtain lead xs where g: "regroup s ?k region (pages_bytes post) = (lead, xs)" by fastforce
  have "lead = []" by (rule region_first [OF r]) (use g in \<open>auto simp: Let_def split: prod.splits\<close>)
  with regroup_result [OF ok(1) g] have x: "pages_bytes region @ pages_bytes post = placed_bytes xs"
    "placed ?k xs" "map fst xs = old" "gaps xs = pages_bytes (others s region @ post)"
    by (simp_all add: old_def others_def)
  have bx: "fbytes f = pages_bytes heads @ placed_bytes xs" using b x(1) by simp
  have nx: "xs \<noteq> []" "length xs = length old" using x(3) old(2) by auto
  have w: "mapR write_page (adopt_pages (map fst xs) ps) = Inr (map page_bytes qs)"
    using mapR_write_pages [OF st(1)] x(3) by (simp add: qs_def)
  obtain h where h: "fbytes h = pages_bytes heads @ concat (map page_bytes qs) @ gaps xs"
    "replace mm f old ps = (if length xs = length ps then (h, None)
       else renumber (h\<lparr>fpos := ?k + length (concat (map page_bytes qs))\<rparr>) (pg_serial (last qs))
              (pg_sequence (last qs) + 1))"
    by (rule replace_bytes [OF bx x(2) nx(1) q(1) w, unfolded x(3), folded qs_def, of mm])
  have put: "put_comment mm f old (Inr d) = replace mm f old ps"
    using to_packets_lenient [OF old(1-3)] pk old(6,9) by (simp add: put_comment_def rest_def)
  have nq: "length qs = length ps" by (simp add: qs_def)
  then have "qs \<noteq> []" using q(1) by auto
  then have l: "pg_serial (last qs) = s" "pg_sequence (last qs) + 1 = n + int (length ps)"
    using q(1,2) nq by (cases ps; simp add: numbered_nth last_conv_nth)+
  define tail' where "tail' = (if length ps = length old then post else renumbered s (n + int (length ps)) post)"
  have cp: "comment_put s n d region post new tail'"
    using new q(2,4,5,7) by (simp add: comment_put_def tail'_def lenold)
  have cb: "pages_bytes new = concat (map page_bytes qs)" by (simp add: new_def pages_bytes_new)
  show ?thesis
  proof (cases "length xs = length ps")
    case True
    then show ?thesis using h put x(3,4) nx(2) cb
      by (intro that [OF _ _ cp]) (auto simp: tail'_def)
  next
    case False
    let ?h = "h\<lparr>fpos := ?k + length (concat (map page_bytes qs))\<rparr>"
    have "fbytes ?h = (pages_bytes heads @ pages_bytes new) @ pages_bytes (others s region @ post) @ []"
      using h(1) x(4) cb by simp
    moreover have "fpos ?h = length (pages_bytes heads @ pages_bytes new)" using cb by simp
    moreover have "list_all (\<lambda>(p, crc). storable p \<and> length crc = 4) (others s region @ post)"
      using others_ok [OF ok(1)] ok(2) by (simp add: pages_ok_def)
    moreover have "0 \<le> n + int (length ps)" using st(2) by simp
    ultimately obtain g where g: "renumber ?h s (n + int (length ps)) = (g, None)"
      "fbytes g = (pages_bytes heads @ pages_bytes new)
         @ pages_bytes (renumbered s (n + int (length ps)) (others s region @ post)) @ []"
      using renumber_pages [of "others s region @ post" ?h "pages_bytes heads @ pages_bytes new" "[]"
          "n + int (length ps)" s] n by auto
    have "put_comment mm f old (Inr d) = (g, None)" using put h(2) g(1) x(3) l False by simp
    moreover have "fbytes g = pages_bytes heads @ pages_bytes new @ pages_bytes (others s region) @ pages_bytes tail'"
      using g(2) renumbered_others [OF others_serial] False nx(2) by (simp add: tail'_def)
    ultimately show ?thesis using that cp by blast
  qed
qed

end
