(* ===== verification/Ogg_Formats.thy ===== *)
theory Ogg_Formats
  imports Ogg_Inject Vorbis_Props
begin

text \<open>
  The interface of a format that keeps its comment on Ogg pages: where the pages are found for
  writing and for reading, and how a comment is packed. Under its laws a comment that was put into
  a file is the comment read from it. The four formats are its interpretations.
\<close>

section \<open>Reading a comment that was put\<close>

lemma join_ne: "pg_packets p \<noteq> [] \<Longrightarrow> join out p \<noteq> []"
  by (simp add: join_def)

lemma read_comment_put:
  assumes put: "comment_put s n d region post' new tail'"
    and b: "drop (fpos f) (fbytes f) = pages_bytes new @ post"
  obtains pages g packets where "collect_pages s [] f = (Inr pages, g)" "to_packets pages False = Inr packets"
    "packets \<noteq> []" "hd packets = d"
proof -
  have c: "pages_ok new" "numbered s n (map fst new)" "chained False (map fst new)"
    "foldl join [] (map fst new) = d # tl (region_packets s region)" "list_ex page_ends (map fst new)"
    using put by (simp_all add: comment_put_def)
  have "list_ex (\<lambda>(p, _). page_ends p) new" using c(5) by (simp add: list_ex_iff) fastforce
  then obtain us v ws where v: "new = us @ v # ws" "list_all (\<lambda>x. \<not> (case x of (p, _) \<Rightarrow> page_ends p)) us"
    "case v of (p, _) \<Rightarrow> page_ends p" by (rule first_end)
  let ?up = "us @ [v]"
  have s: "list_all (\<lambda>p. pg_serial p = s) (map fst new)"
    using c(2) by (auto simp: numbered_nth list_all_length)
  then have f: "filter (\<lambda>p. pg_serial p = s) (map fst ?up) = map fst ?up"
    using v(1) by (simp add: list_all_iff)
  have up: "up_to_end s ?up" using v s by (auto simp: up_to_end_def list_all_iff)
  let ?pages = "filter (\<lambda>p. pg_serial p = s) (pages_at (fpos f) ?up)"
  have "drop (fpos f) (fbytes f) = pages_bytes ?up @ (pages_bytes ws @ post)"
    using b v(1) by (cases v) simp
  from collect_pages_here [OF _ this up, of "[]"] c(1) v(1)
  have 1: "collect_pages s [] f = (Inr ?pages, f\<lparr>fpos := fpos f + length (pages_bytes ?up)\<rparr>)"
    by (cases v) simp
  have num: "numbered s n (map fst ?up)" using c(2) v(1) by simp
  then have 2: "numbered s n ?pages" using f by (simp only: numbered_at)
  have ne: "?pages \<noteq> []" using length_filter_at [of s "fpos f" ?up] unfolding f by fastforce
  have h: "\<not> pg_continued (fst (hd new))" using c(3) unfolding v(1) by (cases us) simp_all
  have hd: "pg_continued (hd ?pages) = pg_continued (fst (hd new))"
  proof -
    obtain p crc rest where r: "?up = (p, crc) # rest" "hd new = (p, crc)" "pg_serial p = s"
      using v(1) s by (cases us; cases v; cases "hd us") auto
    then show ?thesis by simp
  qed
  have 3: "to_packets ?pages False = Inr (foldl join [] ?pages)"
    by (rule to_packets_lenient [OF 2 ne]) (use h hd in simp)
  have j: "foldl join [] ?pages = foldl join [] (map fst us @ [fst v])"
    unfolding foldl_join_at f by simp
  have "hd (foldl join [] (map fst us @ fst v # map fst ws)) = hd (foldl join [] (map fst us @ [fst v]))"
    using c(2,3) v(3) numbered_packets [OF c(2)] unfolding v(1)
    by (intro foldl_join_stable [where c = False]) (auto simp: case_prod_beta)
  then have "hd (foldl join [] ?pages) = d" using c(4) unfolding j v(1) by simp
  moreover have "foldl join [] ?pages \<noteq> []"
  proof -
    have "pg_packets (fst v) \<noteq> []" using numbered_packets [OF num] by simp
    then show ?thesis unfolding j by (simp add: join_ne)
  qed
  ultimately show ?thesis using that 1 3 by blast
qed

text \<open>The first of the new pages starts with the mark the comment starts with.\<close>

definition marked :: "string \<Rightarrow> ogg_page \<Rightarrow> bool" where
  "marked mark p \<longleftrightarrow> pg_packets p \<noteq> [] \<and> startswith (hd (pg_packets p)) mark"

definition unmarked :: "string \<Rightarrow> ogg_page \<Rightarrow> bool" where
  "unmarked mark p \<longleftrightarrow> pg_packets p \<noteq> [] \<and> \<not> startswith (hd (pg_packets p)) mark"

lemma startswith_prefix: "startswith s t \<longleftrightarrow> prefix t s"
  by (metis append_eq_conv_conj prefixE prefixI startswith_def append_take_drop_id)

lemma comment_put_marked:
  assumes put: "comment_put s n d region post' new tail'" and "startswith d tag" "length tag \<le> 255"
  obtains q c rest where "new = (q, c) # rest" "marked tag q" "pg_serial q = s"
proof -
  have c: "pages_ok new" "numbered s n (map fst new)" "chained False (map fst new)"
    "foldl join [] (map fst new) = d # tl (region_packets s region)"
    using put by (simp_all add: comment_put_def)
  then obtain q c' rest where n: "new = (q, c') # rest" by (cases new) auto
  have q: "framed q" "pg_packets q \<noteq> []" "pg_serial q = s" using c(1,2) n by (simp_all add: storable_def)
  have "hd (foldl join [] (q # map fst rest)) = d" using c(4) n by simp
  note p = first_piece [OF _ _ q(1) this]
  have "prefix (hd (pg_packets q)) d" "hd (pg_packets q) = d \<or> 255 \<le> length (hd (pg_packets q))"
    using p c(3) numbered_packets [OF c(2)] n by simp_all
  moreover have "prefix tag d" using assms(2) by (simp add: startswith_prefix)
  ultimately have "prefix tag (hd (pg_packets q))" using assms(3) by (auto intro: prefix_length_prefix)
  then show ?thesis using that n q by (simp add: marked_def startswith_prefix)
qed

section \<open>The layout of a stream\<close>

text \<open>
  The page with the mark of the format and the pages in front of the comment: \<open>us\<close> before it, \<open>ms\<close>
  behind it, which belong to other streams.
\<close>

definition headers ::
  "string \<Rightarrow> string \<Rightarrow> int \<Rightarrow> (ogg_page \<times> string) list \<Rightarrow> ogg_page \<Rightarrow> (ogg_page \<times> string) list \<Rightarrow> bool" where
  "headers mark tag s us p ms \<longleftrightarrow>
     list_all (\<lambda>(q, _). unmarked mark q \<and> (tag \<noteq> [] \<longrightarrow> unmarked tag q)) us
   \<and> marked mark p \<and> pg_serial p = s \<and> pg_first p \<and> (tag \<noteq> [] \<longrightarrow> unmarked tag p)
   \<and> list_all (\<lambda>(q, _). pg_serial q \<noteq> s \<and> (tag \<noteq> [] \<longrightarrow> unmarked tag q)) ms"

lemma first_packet_offset [simp]: "first_packet (p\<lparr>pg_offset := x\<rparr>) = first_packet p"
  by (simp add: first_packet_def)

lemma pg_first_offset [simp]: "pg_first (p\<lparr>pg_offset := x\<rparr>) = pg_first p"
  by (simp add: pg_first_def)

lemma first_packet_marked:
  "marked mark p \<Longrightarrow> bindR (first_packet p) (\<lambda>d. Inr (startswith d mark)) = Inr True"
  "unmarked mark p \<Longrightarrow> bindR (first_packet p) (\<lambda>d. Inr (startswith d mark)) = Inr False"
  by (cases "pg_packets p"; simp add: marked_def unmarked_def first_packet_def)+

lemma find_packet_here:
  assumes "pages_ok (us @ [(p, crc)])" "drop (fpos f) (fbytes f) = pages_bytes us @ raw_page p crc @ post"
    and "list_all (\<lambda>(q, _). unmarked mark q) us" "marked mark p"
  shows "find_packet mark f = (Inr (p\<lparr>pg_offset := Some (fpos f + length (pages_bytes us))\<rparr>),
    f\<lparr>fpos := fpos f + length (pages_bytes us) + length (raw_page p crc)\<rparr>)"
proof -
  have "list_all (\<lambda>(q, _). \<forall>o'. bindR (first_packet (q\<lparr>pg_offset := o'\<rparr>)) (\<lambda>d. Inr (startswith d mark)) = Inr False) us"
    using assms(3) first_packet_marked(2) [of mark] by (auto simp: list_all_iff)
  from read_until_pages [OF _ _ _ assms(2) this] show ?thesis
    using assms(1) first_packet_marked(1) [OF assms(4)] by (simp add: find_packet_def)
qed

text \<open>Reading the first page of a comment is reading on from it.\<close>

lemma collect_first:
  assumes "storable q" "length c = 4" "drop (fpos f) (fbytes f) = raw_page q c @ post" "pg_serial q = s"
  shows "collect_pages s [] f =
    collect_pages s [q\<lparr>pg_offset := Some (fpos f)\<rparr>] (f\<lparr>fpos := fpos f + length (raw_page q c)\<rparr>)"
  using read_raw_page(1) [OF assms(1-3)] assms(4) by (subst collect_pages.simps) simp

text \<open>A file in which the comment starts with the page \<open>q\<close>.\<close>

definition comment_at ::
  "string \<Rightarrow> string \<Rightarrow> int \<Rightarrow> (ogg_page \<times> string) list \<Rightarrow> ogg_page \<Rightarrow> string \<Rightarrow> (ogg_page \<times> string) list
     \<Rightarrow> ogg_page \<Rightarrow> string \<Rightarrow> fobj \<Rightarrow> bool" where
  "comment_at mark tag s us p crc ms q c f \<longleftrightarrow>
     headers mark tag s us p ms \<and> pages_ok (us @ (p, crc) # ms @ [(q, c)])
   \<and> marked tag q \<and> pg_serial q = s
   \<and> prefix (pages_bytes (us @ (p, crc) # ms) @ raw_page q c) (fbytes f)"

section \<open>The interface\<close>

locale comment_format =
  fixes mark tag :: string
    and find :: "fobj \<Rightarrow> (merr + ogg_page list) \<times> fobj"
    and reader :: "int \<Rightarrow> fobj \<Rightarrow> (merr + ogg_page list) \<times> fobj"
    and pack :: "vcomment \<Rightarrow> merr + string"
    and unpack :: "(vc_errors \<Rightarrow> string \<Rightarrow> unicode) \<Rightarrow> string \<Rightarrow> merr + vcomment"
    and decodes :: "ogg_page \<Rightarrow> bool"
  assumes find_pages:
      "comment_at mark tag s us p crc ms q c f \<Longrightarrow> decodes p \<Longrightarrow> fpos f = 0 \<Longrightarrow>
       find f = collect_pages s [] (f\<lparr>fpos := length (pages_bytes (us @ (p, crc) # ms))\<rparr>)"
    and reader_pages:
      "comment_at mark tag s us p crc ms q c f \<Longrightarrow> fpos f = length (pages_bytes (us @ [(p, crc)])) \<Longrightarrow>
       reader s f = collect_pages s [] (f\<lparr>fpos := length (pages_bytes (us @ (p, crc) # ms))\<rparr>)"
    and pack_unpack:
      "clean_comment cm \<Longrightarrow> pack cm = Inr d \<Longrightarrow> startswith d tag \<and> unpack lossy d = Inr cm"
    and short_tag: "length tag \<le> 255"
begin

lemma comment_saved:
  assumes h: "headers mark tag s us p ms" "decodes p" and ok: "pages_ok (us @ (p, crc) # ms)" "pages_ok region" "pages_ok post"
    and r: "comment_region s n region" "marked tag (fst (hd region))"
    and b: "fbytes f = pages_bytes (us @ (p, crc) # ms) @ pages_bytes region @ pages_bytes post"
    and c: "clean_comment c" "pack c = Inr d"
    and small: "length (region_packets s region) \<le> 215" "n + int (length d + length (fbytes f)) < 2 ^ 32"
  obtains g new post' q k where "inject_with find pack mm c f = (g, None)"
    "fbytes g = pages_bytes (us @ (p, crc) # ms) @ pages_bytes new @ pages_bytes (others s region) @ pages_bytes post'"
    "comment_put s n d region post new post'" "comment_at mark tag s us p crc ms q k g"
    "\<And>h. fbytes h = fbytes g \<Longrightarrow> fpos h = length (pages_bytes (us @ [(p, crc)])) \<Longrightarrow>
       fst (read_comment (unpack lossy) (reader s h)) = Inr c"
proof -
  let ?heads = "us @ (p, crc) # ms" and ?k = "length (pages_bytes (us @ (p, crc) # ms))"
  let ?f = "f\<lparr>fpos := 0\<rparr>" and ?old = "filter (\<lambda>p. pg_serial p = s) (pages_at (length (pages_bytes (us @ (p, crc) # ms))) region)"
  obtain q k rest where q: "region = (q, k) # rest" "pg_serial q = s" by (rule region_first [OF r(1)])
  have "comment_at mark tag s us p crc ms q k ?f"
    using h(1) ok(1,2) r(2) b q by (simp add: comment_at_def)
  then have "find ?f = collect_pages s [] (?f\<lparr>fpos := ?k\<rparr>)" by (rule find_pages [OF _ h(2)]) simp
  also have "\<dots> = (Inr ?old, f\<lparr>fpos := ?k + length (pages_bytes region)\<rparr>)"
    using collect_pages_here [OF ok(2), of "?f\<lparr>fpos := ?k\<rparr>" "pages_bytes post" s "[]"] r(1) b
    by (simp add: comment_region_def)
  finally have find: "find ?f = (Inr ?old, f\<lparr>fpos := ?k + length (pages_bytes region)\<rparr>)" .
  obtain g new post' where g: "put_comment mm (f\<lparr>fpos := ?k + length (pages_bytes region)\<rparr>) ?old (Inr d) = (g, None)"
    "fbytes g = pages_bytes ?heads @ pages_bytes new @ pages_bytes (others s region) @ pages_bytes post'"
    "comment_put s n d region post new post'"
    using put_comment_pages [of "f\<lparr>fpos := ?k + length (pages_bytes region)\<rparr>" ?heads region post s n d mm]
      b ok(2,3) r(1) small by auto
  have pu: "startswith d tag" "unpack lossy d = Inr c" using pack_unpack [OF c] by simp_all
  obtain q' k' rest' where q': "new = (q', k') # rest'" "marked tag q'" "pg_serial q' = s"
    by (rule comment_put_marked [OF g(3) pu(1) short_tag])
  have "pages_ok new" using g(3) by (simp add: comment_put_def)
  then have at: "comment_at mark tag s us p crc ms q' k' g"
    using h(1) ok(1) q' g(2) by (simp add: comment_at_def)
  have "fst (read_comment (unpack lossy) (reader s h)) = Inr c"
    if hh: "fbytes h = fbytes g" "fpos h = length (pages_bytes (us @ [(p, crc)]))" for h
  proof -
    let ?h = "h\<lparr>fpos := ?k\<rparr>"
    have "comment_at mark tag s us p crc ms q' k' h" using at hh(1) by (simp add: comment_at_def)
    from reader_pages [OF this hh(2)] have rd: "reader s h = collect_pages s [] ?h" .
    have "drop (fpos ?h) (fbytes ?h) = pages_bytes new @ (pages_bytes (others s region) @ pages_bytes post')"
      using hh(1) g(2) by simp
    from read_comment_put [OF g(3) this] obtain pages j packets where
      "collect_pages s [] ?h = (Inr pages, j)" "to_packets pages False = Inr packets" "packets \<noteq> []" "hd packets = d"
      by blast
    then show ?thesis using pu(2) rd by (cases packets) (simp_all add: read_comment_def)
  qed
  moreover have "inject_with find pack mm c f = (g, None)" using find g(1) c(2) by (simp add: inject_with_def)
  ultimately show ?thesis using that g(2,3) at by blast
qed

end

end
