(* ===== verification/Ogg_Format_Props.thy ===== *)
theory Ogg_Format_Props
  imports Ogg_Formats
begin

text \<open>
  Ogg Vorbis, Speex, Theora and Opus as interpretations of the interface \<open>comment_format\<close>, and the
  properties of their files: a saved comment is loaded again, the rest of the file stays, and what
  loading and saving can raise.
\<close>

section \<open>Finding the comment\<close>

lemma here: "fpos f = length a \<Longrightarrow> fbytes f = a @ b \<Longrightarrow> drop (fpos f) (fbytes f) = b"
  by simp

text \<open>Pages of other streams are passed over.\<close>

lemma collect_skip:
  "pages_ok ms \<Longrightarrow> list_all (\<lambda>(q, _). pg_serial q \<noteq> s) ms \<Longrightarrow>
     drop (fpos f) (fbytes f) = pages_bytes ms @ post \<Longrightarrow>
     collect_pages s [] f = collect_pages s [] (f\<lparr>fpos := fpos f + length (pages_bytes ms)\<rparr>)"
proof (induction ms arbitrary: f)
  case (Cons m ms)
  obtain q c where m: "m = (q, c)" by (cases m)
  have q: "storable q" "length c = 4" "pages_ok ms" "list_all (\<lambda>(q, _). pg_serial q \<noteq> s) ms" "pg_serial q \<noteq> s"
    using Cons.prems(1,2) m by simp_all
  have "drop (fpos f) (fbytes f) = raw_page q c @ (pages_bytes ms @ post)" using Cons.prems(3) m by simp
  note r = read_raw_page [OF q(1,2) this]
  let ?f = "f\<lparr>fpos := fpos f + length (raw_page q c)\<rparr>"
  have "collect_pages s [] f = collect_pages s [] ?f" using r(1) q(5) by (subst collect_pages.simps) simp
  also have "\<dots> = collect_pages s [] (?f\<lparr>fpos := fpos ?f + length (pages_bytes ms)\<rparr>)"
    by (rule Cons.IH [OF q(3,4)]) (use r(2) in simp)
  finally show ?case by (simp add: m add.assoc)
qed simp

lemma comment_atD:
  assumes "comment_at mark tag s us p crc ms q c f"
  obtains post where "fbytes f = pages_bytes us @ raw_page p crc @ pages_bytes ms @ raw_page q c @ post"
    "pages_ok us" "storable p" "length crc = 4" "pages_ok ms" "storable q" "length c = 4"
    "marked mark p" "pg_first p" "pg_serial p = s" "marked tag q" "pg_serial q = s"
    "list_all (\<lambda>(q, _). unmarked mark q) us" "list_all (\<lambda>(q, _). pg_serial q \<noteq> s) ms"
    "tag \<noteq> [] \<Longrightarrow> list_all (\<lambda>(q, _). unmarked tag q) (us @ (p, crc) # ms)"
proof -
  have "headers mark tag s us p ms" using assms by (simp add: comment_at_def)
  then have "tag \<noteq> [] \<Longrightarrow> list_all (\<lambda>(q, _). unmarked tag q) (us @ (p, crc) # ms)"
    "list_all (\<lambda>(q, _). unmarked mark q) us" "list_all (\<lambda>(q, _). pg_serial q \<noteq> s) ms"
    "marked mark p" "pg_first p" "pg_serial p = s"
    by (auto simp add: headers_def list_all_iff case_prod_beta)
  moreover obtain post where
    "fbytes f = pages_bytes us @ raw_page p crc @ pages_bytes ms @ raw_page q c @ post"
    using assms by (auto simp: comment_at_def elim!: prefixE)
  ultimately show ?thesis using assms that [of post] by (simp add: comment_at_def)
qed

lemma collect_behind:
  assumes "comment_at mark tag s us p crc ms q c f" "fpos f = length (pages_bytes (us @ [(p, crc)]))"
  shows "collect_pages s [] f = collect_pages s [] (f\<lparr>fpos := length (pages_bytes (us @ (p, crc) # ms))\<rparr>)"
proof (rule comment_atD [OF assms(1)], goal_cases)
  case (1 post)
  then have "drop (fpos f) (fbytes f) = pages_bytes ms @ (raw_page q c @ post)" using assms(2) by simp
  from collect_skip [OF 1(5,14) this] assms(2) show ?case by (simp add: add.assoc)
qed

text \<open>The page with the format's mark.\<close>

lemma find_mark:
  assumes "comment_at mark tag s us p crc ms q c f" "fpos f = 0"
  shows "find_packet mark f = (Inr (p\<lparr>pg_offset := Some (length (pages_bytes us))\<rparr>),
    f\<lparr>fpos := length (pages_bytes (us @ [(p, crc)]))\<rparr>)"
proof (rule comment_atD [OF assms(1)], goal_cases)
  case (1 post)
  then have "drop (fpos f) (fbytes f) = pages_bytes us @ raw_page p crc @ (pages_bytes ms @ raw_page q c @ post)"
    "pages_ok (us @ [(p, crc)])" using assms(2) by simp_all
  from find_packet_here [OF this(2,1) 1(13,8)] assms(2) show ?case by simp
qed

text \<open>Vorbis and Theora look for the mark of the comment itself.\<close>

lemma marked_pages_find:
  assumes "comment_at mark tag s us p crc ms q c f" "fpos f = 0" "tag \<noteq> []"
  shows "marked_pages tag f = collect_pages s [] (f\<lparr>fpos := length (pages_bytes (us @ (p, crc) # ms))\<rparr>)"
proof (rule comment_atD [OF assms(1)], goal_cases)
  case (1 post)
  let ?us = "us @ (p, crc) # ms" and ?f = "f\<lparr>fpos := length (pages_bytes (us @ (p, crc) # ms))\<rparr>"
  have "drop (fpos f) (fbytes f) = pages_bytes ?us @ raw_page q c @ post" "pages_ok (?us @ [(q, c)])"
    using 1 assms(2) by simp_all
  from find_packet_here [OF this(2,1) 1(15) [OF assms(3)] 1(11)] assms(2) 1(12)
  have "marked_pages tag f = collect_pages s [q\<lparr>pg_offset := Some (fpos ?f)\<rparr>] (?f\<lparr>fpos := fpos ?f + length (raw_page q c)\<rparr>)"
    by (simp add: marked_pages_def add.assoc)
  moreover have "drop (fpos ?f) (fbytes ?f) = raw_page q c @ post" using 1(1) by simp
  ultimately show ?case using collect_first [OF 1(6,7) _ 1(12)] by metis
qed

text \<open>Speex takes the next page of the stream.\<close>

lemma speex_pages_find:
  assumes "comment_at speex_mark [] s us p crc ms q c f" "fpos f = 0"
  shows "speex_pages f = collect_pages s [] (f\<lparr>fpos := length (pages_bytes (us @ (p, crc) # ms))\<rparr>)"
proof (rule comment_atD [OF assms(1)], goal_cases)
  case (1 post)
  let ?f = "f\<lparr>fpos := length (pages_bytes (us @ [(p, crc)]))\<rparr>"
    and ?g = "f\<lparr>fpos := length (pages_bytes (us @ (p, crc) # ms))\<rparr>"
  have "drop (fpos ?f) (fbytes ?f) = pages_bytes ms @ raw_page q c @ post" using 1(1) by simp
  from read_until_pages [OF 1(5-7) this, of "\<lambda>page. Inr (pg_serial page = s)"] 1(12,14)
  have "read_until (\<lambda>page. Inr (pg_serial page = s)) ?f = (Inr (q\<lparr>pg_offset := Some (fpos ?g)\<rparr>),
      ?g\<lparr>fpos := fpos ?g + length (raw_page q c)\<rparr>)" by (simp add: add.assoc)
  then have "speex_pages f = collect_pages s [q\<lparr>pg_offset := Some (fpos ?g)\<rparr>] (?g\<lparr>fpos := fpos ?g + length (raw_page q c)\<rparr>)"
    using find_mark [OF assms] 1(10,12) by (simp add: speex_pages_def)
  moreover have "drop (fpos ?g) (fbytes ?g) = raw_page q c @ post" using 1(1) by simp
  ultimately show ?case using collect_first [OF 1(6,7) _ 1(12)] by metis
qed

text \<open>Opus looks for the mark of the comment in its own stream.\<close>

lemma opus_pages_here:
  assumes "comment_at mark opus_comment_mark s us p crc ms q c f" "fpos f = length (pages_bytes (us @ [(p, crc)]))"
  shows "opus_pages s f = collect_pages s [] (f\<lparr>fpos := length (pages_bytes (us @ (p, crc) # ms))\<rparr>)"
proof (rule comment_atD [OF assms(1)], goal_cases)
  case (1 post)
  let ?g = "f\<lparr>fpos := length (pages_bytes (us @ (p, crc) # ms))\<rparr>"
  let ?P = "\<lambda>page. if s \<noteq> pg_serial page then Inr False
    else bindR (first_packet page) (\<lambda>d. Inr (startswith d opus_comment_mark))"
  have "drop (fpos f) (fbytes f) = pages_bytes ms @ raw_page q c @ post" using 1(1) assms(2) by simp
  moreover have "list_all (\<lambda>(q, _). \<forall>o'. ?P (q\<lparr>pg_offset := o'\<rparr>) = Inr False) ms"
    using 1(14) by (auto simp: list_all_iff)
  moreover have "?P (q\<lparr>pg_offset := o'\<rparr>) = Inr True" for o'
    using 1(12) first_packet_marked(1) [OF 1(11)] by simp
  ultimately have "read_until ?P f = (Inr (q\<lparr>pg_offset := Some (fpos f + length (pages_bytes ms))\<rparr>),
      f\<lparr>fpos := fpos f + length (pages_bytes ms) + length (raw_page q c)\<rparr>)"
    using 1(5-7) by (intro read_until_pages) auto
  then have "opus_pages s f = collect_pages s [q\<lparr>pg_offset := Some (fpos ?g)\<rparr>] (?g\<lparr>fpos := fpos ?g + length (raw_page q c)\<rparr>)"
    using assms(2) 1(12) by (simp add: opus_pages_def add.assoc)
  moreover have "drop (fpos ?g) (fbytes ?g) = raw_page q c @ post" using 1(1) by simp
  ultimately show ?case using collect_first [OF 1(6,7) _ 1(12)] by metis
qed

section \<open>The four formats\<close>

lemma comment_of_written:
  assumes "clean_comment c" "vc_write framing c = Inr data"
  shows "comment_of lossy framing (data @ rest) = Inr c"
  using load_written [OF assms, of lossy Replace new_comment rest]
  by (cases c) (simp add: comment_of_def new_comment_def)

lemma vc_write_framed: "vc_write False c = Inr data \<Longrightarrow> vc_write True c = Inr (data @ [CHR 0x01])"
  by (auto simp: vc_write_def bindR_Inr_iff)

definition vorbis_decodes :: "ogg_page \<Rightarrow> bool" where
  "vorbis_decodes p \<longleftrightarrow> \<not> isl (vorbis_decode p (hd (pg_packets p)))"

definition speex_decodes :: "ogg_page \<Rightarrow> bool" where
  "speex_decodes p \<longleftrightarrow> \<not> isl (speex_decode p (hd (pg_packets p)))"

definition theora_decodes :: "ogg_page \<Rightarrow> bool" where
  "theora_decodes p \<longleftrightarrow> \<not> isl (theora_decode p (hd (pg_packets p)))"

definition opus_decodes :: "ogg_page \<Rightarrow> bool" where
  "opus_decodes p \<longleftrightarrow> \<not> isl (opus_decode p (hd (pg_packets p)))"

lemma mark_lengths:
  "vorbis_comment_mark \<noteq> []" "theora_comment_mark \<noteq> []" "length vorbis_comment_mark \<le> 255"
  "length theora_comment_mark \<le> 255" "length opus_comment_mark \<le> 255" "length [] \<le> 255"
  by (simp_all add: vorbis_comment_mark_def theora_comment_mark_def opus_comment_mark_def)

interpretation vorbis: comment_format vorbis_mark vorbis_comment_mark "marked_pages vorbis_comment_mark"
  "\<lambda>s. collect_pages s []" vorbis_pack vorbis_unpack vorbis_decodes
proof unfold_locales
  fix c d lossy
  assume "clean_comment c" "vorbis_pack c = Inr d"
  then show "startswith d vorbis_comment_mark \<and> vorbis_unpack lossy d = Inr c"
    using comment_of_written [of c True _ lossy "[]"]
    by (auto simp: vorbis_pack_def vorbis_unpack_def bindR_Inr_iff vorbis_comment_mark_def startswith_def)
qed (assumption | rule collect_behind marked_pages_find mark_lengths)+

interpretation speex: comment_format speex_mark "[]" speex_pages "\<lambda>s. collect_pages s []" "vc_write False"
  speex_unpack speex_decodes
proof unfold_locales
  fix c d lossy
  assume "clean_comment c" "vc_write False c = Inr d"
  then show "startswith d [] \<and> speex_unpack lossy d = Inr c"
    by (simp add: speex_unpack_def comment_of_written startswith_def)
qed (assumption | rule collect_behind speex_pages_find mark_lengths)+

interpretation theora: comment_format theora_mark theora_comment_mark "marked_pages theora_comment_mark"
  "\<lambda>s. collect_pages s []" theora_pack theora_unpack theora_decodes
proof unfold_locales
  fix c d lossy
  assume "clean_comment c" "theora_pack c = Inr d"
  then show "startswith d theora_comment_mark \<and> theora_unpack lossy d = Inr c"
    using comment_of_written [OF _ vc_write_framed, of c _ lossy "[]"]
    by (auto simp: theora_pack_def theora_unpack_def bindR_Inr_iff theora_comment_mark_def startswith_def)
qed (assumption | rule collect_behind marked_pages_find mark_lengths)+

text \<open>Opus reads the stream information again before it writes.\<close>

lemma read_info_here:
  assumes "comment_at mark tag s us p crc ms q c f" "fpos f = 0"
  shows "read_info mark err decode f =
    (decode (p\<lparr>pg_offset := Some (length (pages_bytes us))\<rparr>) (hd (pg_packets p)),
     f\<lparr>fpos := length (pages_bytes (us @ [(p, crc)]))\<rparr>)"
proof (rule comment_atD [OF assms(1)], goal_cases)
  case (1 post)
  then have "first_packet p = Inr (hd (pg_packets p))"
    by (cases "pg_packets p") (simp_all add: marked_def first_packet_def)
  then show ?case using find_mark [OF assms] 1(9) by (simp add: read_info_def)
qed

lemma serial_offset: "pg_serial (p\<lparr>pg_offset := x\<rparr>) = pg_serial p"
  by simp

lemma decode_offset:
  "vorbis_decode (p\<lparr>pg_offset := x\<rparr>) = vorbis_decode p" "speex_decode (p\<lparr>pg_offset := x\<rparr>) = speex_decode p"
  "theora_decode (p\<lparr>pg_offset := x\<rparr>) = theora_decode p" "opus_decode (p\<lparr>pg_offset := x\<rparr>) = opus_decode p"
  unfolding vorbis_decode_def speex_decode_def theora_decode_def opus_decode_def fun_eq_iff serial_offset
  by (rule allI refl)+

lemma opus_serial: "opus_decode p d = Inr i \<Longrightarrow> op_serial i = pg_serial p"
  by (auto simp: opus_decode_def Let_def bindR_Inr_iff split: if_splits)

lemma opus_find_pages:
  assumes "comment_at opus_mark opus_comment_mark s us p crc ms q c f" "opus_decodes p" "fpos f = 0"
  shows "opus_find f = collect_pages s [] (f\<lparr>fpos := length (pages_bytes (us @ (p, crc) # ms))\<rparr>)"
proof -
  let ?f = "f\<lparr>fpos := length (pages_bytes (us @ [(p, crc)]))\<rparr>"
  obtain i where i: "opus_decode p (hd (pg_packets p)) = Inr i"
    using assms(2) by (auto simp: opus_decodes_def isl_def) (metis sum.collapse(2) sum.exhaust)
  have "pg_serial p = s" by (rule comment_atD [OF assms(1)])
  then have "op_serial i = s" using opus_serial [OF i] by simp
  moreover have "opus_info f = (Inr i, ?f)"
    using read_info_here [OF assms(1,3), of OggOpusHeaderError opus_decode] i by (simp add: opus_info_def decode_offset(4))
  moreover have "comment_at opus_mark opus_comment_mark s us p crc ms q c ?f"
    using assms(1) by (simp add: comment_at_def)
  from opus_pages_here [OF this] have "opus_pages s ?f = collect_pages s [] (f\<lparr>fpos := length (pages_bytes (us @ (p, crc) # ms))\<rparr>)"
    by simp
  ultimately show ?thesis by (simp add: opus_find_def)
qed

interpretation opus: comment_format opus_mark opus_comment_mark opus_find opus_pages opus_pack
  opus_unpack opus_decodes
proof unfold_locales
  fix c d lossy
  assume "clean_comment c" "opus_pack c = Inr d"
  then show "startswith d opus_comment_mark \<and> opus_unpack lossy d = Inr c"
    using comment_of_written [of c False _ lossy "[]"]
    by (auto simp: opus_pack_def opus_unpack_def bindR_Inr_iff opus_comment_mark_def startswith_def)
qed (assumption | rule opus_pages_here opus_find_pages mark_lengths)+

section \<open>Files\<close>

datatype ogg_format = OggVorbis | OggSpeex | OggTheora | OggOpus

fun format_mark :: "ogg_format \<Rightarrow> string" where
  "format_mark OggVorbis = vorbis_mark"
| "format_mark OggSpeex = speex_mark"
| "format_mark OggTheora = theora_mark"
| "format_mark OggOpus = opus_mark"

fun comment_mark :: "ogg_format \<Rightarrow> string" where
  "comment_mark OggVorbis = vorbis_comment_mark"
| "comment_mark OggSpeex = []"
| "comment_mark OggTheora = theora_comment_mark"
| "comment_mark OggOpus = opus_comment_mark"

fun format_decodes :: "ogg_format \<Rightarrow> ogg_page \<Rightarrow> bool" where
  "format_decodes OggVorbis = vorbis_decodes"
| "format_decodes OggSpeex = speex_decodes"
| "format_decodes OggTheora = theora_decodes"
| "format_decodes OggOpus = opus_decodes"

fun format_pack :: "ogg_format \<Rightarrow> vcomment \<Rightarrow> merr + string" where
  "format_pack OggVorbis = vorbis_pack"
| "format_pack OggSpeex = vc_write False"
| "format_pack OggTheora = theora_pack"
| "format_pack OggOpus = opus_pack"

fun format_inject :: "ogg_format \<Rightarrow> bool \<Rightarrow> vcomment \<Rightarrow> fobj \<Rightarrow> fobj \<times> merr option" where
  "format_inject OggVorbis = vorbis_inject"
| "format_inject OggSpeex = speex_inject"
| "format_inject OggTheora = theora_inject"
| "format_inject OggOpus = opus_inject"

text \<open>The comment that loading a file reads: the stream information, then the tags.\<close>

definition tags_after ::
  "(fobj \<Rightarrow> (merr + 'i) \<times> fobj) \<Rightarrow> ('i \<Rightarrow> fobj \<Rightarrow> (merr + vcomment) \<times> fobj) \<Rightarrow> string \<Rightarrow> merr + vcomment" where
  "tags_after info tags data =
     (case info (open_file data) of (Inl e, _) \<Rightarrow> Inl e | (Inr i, f) \<Rightarrow> fst (tags i f))"

fun format_tags :: "ogg_format \<Rightarrow> (vc_errors \<Rightarrow> string \<Rightarrow> unicode) \<Rightarrow> string \<Rightarrow> merr + vcomment" where
  "format_tags OggVorbis lossy = tags_after vorbis_info (vorbis_tags lossy)"
| "format_tags OggSpeex lossy = tags_after speex_info (speex_tags lossy)"
| "format_tags OggTheora lossy = tags_after theora_info (theora_tags lossy)"
| "format_tags OggOpus lossy = tags_after opus_info (opus_tags lossy)"

lemma decode_serial:
  "vorbis_decode p d = Inr i \<Longrightarrow> ov_serial i = pg_serial p"
  "speex_decode p d = Inr j \<Longrightarrow> sx_serial j = pg_serial p"
  "theora_decode p d = Inr k \<Longrightarrow> th_serial k = pg_serial p"
  by (auto simp: vorbis_decode_def speex_decode_def theora_decode_def Let_def bindR_Inr_iff split: if_splits)

lemma tags_after_here:
  assumes "comment_at mark tag s us p crc ms q c (open_file data)" "\<not> isl (decode p (hd (pg_packets p)))"
    and "decode (p\<lparr>pg_offset := Some (length (pages_bytes us))\<rparr>) = decode p"
    and "\<And>i. decode p (hd (pg_packets p)) = Inr i \<Longrightarrow> tags i f = read_comment u (reader s f)"
    and "f = \<lparr>fbytes = data, fpos = length (pages_bytes (us @ [(p, crc)]))\<rparr>"
  shows "tags_after (read_info mark err decode) tags data = fst (read_comment u (reader s f))"
proof -
  obtain i where i: "decode p (hd (pg_packets p)) = Inr i"
    using assms(2) by (auto simp: isl_def) (metis sum.exhaust)
  have "(open_file data)\<lparr>fpos := length (pages_bytes (us @ [(p, crc)]))\<rparr> = f" "fpos (open_file data) = 0"
    using assms(5) by (simp_all add: open_file_def)
  from read_info_here [OF assms(1) this(2), of err decode] this(1)
  have "read_info mark err decode (open_file data) = (Inr i, f)" by (simp only: assms(3) i)
  then show ?thesis using assms(4) [OF i] by (simp add: tags_after_def)
qed

lemma tags_after_format:
  assumes "comment_at (format_mark F) (comment_mark F) s us p crc ms q c (open_file data)" "format_decodes F p"
    and "f = \<lparr>fbytes = data, fpos = length (pages_bytes (us @ [(p, crc)]))\<rparr>"
  shows "format_tags F lossy data =
    (case F of
       OggVorbis \<Rightarrow> fst (read_comment (vorbis_unpack lossy) (collect_pages s [] f))
     | OggSpeex \<Rightarrow> fst (read_comment (speex_unpack lossy) (collect_pages s [] f))
     | OggTheora \<Rightarrow> fst (read_comment (theora_unpack lossy) (collect_pages s [] f))
     | OggOpus \<Rightarrow> fst (read_comment (opus_unpack lossy) (opus_pages s f)))"
proof -
  have s: "pg_serial p = s" by (rule comment_atD [OF assms(1)])
  show ?thesis
  proof (cases F)
    case OggVorbis
    then show ?thesis using tags_after_here [where decode = vorbis_decode and tags = "vorbis_tags lossy"
          and reader = "\<lambda>s. collect_pages s []", OF _ _ decode_offset(1) _ assms(3)]
        assms(1,2) s decode_serial(1) by (simp add: vorbis_info_def vorbis_decodes_def vorbis_tags_def)
  next
    case OggSpeex
    then show ?thesis using tags_after_here [where decode = speex_decode and tags = "speex_tags lossy"
          and reader = "\<lambda>s. collect_pages s []", OF _ _ decode_offset(2) _ assms(3)]
        assms(1,2) s decode_serial(2) by (simp add: speex_info_def speex_decodes_def speex_tags_def)
  next
    case OggTheora
    then show ?thesis using tags_after_here [where decode = theora_decode and tags = "theora_tags lossy"
          and reader = "\<lambda>s. collect_pages s []", OF _ _ decode_offset(3) _ assms(3)]
        assms(1,2) s decode_serial(3) by (simp add: theora_info_def theora_decodes_def theora_tags_def)
  next
    case OggOpus
    then show ?thesis using tags_after_here [where decode = opus_decode and tags = "opus_tags lossy"
          and reader = opus_pages, OF _ _ decode_offset(4) _ assms(3)]
        assms(1,2) s opus_serial by (simp add: opus_info_def opus_decodes_def opus_tags_def)
  qed
qed

text \<open>A comment put into a file, in each of the formats.\<close>

lemma comment_at_open: "comment_at mark tag s us p crc ms q c (open_file (fbytes g)) = comment_at mark tag s us p crc ms q c g"
  by (simp add: comment_at_def open_file_def)

lemma format_saved:
  assumes h: "headers (format_mark F) (comment_mark F) s us p ms" "format_decodes F p"
    and ok: "pages_ok (us @ (p, crc) # ms)" "pages_ok region" "pages_ok post"
    and r: "comment_region s n region" "marked (comment_mark F) (fst (hd region))"
    and b: "fbytes f = pages_bytes (us @ (p, crc) # ms) @ pages_bytes region @ pages_bytes post"
    and c: "clean_comment c" "format_pack F c = Inr d"
    and small: "length (region_packets s region) \<le> 215" "n + int (length d + length (fbytes f)) < 2 ^ 32"
  obtains g new post' where "format_inject F mm c f = (g, None)"
    "fbytes g = pages_bytes (us @ (p, crc) # ms) @ pages_bytes new @ pages_bytes (others s region) @ pages_bytes post'"
    "comment_put s n d region post new post'" "format_tags F lossy (fbytes g) = Inr c"
proof (cases F)
  case OggVorbis
  show ?thesis
  proof (rule vorbis.comment_saved [OF _ _ ok r(1) _ b c(1) _ small, where mm = mm and lossy = lossy], goal_cases)
    case (5 g new post' q k)
    have "format_tags F lossy (fbytes g) = Inr c"
      using tags_after_format [OF _ h(2) refl, of s us crc ms q k "fbytes g" lossy] 5(4)
        5(5) [of "\<lparr>fbytes = fbytes g, fpos = length (pages_bytes (us @ [(p, crc)]))\<rparr>"]
      by (simp add: OggVorbis comment_at_open)
    then show ?case using that 5(1-3) OggVorbis by (simp add: vorbis_inject_def)
  qed (use h r(2) c(2) OggVorbis in simp_all)
next
  case OggSpeex
  show ?thesis
  proof (rule speex.comment_saved [OF _ _ ok r(1) _ b c(1) _ small, where mm = mm and lossy = lossy], goal_cases)
    case (5 g new post' q k)
    have "format_tags F lossy (fbytes g) = Inr c"
      using tags_after_format [OF _ h(2) refl, of s us crc ms q k "fbytes g" lossy] 5(4)
        5(5) [of "\<lparr>fbytes = fbytes g, fpos = length (pages_bytes (us @ [(p, crc)]))\<rparr>"]
      by (simp add: OggSpeex comment_at_open)
    then show ?case using that 5(1-3) OggSpeex by (simp add: speex_inject_def)
  qed (use h r(2) c(2) OggSpeex in simp_all)
next
  case OggTheora
  show ?thesis
  proof (rule theora.comment_saved [OF _ _ ok r(1) _ b c(1) _ small, where mm = mm and lossy = lossy], goal_cases)
    case (5 g new post' q k)
    have "format_tags F lossy (fbytes g) = Inr c"
      using tags_after_format [OF _ h(2) refl, of s us crc ms q k "fbytes g" lossy] 5(4)
        5(5) [of "\<lparr>fbytes = fbytes g, fpos = length (pages_bytes (us @ [(p, crc)]))\<rparr>"]
      by (simp add: OggTheora comment_at_open)
    then show ?case using that 5(1-3) OggTheora by (simp add: theora_inject_def)
  qed (use h r(2) c(2) OggTheora in simp_all)
next
  case OggOpus
  show ?thesis
  proof (rule opus.comment_saved [OF _ _ ok r(1) _ b c(1) _ small, where mm = mm and lossy = lossy], goal_cases)
    case (5 g new post' q k)
    have "format_tags F lossy (fbytes g) = Inr c"
      using tags_after_format [OF _ h(2) refl, of s us crc ms q k "fbytes g" lossy] 5(4)
        5(5) [of "\<lparr>fbytes = fbytes g, fpos = length (pages_bytes (us @ [(p, crc)]))\<rparr>"]
      by (simp add: OggOpus comment_at_open)
    then show ?case using that 5(1-3) OggOpus by (simp add: opus_inject_def)
  qed (use h r(2) c(2) OggOpus in simp_all)
qed

text \<open>
  C21. Saving and loading, for Vorbis, Speex, Theora and Opus. In a file of pages - the page with the
  format's mark, pages of other streams around it, the pages of the comment with pages of other
  streams between them, any pages behind - saving succeeds if the comment's pages hold at most 215
  packets and page numbers suffice; the file is then the same pages with new pages in place of the
  comment's, which carry the packed comment and the packets that followed it, and with the stream's
  later pages numbered on if the number of pages changed; and loading the file gives the comment.
\<close>

theorem ogg_save_load:
  assumes "headers (format_mark F) (comment_mark F) s us p ms" "format_decodes F p"
    and "pages_ok (us @ (p, crc) # ms @ region @ post)"
    and "data = pages_bytes (us @ (p, crc) # ms @ region @ post)"
    and "comment_region s n region" "marked (comment_mark F) (fst (hd region))"
    and "clean_comment c" "format_pack F c = Inr d"
    and "length (region_packets s region) \<le> 215" "n + int (length d + length data) < 2 ^ 32"
  shows "\<exists>data' new post'.
    ogg_save (format_inject F) err mm \<lparr>og_info = i, og_tags = c\<rparr> data = (data', None)
    \<and> data' = pages_bytes (us @ (p, crc) # ms @ new @ others s region @ post')
    \<and> comment_put s n d region post new post'
    \<and> format_tags F lossy data' = Inr c"
proof -
  have b: "fbytes (open_file data) = pages_bytes (us @ (p, crc) # ms) @ pages_bytes region @ pages_bytes post"
    using assms(4) by (simp add: open_file_def)
  obtain g new post' where g: "format_inject F mm c (open_file data) = (g, None)"
    "fbytes g = pages_bytes (us @ (p, crc) # ms) @ pages_bytes new @ pages_bytes (others s region) @ pages_bytes post'"
    "comment_put s n d region post new post'" "format_tags F lossy (fbytes g) = Inr c"
    by (rule format_saved [OF assms(1,2) _ _ _ assms(5,6) b assms(7,8,9)])
      (use assms(3,10) in \<open>auto simp: open_file_def\<close>)
  then show ?thesis by (intro exI [of _ "fbytes g"] exI [of _ new] exI [of _ post']) (simp add: ogg_save_def)
qed

section \<open>Errors\<close>

lemma read_until_error:
  "read_until P f = (Inl e, g) \<Longrightarrow> (\<And>p e. P p = Inl e \<Longrightarrow> e \<in> E) \<Longrightarrow> e \<in> {EOFError, OggError} \<union> E"
proof (induction P f rule: read_until.induct)
  case (1 P f)
  obtain r h where r: "read_page f = (r, h)" by fastforce
  show ?case
  proof (cases r)
    case (Inl a)
    then have "e = a" using "1.prems"(1) r by (subst (asm) read_until.simps) simp
    then show ?thesis using read_page_fails r Inl by blast
  next
    case (Inr page)
    show ?thesis
    proof (cases "P page")
      case (Inl a)
      then show ?thesis using "1.prems" r \<open>r = Inr page\<close> by (subst (asm) read_until.simps) auto
    next
      case (Inr b)
      then show ?thesis using "1.IH" [OF r [symmetric] \<open>r = Inr page\<close> Inr] "1.prems" r \<open>r = Inr page\<close>
        by (cases b) (subst (asm) read_until.simps, simp)+
    qed
  qed
qed

lemma first_packet_error: "first_packet p = Inl e \<Longrightarrow> e = IndexError"
  by (auto simp: first_packet_def split: list.splits)

lemma find_packet_error: "find_packet mark f = (Inl e, g) \<Longrightarrow> e \<in> {EOFError, OggError, IndexError}"
  using read_until_error [of _ f e g "{IndexError}"] first_packet_error
  by (fastforce simp: find_packet_def bindR_Inl_iff)

lemma collect_pages_error:
  "collect_pages s acc f = (Inl e, g) \<Longrightarrow> e \<in> {EOFError, OggError}"
proof (induction s acc f rule: collect_pages.induct)
  case (1 s acc f)
  show ?case
  proof (cases "acc \<noteq> [] \<and> page_ends (last acc)")
    case True
    then show ?thesis using "1.prems" by (subst (asm) collect_pages.simps) simp
  next
    case False
    obtain r h where r: "read_page f = (r, h)" by fastforce
    show ?thesis
    proof (cases r)
      case (Inl a)
      then have "e = a" using "1.prems" r False by (subst (asm) collect_pages.simps) (simp split: if_splits)
      then show ?thesis using read_page_fails r Inl by blast
    next
      case (Inr page)
      have "collect_pages s (if pg_serial page = s then acc @ [page] else acc) h = (Inl e, g)"
        using "1.prems" r False Inr by (subst (asm) collect_pages.simps) (simp split: if_splits)
      then show ?thesis by (rule "1.IH" [OF False r [symmetric] Inr])
    qed
  qed
qed

lemma packets_loop_error: "packets_loop s n ps pages = Inl e \<Longrightarrow> e \<in> {ValueError, IndexError}"
  by (induction s n ps pages rule: packets_loop.induct) (auto split: if_splits list.splits)

lemma to_packets_error:
  assumes "to_packets pages False = Inl e" shows "e \<in> {ValueError, IndexError}"
proof (cases pages)
  case Nil
  then show ?thesis using assms by (simp add: to_packets_def)
next
  case (Cons page ps)
  then have "packets_loop (pg_serial page) (pg_sequence page) (if pg_continued page then [[[]]] else []) pages = Inl e"
    using assms by (simp add: to_packets_def bindR_Inl_iff del: packets_loop.simps)
  then show ?thesis by (rule packets_loop_error)
qed

definition escaping :: "merr set" where
  "escaping = {IndexError, ValueError, StructError, ZeroDivisionError, AttributeError, VorbisError,
     VorbisUnsetFrameError}"

lemma escaping_members [simp]:
  "StructError \<in> escaping" "ZeroDivisionError \<in> escaping" "AttributeError \<in> escaping" "IndexError \<in> escaping"
  "ValueError \<in> escaping"
  by (simp_all add: escaping_def)

lemma comment_of_error: "comment_of lossy framing data = Inl e \<Longrightarrow> e \<in> escaping"
proof -
  assume "comment_of lossy framing data = Inl e"
  then obtain c where "vc_load lossy Replace framing new_comment data = (c, Inl e)"
    by (auto simp: comment_of_def split: prod.splits sum.splits)
  then obtain e' where "load_body lossy Replace framing new_comment data = (c, Inl e')"
    "e = (if e' \<in> {StructError, TypeError} then VorbisError else e')"
    by (auto simp: vc_load_def split: prod.splits sum.splits)
  then show ?thesis using load_body_safe by (fastforce simp: load_errors_def escaping_def)
qed

lemma read_comment_error:
  assumes "fst (read_comment u (r, f)) = Inl e" "\<And>e. r = Inl e \<Longrightarrow> e \<in> E" "\<And>d e. u d = Inl e \<Longrightarrow> e \<in> escaping"
  shows "e \<in> E \<union> escaping"
proof (cases r)
  case (Inl a)
  then show ?thesis using assms(1,2) by (simp add: read_comment_def)
next
  case (Inr pages)
  show ?thesis
  proof (cases "to_packets pages False")
    case (Inl a)
    then show ?thesis using assms(1) Inr to_packets_error [OF Inl] by (auto simp: read_comment_def escaping_def)
  next
    case (Inr packets)
    then show ?thesis using assms(1,3) \<open>r = Inr pages\<close>
      by (cases packets) (auto simp: read_comment_def escaping_def)
  qed
qed

lemma unpack_error:
  "unpack_s b n x = Inl e \<Longrightarrow> e = StructError" "unpack_u b n x = Inl e \<Longrightarrow> e = StructError"
  by (auto simp: unpack_s_def unpack_u_def bindR_Inl_iff split: if_splits)

lemma read_info_error:
  assumes "read_info mark err decode f = (Inl e, g)" "\<And>p d e. decode p d = Inl e \<Longrightarrow> e \<in> {err} \<union> escaping"
  shows "e \<in> {EOFError, OggError, err} \<union> escaping"
proof (cases "find_packet mark f")
  case (Pair r h)
  show ?thesis
  proof (cases r)
    case (Inl a)
    then show ?thesis using assms(1) Pair find_packet_error [of mark f a h]
      by (auto simp: read_info_def escaping_def)
  next
    case (Inr page)
    then have "bindR (first_packet page) (\<lambda>data. if \<not> pg_first page then Inl err else decode page data) = Inl e"
      using assms(1) Pair by (simp add: read_info_def)
    then show ?thesis using assms(2) first_packet_error
      by (auto simp: bindR_Inl_iff escaping_def split: if_splits)
  qed
qed

lemma number_errors:
  "int_le x = Inl e \<Longrightarrow> e \<in> {err} \<union> escaping" "uint_le x = Inl e \<Longrightarrow> e \<in> {err} \<union> escaping"
  "uint_be x = Inl e \<Longrightarrow> e \<in> {err} \<union> escaping" "ushort_be x = Inl e \<Longrightarrow> e \<in> {err} \<union> escaping"
  "ushort_le x = Inl e \<Longrightarrow> e \<in> {err} \<union> escaping"
  by (auto simp: int_le_def uint_le_def uint_be_def ushort_be_def ushort_le_def escaping_def dest: unpack_error)

lemma vorbis_decode_error: "vorbis_decode p d = Inl e \<Longrightarrow> e \<in> {OggVorbisHeaderError} \<union> escaping"
  unfolding vorbis_decode_def Let_def
  by (auto simp: bindR_Inl_iff dest: number_errors split: if_splits)

lemma speex_decode_error: "speex_decode p d = Inl e \<Longrightarrow> e \<in> {OggSpeexHeaderError} \<union> escaping"
  unfolding speex_decode_def
  by (auto simp: bindR_Inl_iff dest: number_errors)

lemma theora_decode_error: "theora_decode p d = Inl e \<Longrightarrow> e \<in> {OggTheoraHeaderError} \<union> escaping"
  unfolding theora_decode_def Let_def
  by (auto simp: bindR_Inl_iff dest: number_errors split: if_splits)

lemma opus_decode_error: "opus_decode p d = Inl e \<Longrightarrow> e \<in> {OggOpusHeaderError} \<union> escaping"
  unfolding opus_decode_def Let_def
  by (auto simp: bindR_Inl_iff dest: number_errors split: if_splits)

lemma last_position_error: "last_position f s = Inl e \<Longrightarrow> e \<in> {OggError} \<union> escaping"
proof -
  have "find_last f s = Inl e \<Longrightarrow> e = OggError"
    unfolding find_last_def Let_def by (auto split: option.splits if_splits)
  then show "last_position f s = Inl e \<Longrightarrow> e \<in> {OggError} \<union> escaping"
    by (auto simp: last_position_def bindR_Inl_iff escaping_def split: option.splits)
qed

lemma post_error:
  "vorbis_post i f = Inl e \<Longrightarrow> e \<in> {OggError} \<union> escaping"
  "speex_post j f = Inl e \<Longrightarrow> e \<in> {OggError} \<union> escaping"
  "theora_post k f = Inl e \<Longrightarrow> e \<in> {OggError} \<union> escaping"
  "opus_post l f = Inl e \<Longrightarrow> e \<in> {OggError} \<union> escaping"
  unfolding vorbis_post_def speex_post_def theora_post_def opus_post_def Let_def
  by (auto simp: bindR_Inl_iff dest: last_position_error split: if_splits)

lemma tags_error:
  assumes "\<And>d e. u d = Inl e \<Longrightarrow> e \<in> escaping" "fst (read_comment u (collect_pages s [] f)) = Inl e"
  shows "e \<in> {EOFError, OggError} \<union> escaping"
proof (cases "collect_pages s [] f")
  case (Pair r g)
  have "\<And>e. r = Inl e \<Longrightarrow> e \<in> {EOFError, OggError}" using collect_pages_error Pair by blast
  from read_comment_error [of u r g e, OF _ this assms(1)] assms(2) Pair show ?thesis by auto
qed

lemma opus_tags_error:
  assumes "fst (read_comment u (opus_pages s f)) = Inl e" "\<And>d e. u d = Inl e \<Longrightarrow> e \<in> escaping"
  shows "e \<in> {EOFError, OggError} \<union> escaping"
proof -
  obtain r g where o: "opus_pages s f = (r, g)" by fastforce
  have "a \<in> {EOFError, OggError, IndexError}" if "r = Inl a" for a
  proof -
    let ?P = "\<lambda>page. if s \<noteq> pg_serial page then Inr False
      else bindR (first_packet page) (\<lambda>p. Inr (startswith p opus_comment_mark))"
    obtain q h where u: "read_until ?P f = (q, h)" by fastforce
    show ?thesis
    proof (cases q)
      case (Inl b)
      then have "a = b" using o u that by (simp add: opus_pages_def)
      have "c \<in> {IndexError}" if "?P p = Inl c" for p c
        using that first_packet_error by (auto simp: bindR_Inl_iff split: if_splits)
      from read_until_error [of ?P f b h, OF _ this] \<open>a = b\<close> u Inl show ?thesis by auto
    next
      case (Inr page)
      then have "collect_pages (pg_serial page) [page] h = (Inl a, g)"
        using o u that by (simp add: opus_pages_def)
      then show ?thesis using collect_pages_error by blast
    qed
  qed
  from read_comment_error [of u r g e, OF _ this assms(2)] assms(1) o show ?thesis
    by (auto simp: escaping_def)
qed

lemma ogg_load_error:
  assumes "ogg_load info tags post err data = Inl e" "is_ogg_error err"
    and "\<And>f e g. info f = (Inl e, g) \<Longrightarrow> e \<in> {EOFError, OggError, err} \<union> escaping"
    and "\<And>i f e. fst (tags i f) = Inl e \<Longrightarrow> e \<in> {EOFError, OggError} \<union> escaping"
    and "\<And>i f e. post i f = Inl e \<Longrightarrow> e \<in> {OggError} \<union> escaping"
  shows "e \<in> {err} \<union> escaping"
proof -
  have conv: "ogg_error err a \<in> {err} \<union> escaping" if "a \<in> {EOFError, OggError, err} \<union> escaping" for a
    using that assms(2) by (auto simp: ogg_error_def is_ogg_error_def)
  obtain r f where r: "info (open_file data) = (r, f)" by fastforce
  show ?thesis
  proof (cases r)
    case (Inl a)
    then have "e = ogg_error err a" using assms(1) r by (simp add: ogg_load_def)
    then show ?thesis using conv [OF assms(3)] r Inl by blast
  next
    case (Inr i)
    obtain t g where t: "tags i f = (t, g)" by fastforce
    show ?thesis
    proof (cases t)
      case (Inl a)
      then have "a \<in> {EOFError, OggError, err} \<union> escaping" using assms(4) [of i f a] t by auto
      moreover have "e = ogg_error err a" using assms(1) r \<open>r = Inr i\<close> t Inl by (simp add: ogg_load_def)
      ultimately show ?thesis using conv by blast
    next
      case (Inr c)
      then obtain a where "post i g = Inl a" "e = ogg_error err a"
        using assms(1) r \<open>r = Inr i\<close> t by (auto simp: ogg_load_def split: sum.splits)
      then show ?thesis using conv [of a] assms(5) [of i g a] by auto
    qed
  qed
qed

fun format_error :: "ogg_format \<Rightarrow> merr" where
  "format_error OggVorbis = OggVorbisHeaderError"
| "format_error OggSpeex = OggSpeexHeaderError"
| "format_error OggTheora = OggTheoraHeaderError"
| "format_error OggOpus = OggOpusHeaderError"

fun load_raises :: "ogg_format \<Rightarrow> (vc_errors \<Rightarrow> string \<Rightarrow> unicode) \<Rightarrow> string \<Rightarrow> merr \<Rightarrow> bool" where
  "load_raises OggVorbis lossy data e \<longleftrightarrow> vorbis_load lossy data = Inl e"
| "load_raises OggSpeex lossy data e \<longleftrightarrow> speex_load lossy data = Inl e"
| "load_raises OggTheora lossy data e \<longleftrightarrow> theora_load lossy data = Inl e"
| "load_raises OggOpus lossy data e \<longleftrightarrow> opus_load lossy data = Inl e"

lemma unpack_comment_error:
  "vorbis_unpack lossy d = Inl e \<Longrightarrow> e \<in> escaping" "speex_unpack lossy d = Inl e \<Longrightarrow> e \<in> escaping"
  "theora_unpack lossy d = Inl e \<Longrightarrow> e \<in> escaping" "opus_unpack lossy d = Inl e \<Longrightarrow> e \<in> escaping"
  by (auto simp: vorbis_unpack_def speex_unpack_def theora_unpack_def opus_unpack_def dest: comment_of_error)

text \<open>
  C34. Loading any bytes as Vorbis, Speex, Theora or Opus either succeeds or raises the format's
  header error or one of seven exceptions that are not of that class and that callers of the
  format do not expect: a page without packets, a gap in the page numbers, a header that is too
  short, a rate of zero, no last page, and a malformed comment.
\<close>

theorem ogg_load_errors:
  assumes "load_raises F lossy data e"
  shows "e \<in> {format_error F, IndexError, ValueError, StructError, ZeroDivisionError, AttributeError,
    VorbisError, VorbisUnsetFrameError}"
proof -
  have "e \<in> {format_error F} \<union> escaping"
  proof (cases F)
    case OggVorbis
    then have "ogg_load vorbis_info (vorbis_tags lossy) vorbis_post OggVorbisHeaderError data = Inl e"
      using assms by (simp add: vorbis_load_def)
    then show ?thesis unfolding vorbis_info_def vorbis_tags_def OggVorbis format_error.simps
      by (rule ogg_load_error) (simp add: is_ogg_error_def, erule read_info_error, erule vorbis_decode_error,
        erule tags_error [rotated], erule unpack_comment_error, erule post_error)
  next
    case OggSpeex
    then have "ogg_load speex_info (speex_tags lossy) speex_post OggSpeexHeaderError data = Inl e"
      using assms by (simp add: speex_load_def)
    then show ?thesis unfolding speex_info_def speex_tags_def OggSpeex format_error.simps
      by (rule ogg_load_error) (simp add: is_ogg_error_def, erule read_info_error, erule speex_decode_error,
        erule tags_error [rotated], erule unpack_comment_error, erule post_error)
  next
    case OggTheora
    then have "ogg_load theora_info (theora_tags lossy) theora_post OggTheoraHeaderError data = Inl e"
      using assms by (simp add: theora_load_def)
    then show ?thesis unfolding theora_info_def theora_tags_def OggTheora format_error.simps
      by (rule ogg_load_error) (simp add: is_ogg_error_def, erule read_info_error, erule theora_decode_error,
        erule tags_error [rotated], erule unpack_comment_error, erule post_error)
  next
    case OggOpus
    then have "ogg_load opus_info (opus_tags lossy) opus_post OggOpusHeaderError data = Inl e"
      using assms by (simp add: opus_load_def)
    then show ?thesis unfolding opus_info_def opus_tags_def OggOpus format_error.simps
      by (rule ogg_load_error) (simp add: is_ogg_error_def, erule read_info_error, erule opus_decode_error,
        erule opus_tags_error, erule unpack_comment_error, erule post_error)
  qed
  then show ?thesis unfolding escaping_def by blast
qed

lemma ogg_load_errors_witness:
  "load_raises OggVorbis (\<lambda>_ _. []) (page_bytes new_page) IndexError
   \<and> IndexError \<in> {format_error OggVorbis, IndexError, ValueError, StructError, ZeroDivisionError,
       AttributeError, VorbisError, VorbisUnsetFrameError}"
proof -
  have "storable new_page" by (simp add: storable_def fields_fit_def new_page_def u_fits_def s_fits_def
        framed_def lacing_data_def)
  then have "read_page (open_file (page_bytes new_page))
      = (Inr (new_page\<lparr>pg_offset := Some 0\<rparr>), \<lparr>fbytes = page_bytes new_page, fpos = length (page_bytes new_page)\<rparr>)"
    using read_raw_page(1) [of new_page "page_sum new_page" "open_file (page_bytes new_page)" "[]"]
    by (simp add: open_file_def page_bytes_raw)
  then have "vorbis_info (open_file (page_bytes new_page))
      = (Inl IndexError, \<lparr>fbytes = page_bytes new_page, fpos = length (page_bytes new_page)\<rparr>)"
    by (simp add: vorbis_info_def read_info_def find_packet_def read_until.simps [of _ "open_file _"]
        first_packet_def new_page_def)
  then have "load_raises OggVorbis (\<lambda>_ _. []) (page_bytes new_page) IndexError"
    by (simp add: vorbis_load_def ogg_load_def ogg_error_def is_ogg_error_def)
  from this ogg_load_errors [OF this] show ?thesis by (rule conjI)
qed

lemma ogg_save_load_witness:
  "\<exists>p q t. pg_packets q = [''OpusTags'', ''x'']
     \<and> (\<exists>data'. fst (ogg_save (format_inject OggOpus) OggOpusHeaderError False
            \<lparr>og_info = (), og_tags = \<lparr>vc_vendor = FText [77], vc_pairs = [(''TITLE'', FText [233])]\<rparr>\<rparr>
            (pages_bytes [(p, ''0000''), (q, ''0000''), (t, ''0000'')])) = data'
        \<and> format_tags OggOpus (\<lambda>_ _. []) data'
            = Inr \<lparr>vc_vendor = FText [77], vc_pairs = [(''TITLE'', FText [233])]\<rparr>)"
proof -
  define p where "p = new_page\<lparr>pg_flags := 2, pg_serial := 7, pg_packets := [''OpusHead'' @
    [CHR 0x01, CHR 0x02, CHR 0x00, CHR 0x00, CHR 0x00, CHR 0x00, CHR 0x00, CHR 0x00, CHR 0x00, CHR 0x00, CHR 0x00]]\<rparr>"
  define q where "q = new_page\<lparr>pg_serial := 7, pg_sequence := 1, pg_packets := [''OpusTags'', ''x'']\<rparr>"
  define t where "t = new_page\<lparr>pg_serial := 7, pg_sequence := 2, pg_packets := [''audio'']\<rparr>"
  define c where "c = \<lparr>vc_vendor = FText [77], vc_pairs = [(''TITLE'', FText [233])]\<rparr>"
  have st: "storable p" "storable q" "storable t"
    by (simp_all add: p_def q_def t_def storable_def fields_fit_def new_page_def u_fits_def s_fits_def
        framed_def lacing_data_def lacing_of_def)
  have c: "clean_comment c"
    by (simp add: c_def clean_comment_def clean_pair_def is_valid_key_def scalar_def high_surrogate_def low_surrogate_def)
  have "\<exists>d. opus_pack c = Inr d \<and> length d < 1000"
    by (simp add: c_def opus_pack_def vc_write_def vc_validate_def is_valid_key_def encode_value_def write_pair_def
        write_field_def to_uint_le_def pack_u_def utf8_char_def opus_comment_mark_def)
  then obtain d where d: "format_pack OggOpus c = Inr d" "length d < 1000" by auto
  have h: "headers (format_mark OggOpus) (comment_mark OggOpus) 7 [] p []"
    by (simp add: headers_def marked_def unmarked_def p_def new_page_def opus_mark_def opus_comment_mark_def
        startswith_def pg_first_def test_bit_iff)
  have dec: "format_decodes OggOpus p"
    by (simp add: opus_decodes_def opus_decode_def p_def new_page_def str_slice_def ushort_le_def unpack_u_def)
  have r: "comment_region 7 1 [(q, ''0000'')]" "marked (comment_mark OggOpus) (fst (hd [(q, ''0000'')]))"
    "length (region_packets 7 [(q, ''0000'')]) \<le> 215"
    by (simp_all add: comment_region_def up_to_end_def page_ends_def marked_def region_packets_def join_def
        q_def new_page_def pg_continued_def test_bit_iff opus_comment_mark_def startswith_def)
  have l: "length (pages_bytes [(p, ''0000''), (q, ''0000''), (t, ''0000'')]) < 1000"
    by (simp add: length_raw_page length_page_bytes lacing_data_def lacing_of_def p_def q_def t_def new_page_def)
  obtain data' where "ogg_save (format_inject OggOpus) OggOpusHeaderError False \<lparr>og_info = (), og_tags = c\<rparr>
      (pages_bytes [(p, ''0000''), (q, ''0000''), (t, ''0000'')]) = (data', None)"
    "format_tags OggOpus (\<lambda>_ _. []) data' = Inr c"
    using ogg_save_load [OF h dec _ refl r(1,2) c d(1) r(3), of "''0000''" "[(t, ''0000'')]" OggOpusHeaderError False "()"
        "\<lambda>_ _. []"] st d(2) l by auto
  then show ?thesis unfolding c_def
    by (intro exI [of _ p] exI [of _ q] exI [of _ t]) (simp add: q_def)
qed

end
