(* ===== verification/Ape.thy ===== *)
theory Ape
  imports Complex_Main Mut_File Mut_Codec
begin

unbundle bit_operations_syntax

text \<open>
  \<open>mutagen/apev2.py\<close>: APEv2 tags, at the end or the start of a file, and the file classes that use
  them: \<open>APEv2File\<close>, and the stream information of \<open>monkeysaudio.py\<close>, \<open>optimfrog.py\<close> and \<open>wavpack.py\<close>.

  Keys and values are byte strings, whose case and validity are those of ASCII. Positions in a file
  are integers, as the code computes them before it seeks. A dictionary lists its keys in the order
  they were set. What \<open>decode('utf-8', 'replace')\<close> makes of malformed bytes is the parameter \<open>lossy\<close>.
  \<open>range(count)\<close>, a list in Python 2, is taken to fit in memory.
\<close>

definition ape_mark :: string where
  "ape_mark = ''APETAGEX''"

definition is_valid_apev2_key :: "string \<Rightarrow> bool" where
  "is_valid_apev2_key key \<longleftrightarrow>
     2 \<le> length key \<and> length key \<le> 255 \<and> list_all (\<lambda>c. 32 \<le> ord c) key \<and> list_all (\<lambda>c. ord c \<le> 126) key
   \<and> key \<notin> {''OggS'', ''TAG'', ''ID3'', ''MP+''}"

definition HAS_HEADER :: int where
  "HAS_HEADER = push_bit 31 1"

definition IS_HEADER :: int where
  "IS_HEADER = push_bit 29 1"

section \<open>Finding the tag\<close>

record ape_data =
  ad_start :: "int option"
  ad_header :: "int option"
  ad_data :: "int option"
  ad_footer :: "int option"
  ad_end :: "int option"
  ad_tag :: "string option"
  ad_version :: string
  ad_size :: "int option"
  ad_items :: nat
  ad_flags :: int
  ad_is_at_start :: bool

definition no_ape_data :: ape_data where
  "no_ape_data = \<lparr>ad_start = None, ad_header = None, ad_data = None, ad_footer = None, ad_end = None,
     ad_tag = None, ad_version = [], ad_size = None, ad_items = 0, ad_flags = 0, ad_is_at_start = False\<rparr>"

text \<open>\<open>int(s)\<close> of Python 2: space around the number and behind its sign.\<close>

definition py_int :: "string \<Rightarrow> int option" where
  "py_int s =
     (let s = str_strip is_space s;
          (neg, digits) = (case s of
             [] \<Rightarrow> (False, [])
           | c # cs \<Rightarrow> if c = CHR ''-'' then (True, dropWhile is_space cs)
                       else if c = CHR ''+'' then (False, dropWhile is_space cs) else (False, s))
      in map_option (\<lambda>n. if neg then - int n else int n) (str_nat digits))"

text \<open>Lyrics3v2 between the tag and ID3v1; the position is behind the place of a footer's mark.\<close>

definition lyrics_footer :: "fobj \<Rightarrow> merr + int option" where
  "lyrics_footer f =
     bindR (seek_cur 15 f) (\<lambda>f.
     let (s, f) = f_read 9 f
     in if s \<noteq> ''LYRICS200'' then Inr None
        else bindR (seek_cur (-15) f) (\<lambda>f.
             let (s, f) = f_read 6 f
             in case py_int s of
                  None \<Rightarrow> Inl IOError
                | Some offset \<Rightarrow>
                    bindR (seek_cur (-32 - offset - 6) f) (\<lambda>f.
                    let (s, f) = f_read 8 f
                    in Inr (if s = ape_mark then Some (int (fpos f) - 8) else None))))"

definition id3v1_footer :: "fobj \<Rightarrow> merr + int option" where
  "id3v1_footer f =
     bindR (seek_end (-128) f) (\<lambda>f.
     let (s, f) = f_read 3 f
     in if s \<noteq> ''TAG'' then Inr None
        else bindR (seek_cur (-35) f) (\<lambda>f.
             let (s, f) = f_read 8 f
             in if s = ape_mark then Inr (Some (int (fpos f) - 8)) else lyrics_footer f))"

definition find_metadata :: "fobj \<Rightarrow> ape_data" where
  "find_metadata f =
     (case seek_end (-32) f of
        Inl _ \<Rightarrow> no_ape_data
      | Inr f \<Rightarrow>
          (let (s, f) = f_read 8 f
           in if s = ape_mark then no_ape_data\<lparr>ad_footer := Some (int (fpos f) - 8)\<rparr>
              else case id3v1_footer f of
                Inr (Some p) \<Rightarrow> no_ape_data\<lparr>ad_footer := Some p\<rparr>
              | _ \<Rightarrow>
                  if fst (f_read 8 (f\<lparr>fpos := 0\<rparr>)) = ape_mark
                  then no_ape_data\<lparr>ad_is_at_start := True, ad_header := Some 0\<rparr> else no_ape_data))"

definition fill_missing :: "fobj \<Rightarrow> int \<Rightarrow> ape_data \<Rightarrow> merr + ape_data" where
  "fill_missing f metadata d =
     bindR (seek_set (metadata + 8) f) (\<lambda>f.
     let (version, f) = f_read 4 f; (s, f) = f_read 4 f; (i, f) = f_read 4 f; (l, f) = f_read 4 f
     in bindR (uint_le s) (\<lambda>size. bindR (uint_le i) (\<lambda>items. bindR (uint_le l) (\<lambda>flags.
        let d = d\<lparr>ad_version := version, ad_items := nat items, ad_flags := flags\<rparr>
        in bindR (case (ad_header d, ad_footer d) of
             (Some header, _) \<Rightarrow>
               (let data = header + 32; tag_end = data + size
                in bindR (seek_set (tag_end - 32) f) (\<lambda>f.
                     Inr (d\<lparr>ad_data := Some data, ad_end := Some tag_end, ad_footer :=
                       (if fst (f_read 8 f) = ape_mark then Some (tag_end - 32) else ad_footer d)\<rparr>)))
           | (None, Some footer) \<Rightarrow>
               (let tag_end = footer + 32; data = tag_end - size
                in Inr (d\<lparr>ad_data := Some data, ad_end := Some tag_end, ad_header :=
                     Some (if flags AND HAS_HEADER \<noteq> 0 then data - 32 else data)\<rparr>))
           | (None, None) \<Rightarrow> Inl APENoHeaderError) (\<lambda>d.
           Inr (d\<lparr>ad_size := Some (if ad_footer d \<noteq> None then size - 32 else size)\<rparr>))))))"

text \<open>The loop over what older writers left in front of a tag: the first 24 bytes of its header.\<close>

fun broken_start :: "string \<Rightarrow> nat \<Rightarrow> nat" where
  "broken_start filedata start =
     (if start < 24 then start
      else if take 8 (drop (start - 24) filedata) = ape_mark then broken_start filedata (start - 24)
      else start)"

declare broken_start.simps [simp del]

definition fix_brokenness :: "fobj \<Rightarrow> ape_data \<Rightarrow> merr + ape_data" where
  "fix_brokenness f d =
     (case (case ad_header d of Some h \<Rightarrow> Some h | None \<Rightarrow> ad_data d) of
        None \<Rightarrow> Inl TypeError
      | Some start \<Rightarrow>
          bindR (seek_set start f) (\<lambda>f. Inr (d\<lparr>ad_start := Some (int (broken_start (fbytes f) (fpos f)))\<rparr>)))"

definition ape_data_of :: "string \<Rightarrow> merr + ape_data" where
  "ape_data_of filedata =
     (let f = open_file filedata; d = find_metadata f
      in case (case ad_header d of Some h \<Rightarrow> Some h | None \<Rightarrow> ad_footer d) of
           None \<Rightarrow> Inr d
         | Some metadata \<Rightarrow>
             bindR (fill_missing f metadata d) (\<lambda>d.
             bindR (fix_brokenness f d) (\<lambda>d.
               case (ad_data d, ad_size d) of
                 (Some data, Some sz) \<Rightarrow>
                   bindR (seek_set data f) (\<lambda>f. Inr (d\<lparr>ad_tag := Some (fst (f_read sz f))\<rparr>))
               | _ \<Rightarrow> Inr d)))"

section \<open>Values and the dictionary\<close>

datatype ape_kind = TEXT | BINARY | EXTERNAL

definition kind_number :: "ape_kind \<Rightarrow> nat" where
  "kind_number k = (case k of TEXT \<Rightarrow> 0 | BINARY \<Rightarrow> 1 | EXTERNAL \<Rightarrow> 2)"

record ape_value =
  av_kind :: ape_kind
  av_value :: string

definition ape_value_of :: "string \<Rightarrow> int \<Rightarrow> merr + ape_value" where
  "ape_value_of value kind =
     (if kind = 0 then Inr \<lparr>av_kind = TEXT, av_value = value\<rparr>
      else if kind = 1 then Inr \<lparr>av_kind = BINARY, av_value = value\<rparr>
      else if kind = 2 then Inr \<lparr>av_kind = EXTERNAL, av_value = value\<rparr>
      else Inl ValueError)"

text \<open>The two private dictionaries, by lower-case key.\<close>

record ape =
  ap_casemap :: "(string \<times> string) list"
  ap_dict :: "(string \<times> ape_value) list"

definition new_ape :: ape where
  "new_ape = \<lparr>ap_casemap = [], ap_dict = []\<rparr>"

definition ape_getitem :: "ape \<Rightarrow> string \<Rightarrow> merr + ape_value" where
  "ape_getitem self key =
     (if \<not> is_valid_apev2_key key then Inl KeyError else dp_getitem (ap_dict self) (str_lower key))"

definition ape_delitem :: "ape \<Rightarrow> string \<Rightarrow> merr + ape" where
  "ape_delitem self key =
     (if \<not> is_valid_apev2_key key then Inl KeyError
      else bindR (dp_delitem (ap_dict self) (str_lower key)) (\<lambda>d. Inr (self\<lparr>ap_dict := d\<rparr>)))"

text \<open>What can be stored: a value, unicode text, a list of either kind of text, or bytes.\<close>

datatype ape_arg = AValue ape_value | AText unicode | AList "(string + unicode) list" | ABytes string

definition utf8_of :: "(string \<Rightarrow> unicode) \<Rightarrow> string + unicode \<Rightarrow> string" where
  "utf8_of lossy x =
     (case x of
        Inl s \<Rightarrow> utf8_encode (case utf8_decode s of Inr u \<Rightarrow> u | Inl _ \<Rightarrow> lossy s)
      | Inr u \<Rightarrow> utf8_encode u)"

definition ape_guess :: "(string \<Rightarrow> unicode) \<Rightarrow> ape_arg \<Rightarrow> ape_value" where
  "ape_guess lossy arg =
     (case arg of
        AValue v \<Rightarrow> v
      | AText u \<Rightarrow> \<lparr>av_kind = TEXT, av_value = utf8_of lossy (Inr u)\<rparr>
      | AList xs \<Rightarrow> \<lparr>av_kind = TEXT, av_value = str_join [CHR 0x00] (map (utf8_of lossy) xs)\<rparr>
      | ABytes s \<Rightarrow> \<lparr>av_kind = (case utf8_decode s of Inl _ \<Rightarrow> BINARY | Inr _ \<Rightarrow> TEXT), av_value = s\<rparr>)"

definition ape_setitem :: "ape \<Rightarrow> string \<Rightarrow> ape_value \<Rightarrow> merr + ape" where
  "ape_setitem self key value =
     (if \<not> is_valid_apev2_key key then Inl KeyError
      else Inr \<lparr>ap_casemap = dp_setitem (ap_casemap self) (str_lower key) key,
                ap_dict = dp_setitem (ap_dict self) (str_lower key) value\<rparr>)"

definition ape_set :: "(string \<Rightarrow> unicode) \<Rightarrow> ape \<Rightarrow> string \<Rightarrow> ape_arg \<Rightarrow> merr + ape" where
  "ape_set lossy self key arg = ape_setitem self key (ape_guess lossy arg)"

definition ape_keys :: "ape \<Rightarrow> string list" where
  "ape_keys self =
     map (\<lambda>key. case map_of (ap_casemap self) key of None \<Rightarrow> key | Some k \<Rightarrow> k) (dp_keys (ap_dict self))"

definition ape_clear :: "ape \<Rightarrow> merr + ape" where
  "ape_clear = dm_clear ape_delitem ape_keys"

section \<open>Loading\<close>

text \<open>The key and what follows its zero byte, if there is one.\<close>

fun read_key :: "string \<Rightarrow> string \<times> string" where
  "read_key [] = ([], [])"
| "read_key (c # cs) =
     (if c = CHR 0x00 then ([], cs) else let (key, rest) = read_key cs in (c # key, rest))"

fun parse_tag :: "nat \<Rightarrow> string \<Rightarrow> ape \<Rightarrow> ape \<times> merr option" where
  "parse_tag 0 tag self = (self, None)"
| "parse_tag (Suc count) tag self =
     (if tag = [] then (self, None)
      else case bindR (uint_le (take 4 tag)) (\<lambda>size.
                bindR (uint_le (take 4 (drop 4 tag))) (\<lambda>flags.
                let kind = drop_bit 1 (flags AND 6)
                in if kind = 3 then Inl APEBadItemError
                   else let (key, rest) = read_key (drop 8 tag)
                        in bindR (ape_value_of (take (nat size) rest) kind) (\<lambda>value.
                           bindR (ape_setitem self key value) (\<lambda>self.
                             Inr (self, drop (nat size) rest))))) of
             Inl e \<Rightarrow> (self, Some e)
           | Inr (self, rest) \<Rightarrow> parse_tag count rest self)"

definition ape_load :: "ape \<Rightarrow> string \<Rightarrow> ape \<times> merr option" where
  "ape_load self filedata =
     (case ape_data_of filedata of
        Inl e \<Rightarrow> (self, Some e)
      | Inr d \<Rightarrow>
          (case ad_tag d of
             None \<Rightarrow> (self, Some APENoHeaderError)
           | Some [] \<Rightarrow> (self, Some APENoHeaderError)
           | Some tag \<Rightarrow>
               (case ape_clear self of
                  Inl e \<Rightarrow> (self, Some e)
                | Inr self \<Rightarrow> parse_tag (ad_items d) tag (self\<lparr>ap_casemap := []\<rparr>))))"

section \<open>Saving and deleting\<close>

definition internal :: "string \<times> ape_value \<Rightarrow> merr + string" where
  "internal = (\<lambda>(key, v).
     bindR (pack_u False 4 (int (length (av_value v)))) (\<lambda>size.
     bindR (pack_u False 4 (int (push_bit 1 (kind_number (av_kind v))))) (\<lambda>kind.
       Inr (size @ kind @ key @ [CHR 0x00] @ av_value v))))"

text \<open>Header and footer: version, tag size, item count, flags.\<close>

definition ape_frame :: "nat \<Rightarrow> nat \<Rightarrow> int \<Rightarrow> merr + string" where
  "ape_frame sz num flags =
     bindR (pack_u False 4 2000) (\<lambda>version.
     bindR (pack_u False 4 (int sz + 32)) (\<lambda>tag_size.
     bindR (pack_u False 4 (int num)) (\<lambda>num.
     bindR (pack_u False 4 flags) (\<lambda>flags.
       Inr (ape_mark @ version @ tag_size @ num @ flags @ replicate 8 (CHR 0x00))))))"

text \<open>The old tag is removed; one at the end with everything behind it.\<close>

definition remove_old :: "bool \<Rightarrow> ape_data \<Rightarrow> fobj \<Rightarrow> merr + fobj" where
  "remove_old mmap_works d f =
     (case ad_start d of
        None \<Rightarrow> Inr f
      | Some start \<Rightarrow>
          if ad_is_at_start d then delete_bytes mmap_works f (the (ad_end d) - start) start
          else bindR (seek_set start f) (\<lambda>f. Inr (f_truncate (fpos f) f)))"

definition ape_items :: "ape \<Rightarrow> merr + (string \<times> ape_value) list" where
  "ape_items = dm_items ape_getitem ape_keys"

definition ape_save :: "bool \<Rightarrow> ape \<Rightarrow> string \<Rightarrow> string \<times> merr option" where
  "ape_save mmap_works self filedata =
     (case bindR (ape_data_of filedata) (\<lambda>d. remove_old mmap_works d (open_file filedata)) of
        Inl e \<Rightarrow> (filedata, Some e)
      | Inr f \<Rightarrow>
          (let f = f\<lparr>fpos := length (fbytes f)\<rparr>
           in case bindR (ape_items self) (mapR internal) of
                Inl e \<Rightarrow> (fbytes f, Some e)
              | Inr tags \<Rightarrow>
                  (let num_tags = length tags; tags = concat (sort_key length tags)
                   in case ape_frame (length tags) num_tags (HAS_HEADER OR IS_HEADER) of
                        Inl e \<Rightarrow> (fbytes f, Some e)
                      | Inr header \<Rightarrow>
                          (let f = f_write tags (f_write header f)
                           in case ape_frame (length tags) num_tags HAS_HEADER of
                                Inl e \<Rightarrow> (fbytes f, Some e)
                              | Inr footer \<Rightarrow> (fbytes (f_write footer f), None)))))"

definition ape_delete :: "bool \<Rightarrow> ape \<Rightarrow> string \<Rightarrow> ape \<times> string \<times> merr option" where
  "ape_delete mmap_works self filedata =
     (case ape_data_of filedata of
        Inl e \<Rightarrow> (self, filedata, Some e)
      | Inr d \<Rightarrow>
          (case (case (ad_start d, ad_size d, ad_end d) of
                   (Some start, Some _, Some tag_end) \<Rightarrow>
                     delete_bytes mmap_works (open_file filedata) (tag_end - start) start
                 | _ \<Rightarrow> Inr (open_file filedata)) of
             Inl e \<Rightarrow> (self, filedata, Some e)
           | Inr f \<Rightarrow>
               (case ape_clear self of
                  Inl e \<Rightarrow> (self, fbytes f, Some e)
                | Inr self \<Rightarrow> (self, fbytes f, None))))"

text \<open>The function \<open>delete\<close> of the module.\<close>

definition ape_delete_tags :: "bool \<Rightarrow> string \<Rightarrow> string \<times> merr option" where
  "ape_delete_tags mmap_works filedata =
     (case ape_load new_ape filedata of
        (self, None) \<Rightarrow>
          (case ape_delete mmap_works self filedata of
             (_, data, e) \<Rightarrow> (data, if e = Some APENoHeaderError then None else e))
      | (_, Some e) \<Rightarrow> (filedata, if e = APENoHeaderError then None else Some e))"

section \<open>Text values\<close>

definition text_strings :: "ape_value \<Rightarrow> merr + unicode list" where
  "text_strings v = bindR (utf8_decode (av_value v)) (\<lambda>u. Inr (str_split 0 u))"

text \<open>\<open>list[index]\<close>, from the end for a negative index.\<close>

definition list_index :: "'a list \<Rightarrow> int \<Rightarrow> nat option" where
  "list_index xs i =
     (if 0 \<le> i \<and> i < int (length xs) then Some (nat i)
      else if i < 0 \<and> - int (length xs) \<le> i then Some (nat (int (length xs) + i)) else None)"

definition text_getitem :: "ape_value \<Rightarrow> int \<Rightarrow> merr + unicode" where
  "text_getitem v i =
     bindR (text_strings v) (\<lambda>xs. case list_index xs i of None \<Rightarrow> Inl IndexError | Some k \<Rightarrow> Inr (xs ! k))"

definition text_len :: "ape_value \<Rightarrow> nat" where
  "text_len v = length (filter (\<lambda>c. c = CHR 0x00) (av_value v)) + 1"

text \<open>
  The new string is encoded; joining it with the others, which are unicode, and encoding the result
  decodes it again, as ASCII.
\<close>

definition text_setitem :: "ape_value \<Rightarrow> int \<Rightarrow> unicode \<Rightarrow> merr + ape_value" where
  "text_setitem v i value =
     bindR (text_strings v) (\<lambda>values.
       case list_index values i of
         None \<Rightarrow> Inl IndexError
       | Some k \<Rightarrow>
           bindR (ascii_decode (utf8_encode value)) (\<lambda>u.
             Inr (v\<lparr>av_value := utf8_encode (str_join [0] (values[k := u]))\<rparr>)))"

section \<open>Files\<close>

definition is_ape_error :: "merr \<Rightarrow> bool" where
  "is_ape_error e \<longleftrightarrow> e \<in> {APENoHeaderError, APEBadItemError, MonkeysAudioHeaderError,
     OptimFROGHeaderError, WavPackHeaderError}"

record 'i ape_file =
  af_info :: 'i
  af_tags :: "ape option"

definition ape_file_load :: "(string \<Rightarrow> merr + 'i) \<Rightarrow> string \<Rightarrow> merr + 'i ape_file" where
  "ape_file_load info filedata =
     bindR (info filedata) (\<lambda>i.
       case ape_load new_ape filedata of
         (tags, None) \<Rightarrow> Inr \<lparr>af_info = i, af_tags = Some tags\<rparr>
       | (_, Some e) \<Rightarrow> if is_ape_error e then Inr \<lparr>af_info = i, af_tags = None\<rparr> else Inl e)"

definition af_add_tags :: "'i ape_file \<Rightarrow> merr + 'i ape_file" where
  "af_add_tags f =
     (case af_tags f of None \<Rightarrow> Inr (f\<lparr>af_tags := Some new_ape\<rparr>) | Some _ \<Rightarrow> Inl ValueError)"

record monkeys_info =
  ma_version :: rat
  ma_channels :: int
  ma_sample_rate :: int
  ma_bits_per_sample :: "int option"
  ma_length :: rat

definition monkeys_info_of :: "string \<Rightarrow> merr + monkeys_info" where
  "monkeys_info_of filedata =
     (let header = take 76 filedata
      in if length header \<noteq> 76 \<or> \<not> startswith header ''MAC '' then Inl MonkeysAudioHeaderError
         else bindR (ushort_le (str_slice header 4 6)) (\<lambda>version.
         bindR (if 3980 \<le> version then
                  bindR (uint_le (str_slice header 56 60)) (\<lambda>blocks_per_frame.
                  bindR (uint_le (str_slice header 60 64)) (\<lambda>final_frame_blocks.
                  bindR (uint_le (str_slice header 64 68)) (\<lambda>total_frames.
                  bindR (ushort_le (str_slice header 68 70)) (\<lambda>bits.
                  bindR (ushort_le (str_slice header 70 72)) (\<lambda>channels.
                  bindR (uint_le (str_slice header 72 76)) (\<lambda>rate.
                    Inr (blocks_per_frame, final_frame_blocks, total_frames, Some bits, channels, rate)))))))
                else
                  bindR (ushort_le (str_slice header 6 8)) (\<lambda>compression_level.
                  bindR (ushort_le (str_slice header 10 12)) (\<lambda>channels.
                  bindR (uint_le (str_slice header 12 16)) (\<lambda>rate.
                  bindR (uint_le (str_slice header 24 28)) (\<lambda>total_frames.
                  bindR (uint_le (str_slice header 28 32)) (\<lambda>final_frame_blocks.
                    Inr ((if 3950 \<le> version then 73728 * 4
                          else if 3900 \<le> version \<or> (3800 \<le> version \<and> compression_level = 4) then 73728
                          else 9216), final_frame_blocks, total_frames, None, channels, rate)))))))
           (\<lambda>(blocks_per_frame, final_frame_blocks, total_frames, bits, channels, rate).
             Inr \<lparr>ma_version = of_int version / 1000, ma_channels = channels, ma_sample_rate = rate,
               ma_bits_per_sample = bits,
               ma_length = (if rate \<noteq> 0 \<and> 0 < total_frames
                 then of_int ((total_frames - 1) * blocks_per_frame + final_frame_blocks) / of_int rate
                 else 0)\<rparr>)))"

record optimfrog_info =
  of_channels :: int
  of_sample_rate :: int
  of_length :: rat

definition optimfrog_info_of :: "string \<Rightarrow> merr + optimfrog_info" where
  "optimfrog_info_of filedata =
     (let header = take 76 filedata
      in if length header \<noteq> 76 \<or> \<not> startswith header ''OFR ''
            \<or> uint_le (str_slice header 4 8) \<notin> {Inr 12, Inr 15} then Inl OptimFROGHeaderError
         else bindR (uint_le (str_slice header 8 12)) (\<lambda>samples.
              bindR (ushort_le (str_slice header 12 14)) (\<lambda>high.
              bindR (uint_le (str_slice header 16 20)) (\<lambda>rate.
                let total_samples = samples + push_bit 32 high; channels = int (ord (header ! 15)) + 1
                in Inr \<lparr>of_channels = channels, of_sample_rate = rate,
                     of_length = (if rate \<noteq> 0 then of_int total_samples / of_int (channels * rate) else 0)\<rparr>))))"

record wavpack_info =
  wp_channels :: nat
  wp_sample_rate :: nat
  wp_version :: int
  wp_length :: rat

definition wavpack_rates :: "nat list" where
  "wavpack_rates = [6000, 8000, 9600, 11025, 12000, 16000, 22050, 24000, 32000, 44100,
     48000, 64000, 88200, 96000, 192000]"

definition wavpack_info_of :: "string \<Rightarrow> merr + wavpack_info" where
  "wavpack_info_of filedata =
     (let header = take 28 filedata
      in if length header \<noteq> 28 \<or> \<not> startswith header ''wvpk'' then Inl WavPackHeaderError
         else bindR (uint_le (str_slice header 12 16)) (\<lambda>samples.
              bindR (uint_le (str_slice header 24 28)) (\<lambda>flags.
              bindR (short_le (str_slice header 8 10)) (\<lambda>version.
                let i = nat (drop_bit 23 flags AND 0xF)
                in if length wavpack_rates \<le> i then Inl IndexError
                   else Inr \<lparr>wp_channels = (if flags AND 4 \<noteq> 0 then 1 else 2),
                          wp_sample_rate = wavpack_rates ! i, wp_version = version,
                          wp_length = of_int samples / of_nat (wavpack_rates ! i)\<rparr>))))"

definition monkeys_load :: "string \<Rightarrow> merr + monkeys_info ape_file" where
  "monkeys_load = ape_file_load monkeys_info_of"

definition optimfrog_load :: "string \<Rightarrow> merr + optimfrog_info ape_file" where
  "optimfrog_load = ape_file_load optimfrog_info_of"

definition wavpack_load :: "string \<Rightarrow> merr + wavpack_info ape_file" where
  "wavpack_load = ape_file_load wavpack_info_of"

end
