(* ===== verification/Ape_Props.thy ===== *)
theory Ape_Props
  imports Ape "HOL-Library.Multiset"
begin

text \<open>
  Properties of APEv2 tags: the case-insensitive dictionary, a saved tag loaded again, the audio
  left alone, saving and deleting as inverses, and the errors that loading can raise.
\<close>

section \<open>The dictionary\<close>

text \<open>Every key is stored in lower case, with a valid spelling of it.\<close>

definition ape_ok :: "ape \<Rightarrow> bool" where
  "ape_ok a \<longleftrightarrow> wf_dict (ap_dict a) \<and> wf_dict (ap_casemap a)
     \<and> list_all (\<lambda>(k, _). \<exists>key. map_of (ap_casemap a) k = Some key \<and> str_lower key = k
          \<and> is_valid_apev2_key key) (ap_dict a)"

definition spelling :: "ape \<Rightarrow> string \<Rightarrow> string" where
  "spelling a k = (case map_of (ap_casemap a) k of None \<Rightarrow> k | Some key \<Rightarrow> key)"

lemma ape_ok_dom:
  "ape_ok a \<longleftrightarrow> wf_dict (ap_dict a) \<and> wf_dict (ap_casemap a)
     \<and> (\<forall>k v. map_of (ap_dict a) k = Some v \<longrightarrow>
          str_lower (spelling a k) = k \<and> is_valid_apev2_key (spelling a k) \<and> map_of (ap_casemap a) k \<noteq> None)"
proof -
  have "(\<forall>k \<in> dom (map_of (ap_dict a)). \<exists>key. map_of (ap_casemap a) k = Some key \<and> str_lower key = k
      \<and> is_valid_apev2_key key) \<longleftrightarrow> (\<forall>k v. map_of (ap_dict a) k = Some v \<longrightarrow>
          str_lower (spelling a k) = k \<and> is_valid_apev2_key (spelling a k) \<and> map_of (ap_casemap a) k \<noteq> None)"
    by (force simp: spelling_def dom_def split: option.splits)
  then show ?thesis by (simp add: ape_ok_def list_all_iff dom_map_of_conv_image_fst case_prod_beta)
qed

lemma ape_ok_key:
  assumes "ape_ok a" "map_of (ap_dict a) k = Some v"
  shows "str_lower (spelling a k) = k" "is_valid_apev2_key (spelling a k)"
  using assms by (simp_all add: ape_ok_dom)

lemma ape_ok_new: "ape_ok new_ape"
  by (simp add: ape_ok_def new_ape_def)

lemma ape_ok_setitem [wf_intro]:
  assumes a: "ape_ok a" and s: "ape_setitem a key v = Inr a'" shows "ape_ok a'"
proof -
  have e: "a' = \<lparr>ap_casemap = dp_setitem (ap_casemap a) (str_lower key) key,
      ap_dict = dp_setitem (ap_dict a) (str_lower key) v\<rparr>" "is_valid_apev2_key key"
    using s by (auto simp: ape_setitem_def split: if_splits)
  have wf: "wf_dict (ap_dict a)" "wf_dict (ap_casemap a)" using a by (simp_all add: ape_ok_dom)
  then have "spelling a' k = (if k = str_lower key then key else spelling a k)" for k
    by (simp add: e spelling_def proxy.contents_setitem)
  then show ?thesis using a wf e by (simp add: ape_ok_dom wf_dict_setitem proxy.contents_setitem)
qed

lemma ape_ok_delitem [wf_intro]:
  assumes a: "ape_ok a" and s: "ape_delitem a key = Inr a'" shows "ape_ok a'"
proof -
  obtain d where d: "dp_delitem (ap_dict a) (str_lower key) = Inr d" "a' = a\<lparr>ap_dict := d\<rparr>"
    using s by (auto simp: ape_delitem_def bindR_Inr_iff split: if_splits)
  have "wf_dict d" using a d(1) by (auto simp: ape_ok_dom intro: wf_dict_delitem)
  moreover have "map_of d k = Some v \<Longrightarrow> map_of (ap_dict a) k = Some v" for k v
    using d(1) by (auto simp: dp_delitem_def delete_conv' split: if_splits)
  moreover have "spelling a' = spelling a" by (simp add: d(2) spelling_def fun_eq_iff)
  ultimately show ?thesis using a d(2) by (auto simp: ape_ok_dom)
qed

lemma ape_keys_spelling: "ape_keys a = map (spelling a) (map fst (ap_dict a))"
  by (simp add: ape_keys_def spelling_def dp_keys_def)

lemma mapR_getitem:
  "list_all (\<lambda>(k, v). f (g k) = Inr v) xs \<Longrightarrow> mapR f (map (\<lambda>(k, v). g k) xs) = Inr (map snd xs)"
  by (induction xs) auto

lemma ape_items_eq:
  assumes "ape_ok a"
  shows "ape_items a = Inr (map (\<lambda>(k, v). (spelling a k, v)) (ap_dict a))"
proof -
  have wf: "distinct (map fst (ap_dict a))" using assms by (simp add: ape_ok_def wf_dict_def)
  have "ape_getitem a (spelling a k) = Inr v" if "(k, v) \<in> set (ap_dict a)" for k v
  proof -
    have m: "map_of (ap_dict a) k = Some v" using that wf by simp
    from ape_ok_key [OF assms m] m show ?thesis by (simp add: ape_getitem_def dp_getitem_def)
  qed
  then have "list_all (\<lambda>(k, v). ape_getitem a (spelling a k) = Inr v) (ap_dict a)" by (auto simp: list_all_iff)
  then have "mapR (ape_getitem a) (map (\<lambda>(k, v). spelling a k) (ap_dict a)) = Inr (map snd (ap_dict a))"
    by (rule mapR_getitem)
  moreover have "ape_keys a = map (\<lambda>(k, v). spelling a k) (ap_dict a)"
    by (simp add: ape_keys_spelling case_prod_beta)
  ultimately show ?thesis
    by (simp add: ape_items_def dm_items_def dm_values_def zip_map_map case_prod_beta)
      (simp add: zip_same_conv_map case_prod_beta comp_def)
qed

lemma ape_clear_eq:
  assumes "ape_ok a" shows "ape_clear a = Inr (a\<lparr>ap_dict := []\<rparr>)"
proof -
  have "ape_ok b \<Longrightarrow> ap_casemap b = c \<Longrightarrow> dm_del_all ape_delitem b (map (spelling b) (map fst (ap_dict b)))
      = Inr (b\<lparr>ap_dict := []\<rparr>)" for b c
  proof (induction "ap_dict b" arbitrary: b)
    case (Cons kv d)
    obtain k v where kv: "kv = (k, v)" by (cases kv)
    let ?b = "b\<lparr>ap_dict := d\<rparr>"
    have d: "ap_dict b = (k, v) # d" "distinct (map fst (ap_dict b))" using Cons kv
      by (simp_all add: ape_ok_def wf_dict_def)
    have "ape_delitem b (spelling b k) = Inr ?b"
      using ape_ok_key [OF Cons.prems(1), of k v] d by (simp add: ape_delitem_def dp_delitem_def delete_id)
    moreover from this have "ape_ok ?b" by (rule ape_ok_delitem [OF Cons.prems(1)])
    moreover have "spelling ?b = spelling b" by (simp add: spelling_def fun_eq_iff)
    ultimately show ?case using Cons.hyps(1) [of ?b] Cons.prems(2) d by simp
  qed simp
  then show ?thesis using assms by (simp add: ape_clear_def dm_clear_def ape_keys_spelling)
qed

section \<open>Items\<close>

definition item_bytes :: "string \<times> ape_value \<Rightarrow> string" where
  "item_bytes = (\<lambda>(key, v). struct_bytes False 4 (length (av_value v))
     @ struct_bytes False 4 (2 * kind_number (av_kind v)) @ key @ [CHR 0x00] @ av_value v)"

lemma internal_iff: "internal (key, v) = Inr s \<longleftrightarrow> length (av_value v) < 2 ^ 32 \<and> s = item_bytes (key, v)"
  by (auto simp: internal_def bindR_Inr_iff pack_u_def item_bytes_def kind_number_def split: ape_kind.splits)

lemma mapR_internal:
  "list_all (\<lambda>(_, v). length (av_value v) < 2 ^ 32) its \<Longrightarrow> mapR internal its = Inr (map item_bytes its)"
proof (induction its)
  case (Cons kv its)
  have "internal kv = Inr (item_bytes kv)" using Cons.prems by (cases kv) (simp add: internal_iff)
  then show ?case using Cons by simp
qed simp

lemma read_key_here: "CHR 0x00 \<notin> set key \<Longrightarrow> read_key (key @ CHR 0x00 # rest) = (key, rest)"
  by (induction key) auto

lemma valid_key_no_zero: "is_valid_apev2_key key \<Longrightarrow> CHR 0x00 \<notin> set key"
  by (auto simp: is_valid_apev2_key_def list_all_iff)

lemma uint_le_here: "n < 2 ^ 32 \<Longrightarrow> uint_le (struct_bytes False 4 n) = Inr (int n)"
  by (simp add: uint_le_def unpack_u_def struct_value_bytes)

definition set_pairs :: "ape \<Rightarrow> (string \<times> ape_value) list \<Rightarrow> ape" where
  "set_pairs = foldl (\<lambda>a (key, v). \<lparr>ap_casemap = dp_setitem (ap_casemap a) (str_lower key) key,
     ap_dict = dp_setitem (ap_dict a) (str_lower key) v\<rparr>)"

lemma kind_bits: "drop_bit 1 (int (2 * kind_number k) AND 6) = int (kind_number k)"
  by (cases k) (simp_all add: kind_number_def)

lemma ape_value_of_number: "ape_value_of s (int (kind_number k)) = Inr \<lparr>av_kind = k, av_value = s\<rparr>"
  by (cases k) (simp_all add: kind_number_def ape_value_of_def)

lemma parse_items_written:
  "list_all (\<lambda>(key, v). is_valid_apev2_key key \<and> length (av_value v) < 2 ^ 32) its \<Longrightarrow>
     parse_tag (length its) (concat (map item_bytes its)) self = (set_pairs self its, None)"
proof (induction its arbitrary: self)
  case (Cons kv its)
  obtain key v where kv: "kv = (key, v)" by (cases kv)
  have k: "is_valid_apev2_key key" "length (av_value v) < 2 ^ 32" using Cons.prems kv by simp_all
  let ?rest = "concat (map item_bytes its)" and ?n = "struct_bytes False 4 (length (av_value v))"
    and ?k = "struct_bytes False 4 (2 * kind_number (av_kind v))"
  let ?tag = "?n @ ?k @ key @ CHR 0x00 # av_value v @ ?rest"
  have tag: "concat (map item_bytes (kv # its)) = ?tag" by (simp add: kv item_bytes_def)
  have t: "?tag \<noteq> []" "take 4 ?tag = ?n" "take 4 (drop 4 ?tag) = ?k"
    "drop 8 ?tag = key @ CHR 0x00 # av_value v @ ?rest" by auto
  have kn: "2 * kind_number (av_kind v) < 2 ^ 32" "int (kind_number (av_kind v)) \<noteq> 3"
    by (simp_all add: kind_number_def split: ape_kind.split)
  have set: "ape_setitem self key \<lparr>av_kind = av_kind v, av_value = av_value v\<rparr> = Inr (set_pairs self [kv])"
    using k(1) by (cases v) (simp add: ape_setitem_def set_pairs_def kv)
  have r: "read_key (drop 8 ?tag) = (key, av_value v @ ?rest)"
    using read_key_here [OF valid_key_no_zero [OF k(1)]] t(4) by simp
  have v: "take (nat (int (length (av_value v)))) (av_value v @ ?rest) = av_value v"
    "drop (nat (int (length (av_value v)))) (av_value v @ ?rest) = ?rest" by simp_all
  have "parse_tag (length (kv # its)) ?tag self = parse_tag (length its) ?rest (set_pairs self [kv])"
    by (simp only: length_Cons parse_tag.simps t(1) t(2) t(3)
        if_False uint_le_here [OF k(2)] uint_le_here [OF kn(1)] bindR_simps Let_def kind_bits kn(2) r v prod.case
        ape_value_of_number set sum.case)
  moreover have "parse_tag (length its) ?rest (set_pairs self [kv]) = (set_pairs (set_pairs self [kv]) its, None)"
    using Cons.IH Cons.prems by simp
  moreover have "set_pairs (set_pairs self [kv]) its = set_pairs self (kv # its)" by (simp add: set_pairs_def)
  ultimately show ?case by (simp only: tag)
qed (simp add: set_pairs_def)

section \<open>A written tag\<close>

definition frame_fields :: "nat \<Rightarrow> nat \<Rightarrow> nat \<Rightarrow> string" where
  "frame_fields sz num flags = struct_bytes False 4 2000 @ struct_bytes False 4 (sz + 32)
     @ struct_bytes False 4 num @ struct_bytes False 4 flags @ replicate 8 (CHR 0x00)"

definition header_flags :: nat where
  "header_flags = 2684354560"

definition footer_flags :: nat where
  "footer_flags = 2147483648"

lemma flags_eq: "HAS_HEADER OR IS_HEADER = int header_flags" "HAS_HEADER = int footer_flags"
  "int footer_flags AND HAS_HEADER \<noteq> 0"
  by (simp_all add: HAS_HEADER_def IS_HEADER_def header_flags_def footer_flags_def)

lemma length_frame_fields [simp]: "length (frame_fields sz num flags) = 24"
  by (simp add: frame_fields_def)

lemma length_ape_mark [simp]: "length ape_mark = 8"
  by (simp add: ape_mark_def)

lemma ape_frame_written:
  "sz + 32 < 2 ^ 32 \<Longrightarrow> num < 2 ^ 32 \<Longrightarrow> flags < 2 ^ 32 \<Longrightarrow>
     ape_frame sz num (int flags) = Inr (ape_mark @ frame_fields sz num flags)"
  by (simp add: ape_frame_def pack_u_def frame_fields_def nat_add_distrib)

definition tag_bytes :: "(string \<times> ape_value) list \<Rightarrow> string" where
  "tag_bytes its = (let body = concat (map item_bytes its)
     in ape_mark @ frame_fields (length body) (length its) header_flags @ body
        @ ape_mark @ frame_fields (length body) (length its) footer_flags)"

definition tag_fits :: "(string \<times> ape_value) list \<Rightarrow> bool" where
  "tag_fits its \<longleftrightarrow> length (concat (map item_bytes its)) + 32 < 2 ^ 32"

lemma seek_set_here: "seek_set (int n) f = Inr (f\<lparr>fpos := n\<rparr>)"
  by (simp add: seek_set_def)

lemma read_footer:
  assumes "fbytes f = pre @ ape_mark @ rest" "length rest = 24"
  shows "find_metadata f = no_ape_data\<lparr>ad_footer := Some (int (length pre))\<rparr>"
proof -
  have "seek_end (-32) f = Inr (f\<lparr>fpos := length pre\<rparr>)" by (simp add: seek_end_def seek_set_def assms)
  moreover have "f_read 8 (f\<lparr>fpos := length pre\<rparr>) = (ape_mark, f\<lparr>fpos := length pre + 8\<rparr>)"
    by (simp add: f_read_def assms)
  ultimately show ?thesis by (simp add: find_metadata_def)
qed

lemma fill_written:
  assumes f: "fbytes f = pre @ ape_mark @ frame_fields sz num footer_flags"
    and n: "sz + 32 < 2 ^ 32" "num < 2 ^ 32"
  shows "fill_missing f (int (length pre)) (no_ape_data\<lparr>ad_footer := Some (int (length pre))\<rparr>) =
     Inr \<lparr>ad_start = None, ad_header = Some (int (length pre) - int sz - 32), ad_data = Some (int (length pre) - int sz),
       ad_footer = Some (int (length pre)), ad_end = Some (int (length pre) + 32), ad_tag = None,
       ad_version = struct_bytes False 4 2000, ad_size = Some (int sz), ad_items = num,
       ad_flags = int footer_flags, ad_is_at_start = False\<rparr>"
proof -
  let ?p = "length pre + 8"
  have d: "drop (?p + k) (fbytes f) = drop k (frame_fields sz num footer_flags)" for k
    by (simp add: f)
  have s: "seek_set (int (length pre) + 8) f = Inr (f\<lparr>fpos := ?p\<rparr>)" by (simp add: seek_set_def nat_add_distrib)
  have r: "f_read 4 (f\<lparr>fpos := ?p + k\<rparr>) = (take 4 (drop k (frame_fields sz num footer_flags)), f\<lparr>fpos := ?p + (k + 4)\<rparr>)"
    if "k \<le> 20" for k
    using that by (simp add: f_read_def d)
  have t: "take 4 (frame_fields sz num footer_flags) = struct_bytes False 4 2000"
    "take 4 (drop 4 (frame_fields sz num footer_flags)) = struct_bytes False 4 (sz + 32)"
    "take 4 (drop 8 (frame_fields sz num footer_flags)) = struct_bytes False 4 num"
    "take 4 (drop 12 (frame_fields sz num footer_flags)) = struct_bytes False 4 footer_flags"
    by (simp_all add: frame_fields_def)
  have u: "uint_le (struct_bytes False 4 footer_flags) = Inr (int footer_flags)"
    by (rule uint_le_here) (simp add: footer_flags_def)
  show ?thesis
    using r [of 0] r [of 4] r [of 8] r [of 12] uint_le_here [OF n(1)] uint_le_here [OF n(2)] flags_eq(3)
    by (simp add: fill_missing_def s t u no_ape_data_def Let_def)
qed

definition written_data :: "string \<Rightarrow> (string \<times> ape_value) list \<Rightarrow> ape_data" where
  "written_data kept its =
     (let body = concat (map item_bytes its); n = int (length kept); l = int (length body)
      in \<lparr>ad_start = Some (int (broken_start (kept @ tag_bytes its) (length kept))),
           ad_header = Some n, ad_data = Some (n + 32), ad_footer = Some (n + 32 + l),
           ad_end = Some (n + 64 + l), ad_tag = Some body, ad_version = struct_bytes False 4 2000,
           ad_size = Some l, ad_items = length its, ad_flags = int footer_flags, ad_is_at_start = False\<rparr>)"

lemma length_items: "length its \<le> length (concat (map item_bytes its))"
  by (induction its) (auto simp: item_bytes_def)

lemma ape_data_written:
  assumes "tag_fits its"
  shows "ape_data_of (kept @ tag_bytes its) = Inr (written_data kept its)"
proof -
  let ?body = "concat (map item_bytes its)"
  let ?pre = "kept @ ape_mark @ frame_fields (length ?body) (length its) header_flags @ ?body"
  let ?f = "open_file (kept @ tag_bytes its)"
  have n: "length ?body + 32 < 2 ^ 32" "length its < 2 ^ 32"
    using assms length_items [of its] by (simp_all add: tag_fits_def)
  have f: "fbytes ?f = ?pre @ ape_mark @ frame_fields (length ?body) (length its) footer_flags"
    by (simp add: open_file_def tag_bytes_def Let_def)
  have len: "int (length ?pre) = int (length kept) + 32 + int (length ?body)" by simp
  have fb: "fbytes ?f = kept @ tag_bytes its" by (simp add: open_file_def)
  have h: "seek_set (int (length kept)) ?f = Inr (?f\<lparr>fpos := length kept\<rparr>)"
    "seek_set (int (length kept) + 32) ?f = Inr (?f\<lparr>fpos := length kept + 32\<rparr>)"
    by (simp_all add: seek_set_def nat_add_distrib)
  have r: "fst (f_read (int (length ?body)) (?f\<lparr>fpos := length kept + 32\<rparr>)) = ?body"
    by (simp add: f_read_def open_file_def tag_bytes_def Let_def)
  define d where "d = no_ape_data\<lparr>ad_footer := Some (int (length ?pre))\<rparr>"
  have d': "ad_header d = None" "ad_footer d = Some (int (length ?pre))"
    by (simp_all add: d_def no_ape_data_def)
  define b where "b = int (length ?body)"
  note fill = fill_written [OF f n, folded d_def, unfolded len, folded b_def]
  have "ape_data_of (kept @ tag_bytes its) =
      bindR (fill_missing ?f (int (length kept) + 32 + b) d) (\<lambda>d. bindR (fix_brokenness ?f d) (\<lambda>d.
        case (ad_data d, ad_size d) of
          (Some data, Some sz) \<Rightarrow> bindR (seek_set data ?f) (\<lambda>f. Inr (d\<lparr>ad_tag := Some (fst (f_read sz f))\<rparr>))
        | _ \<Rightarrow> Inr d))"
    unfolding ape_data_of_def Let_def read_footer [OF f length_frame_fields, folded d_def]
    by (simp only: d' option.case len b_def)
  also have "\<dots> = Inr (written_data kept its)"
    using r unfolding fill bindR_simps written_data_def Let_def
    by (simp add: fix_brokenness_def h fb b_def)
  finally show ?thesis .
qed

section \<open>Saving\<close>

definition saved_items :: "ape \<Rightarrow> (string \<times> ape_value) list" where
  "saved_items a = sort_key (length \<circ> item_bytes) (map (\<lambda>(k, v). (spelling a k, v)) (ap_dict a))"

lemma insort_key_map: "map g (insort_key (f \<circ> g) x xs) = insort_key f (g x) (map g xs)"
  by (induction xs) auto

lemma sort_key_map: "sort_key f (map g xs) = map g (sort_key (f \<circ> g) xs)"
proof (induction xs)
  case (Cons x xs)
  then show ?case using insort_key_map [of g f x] by (simp add: comp_def)
qed simp

lemma f_write_end: "fpos f = length (fbytes f) \<Longrightarrow>
    fbytes (f_write s f) = fbytes f @ s \<and> fpos (f_write s f) = length (fbytes (f_write s f))"
  by (simp add: f_write_def)

lemma item_fits: "(key, v) \<in> set its \<Longrightarrow> length (av_value v) \<le> length (concat (map item_bytes its))"
  by (induction its) (auto simp: item_bytes_def)

lemma set_saved_items: "set (saved_items a) = (\<lambda>(k, v). (spelling a k, v)) ` set (ap_dict a)"
  by (simp add: saved_items_def)

lemma ape_save_written:
  assumes a: "ape_ok a" and fits: "tag_fits (saved_items a)"
    and f: "bindR (ape_data_of filedata) (\<lambda>d. remove_old mmap_works d (open_file filedata)) = Inr f"
  shows "ape_save mmap_works a filedata = (fbytes f @ tag_bytes (saved_items a), None)"
proof -
  let ?its = "map (\<lambda>(k, v). (spelling a k, v)) (ap_dict a)" and ?saved = "saved_items a"
  let ?body = "concat (map item_bytes ?saved)"
  have n: "length ?body + 32 < 2 ^ 32" "length ?saved < 2 ^ 32"
    using fits length_items [of ?saved] by (simp_all add: tag_fits_def)
  have "list_all (\<lambda>(_, v). length (av_value v) < 2 ^ 32) ?its"
    using item_fits [of _ _ ?saved] n(1) by (fastforce simp: list_all_iff set_saved_items)
  then have m: "bindR (ape_items a) (mapR internal) = Inr (map item_bytes ?its)"
    by (simp add: ape_items_eq [OF a] mapR_internal del: map_map)
  have len: "length (map item_bytes ?its) = length ?saved" by (simp add: saved_items_def)
  have sorted: "sort_key length (map item_bytes ?its) = map item_bytes ?saved"
    unfolding saved_items_def by (rule sort_key_map)
  define g where "g = f\<lparr>fpos := length (fbytes f)\<rparr>"
  have g: "fbytes g = fbytes f" "fpos g = length (fbytes g)" by (simp_all add: g_def)
  have frames: "ape_frame (length ?body) (length ?saved) (HAS_HEADER OR IS_HEADER)
      = Inr (ape_mark @ frame_fields (length ?body) (length ?saved) header_flags)"
    "ape_frame (length ?body) (length ?saved) HAS_HEADER
      = Inr (ape_mark @ frame_fields (length ?body) (length ?saved) footer_flags)"
    unfolding flags_eq(1) unfolding flags_eq(2)
    by (rule ape_frame_written; use n in \<open>simp add: header_flags_def footer_flags_def\<close>)+
  define h where "h = f_write (ape_mark @ frame_fields (length ?body) (length ?saved) header_flags) g"
  have h: "fbytes h = fbytes f @ ape_mark @ frame_fields (length ?body) (length ?saved) header_flags"
    "fpos h = length (fbytes h)" using f_write_end [OF g(2)] by (simp_all add: h_def g(1))
  define i where "i = f_write ?body h"
  have i: "fbytes i = fbytes h @ ?body" "fpos i = length (fbytes i)"
    using f_write_end [OF h(2)] by (simp_all add: i_def)
  have "ape_save mmap_works a filedata =
      (fbytes (f_write (ape_mark @ frame_fields (length ?body) (length ?saved) footer_flags) i), None)"
    unfolding ape_save_def f sum.case Let_def m len sorted frames g_def [symmetric] h_def [symmetric]
      i_def [symmetric] by (rule refl)
  then show ?thesis using f_write_end [OF i(2)] by (simp add: i(1) h(1) tag_bytes_def Let_def)
qed

section \<open>Loading what was saved\<close>

lemma set_pairs_new:
  "distinct (map (str_lower \<circ> fst) its) \<Longrightarrow>
     (\<And>key v. (key, v) \<in> set its \<Longrightarrow> map_of (ap_casemap s) (str_lower key) = None \<and> map_of (ap_dict s) (str_lower key) = None) \<Longrightarrow>
     set_pairs s its = \<lparr>ap_casemap = ap_casemap s @ map (\<lambda>(key, v). (str_lower key, key)) its,
       ap_dict = ap_dict s @ map (\<lambda>(key, v). (str_lower key, v)) its\<rparr>"
proof (induction its arbitrary: s)
  case (Cons kv its)
  obtain key v where kv: "kv = (key, v)" by (cases kv)
  have app: "map_of d k = None \<Longrightarrow> dp_setitem d k x = d @ [(k, x)]" for d k and x :: 'x
    by (induction d) (auto simp: dp_setitem_def split: if_splits)
  let ?s = "\<lparr>ap_casemap = ap_casemap s @ [(str_lower key, key)], ap_dict = ap_dict s @ [(str_lower key, v)]\<rparr>"
  have n: "map_of (ap_casemap s) (str_lower key) = None" "map_of (ap_dict s) (str_lower key) = None"
    using Cons.prems(2) [of key v] kv by simp_all
  have "set_pairs s (kv # its) = set_pairs ?s its"
    by (simp add: set_pairs_def kv app [OF n(1)] app [OF n(2)])
  also have "\<dots> = \<lparr>ap_casemap = ap_casemap ?s @ map (\<lambda>(key, v). (str_lower key, key)) its,
      ap_dict = ap_dict ?s @ map (\<lambda>(key, v). (str_lower key, v)) its\<rparr>"
  proof (rule Cons.IH)
    fix key' v' assume m: "(key', v') \<in> set its"
    then have "str_lower key' \<noteq> str_lower key" using Cons.prems(1) kv by force
    then show "map_of (ap_casemap ?s) (str_lower key') = None \<and> map_of (ap_dict ?s) (str_lower key') = None"
      using Cons.prems(2) [of key' v'] m by (simp add: map_add_def)
  qed (use Cons.prems in simp)
  finally show ?case by (simp add: kv)
qed (simp add: set_pairs_def)

lemma saved_items_lower:
  assumes "ape_ok a"
  shows "distinct (map (str_lower \<circ> fst) (saved_items a))"
    "set (map (\<lambda>(key, v). (str_lower key, v)) (saved_items a)) = set (ap_dict a)"
    "list_all (\<lambda>(key, v). is_valid_apev2_key key) (saved_items a)"
proof -
  have d: "distinct (map fst (ap_dict a))" using assms by (simp add: ape_ok_def wf_dict_def)
  have k: "str_lower (spelling a k) = k" "is_valid_apev2_key (spelling a k)" if "(k, v) \<in> set (ap_dict a)" for k v
    using ape_ok_key [OF assms, of k v] that d by simp_all
  have "map (str_lower \<circ> fst) (map (\<lambda>(k, v). (spelling a k, v)) (ap_dict a)) = map fst (ap_dict a)"
    using k(1) by auto
  moreover have "mset (map (str_lower \<circ> fst) (saved_items a))
      = mset (map (str_lower \<circ> fst) (map (\<lambda>(k, v). (spelling a k, v)) (ap_dict a)))"
    by (simp add: saved_items_def multiset.map_comp comp_def case_prod_beta)
  ultimately show "distinct (map (str_lower \<circ> fst) (saved_items a))" using d mset_eq_imp_distinct_iff by metis
  show "set (map (\<lambda>(key, v). (str_lower key, v)) (saved_items a)) = set (ap_dict a)"
    using k(1) by (force simp: set_saved_items)
  show "list_all (\<lambda>(key, v). is_valid_apev2_key key) (saved_items a)"
    using k(2) by (auto simp: list_all_iff set_saved_items)
qed

lemma load_tag_written:
  assumes a: "ape_ok a" and fits: "tag_fits (saved_items a)" and ne: "ap_dict a \<noteq> []"
  shows "ape_load new_ape (kept @ tag_bytes (saved_items a)) = (set_pairs new_ape (saved_items a), None)"
proof -
  let ?its = "saved_items a"
  let ?body = "concat (map item_bytes ?its)"
  have "?its \<noteq> []" using ne set_saved_items [of a] by auto
  then obtain c cs where b: "?body = c # cs" by (cases ?its; cases ?body) (auto simp: item_bytes_def)
  have "list_all (\<lambda>(key, v). is_valid_apev2_key key \<and> length (av_value v) < 2 ^ 32) ?its"
    using saved_items_lower(3) [OF a] item_fits [of _ _ ?its] fits
    by (fastforce simp: list_all_iff tag_fits_def)
  from parse_items_written [OF this] have p: "parse_tag (length ?its) ?body new_ape = (set_pairs new_ape ?its, None)" .
  have "ape_clear new_ape = Inr new_ape" "new_ape\<lparr>ap_casemap := []\<rparr> = new_ape"
    using ape_clear_eq [OF ape_ok_new] by (simp_all add: new_ape_def)
  with p show ?thesis
    unfolding ape_load_def ape_data_written [OF fits] sum.case
    by (simp add: written_data_def Let_def b)
qed

lemma loaded_tag_written:
  assumes "ape_ok a"
  defines "b \<equiv> set_pairs new_ape (saved_items a)"
  shows "ape_ok b" "map_of (ap_dict b) = map_of (ap_dict a)" "set (ape_keys b) = set (ape_keys a)"
proof -
  note its = saved_items_lower [OF assms(1)]
  have b: "ap_casemap b = map (\<lambda>(key, v). (str_lower key, key)) (saved_items a)"
    "ap_dict b = map (\<lambda>(key, v). (str_lower key, v)) (saved_items a)"
    unfolding b_def by (simp_all add: set_pairs_new [OF its(1)] new_ape_def)
  have d: "distinct (map fst (ap_casemap b))" "distinct (map fst (ap_dict b))"
    using its(1) by (simp_all add: b comp_def case_prod_beta)
  have m: "map_of (ap_casemap b) (str_lower key) = Some key" if "(key, v) \<in> set (saved_items a)" for key v
    using d(1) that by (force simp: b)
  show "ape_ok b"
    using d m its(3) by (fastforce simp: ape_ok_def wf_dict_def list_all_iff b(2))
  have "distinct (map fst (ap_dict a))" using assms(1) by (simp add: ape_ok_def wf_dict_def)
  moreover have "set (ap_dict b) = set (ap_dict a)" using its(2) by (simp add: b(2))
  ultimately show "map_of (ap_dict b) = map_of (ap_dict a)" using d(2) by (simp add: map_of_inject_set)
  have "ape_keys b = map fst (saved_items a)"
    using m by (force simp: ape_keys_spelling spelling_def b(2))
  then show "set (ape_keys b) = set (ape_keys a)"
    by (force simp: ape_keys_spelling set_saved_items)
qed

text \<open>An example: one title, in a file that is too short for any tag.\<close>

definition titled :: ape where
  "titled = \<lparr>ap_casemap = [(''title'', ''Title'')],
     ap_dict = [(''title'', \<lparr>av_kind = TEXT, av_value = ''song''\<rparr>)]\<rparr>"

lemma title_lower: "str_lower ''Title'' = ''title''" "str_lower ''TITLE'' = ''title''"
  by code_simp+

lemma titled_set: "ape_setitem new_ape ''Title'' \<lparr>av_kind = TEXT, av_value = ''song''\<rparr> = Inr titled"
  by (simp add: ape_setitem_def is_valid_apev2_key_def new_ape_def titled_def dp_setitem_def title_lower)

lemma titled_ok: "ape_ok titled"
  by (rule ape_ok_setitem [OF ape_ok_new titled_set])

lemma titled_fits: "tag_fits (saved_items titled)"
  by (simp add: tag_fits_def saved_items_def titled_def spelling_def item_bytes_def)

lemma short_file:
  "bindR (ape_data_of ''audio'') (\<lambda>d. remove_old mmap_works d (open_file ''audio'')) = Inr (open_file ''audio'')"
  by (simp add: ape_data_of_def find_metadata_def seek_end_def seek_set_def open_file_def no_ape_data_def
      remove_old_def)

text \<open>
  C24. Saving a dictionary whose tag fits 32 bits into a file whose old tag can be removed leaves what
  remains of the file and appends one tag; loading the result gives, for a dictionary with anything
  in it, the same values under the same keys in the same spelling. An empty dictionary is saved as a
  tag without items, which loading takes for no tag at all.
\<close>

theorem ape_save_load:
  assumes "ape_ok a" "tag_fits (saved_items a)"
    and "bindR (ape_data_of filedata) (\<lambda>d. remove_old mmap_works d (open_file filedata)) = Inr f"
  shows "\<exists>saved. ape_save mmap_works a filedata = (fbytes f @ saved, None)
    \<and> (if ap_dict a = [] then ape_load new_ape (fbytes f @ saved) = (new_ape, Some APENoHeaderError)
       else \<exists>b. ape_load new_ape (fbytes f @ saved) = (b, None) \<and> ape_ok b
         \<and> map_of (ap_dict b) = map_of (ap_dict a) \<and> set (ape_keys b) = set (ape_keys a))"
proof (intro exI conjI)
  let ?saved = "tag_bytes (saved_items a)"
  show "ape_save mmap_works a filedata = (fbytes f @ ?saved, None)" by (rule ape_save_written [OF assms])
  show "if ap_dict a = [] then ape_load new_ape (fbytes f @ ?saved) = (new_ape, Some APENoHeaderError)
       else \<exists>b. ape_load new_ape (fbytes f @ ?saved) = (b, None) \<and> ape_ok b
         \<and> map_of (ap_dict b) = map_of (ap_dict a) \<and> set (ape_keys b) = set (ape_keys a)"
  proof (cases "ap_dict a = []")
    case True
    then have "saved_items a = []" by (simp add: saved_items_def)
    then show ?thesis
      using ape_data_written [OF assms(2), of "fbytes f"] True
      by (simp add: ape_load_def written_data_def Let_def)
  next
    case False
    then show ?thesis using load_tag_written [OF assms(1,2) False] loaded_tag_written [OF assms(1)] by simp
  qed
qed

theorem ape_save_load_witness:
  "\<exists>saved b. ape_save True titled ''audio'' = (''audio'' @ saved, None)
    \<and> ape_load new_ape (''audio'' @ saved) = (b, None)
    \<and> map_of (ap_dict b) ''title'' = Some \<lparr>av_kind = TEXT, av_value = ''song''\<rparr> \<and> ape_keys b = [''Title'']"
proof -
  obtain saved b where b: "ape_save True titled ''audio'' = (''audio'' @ saved, None)"
    "ape_load new_ape (''audio'' @ saved) = (b, None)" "ape_ok b"
    "map_of (ap_dict b) = map_of (ap_dict titled)" "set (ape_keys b) = set (ape_keys titled)"
    using ape_save_load [OF titled_ok titled_fits short_file [of True]]
    by (auto simp: open_file_def titled_def)
  have t: "map_of (ap_dict titled) = [''title'' \<mapsto> \<lparr>av_kind = TEXT, av_value = ''song''\<rparr>]" "ape_keys titled = [''Title'']"
    by (simp_all add: titled_def ape_keys_def dp_keys_def)
  have d: "distinct (map fst (ap_dict b))" using b(3) by (simp add: ape_ok_def wf_dict_def)
  moreover have "set (map fst (ap_dict b)) = {''title''}"
    using b(4) t(1) by (simp add: dom_map_of_conv_image_fst [symmetric])
  ultimately have "length (ap_dict b) = 1" by (metis distinct_card card.empty card.insert empty_iff
      finite.emptyI length_map One_nat_def)
  then have "length (ape_keys b) = 1" by (simp add: ape_keys_spelling)
  then have "ape_keys b = [''Title'']" using b(5) t(2) by (cases "ape_keys b") auto
  with b(1,2) show ?thesis using b(4) t(1) by auto
qed

section \<open>Saving again, and deleting\<close>

text \<open>What older writers left in front of a tag.\<close>

definition leftover :: "string \<Rightarrow> bool" where
  "leftover kept \<longleftrightarrow> 24 \<le> length kept \<and> take 8 (drop (length kept - 24) kept) = ape_mark"

lemma no_leftover: "\<not> leftover kept \<Longrightarrow> broken_start (kept @ rest) (length kept) = length kept"
  by (subst broken_start.simps) (auto simp: leftover_def)

lemma length_tag_bytes: "int (length (tag_bytes its)) = 64 + int (length (concat (map item_bytes its)))"
  by (simp add: tag_bytes_def Let_def)

lemma remove_written:
  assumes "tag_fits its" "\<not> leftover kept"
  shows "bindR (ape_data_of (kept @ tag_bytes its))
      (\<lambda>d. remove_old mmap_works d (open_file (kept @ tag_bytes its)))
    = Inr \<lparr>fbytes = kept, fpos = length kept\<rparr>"
  by (simp add: ape_data_written [OF assms(1)] remove_old_def written_data_def Let_def
      no_leftover [OF assms(2)] seek_set_here f_truncate_def open_file_def)

lemma delete_written:
  assumes "tag_fits its" "\<not> leftover kept" "ape_ok c"
  shows "ape_delete mmap_works c (kept @ tag_bytes its) = (c\<lparr>ap_dict := []\<rparr>, kept, None)"
proof -
  let ?data = "kept @ tag_bytes its"
  have pos: "0 < length (tag_bytes its)" using length_tag_bytes [of its] by linarith
  obtain f' where f': "delete_bytes mmap_works (open_file ?data) (int (length (tag_bytes its))) (int (length kept)) = Inr f'"
    "fbytes f' = closed (length (tag_bytes its)) (length kept) ?data"
    using delete_bytes_closed [OF pos, of "length kept" "open_file ?data" mmap_works]
    by (auto simp: open_file_def)
  have "fbytes f' = kept" by (simp add: f'(2) closed_def)
  moreover have "delete_bytes mmap_works (open_file ?data)
      (int (length kept) + 64 + int (length (concat (map item_bytes its))) - int (length kept)) (int (length kept)) = Inr f'"
    using f'(1) by (simp only: length_tag_bytes) (simp add: algebra_simps)
  ultimately show ?thesis
    unfolding ape_delete_def ape_data_written [OF assms(1)] sum.case
    by (simp add: written_data_def Let_def no_leftover [OF assms(2)] ape_clear_eq [OF assms(3)])
qed

text \<open>
  C25. Saving never piles tags up: when what remains of the file without its old tag does not end in
  the start of another one, saving again, any dictionary, gives what saving it first would have
  given, and deleting gives back the rest of the file byte for byte.
\<close>

theorem ape_save_replaces:
  assumes "ape_ok a" "tag_fits (saved_items a)" "ape_ok c" "tag_fits (saved_items c)"
    and f: "bindR (ape_data_of filedata) (\<lambda>d. remove_old mmap_works d (open_file filedata)) = Inr f"
    and "\<not> leftover (fbytes f)"
  shows "ape_save mmap_works c (fst (ape_save mmap_works a filedata)) = ape_save mmap_works c filedata
    \<and> ape_delete mmap_works c (fst (ape_save mmap_works a filedata)) = (c\<lparr>ap_dict := []\<rparr>, fbytes f, None)"
  using ape_save_written [OF assms(1,2) f] ape_save_written [OF assms(3,4) f]
    ape_save_written [OF assms(3,4) remove_written [OF assms(2,6)]] delete_written [OF assms(2,6,3)]
  by simp_all

theorem ape_save_replaces_witness:
  "ape_save True new_ape (fst (ape_save True titled ''audio'')) = ape_save True new_ape ''audio''
    \<and> ape_delete True new_ape (fst (ape_save True titled ''audio'')) = (new_ape, ''audio'', None)"
proof -
  have "tag_fits (saved_items new_ape)" by (simp add: tag_fits_def saved_items_def new_ape_def)
  moreover have "\<not> leftover (fbytes (open_file ''audio''))" by (simp add: leftover_def open_file_def)
  ultimately show ?thesis
    using ape_save_replaces [OF titled_ok titled_fits ape_ok_new _ short_file [of True]]
    by (simp add: open_file_def new_ape_def)
qed

section \<open>The dictionary ignores case\<close>

lemma ape_setitem_eq:
  "ape_setitem a key v = Inr b \<longleftrightarrow> is_valid_apev2_key key
     \<and> b = \<lparr>ap_casemap = dp_setitem (ap_casemap a) (str_lower key) key,
            ap_dict = dp_setitem (ap_dict a) (str_lower key) v\<rparr>"
  by (auto simp: ape_setitem_def)

lemma lower_keys: "ape_ok a \<Longrightarrow> map str_lower (ape_keys a) = map fst (ap_dict a)"
  unfolding ape_keys_spelling using ape_ok_key(1) [of a]
  by (auto simp: ape_ok_def wf_dict_def)

text \<open>
  C36. The dictionary ignores case and keeps the last spelling: after an item is set under a valid
  key, every valid spelling of the key finds it and the keys list the one it was set with, the other
  items stay as they are, no two keys differ only in case, and deleting under any valid spelling
  takes exactly this item out.
\<close>

theorem ape_ignores_case:
  assumes a: "ape_ok a" and b: "ape_setitem a key v = Inr b" and k: "is_valid_apev2_key other"
  shows "ape_ok b \<and> key \<in> set (ape_keys b) \<and> distinct (map str_lower (ape_keys b))
    \<and> ape_getitem b other = (if str_lower other = str_lower key then Inr v else ape_getitem a other)
    \<and> (str_lower other = str_lower key \<longrightarrow> (\<exists>c. ape_delitem b other = Inr c \<and> ape_ok c
         \<and> ape_getitem c key = Inl KeyError
         \<and> (\<forall>k'. str_lower k' \<noteq> str_lower key \<longrightarrow> ape_getitem c k' = ape_getitem a k')))"
proof -
  have e: "is_valid_apev2_key key" "ap_dict b = dp_setitem (ap_dict a) (str_lower key) v"
    "ap_casemap b = dp_setitem (ap_casemap a) (str_lower key) key"
    using b by (simp_all add: ape_setitem_eq)
  have ok: "ape_ok b" by (rule ape_ok_setitem [OF a b])
  have wf: "wf_dict (ap_dict a)" "wf_dict (ap_casemap a)" "wf_dict (ap_dict b)"
    using a ok by (simp_all add: ape_ok_dom)
  have m: "map_of (ap_dict b) = (map_of (ap_dict a))(str_lower key \<mapsto> v)"
    "map_of (ap_casemap b) = (map_of (ap_casemap a))(str_lower key \<mapsto> key)"
    by (simp_all add: e proxy.contents_setitem wf)
  have "str_lower key \<in> set (map fst (ap_dict b))" using m(1) by (simp add: dom_map_of_conv_image_fst [symmetric])
  then have keys: "key \<in> set (ape_keys b)" using m(2) by (force simp: ape_keys_spelling spelling_def)
  have dist: "distinct (map str_lower (ape_keys b))" using wf(3) by (simp add: lower_keys [OF ok] wf_dict_def)
  have get: "ape_getitem b k' = (if str_lower k' = str_lower key then Inr v else ape_getitem a k')"
    if "is_valid_apev2_key k'" for k'
    using that by (simp add: ape_getitem_def dp_getitem_def m(1))
  have del: "\<exists>c. ape_delitem b other = Inr c \<and> ape_ok c \<and> ape_getitem c key = Inl KeyError
      \<and> (\<forall>k'. str_lower k' \<noteq> str_lower key \<longrightarrow> ape_getitem c k' = ape_getitem a k')"
    if s: "str_lower other = str_lower key"
  proof -
    let ?c = "b\<lparr>ap_dict := AList.delete (str_lower key) (ap_dict b)\<rparr>"
    have c: "ape_delitem b other = Inr ?c"
      using k s m(1) by (simp add: ape_delitem_def dp_delitem_def)
    moreover have "ape_getitem ?c key = Inl KeyError"
      by (simp add: ape_getitem_def dp_getitem_def delete_conv')
    moreover have "ape_getitem ?c k' = ape_getitem a k'" if "str_lower k' \<noteq> str_lower key" for k'
      using that by (simp add: ape_getitem_def dp_getitem_def delete_conv' m(1))
    ultimately show ?thesis using ape_ok_delitem [OF ok c] by blast
  qed
  from ok keys dist get [OF k] del show ?thesis by blast
qed

theorem ape_ignores_case_witness:
  "ape_getitem titled ''TITLE'' = Inr \<lparr>av_kind = TEXT, av_value = ''song''\<rparr> \<and> ''Title'' \<in> set (ape_keys titled)"
  using ape_ignores_case [OF ape_ok_new titled_set, of "''TITLE''"]
  by (simp add: is_valid_apev2_key_def title_lower)

section \<open>What loading can raise\<close>

text \<open>The errors of a part: the list of what it can raise.\<close>

lemma seek_set_error: "seek_set p f = Inl e \<Longrightarrow> e = IOError"
  by (simp add: seek_set_def split: if_splits)

lemma uint_le_error: "uint_le s = Inl e \<Longrightarrow> e = StructError"
  by (simp add: uint_le_def unpack_u_def split: if_splits)

lemma uint_le_nonneg: "uint_le s = Inr n \<Longrightarrow> 0 \<le> n"
  by (auto simp: uint_le_def unpack_u_def split: if_splits)

lemma fill_missing_errors:
  assumes "fill_missing f m d = r" "ad_header d \<noteq> None \<or> ad_footer d \<noteq> None"
  shows "case r of Inl e \<Rightarrow> e \<in> {IOError, StructError} | Inr d' \<Rightarrow> ad_data d' \<noteq> None"
  using assms
  by (auto simp: fill_missing_def bindR_Inr_iff bindR_Inl_iff Let_def case_prod_beta split: sum.split option.splits
      dest!: seek_set_error uint_le_error)

lemma fix_brokenness_error:
  "ad_data d \<noteq> None \<Longrightarrow> fix_brokenness f d = Inl e \<Longrightarrow> e = IOError"
  by (auto simp: fix_brokenness_def bindR_Inl_iff split: option.splits dest!: seek_set_error)

lemma ape_data_errors: "ape_data_of filedata = Inl e \<Longrightarrow> e \<in> {IOError, StructError}"
proof -
  let ?f = "open_file filedata"
  define d where "d = find_metadata ?f"
  assume a: "ape_data_of filedata = Inl e"
  show ?thesis
  proof (cases "case ad_header d of Some h \<Rightarrow> Some h | None \<Rightarrow> ad_footer d")
    case None
    then show ?thesis using a unfolding ape_data_of_def Let_def d_def [symmetric] by simp
  next
    case (Some m)
    then have "ad_header d \<noteq> None \<or> ad_footer d \<noteq> None" by (auto split: option.splits)
    note fill = fill_missing_errors [OF refl this, of ?f m]
    have "bindR (fill_missing ?f m d) (\<lambda>d. bindR (fix_brokenness ?f d) (\<lambda>d.
        case (ad_data d, ad_size d) of
          (Some data, Some sz) \<Rightarrow> bindR (seek_set data ?f) (\<lambda>f. Inr (d\<lparr>ad_tag := Some (fst (f_read sz f))\<rparr>))
        | _ \<Rightarrow> Inr d)) = Inl e"
      using a Some unfolding ape_data_of_def Let_def d_def [symmetric] by simp
    then show ?thesis
      using fill fix_brokenness_error [of _ ?f e] seek_set_error [of _ ?f e]
      by (fastforce simp: bindR_Inl_iff split: option.splits)
  qed
qed

lemma and_three: "(n::int) AND 3 \<in> {0, 1, 2, 3}"
proof -
  have "0 \<le> y \<Longrightarrow> y \<le> 3 \<Longrightarrow> y \<in> {0, 1, 2, 3}" for y :: int by auto
  then show ?thesis by (simp add: AND_upper2)
qed

lemma ape_value_of_error: "k \<in> {0, 1, 2, 3} \<Longrightarrow> k \<noteq> 3 \<Longrightarrow> ape_value_of s k \<noteq> Inl e"
  by (auto simp: ape_value_of_def)

lemma parse_tag_errors:
  "ape_ok self \<Longrightarrow> parse_tag n tag self = (self', r) \<Longrightarrow>
     ape_ok self' \<and> (r = None \<or> r \<in> Some ` {StructError, APEBadItemError, KeyError})"
proof (induction n arbitrary: tag self)
  case (Suc n)
  define item where "item = bindR (uint_le (take 4 tag)) (\<lambda>size.
                bindR (uint_le (take 4 (drop 4 tag))) (\<lambda>flags.
                let kind = drop_bit 1 (flags AND 6)
                in if kind = 3 then Inl APEBadItemError
                   else let (key, rest) = read_key (drop 8 tag)
                        in bindR (ape_value_of (take (nat size) rest) kind) (\<lambda>value.
                           bindR (ape_setitem self key value) (\<lambda>self. Inr (self, drop (nat size) rest)))))"
  have step: "parse_tag (Suc n) tag self = (if tag = [] then (self, None) else case item of
      Inl e \<Rightarrow> (self, Some e) | Inr (self, rest) \<Rightarrow> parse_tag n rest self)"
    by (simp only: parse_tag.simps item_def)
  show ?case
  proof (cases "tag = []")
    case True
    then show ?thesis using Suc.prems step by simp
  next
    case False
    show ?thesis
    proof (cases item)
      case (Inl e)
      then have "e \<in> {StructError, APEBadItemError, KeyError}"
        unfolding item_def
        by (auto simp: bindR_Inl_iff Let_def ape_setitem_def case_prod_beta split: if_splits
            dest: uint_le_error ape_value_of_error [OF and_three])
      then show ?thesis using Suc.prems step False Inl by auto
    next
      case (Inr x)
      obtain self1 rest where x: "x = (self1, rest)" by (cases x)
      have "ape_ok self1" using Inr Suc.prems(1) unfolding item_def x
        by (auto simp: bindR_Inr_iff Let_def case_prod_beta split: if_splits intro: ape_ok_setitem)
      then show ?thesis using Suc.IH Suc.prems(2) step False Inr x by simp
    qed
  qed
qed simp

text \<open>
  C35. Loading any bytes into a well-formed dictionary leaves a well-formed dictionary and either
  succeeds or raises the two errors of the module or one of three that its callers do not catch: a
  position before the start of the file, a number that is cut short, and an invalid key. The
  dictionary is left as it was when no tag is found or its frame cannot be read.
\<close>

theorem ape_load_errors:
  assumes "ape_ok self" "ape_load self filedata = (self', r)"
  shows "ape_ok self' \<and> (r = None \<or> r \<in> Some ` {APENoHeaderError, APEBadItemError, IOError, StructError, KeyError})
    \<and> (r \<in> Some ` {APENoHeaderError, IOError} \<longrightarrow> self' = self)"
proof (cases "ape_data_of filedata")
  case (Inl e)
  then show ?thesis using assms ape_data_errors [OF Inl] by (auto simp: ape_load_def)
next
  case (Inr d)
  let ?new = "self\<lparr>ap_dict := [], ap_casemap := []\<rparr>"
  have ok: "ape_ok ?new" by (simp add: ape_ok_def wf_dict_def)
  show ?thesis
  proof (cases "ad_tag d = None \<or> ad_tag d = Some []")
    case True
    then show ?thesis using assms Inr by (auto simp: ape_load_def)
  next
    case False
    then obtain c cs where "ad_tag d = Some (c # cs)" by (auto simp: neq_Nil_conv)
    then have "parse_tag (ad_items d) (c # cs) ?new = (self', r)"
      using assms Inr by (simp add: ape_load_def ape_clear_eq)
    from parse_tag_errors [OF ok this] show ?thesis by auto
  qed
qed

text \<open>A footer alone, of a tag that would begin before the file.\<close>

theorem ape_load_errors_witness:
  "ape_load titled (ape_mark @ frame_fields 68 0 footer_flags) = (titled, Some IOError) \<and> ape_ok titled"
proof -
  let ?f = "open_file (ape_mark @ frame_fields 68 0 footer_flags)"
  have f: "fbytes ?f = [] @ ape_mark @ frame_fields 68 0 footer_flags" by (simp add: open_file_def)
  have "ape_data_of (ape_mark @ frame_fields 68 0 footer_flags) = Inl IOError"
    using fill_written [OF f] unfolding ape_data_of_def Let_def read_footer [OF f length_frame_fields]
    by (simp add: no_ape_data_def fix_brokenness_def seek_set_def)
  then have "ape_load titled (ape_mark @ frame_fields 68 0 footer_flags) = (titled, Some IOError)"
    by (simp add: ape_load_def)
  with ape_load_errors [OF titled_ok this] show ?thesis by blast
qed

end
