(* ===== verification/Flac.thy ===== *)
theory Flac
  imports Complex_Main Mut_File Vorbis
begin

unbundle bit_operations_syntax

text \<open>
  \<open>mutagen/flac.py\<close>: FLAC files. A file is an optional ID3 tag, the mark \<open>fLaC\<close>, metadata blocks, and
  the audio; tags are the block that holds a Vorbis comment.

  The file is read in sequence, so a reader is the bytes that are left. \<open>StrictFileObject\<close> raises the
  class \<open>error\<close> of the module, here \<open>FlacError\<close>, where a file would return less than asked for. An
  object of the class \<open>FLAC\<close> is its list of blocks: its attributes \<open>tags\<close>, \<open>cuesheet\<close> and \<open>seektable\<close>
  are the blocks of these types, of which loading accepts one each. What \<open>decode('utf-8', 'replace')\<close>
  makes of malformed bytes is the parameter \<open>lossy\<close>; the length, a double, is an exact rational.
\<close>

section \<open>Reading\<close>

definition flac_int :: "string \<Rightarrow> int" where
  "flac_int s = int (struct_value True s)"

definition strict_read :: "nat \<Rightarrow> string \<Rightarrow> merr + string \<times> string" where
  "strict_read n data = (if length data < n then Inl FlacError else Inr (take n data, drop n data))"

fun strict_list :: "(string \<Rightarrow> merr + 'a \<times> string) \<Rightarrow> nat \<Rightarrow> string \<Rightarrow> merr + 'a list \<times> string" where
  "strict_list load 0 data = Inr ([], data)"
| "strict_list load (Suc n) data =
     bindR (load data) (\<lambda>(x, data). bindR (strict_list load n data) (\<lambda>(xs, data). Inr (x # xs, data)))"

text \<open>\<open>s.rstrip('\0')\<close>, and a field of format \<open>ns\<close>, cut or filled up.\<close>

definition rstrip_nul :: "string \<Rightarrow> string" where
  "rstrip_nul s = rev (dropWhile (\<lambda>c. c = CHR 0x00) (rev s))"

definition pad_nul :: "nat \<Rightarrow> string \<Rightarrow> string" where
  "pad_nul n s = take n s @ replicate (n - length s) (CHR 0x00)"

section \<open>Stream information\<close>

record stream_info =
  si_min_blocksize :: int
  si_max_blocksize :: int
  si_min_framesize :: int
  si_max_framesize :: int
  si_sample_rate :: int
  si_channels :: int
  si_bits_per_sample :: int
  si_total_samples :: int
  si_length :: rat
  si_md5_signature :: int

definition stream_info_load :: "string \<Rightarrow> merr + stream_info" where
  "stream_info_load data =
     bindR (strict_read 2 data) (\<lambda>(min_blocksize, data).
     bindR (strict_read 2 data) (\<lambda>(max_blocksize, data).
     bindR (strict_read 3 data) (\<lambda>(min_framesize, data).
     bindR (strict_read 3 data) (\<lambda>(max_framesize, data).
     bindR (strict_read 2 data) (\<lambda>(s1, data).
     bindR (strict_read 1 data) (\<lambda>(s2, data).
     bindR (strict_read 5 data) (\<lambda>(s3, data).
       let sample_first = flac_int s1; sample_channels_bps = flac_int s2; bps_total = flac_int s3;
           sample_tail = drop_bit 4 sample_channels_bps;
           sample_rate = push_bit 4 sample_first + sample_tail
       in if sample_rate = 0 then Inl FlacError
          else let channels = (drop_bit 1 sample_channels_bps AND 7) + 1;
                   bps_tail = drop_bit 36 bps_total;
                   bps_head = push_bit 4 (sample_channels_bps AND 1);
                   total_samples = bps_total AND 0xFFFFFFFFF
               in bindR (strict_read 16 data) (\<lambda>(md5, data).
                    Inr \<lparr>si_min_blocksize = flac_int min_blocksize, si_max_blocksize = flac_int max_blocksize,
                      si_min_framesize = flac_int min_framesize, si_max_framesize = flac_int max_framesize,
                      si_sample_rate = sample_rate, si_channels = channels,
                      si_bits_per_sample = bps_head + bps_tail + 1, si_total_samples = total_samples,
                      si_length = of_int total_samples / of_int sample_rate,
                      si_md5_signature = flac_int md5\<rparr>))))))))"

text \<open>\<open>struct.pack(">I", v)[-n:]\<close>.\<close>

definition pack_last :: "nat \<times> int \<Rightarrow> merr + string" where
  "pack_last = (\<lambda>(n, v). bindR (pack_u True 4 v) (\<lambda>s. Inr (drop (4 - n) s)))"

definition stream_info_write :: "stream_info \<Rightarrow> merr + string" where
  "stream_info_write self =
     bindR (mapR pack_last [(2, si_min_blocksize self), (2, si_max_blocksize self),
       (3, si_min_framesize self), (3, si_max_framesize self), (2, drop_bit 4 (si_sample_rate self))]) (\<lambda>front.
     let byte1 = push_bit 4 (si_sample_rate self AND 0xF) + push_bit 1 ((si_channels self - 1) AND 7)
           + (drop_bit 4 (si_bits_per_sample self - 1) AND 1);
         byte2 = push_bit 4 ((si_bits_per_sample self - 1) AND 0xF)
           + (drop_bit 32 (si_total_samples self) AND 0xF);
         sig = si_md5_signature self
     in bindR (mapR pack_last [(4, si_total_samples self AND 0xFFFFFFFF), (4, drop_bit 96 sig AND 0xFFFFFFFF),
          (4, drop_bit 64 sig AND 0xFFFFFFFF), (4, drop_bit 32 sig AND 0xFFFFFFFF), (4, sig AND 0xFFFFFFFF)])
        (\<lambda>end_part. Inr (concat front @ [chr (nat byte1), chr (nat byte2)] @ concat end_part)))"

section \<open>Seek tables\<close>

type_synonym seek_point = "int \<times> int \<times> int"

text \<open>What is too short for a point at the end is left.\<close>

fun seek_table_load :: "string \<Rightarrow> seek_point list" where
  "seek_table_load data =
     (if length data < 18 then []
      else (flac_int (take 8 data), flac_int (take 8 (drop 8 data)), flac_int (take 2 (drop 16 data)))
           # seek_table_load (drop 18 data))"

declare seek_table_load.simps [simp del]

definition seek_point_write :: "seek_point \<Rightarrow> merr + string" where
  "seek_point_write = (\<lambda>(first_sample, byte_offset, num_samples).
     bindR (pack_u True 8 first_sample) (\<lambda>f. bindR (pack_u True 8 byte_offset) (\<lambda>b.
     bindR (pack_u True 2 num_samples) (\<lambda>n. Inr (f @ b @ n)))))"

definition seek_table_write :: "seek_point list \<Rightarrow> merr + string" where
  "seek_table_write points = bindR (mapR seek_point_write points) (\<lambda>ss. Inr (concat ss))"

section \<open>Cue sheets\<close>

text \<open>An index is its number and its offset.\<close>

record cue_track =
  ct_track_number :: int
  ct_start_offset :: int
  ct_isrc :: string
  ct_type :: int
  ct_pre_emphasis :: bool
  ct_indexes :: "(int \<times> int) list"

record cue_sheet =
  cs_media_catalog_number :: string
  cs_lead_in_samples :: int
  cs_compact_disc :: bool
  cs_tracks :: "cue_track list"

definition cue_index_load :: "string \<Rightarrow> merr + (int \<times> int) \<times> string" where
  "cue_index_load data =
     bindR (strict_read 12 data) (\<lambda>(index, data).
       Inr ((flac_int (take 1 (drop 8 index)), flac_int (take 8 index)), data))"

definition cue_track_load :: "string \<Rightarrow> merr + cue_track \<times> string" where
  "cue_track_load data =
     bindR (strict_read 36 data) (\<lambda>(track, data).
       let flags = flac_int (take 1 (drop 21 track)); num_indexes = nat (flac_int (take 1 (drop 35 track)))
       in bindR (strict_list cue_index_load num_indexes data) (\<lambda>(indexes, data).
            Inr (\<lparr>ct_track_number = flac_int (take 1 (drop 8 track)), ct_start_offset = flac_int (take 8 track),
                   ct_isrc = rstrip_nul (take 12 (drop 9 track)), ct_type = drop_bit 7 (flags AND 0x80),
                   ct_pre_emphasis = (flags AND 0x40 \<noteq> 0), ct_indexes = indexes\<rparr>, data)))"

definition cue_sheet_load :: "string \<Rightarrow> merr + cue_sheet" where
  "cue_sheet_load data =
     bindR (strict_read 396 data) (\<lambda>(header, data).
       let flags = flac_int (take 1 (drop 136 header)); num_tracks = nat (flac_int (take 1 (drop 395 header)))
       in bindR (strict_list cue_track_load num_tracks data) (\<lambda>(tracks, data).
            Inr \<lparr>cs_media_catalog_number = rstrip_nul (take 128 header),
                  cs_lead_in_samples = flac_int (take 8 (drop 128 header)),
                  cs_compact_disc = (flags AND 0x80 \<noteq> 0), cs_tracks = tracks\<rparr>))"

definition cue_index_write :: "int \<times> int \<Rightarrow> merr + string" where
  "cue_index_write = (\<lambda>(index_number, index_offset).
     bindR (pack_u True 8 index_offset) (\<lambda>off. bindR (pack_u True 1 index_number) (\<lambda>n.
       Inr (off @ n @ replicate 3 (CHR 0x00)))))"

definition cue_track_write :: "cue_track \<Rightarrow> merr + string" where
  "cue_track_write track =
     (let track_flags = push_bit 7 (ct_type track AND 1) OR (if ct_pre_emphasis track then 0x40 else 0)
      in bindR (pack_u True 8 (ct_start_offset track)) (\<lambda>off.
         bindR (pack_u True 1 (ct_track_number track)) (\<lambda>n.
         bindR (pack_u True 1 track_flags) (\<lambda>flags.
         bindR (pack_u True 1 (int (length (ct_indexes track)))) (\<lambda>count.
         bindR (mapR cue_index_write (ct_indexes track)) (\<lambda>indexes.
           Inr (off @ n @ pad_nul 12 (ct_isrc track) @ flags @ replicate 13 (CHR 0x00) @ count
             @ concat indexes)))))))"

definition cue_sheet_write :: "cue_sheet \<Rightarrow> merr + string" where
  "cue_sheet_write self =
     (let flags = (if cs_compact_disc self then 0x80 else 0)
      in bindR (pack_u True 8 (cs_lead_in_samples self)) (\<lambda>lead_in.
         bindR (pack_u True 1 flags) (\<lambda>flags.
         bindR (pack_u True 1 (int (length (cs_tracks self)))) (\<lambda>count.
         bindR (mapR cue_track_write (cs_tracks self)) (\<lambda>tracks.
           Inr (pad_nul 128 (cs_media_catalog_number self) @ lead_in @ flags @ replicate 258 (CHR 0x00)
             @ count @ concat tracks))))))"

section \<open>Pictures\<close>

record picture =
  pc_type :: int
  pc_mime :: unicode
  pc_desc :: unicode
  pc_width :: int
  pc_height :: int
  pc_depth :: int
  pc_colors :: int
  pc_data :: string

definition new_picture :: picture where
  "new_picture = \<lparr>pc_type = 0, pc_mime = [], pc_desc = [], pc_width = 0, pc_height = 0, pc_depth = 0,
     pc_colors = 0, pc_data = []\<rparr>"

definition replace_utf8 :: "(vc_errors \<Rightarrow> string \<Rightarrow> unicode) \<Rightarrow> string \<Rightarrow> unicode" where
  "replace_utf8 lossy s = (case utf8_decode s of Inr u \<Rightarrow> u | Inl _ \<Rightarrow> lossy Replace s)"

definition strict_int :: "string \<Rightarrow> merr + int \<times> string" where
  "strict_int data = bindR (strict_read 4 data) (\<lambda>(s, data). Inr (flac_int s, data))"

definition picture_load :: "(vc_errors \<Rightarrow> string \<Rightarrow> unicode) \<Rightarrow> string \<Rightarrow> merr + picture \<times> string" where
  "picture_load lossy data =
     bindR (strict_read 8 data) (\<lambda>(s, data).
     bindR (strict_read (nat (flac_int (drop 4 s))) data) (\<lambda>(mime, data).
     bindR (strict_int data) (\<lambda>(len, data).
     bindR (strict_read (nat len) data) (\<lambda>(desc, data).
     bindR (strict_read 20 data) (\<lambda>(t, data).
     bindR (strict_read (nat (flac_int (drop 16 t))) data) (\<lambda>(pic, data).
       Inr (\<lparr>pc_type = flac_int (take 4 s), pc_mime = replace_utf8 lossy mime, pc_desc = replace_utf8 lossy desc,
              pc_width = flac_int (take 4 t), pc_height = flac_int (take 4 (drop 4 t)),
              pc_depth = flac_int (take 4 (drop 8 t)), pc_colors = flac_int (take 4 (drop 12 t)),
              pc_data = pic\<rparr>, data)))))))"

definition picture_write :: "picture \<Rightarrow> merr + string" where
  "picture_write self =
     (let mime = utf8_encode (pc_mime self); desc = utf8_encode (pc_desc self)
      in bindR (mapR (pack_u True 4) [pc_type self, int (length mime)]) (\<lambda>front.
         bindR (pack_u True 4 (int (length desc))) (\<lambda>len.
         bindR (mapR (pack_u True 4) [pc_width self, pc_height self, pc_depth self, pc_colors self,
           int (length (pc_data self))]) (\<lambda>end_part.
           Inr (concat front @ mime @ len @ desc @ concat end_part @ pc_data self)))))"

section \<open>Comments\<close>

text \<open>\<open>VComment.load\<close> with the errors replaced and no framing, on a strict file.\<close>

fun strict_comments ::
  "(vc_errors \<Rightarrow> string \<Rightarrow> unicode) \<Rightarrow> nat \<Rightarrow> nat \<Rightarrow> vcomment \<Rightarrow> string \<Rightarrow> merr + vcomment \<times> string" where
  "strict_comments lossy i 0 self data = Inr (self, data)"
| "strict_comments lossy i (Suc n) self data =
     bindR (strict_read 4 data) (\<lambda>(s, data).
     bindR (uint_le s) (\<lambda>len.
     bindR (strict_read (nat len) data) (\<lambda>(s, data).
     bindR (parse_comment Replace i (replace_utf8 lossy s)) (\<lambda>pair.
       strict_comments lossy (Suc i) n
         (case pair of None \<Rightarrow> self | Some p \<Rightarrow> self\<lparr>vc_pairs := vc_pairs self @ [p]\<rparr>) data))))"

definition strict_comment :: "(vc_errors \<Rightarrow> string \<Rightarrow> unicode) \<Rightarrow> string \<Rightarrow> merr + vcomment \<times> string" where
  "strict_comment lossy data =
     bindR (strict_read 4 data) (\<lambda>(s, data).
     bindR (uint_le s) (\<lambda>len.
     bindR (strict_read (nat len) data) (\<lambda>(vendor, data).
     bindR (strict_read 4 data) (\<lambda>(s, data).
     bindR (uint_le s) (\<lambda>count.
       strict_comments lossy 0 (nat count)
         (new_comment\<lparr>vc_vendor := FText (replace_utf8 lossy vendor)\<rparr>) data)))))"

section \<open>Blocks\<close>

text \<open>A block of another type is its code and its bytes; padding is its length.\<close>

datatype flac_block =
    StreamInfo stream_info | Padding int | SeekTable "seek_point list" | VCFLACDict vcomment
  | CueSheet cue_sheet | Picture picture | MetadataBlock nat string

primrec block_code :: "flac_block \<Rightarrow> nat" where
  "block_code (StreamInfo _) = 0"
| "block_code (Padding _) = 1"
| "block_code (SeekTable _) = 3"
| "block_code (VCFLACDict _) = 4"
| "block_code (CueSheet _) = 5"
| "block_code (Picture _) = 6"
| "block_code (MetadataBlock code _) = code"

primrec block_write :: "flac_block \<Rightarrow> merr + string" where
  "block_write (StreamInfo i) = stream_info_write i"
| "block_write (Padding n) = Inr (replicate (nat n) (CHR 0x00))"
| "block_write (SeekTable ps) = seek_table_write ps"
| "block_write (VCFLACDict c) = vc_write False c"
| "block_write (CueSheet c) = cue_sheet_write c"
| "block_write (Picture p) = picture_write p"
| "block_write (MetadataBlock _ s) = Inr s"

definition coded :: "nat \<times> string \<Rightarrow> merr + string" where
  "coded = (\<lambda>(code, datum).
     if 255 < code then Inl ValueError
     else if 2 ^ 24 < length datum then Inl FlacError
     else bindR (pack_last (3, int (length datum))) (\<lambda>len. Inr (chr code # len @ datum)))"

definition writeblocks :: "flac_block list \<Rightarrow> merr + string" where
  "writeblocks blocks =
     bindR (mapR block_write blocks) (\<lambda>data.
       if blocks = [] then Inl IndexError
       else let codes = map block_code blocks;
                codes = butlast codes @ [last codes OR 128]
            in bindR (mapR coded (zip codes data)) (\<lambda>ss. Inr (concat ss)))"

primrec padding_length :: "flac_block \<Rightarrow> int option" where
  "padding_length (StreamInfo _) = None"
| "padding_length (Padding n) = Some n"
| "padding_length (SeekTable _) = None"
| "padding_length (VCFLACDict _) = None"
| "padding_length (CueSheet _) = None"
| "padding_length (Picture _) = None"
| "padding_length (MetadataBlock _ _) = None"

definition group_padding :: "flac_block list \<Rightarrow> flac_block list" where
  "group_padding blocks =
     (let paddings = List.map_filter padding_length blocks
      in filter (\<lambda>b. padding_length b = None) blocks
           @ [Padding (sum_list paddings + 4 * (int (length paddings) - 1))])"

section \<open>Loading a file\<close>

text \<open>The size given is not used for comments and pictures, which end where they end.\<close>

definition block_load ::
  "(vc_errors \<Rightarrow> string \<Rightarrow> unicode) \<Rightarrow> nat \<Rightarrow> nat \<Rightarrow> string \<Rightarrow> merr + flac_block \<times> string" where
  "block_load lossy code sz data =
     (if code = 4 then bindR (strict_comment lossy data) (\<lambda>(c, data). Inr (VCFLACDict c, data))
      else if code = 6 then bindR (picture_load lossy data) (\<lambda>(p, data). Inr (Picture p, data))
      else bindR (strict_read sz data) (\<lambda>(s, data).
             bindR (if code = 0 then bindR (stream_info_load s) (\<lambda>i. Inr (StreamInfo i))
                    else if code = 1 then Inr (Padding (int (length s)))
                    else if code = 3 then Inr (SeekTable (seek_table_load s))
                    else if code = 5 then bindR (cue_sheet_load s) (\<lambda>c. Inr (CueSheet c))
                    else Inr (MetadataBlock code s)) (\<lambda>b. Inr (b, data))))"

text \<open>One block: the blocks with it, whether there are more, and what is left.\<close>

definition read_metadata_block ::
  "(vc_errors \<Rightarrow> string \<Rightarrow> unicode) \<Rightarrow> flac_block list \<Rightarrow> string \<Rightarrow> merr + flac_block list \<times> bool \<times> string" where
  "read_metadata_block lossy blocks data =
     bindR (strict_read 1 data) (\<lambda>(b, data).
     bindR (strict_read 3 data) (\<lambda>(s, data).
       let byte = ord (hd b); code = byte AND 0x7F; last_block = (byte AND 0x80 \<noteq> 0)
       in bindR (block_load lossy code (nat (flac_int s)) data) (\<lambda>(block, data).
            if code \<in> {4, 5, 3} \<and> code \<in> set (map block_code blocks)
            then Inl (if code = 4 then FLACVorbisError else FlacError)
            else Inr (blocks @ [block], \<not> last_block, data))))"

text \<open>What reading leaves is never more than there was.\<close>

lemma strict_read_shorter: "strict_read n data = Inr (s, rest) \<Longrightarrow> length s = n \<and> length data = n + length rest"
  by (auto simp: strict_read_def split: if_splits)

lemma strict_comments_shorter:
  "strict_comments lossy i n self data = Inr (c, rest) \<Longrightarrow> length rest \<le> length data"
  by (induction lossy i n self data rule: strict_comments.induct)
    (fastforce simp: bindR_Inr_iff dest!: strict_read_shorter)+

lemma block_load_shorter: "block_load lossy code sz data = Inr (b, rest) \<Longrightarrow> length rest \<le> length data"
  by (auto simp: block_load_def strict_comment_def picture_load_def strict_int_def bindR_Inr_iff split: if_splits
      dest!: strict_read_shorter strict_comments_shorter)

lemma read_block_shorter:
  "read_metadata_block lossy blocks data = Inr (blocks', again, rest) \<Longrightarrow> length rest < length data"
  by (auto simp: read_metadata_block_def bindR_Inr_iff Let_def split: if_splits
      dest!: strict_read_shorter block_load_shorter)

function read_blocks ::
  "(vc_errors \<Rightarrow> string \<Rightarrow> unicode) \<Rightarrow> flac_block list \<Rightarrow> string \<Rightarrow> merr + flac_block list" where
  "read_blocks lossy blocks data =
     (case read_metadata_block lossy blocks data of
        Inl e \<Rightarrow> Inl e
      | Inr (blocks, again, data) \<Rightarrow> if again then read_blocks lossy blocks data else Inr blocks)"
  by pat_completeness auto
termination
  by (relation "measure (\<lambda>(lossy, blocks, data). length data)") (auto dest!: read_block_shorter)

declare read_blocks.simps [simp del]

text \<open>The place behind the mark. \<open>load\<close> reads strictly, \<open>save\<close> does not.\<close>

definition flac_mark :: string where
  "flac_mark = ''fLaC''"

definition check_header :: "bool \<Rightarrow> string \<Rightarrow> merr + nat" where
  "check_header strict filedata =
     (let read = (\<lambda>n data. if strict then bindR (strict_read n data) (\<lambda>(s, _). Inr s) else Inr (take n data))
      in bindR (read 4 filedata) (\<lambda>header.
           if header = flac_mark then Inr 4
           else if take 3 header = ''ID3'' then
             bindR (read 6 (drop 4 filedata)) (\<lambda>s.
               let sz = 14 + bit_padded_int 7 True (drop 2 s)
               in bindR (read 4 (drop (sz - 4) filedata)) (\<lambda>s.
                    if s = flac_mark then Inr sz else Inl FLACNoHeaderError))
           else Inl FLACNoHeaderError))"

text \<open>The first block has to have a length, as the stream information has, and padding.\<close>

definition flac_load :: "(vc_errors \<Rightarrow> string \<Rightarrow> unicode) \<Rightarrow> string \<Rightarrow> merr + flac_block list" where
  "flac_load lossy filedata =
     bindR (check_header True filedata) (\<lambda>header.
     bindR (read_blocks lossy [] (drop header filedata)) (\<lambda>blocks.
       case blocks of
         StreamInfo _ # _ \<Rightarrow> Inr blocks
       | Padding _ # _ \<Rightarrow> Inr blocks
       | _ \<Rightarrow> Inl FLACNoHeaderError))"

section \<open>Saving a file\<close>

lemma load_comments_shorter:
  "load_comments lossy errors i count self data = (c, Inr rest) \<Longrightarrow> length rest \<le> length data"
proof (induction lossy errors i count self data rule: load_comments.induct)
  case (1 lossy errors i count self data)
  note step = load_comments.simps [of lossy errors i count self data]
  show ?case
  proof (cases "count \<le> i")
    case True
    then show ?thesis using "1.prems" step by simp
  next
    case False
    then obtain n d where r: "read_uint data = Inr (n, d)" using "1.prems" step by (auto split: sum.splits)
    then obtain s where s: "decode_utf8 lossy errors (take n d) = Inr s"
      using "1.prems" step False by (auto split: sum.splits)
    then obtain p where p: "parse_comment errors i s = Inr p"
      using "1.prems" step False r by (auto split: sum.splits)
    have "length rest \<le> length (drop n d)"
    proof (cases p)
      case None
      then show ?thesis using "1.IH"(1) [OF False r refl s p] "1.prems" step False r s p by simp
    next
      case (Some q)
      then show ?thesis using "1.IH"(2) [OF False r refl s p] "1.prems" step False r s p by simp
    qed
    then show ?thesis using read_uint_shorter [OF r] by simp
  qed
qed

lemma vc_load_shorter: "vc_load lossy errors framing self data = (c, Inr rest) \<Longrightarrow> length rest \<le> length data"
  by (auto simp: vc_load_def load_body_def bindR_Inr_iff Let_def split: sum.splits prod.splits if_splits list.splits
      dest!: read_uint_shorter load_comments_shorter)

text \<open>What is left behind the blocks: the audio. Here only a picture is read strictly.\<close>

function find_audio :: "(vc_errors \<Rightarrow> string \<Rightarrow> unicode) \<Rightarrow> string \<Rightarrow> merr + string" where
  "find_audio lossy [] = Inl TypeError"
| "find_audio lossy (c # data) =
     (let sz = nat (flac_int (take 3 data)); data = drop 3 data; code = ord c AND 0x7F
      in case (if code = 4 then (case vc_load lossy Replace False new_comment data of (_, r) \<Rightarrow> r)
               else if code = 6 then bindR (picture_load lossy data) (\<lambda>(_, rest). Inr rest)
               else Inr (drop sz data)) of
           Inl e \<Rightarrow> Inl e
         | Inr rest \<Rightarrow> if ord c AND 0x80 \<noteq> 0 then Inr rest else find_audio lossy rest)"
  by pat_completeness auto
termination
proof (relation "measure (\<lambda>(lossy, data). length data)", goal_cases)
  case (2 lossy c data sz data' code rest)
  then have "length rest \<le> length data'"
    by (auto simp: picture_load_def strict_int_def bindR_Inr_iff split: if_splits prod.splits
        dest!: strict_read_shorter vc_load_shorter)
  then show ?case using 2(2) by simp
qed simp

declare find_audio.simps [simp del]

text \<open>
  Padding, always the last block here, gives or takes what the blocks differ from the place there
  is; it stays as it is where it cannot become small enough.
\<close>

definition fit_padding :: "int \<Rightarrow> flac_block list \<Rightarrow> string \<Rightarrow> flac_block list \<times> (merr + string)" where
  "fit_padding available blocks data =
     (let n = int (length data);
          newlength = the (padding_length (last blocks)) - (n - available);
          new = butlast blocks @ [Padding newlength]
      in if n = available \<or> (available < n \<and> newlength \<le> 0) then (blocks, Inr data)
         else (new, bindR (writeblocks new) (\<lambda>data.
                 if int (length data) = available then Inr data else Inl AssertionError)))"

definition drop_id3v1 :: "fobj \<Rightarrow> fobj" where
  "drop_id3v1 f =
     (case seek_end (-128) f of
        Inl _ \<Rightarrow> f
      | Inr g \<Rightarrow> if fst (f_read 3 g) = ''TAG'' then f_truncate (fpos g) f else f)"

definition flac_save ::
  "(vc_errors \<Rightarrow> string \<Rightarrow> unicode) \<Rightarrow> bool \<Rightarrow> bool \<Rightarrow> flac_block list \<Rightarrow> string
     \<Rightarrow> flac_block list \<times> string \<times> merr option" where
  "flac_save lossy mmap_works deleteid3 blocks filedata =
     (let blocks = group_padding (blocks @ [Padding 1020])
      in case bindR (check_header False filedata) (\<lambda>header.
              bindR (find_audio lossy (drop header filedata)) (\<lambda>audio.
              bindR (writeblocks blocks) (\<lambda>data.
                Inr (header, length filedata - length audio - header, data)))) of
           Inl e \<Rightarrow> (blocks, filedata, Some e)
         | Inr (header, available, data) \<Rightarrow>
             (let (header, available) =
                (if deleteid3 \<and> 4 < header then (4, available + (header - 4)) else (header, available))
              in case fit_padding (int available) blocks data of
                   (blocks, Inl e) \<Rightarrow> (blocks, filedata, Some e)
                 | (blocks, Inr data) \<Rightarrow>
                     (case (if length data \<noteq> available
                            then insert_bytes mmap_works (open_file filedata)
                                   (int (length data) - int available) (int header)
                            else Inr (open_file filedata)) of
                        Inl e \<Rightarrow> (blocks, filedata, Some e)
                      | Inr f \<Rightarrow>
                          (let f = f_write (flac_mark @ data) (f\<lparr>fpos := header - 4\<rparr>)
                           in (blocks, fbytes (if deleteid3 then drop_id3v1 f else f), None)))))"

section \<open>The other operations\<close>

definition is_comment :: "flac_block \<Rightarrow> bool" where
  "is_comment b \<longleftrightarrow> (case b of VCFLACDict _ \<Rightarrow> True | _ \<Rightarrow> False)"

definition flac_tags :: "flac_block list \<Rightarrow> vcomment option" where
  "flac_tags blocks = (case find is_comment blocks of Some (VCFLACDict c) \<Rightarrow> Some c | _ \<Rightarrow> None)"

definition flac_add_tags :: "flac_block list \<Rightarrow> merr + flac_block list" where
  "flac_add_tags blocks =
     (if flac_tags blocks = None then Inr (blocks @ [VCFLACDict new_comment]) else Inl FLACVorbisError)"

definition flac_delete ::
  "(vc_errors \<Rightarrow> string \<Rightarrow> unicode) \<Rightarrow> bool \<Rightarrow> flac_block list \<Rightarrow> string
     \<Rightarrow> flac_block list \<times> string \<times> merr option" where
  "flac_delete lossy mmap_works blocks filedata =
     (if flac_tags blocks = None then (blocks, filedata, None)
      else flac_save lossy mmap_works False
             (takeWhile (\<lambda>b. \<not> is_comment b) blocks @ tl (dropWhile (\<lambda>b. \<not> is_comment b) blocks)) filedata)"

definition add_picture :: "picture \<Rightarrow> flac_block list \<Rightarrow> flac_block list" where
  "add_picture picture blocks = blocks @ [Picture picture]"

definition clear_pictures :: "flac_block list \<Rightarrow> flac_block list" where
  "clear_pictures blocks = filter (\<lambda>b. block_code b \<noteq> 6) blocks"

definition flac_pictures :: "flac_block list \<Rightarrow> flac_block list" where
  "flac_pictures blocks = filter (\<lambda>b. block_code b = 6) blocks"

text \<open>The function \<open>delete\<close> of the module.\<close>

definition flac_delete_tags ::
  "(vc_errors \<Rightarrow> string \<Rightarrow> unicode) \<Rightarrow> bool \<Rightarrow> string \<Rightarrow> string \<times> merr option" where
  "flac_delete_tags lossy mmap_works filedata =
     (case flac_load lossy filedata of
        Inl e \<Rightarrow> (filedata, Some e)
      | Inr blocks \<Rightarrow> snd (flac_delete lossy mmap_works blocks filedata))"

end
