(* ===== verification/Flac_Laws.thy ===== *)
theory Flac_Laws
  imports Flac Vorbis_Props
begin

text \<open>
  FLAC metadata blocks: what is written is read back. Each type of block is an interpretation of the
  locale \<open>block_format\<close>, from which follows that a written block, with its header, is read again.
\<close>

section \<open>Big-endian fields\<close>

lemma digits_append: "digits bits (m + n) v = digits bits m v @ digits bits n (v div 2 ^ (bits * m))"
  by (induction m arbitrary: v) (simp_all add: div_mult2_eq power_add)

lemma drop_struct_bytes: "drop k (struct_bytes True (k + n) v) = struct_bytes True n v"
proof -
  have "struct_bytes True (n + k) v = map chr (rev (digits 8 k (v div 2 ^ (8 * n)))) @ struct_bytes True n v"
    by (simp add: struct_bytes_def digits_append)
  then show ?thesis by (simp add: add.commute)
qed

lemma pack_last_written:
  assumes "0 \<le> v" "v < 2 ^ (8 * n)" "n \<le> 4"
  shows "pack_last (n, v) = Inr (struct_bytes True n (nat v))"
proof -
  have "(2::int) ^ (8 * n) \<le> 2 ^ (8 * 4)" using assms(3) by (intro power_increasing) auto
  then have "v < 2 ^ (8 * 4)" using assms(2) by linarith
  then show ?thesis
    using drop_struct_bytes [of "4 - n" n "nat v"] assms by (simp add: pack_last_def pack_u_def)
qed

lemma flac_int_bytes: "flac_int (struct_bytes True n v) = int v mod 2 ^ (8 * n)"
  by (simp add: flac_int_def struct_value_bytes zmod_int)

lemma flac_int_here: "0 \<le> v \<Longrightarrow> v < 2 ^ (8 * n) \<Longrightarrow> flac_int (struct_bytes True n (nat v)) = v"
  by (simp add: flac_int_bytes)

lemma flac_int_append: "flac_int (s @ t) = flac_int s * 2 ^ (8 * length t) + flac_int t"
  by (simp add: flac_int_def struct_value_def pos_value_append)

lemma flac_int_chr: "n < 256 \<Longrightarrow> flac_int [chr n] = int n"
  by (simp add: flac_int_def struct_value_def)

lemma flac_int_bounds: "0 \<le> flac_int s" "flac_int s < 2 ^ (8 * length s)"
  using struct_value_bound [of True s] by (simp_all add: flac_int_def) 

lemma strict_read_here: "length s = n \<Longrightarrow> strict_read n (s @ t) = Inr (s, t)"
  by (simp add: strict_read_def)

lemma strict_read_one: "strict_read 1 (c # t) = Inr ([c], t)"
  by (simp add: strict_read_def)

lemma strict_read_all: "length s = n \<Longrightarrow> strict_read n s = Inr (s, [])"
  by (simp add: strict_read_def)

text \<open>The masks and shifts of the code, as arithmetic.\<close>

lemma mask_mod:
  fixes x :: int
  shows "x AND 1 = x mod 2" "x AND 7 = x mod 8" "x AND 0xF = x mod 16"
    "x AND 0xFFFFFFFF = x mod 2 ^ 32" "x AND 0xFFFFFFFFF = x mod 2 ^ 36"
  using take_bit_eq_mask [of 1 x] take_bit_eq_mask [of 3 x] take_bit_eq_mask [of 4 x]
    take_bit_eq_mask [of 32 x] take_bit_eq_mask [of 36 x]
  by (simp_all add: take_bit_eq_mod mask_eq_exp_minus_1)

section \<open>Stream information\<close>

definition stream_info_ok :: "stream_info \<Rightarrow> bool" where
  "stream_info_ok i \<longleftrightarrow> si_min_blocksize i \<in> {0..<2 ^ 16} \<and> si_max_blocksize i \<in> {0..<2 ^ 16}
     \<and> si_min_framesize i \<in> {0..<2 ^ 24} \<and> si_max_framesize i \<in> {0..<2 ^ 24}
     \<and> si_sample_rate i \<in> {1..<2 ^ 20} \<and> si_channels i \<in> {1..8} \<and> si_bits_per_sample i \<in> {1..32}
     \<and> si_total_samples i \<in> {0..<2 ^ 36} \<and> si_md5_signature i \<in> {0..<2 ^ 128}
     \<and> si_length i = of_int (si_total_samples i) / of_int (si_sample_rate i)"

lemma div_mod_of:
  fixes h l k :: int
  assumes "0 \<le> l" "l < k"
  shows "(h * k + l) div k = h" "(h * k + l) mod k = l"
  using assms by (simp_all add: add.commute)

lemma byte1_fields:
  fixes r c b :: int
  assumes "c \<in> {1..8}" "b \<in> {1..32}"
  defines "x \<equiv> r mod 16 * 16 + (c - 1) mod 8 * 2 + (b - 1) div 16 mod 2"
  shows "x div 16 = r mod 16" "x div 2 mod 8 + 1 = c" "x mod 2 = (b - 1) div 16" "0 \<le> x" "x < 256"
proof -
  define p where "p = (b - 1) div 16"
  have p: "0 \<le> p" "p < 2" using assms(2) by (auto simp: p_def)
  have c: "0 \<le> c - 1" "c - 1 < 8" using assms(1) by auto
  have x: "x = r mod 16 * 16 + ((c - 1) * 2 + p)" "x = (r mod 16 * 8 + (c - 1)) * 2 + p"
    using c p by (simp_all add: x_def p_def [symmetric])
  have r: "0 \<le> r mod 16" "r mod 16 < 16" by simp_all
  have "0 \<le> (c - 1) * 2 + p" using c p by simp
  moreover have "(c - 1) * 2 + p < 16" using c p by simp
  ultimately show "x div 16 = r mod 16" unfolding x(1) by (rule div_mod_of)
  have "x div 2 = r mod 16 * 8 + (c - 1)" unfolding x(2) by (rule div_mod_of(1) [OF p])
  then show "x div 2 mod 8 + 1 = c" using div_mod_of(2) [OF c, of "r mod 16"] by simp
  show "x mod 2 = (b - 1) div 16" unfolding x(2) p_def [symmetric] by (rule div_mod_of(2) [OF p])
  show "0 \<le> x" unfolding x(1) using c p r by simp
  show "x < 256" unfolding x(1) using c p r by simp
qed

lemma byte2_fields:
  fixes b t :: int
  assumes "0 \<le> t" "t < 2 ^ 36"
  defines "x \<equiv> (b - 1) mod 16 * 16 + t div 2 ^ 32 mod 16"
  shows "(x * 2 ^ 32 + t mod 2 ^ 32) div 2 ^ 36 = (b - 1) mod 16" "(x * 2 ^ 32 + t mod 2 ^ 32) mod 2 ^ 36 = t"
    "0 \<le> x" "x < 256"
proof -
  have "t div 2 ^ 32 < 16" using assms by simp
  then have m: "t div 2 ^ 32 mod 16 = t div 2 ^ 32" using assms by simp
  have "t div 2 ^ 32 * 2 ^ 32 + t mod 2 ^ 32 = t" by simp
  then have x: "x * 2 ^ 32 + t mod 2 ^ 32 = (b - 1) mod 16 * 2 ^ 36 + t" unfolding x_def m by (simp add: algebra_simps)
  show "(x * 2 ^ 32 + t mod 2 ^ 32) div 2 ^ 36 = (b - 1) mod 16" "(x * 2 ^ 32 + t mod 2 ^ 32) mod 2 ^ 36 = t"
    unfolding x by (rule div_mod_of [OF assms(1,2)])+
  have "0 \<le> (b - 1) mod 16" "(b - 1) mod 16 < 16" "0 \<le> t div 2 ^ 32 mod 16" "t div 2 ^ 32 mod 16 < 16" by simp_all
  then show "0 \<le> x" unfolding x_def by linarith
  show "x < 256" using \<open>(b - 1) mod 16 < 16\<close> \<open>t div 2 ^ 32 mod 16 < 16\<close> unfolding x_def by linarith
qed

lemma words_value:
  fixes s :: int
  assumes "0 \<le> s" "s < 2 ^ 128"
  shows "((s div 2 ^ 96 mod 2 ^ 32 * 2 ^ 32 + s div 2 ^ 64 mod 2 ^ 32) * 2 ^ 32 + s div 2 ^ 32 mod 2 ^ 32) * 2 ^ 32
      + s mod 2 ^ 32 = s"
proof -
  have d: "s div 2 ^ 96 = s div 2 ^ 64 div 2 ^ 32" "s div 2 ^ 64 = s div 2 ^ 32 div 2 ^ 32"
    by (simp_all add: zdiv_zmult2_eq [symmetric])
  have "s div 2 ^ 96 < 2 ^ 32" using assms by simp
  then have "s div 2 ^ 96 mod 2 ^ 32 = s div 2 ^ 96" using assms by simp
  then show ?thesis unfolding d by (simp only: div_mult_mod_eq)
qed

lemma four_words:
  fixes a b c d :: int
  assumes "0 \<le> a" "a < 2 ^ (8 * 4)" "0 \<le> b" "b < 2 ^ (8 * 4)" "0 \<le> c" "c < 2 ^ (8 * 4)" "0 \<le> d" "d < 2 ^ (8 * 4)"
  shows "flac_int (struct_bytes True 4 (nat a) @ struct_bytes True 4 (nat b) @ struct_bytes True 4 (nat c)
      @ struct_bytes True 4 (nat d)) = ((a * 2 ^ 32 + b) * 2 ^ 32 + c) * 2 ^ 32 + d"
  by (simp add: flac_int_append flac_int_here [OF assms(1,2)] flac_int_here [OF assms(3,4)]
      flac_int_here [OF assms(5,6)] flac_int_here [OF assms(7,8)])

lemma word_mod: "0 \<le> (x::int) mod 2 ^ 32" "x mod 2 ^ 32 < 2 ^ (8 * 4)"
  by simp_all

lemma stream_info_written:
  assumes ok: "stream_info_ok i" and w: "stream_info_write i = Inr s"
  shows "stream_info_load s = Inr i"
proof -
  let ?b = "\<lambda>n v. struct_bytes True n (nat v)"
  define r where "r = si_sample_rate i"
  define t where "t = si_total_samples i"
  define m where "m = si_md5_signature i"
  define x where "x = r mod 16 * 16 + (si_channels i - 1) mod 8 * 2 + (si_bits_per_sample i - 1) div 16 mod 2"
  define y where "y = (si_bits_per_sample i - 1) mod 16 * 16 + t div 2 ^ 32 mod 16"
  have b: "0 \<le> si_min_blocksize i" "si_min_blocksize i < 2 ^ (8 * 2)" "0 \<le> si_max_blocksize i" "si_max_blocksize i < 2 ^ (8 * 2)"
    "0 \<le> si_min_framesize i" "si_min_framesize i < 2 ^ (8 * 3)" "0 \<le> si_max_framesize i" "si_max_framesize i < 2 ^ (8 * 3)"
    "1 \<le> r" "r < 2 ^ 20" "0 \<le> t" "t < 2 ^ 36" "0 \<le> m" "m < 2 ^ 128"
    "si_channels i \<in> {1..8}" "si_bits_per_sample i \<in> {1..32}" "si_length i = of_int t / of_int r"
    using ok by (simp_all add: stream_info_ok_def r_def t_def m_def)
  have r: "0 \<le> r div 16" "r div 16 < 2 ^ (8 * 2)" using b(9,10) by simp_all
  note x = byte1_fields [OF b(15,16), of r, folded x_def]
  note y = byte2_fields [OF b(11,12), of "si_bits_per_sample i", folded y_def]
  have s: "s = (?b 2 (si_min_blocksize i) @ ?b 2 (si_max_blocksize i) @ ?b 3 (si_min_framesize i)
      @ ?b 3 (si_max_framesize i) @ ?b 2 (r div 16)) @ [chr (nat x)] @ (chr (nat y) # ?b 4 (t mod 2 ^ 32))
      @ ?b 4 (m div 2 ^ 96 mod 2 ^ 32) @ ?b 4 (m div 2 ^ 64 mod 2 ^ 32) @ ?b 4 (m div 2 ^ 32 mod 2 ^ 32)
      @ ?b 4 (m mod 2 ^ 32)"
    using w pack_last_written [OF b(1,2)] pack_last_written [OF b(3,4)] pack_last_written [OF b(5,6)]
      pack_last_written [OF b(7,8)] pack_last_written [OF r]
    by (simp add: stream_info_write_def mask_mod drop_bit_eq_div push_bit_eq_mult pack_last_written word_mod
        r_def [symmetric] t_def [symmetric] m_def [symmetric] del: power_numeral) (simp add: x_def y_def)
  have bps: "flac_int (chr (nat y) # ?b 4 (t mod 2 ^ 32)) = y * 2 ^ 32 + t mod 2 ^ 32"
    using flac_int_append [of "[chr (nat y)]" "?b 4 (t mod 2 ^ 32)"] y(3,4)
    by (simp add: flac_int_chr flac_int_bytes)
  have rate: "r div 16 * 16 + r mod 16 = r" by simp
  have bits: "(si_bits_per_sample i - 1) div 16 * 16 + (si_bits_per_sample i - 1) mod 16 + 1 = si_bits_per_sample i"
    by simp
  have md5: "flac_int (?b 4 (m div 2 ^ 96 mod 2 ^ 32) @ ?b 4 (m div 2 ^ 64 mod 2 ^ 32)
      @ ?b 4 (m div 2 ^ 32 mod 2 ^ 32) @ ?b 4 (m mod 2 ^ 32)) = m"
    by (rule trans [OF four_words [OF word_mod word_mod word_mod word_mod] words_value [OF b(13,14)]])
  note reads = strict_read_here [of "?b 2 (si_min_blocksize i)" 2] strict_read_here [of "?b 2 (si_max_blocksize i)" 2]
    strict_read_here [of "?b 3 (si_min_framesize i)" 3] strict_read_here [of "?b 3 (si_max_framesize i)" 3]
    strict_read_here [of "?b 2 (r div 16)" 2] strict_read_one
    strict_read_here [of "chr (nat y) # ?b 4 (t mod 2 ^ 32)" 5, unfolded append_Cons]
  have sig: "strict_read 16 (?b 4 (m div 2 ^ 96 mod 2 ^ 32) @ ?b 4 (m div 2 ^ 64 mod 2 ^ 32)
      @ ?b 4 (m div 2 ^ 32 mod 2 ^ 32) @ ?b 4 (m mod 2 ^ 32))
      = Inr (?b 4 (m div 2 ^ 96 mod 2 ^ 32) @ ?b 4 (m div 2 ^ 64 mod 2 ^ 32)
      @ ?b 4 (m div 2 ^ 32 mod 2 ^ 32) @ ?b 4 (m mod 2 ^ 32), [])"
    by (rule strict_read_all) simp
  have pos: "(r = 0) = False" using b(9) by simp
  have ints: "flac_int (?b 2 (si_min_blocksize i)) = si_min_blocksize i" "flac_int (?b 2 (si_max_blocksize i)) = si_max_blocksize i"
    "flac_int (?b 3 (si_min_framesize i)) = si_min_framesize i" "flac_int (?b 3 (si_max_framesize i)) = si_max_framesize i"
    "flac_int (?b 2 (r div 16)) = r div 16" "flac_int [chr (nat x)] = x"
    using flac_int_here [OF b(1,2)] flac_int_here [OF b(3,4)] flac_int_here [OF b(5,6)] flac_int_here [OF b(7,8)]
      flac_int_here [OF r] x(4,5) by (simp_all add: flac_int_chr)
  have "stream_info_load s = Inr \<lparr>si_min_blocksize = si_min_blocksize i, si_max_blocksize = si_max_blocksize i,
      si_min_framesize = si_min_framesize i, si_max_framesize = si_max_framesize i, si_sample_rate = r,
      si_channels = si_channels i, si_bits_per_sample = si_bits_per_sample i, si_total_samples = t,
      si_length = of_int t / of_int r, si_md5_signature = m\<rparr>"
  proof -
    have c: "drop_bit 4 x = r mod 16" "(drop_bit 1 x AND 7) + 1 = si_channels i"
      "push_bit 4 (x AND 1) = (si_bits_per_sample i - 1) div 16 * 16"
      using x by (simp_all add: drop_bit_eq_div push_bit_eq_mult mask_mod)
    have d: "drop_bit 36 (y * 2 ^ 32 + t mod 2 ^ 32) = (si_bits_per_sample i - 1) mod 16"
      "(y * 2 ^ 32 + t mod 2 ^ 32) AND 0xFFFFFFFFF = t"
      using y(1,2) unfolding mask_mod(5) drop_bit_eq_div by blast+
    have e: "push_bit 4 (r div 16) + r mod 16 = r" by (simp add: push_bit_eq_mult)
    have lens: "length (struct_bytes True n v) = n" for n v by simp
    show ?thesis
      unfolding stream_info_load_def s append_assoc
      by (simp only: reads lens list.size bindR_simps prod.case Let_def ints bps c d e md5 sig pos if_False
          append_Nil append_Cons) (use bits in simp)
  qed
  then show ?thesis using b(17) by (cases i) (simp add: r_def t_def m_def)
qed

section \<open>Seek tables and cue sheets\<close>

lemma pack_big_iff: "pack_u True n v = Inr s \<longleftrightarrow> 0 \<le> v \<and> v < 2 ^ (8 * n) \<and> s = struct_bytes True n (nat v)"
  by (auto simp: pack_u_def)

lemma seek_table_written: "mapR seek_point_write ps = Inr ss \<Longrightarrow> seek_table_load (concat ss) = ps"
proof (induction ps arbitrary: ss)
  case Nil
  then show ?case by (simp add: seek_table_load.simps)
next
  case (Cons p ps)
  obtain f b n where p: "p = (f, b, n)" by (cases p)
  obtain ts where t: "mapR seek_point_write ps = Inr ts"
    "ss = (struct_bytes True 8 (nat f) @ struct_bytes True 8 (nat b) @ struct_bytes True 2 (nat n)) # ts"
    "0 \<le> f" "f < 2 ^ (8 * 8)" "0 \<le> b" "b < 2 ^ (8 * 8)" "0 \<le> n" "n < 2 ^ (8 * 2)"
    using Cons.prems by (auto simp: p seek_point_write_def bindR_Inr_iff pack_big_iff)
  show ?case
    using Cons.IH [OF t(1)] flac_int_here [OF t(3,4)] flac_int_here [OF t(5,6)] flac_int_here [OF t(7,8)]
    by (subst seek_table_load.simps) (simp add: t(2) p)
qed

lemma strict_list_written:
  "list_all (\<lambda>x. \<forall>s rest. write x = Inr s \<longrightarrow> load (s @ rest) = Inr (x, rest)) xs \<Longrightarrow> mapR write xs = Inr ss \<Longrightarrow>
     strict_list load (length xs) (concat ss @ rest) = Inr (xs, rest)"
  by (induction xs arbitrary: ss) (auto simp: bindR_Inr_iff)

lemma rstrip_pad:
  assumes "length s \<le> n" "s = [] \<or> last s \<noteq> CHR 0x00" shows "rstrip_nul (pad_nul n s) = s"
proof -
  have "dropWhile (\<lambda>c. c = CHR 0x00) (replicate k (CHR 0x00) @ xs) = dropWhile (\<lambda>c. c = CHR 0x00) xs" for k xs
    by (induction k) auto
  moreover have "dropWhile (\<lambda>c. c = CHR 0x00) (rev s) = rev s"
    using assms(2) by (cases "rev s") (auto simp: last_rev [of "rev s", simplified] hd_rev [symmetric])
  ultimately show ?thesis using assms(1) by (simp add: rstrip_nul_def pad_nul_def)
qed

lemma length_pad_nul [simp]: "length (pad_nul n s) = n"
  by (simp add: pad_nul_def)

lemma cue_index_written: "cue_index_write x = Inr s \<Longrightarrow> cue_index_load (s @ rest) = Inr (x, rest)"
proof -
  assume w: "cue_index_write x = Inr s"
  obtain n off where x: "x = (n, off)" by (cases x)
  have s: "s = struct_bytes True 8 (nat off) @ struct_bytes True 1 (nat n) @ replicate 3 (CHR 0x00)"
    "0 \<le> off" "off < 2 ^ (8 * 8)" "0 \<le> n" "n < 2 ^ (8 * 1)"
    using w by (auto simp: x cue_index_write_def bindR_Inr_iff pack_big_iff)
  then have "strict_read 12 (s @ rest) = Inr (s, rest)" by (intro strict_read_here) simp
  then show ?thesis
    using flac_int_here [OF s(2,3)] flac_int_here [OF s(4,5)] by (simp add: cue_index_load_def x s(1))
qed

definition field_ok :: "nat \<Rightarrow> string \<Rightarrow> bool" where
  "field_ok n s \<longleftrightarrow> length s \<le> n \<and> (s = [] \<or> last s \<noteq> CHR 0x00)"

definition cue_track_ok :: "cue_track \<Rightarrow> bool" where
  "cue_track_ok t \<longleftrightarrow> field_ok 12 (ct_isrc t) \<and> ct_type t \<in> {0, 1}"

definition cue_sheet_ok :: "cue_sheet \<Rightarrow> bool" where
  "cue_sheet_ok c \<longleftrightarrow> field_ok 128 (cs_media_catalog_number c) \<and> list_all cue_track_ok (cs_tracks c)"

lemma track_flags:
  fixes pre :: bool
  assumes "ty \<in> {0, 1::int}"
  defines "fl \<equiv> push_bit 7 (ty AND 1) OR (if pre then 0x40 else 0)"
  shows "0 \<le> fl" "fl < 2 ^ (8 * 1)" "drop_bit 7 (fl AND 0x80) = ty" "fl AND 0x40 \<noteq> 0 \<longleftrightarrow> pre"
  using assms by (cases pre; auto)+

lemma cue_track_written:
  assumes ok: "cue_track_ok t" and w: "cue_track_write t = Inr s"
  shows "cue_track_load (s @ rest) = Inr (t, rest)"
proof -
  define fl where "fl = push_bit 7 (ct_type t AND 1) OR (if ct_pre_emphasis t then 0x40 else 0)"
  have ty: "ct_type t \<in> {0, 1}" and isrc: "rstrip_nul (pad_nul 12 (ct_isrc t)) = ct_isrc t"
    using ok rstrip_pad [of "ct_isrc t" 12] by (simp_all add: cue_track_ok_def field_ok_def)
  note fl = track_flags [OF ty, of "ct_pre_emphasis t", folded fl_def]
  let ?front = "struct_bytes True 8 (nat (ct_start_offset t)) @ struct_bytes True 1 (nat (ct_track_number t))
    @ pad_nul 12 (ct_isrc t) @ struct_bytes True 1 (nat fl) @ replicate 13 (CHR 0x00)
    @ struct_bytes True 1 (length (ct_indexes t))"
  obtain ss where ss: "mapR cue_index_write (ct_indexes t) = Inr ss" "s = ?front @ concat ss"
    and b: "0 \<le> ct_start_offset t" "ct_start_offset t < 2 ^ (8 * 8)" "0 \<le> ct_track_number t" "ct_track_number t < 2 ^ (8 * 1)"
      "int (length (ct_indexes t)) < 2 ^ (8 * 1)"
    using w unfolding cue_track_write_def Let_def fl_def [symmetric] by (auto simp: bindR_Inr_iff pack_big_iff)
  have r: "strict_read 36 (s @ rest) = Inr (?front, concat ss @ rest)"
    unfolding ss(2) append_assoc [symmetric, of _ "concat ss" rest] by (simp add: strict_read_def)
  have l: "strict_list cue_index_load (length (ct_indexes t)) (concat ss @ rest) = Inr (ct_indexes t, rest)"
    by (rule strict_list_written [OF _ ss(1)]) (simp add: list_all_iff cue_index_written)
  have ints: "flac_int (struct_bytes True 8 (nat (ct_start_offset t))) = ct_start_offset t"
    "flac_int (struct_bytes True 1 (nat (ct_track_number t))) = ct_track_number t"
    "flac_int (struct_bytes True 1 (nat fl)) = fl"
    by (rule flac_int_here; use b fl in simp)+
  have len: "flac_int (struct_bytes True 1 (length (ct_indexes t))) = int (length (ct_indexes t))"
    using b(5) by (simp add: flac_int_bytes)
  have cut: "take 8 ?front = struct_bytes True 8 (nat (ct_start_offset t))"
    "take 1 (drop 8 ?front) = struct_bytes True 1 (nat (ct_track_number t))"
    "take 12 (drop 9 ?front) = pad_nul 12 (ct_isrc t)" "take 1 (drop 21 ?front) = struct_bytes True 1 (nat fl)"
    "take 1 (drop 35 ?front) = struct_bytes True 1 (length (ct_indexes t))"
    by simp_all
  show ?thesis
    unfolding cue_track_load_def r bindR_simps prod.case Let_def cut ints len nat_int l isrc fl(3) fl(4)
    by simp
qed

lemma cue_sheet_written:
  assumes ok: "cue_sheet_ok c" and w: "cue_sheet_write c = Inr s"
  shows "cue_sheet_load s = Inr c"
proof -
  define fl :: int where "fl = (if cs_compact_disc c then 0x80 else 0)"
  have fl: "0 \<le> fl" "fl < 2 ^ (8 * 1)" "fl AND 0x80 \<noteq> 0 \<longleftrightarrow> cs_compact_disc c" by (auto simp: fl_def)
  have cat: "rstrip_nul (pad_nul 128 (cs_media_catalog_number c)) = cs_media_catalog_number c"
    using ok rstrip_pad [of "cs_media_catalog_number c" 128] by (simp add: cue_sheet_ok_def field_ok_def)
  let ?front = "pad_nul 128 (cs_media_catalog_number c) @ struct_bytes True 8 (nat (cs_lead_in_samples c))
    @ struct_bytes True 1 (nat fl) @ replicate 258 (CHR 0x00) @ struct_bytes True 1 (length (cs_tracks c))"
  obtain ss where ss: "mapR cue_track_write (cs_tracks c) = Inr ss" "s = ?front @ concat ss"
    and b: "0 \<le> cs_lead_in_samples c" "cs_lead_in_samples c < 2 ^ (8 * 8)" "int (length (cs_tracks c)) < 2 ^ (8 * 1)"
    using w unfolding cue_sheet_write_def Let_def fl_def [symmetric] by (auto simp: bindR_Inr_iff pack_big_iff)
  have r: "strict_read 396 s = Inr (?front, concat ss)"
    unfolding ss(2) by (rule strict_read_here) simp
  have l: "strict_list cue_track_load (length (cs_tracks c)) (concat ss) = Inr (cs_tracks c, [])"
    using strict_list_written [OF _ ss(1), of cue_track_load "[]"] ok cue_track_written
    by (simp add: cue_sheet_ok_def list_all_iff)
  have ints: "flac_int (struct_bytes True 8 (nat (cs_lead_in_samples c))) = cs_lead_in_samples c"
    "flac_int (struct_bytes True 1 (nat fl)) = fl"
    by (rule flac_int_here; use b fl in simp)+
  have len: "flac_int (struct_bytes True 1 (length (cs_tracks c))) = int (length (cs_tracks c))"
    using b(3) by (simp add: flac_int_bytes)
  have cut: "take 128 ?front = pad_nul 128 (cs_media_catalog_number c)"
    "take 8 (drop 128 ?front) = struct_bytes True 8 (nat (cs_lead_in_samples c))"
    "take 1 (drop 136 ?front) = struct_bytes True 1 (nat fl)"
    "take 1 (drop 395 ?front) = struct_bytes True 1 (length (cs_tracks c))"
    by simp_all
  show ?thesis
    unfolding cue_sheet_load_def r bindR_simps prod.case Let_def cut ints len nat_int l cat fl(3) by simp
qed

section \<open>Pictures and comments\<close>

definition picture_ok :: "picture \<Rightarrow> bool" where
  "picture_ok p \<longleftrightarrow> list_all scalar (pc_mime p) \<and> list_all scalar (pc_desc p)"

lemma replace_utf8_written: "list_all scalar u \<Longrightarrow> replace_utf8 lossy (utf8_encode u) = u"
  by (simp add: replace_utf8_def utf8_decode_encode)

lemma strict_int_here: "n < 2 ^ (8 * 4) \<Longrightarrow> strict_int (struct_bytes True 4 n @ rest) = Inr (int n, rest)"
  by (simp add: strict_int_def strict_read_here flac_int_bytes)

lemma picture_written:
  assumes ok: "picture_ok p" and w: "picture_write p = Inr s"
  shows "picture_load lossy (s @ rest) = Inr (p, rest)"
proof -
  let ?b = "\<lambda>v. struct_bytes True 4 (nat v)"
  define mime where "mime = utf8_encode (pc_mime p)"
  define desc where "desc = utf8_encode (pc_desc p)"
  let ?m = "struct_bytes True 4 (length mime)" and ?d = "struct_bytes True 4 (length desc)"
    and ?n = "struct_bytes True 4 (length (pc_data p))"
  have u: "replace_utf8 lossy mime = pc_mime p" "replace_utf8 lossy desc = pc_desc p"
    using ok replace_utf8_written by (simp_all add: picture_ok_def mime_def desc_def)
  let ?front = "?b (pc_type p) @ ?m"
    and ?ints = "?b (pc_width p) @ ?b (pc_height p) @ ?b (pc_depth p) @ ?b (pc_colors p) @ ?n"
  have s: "s = ?front @ mime @ ?d @ desc @ ?ints @ pc_data p"
    and b: "0 \<le> pc_type p" "pc_type p < 2 ^ (8 * 4)" "int (length mime) < 2 ^ (8 * 4)" "int (length desc) < 2 ^ (8 * 4)"
      "0 \<le> pc_width p" "pc_width p < 2 ^ (8 * 4)" "0 \<le> pc_height p" "pc_height p < 2 ^ (8 * 4)"
      "0 \<le> pc_depth p" "pc_depth p < 2 ^ (8 * 4)" "0 \<le> pc_colors p" "pc_colors p < 2 ^ (8 * 4)"
      "int (length (pc_data p)) < 2 ^ (8 * 4)"
    using w unfolding picture_write_def Let_def mime_def [symmetric] desc_def [symmetric]
    by (auto simp: bindR_Inr_iff pack_big_iff)
  have r: "strict_read 8 (?front @ x) = Inr (?front, x)" "strict_read 20 (?ints @ x) = Inr (?ints, x)" for x
    by (rule strict_read_here; simp)+
  have ints: "flac_int (?b (pc_type p)) = pc_type p" "flac_int (?b (pc_width p)) = pc_width p"
    "flac_int (?b (pc_height p)) = pc_height p" "flac_int (?b (pc_depth p)) = pc_depth p"
    "flac_int (?b (pc_colors p)) = pc_colors p"
    by (rule flac_int_here; use b in simp)+
  have lens: "flac_int ?m = int (length mime)" "flac_int ?n = int (length (pc_data p))"
    using b(3,13) by (simp_all add: flac_int_bytes)
  have d: "strict_int (?d @ x) = Inr (int (length desc), x)" for x
    using strict_int_here [of "length desc" x] b(4) by simp
  have cut: "take 4 ?front = ?b (pc_type p)" "drop 4 ?front = ?m" "take 4 ?ints = ?b (pc_width p)"
    "take 4 (drop 4 ?ints) = ?b (pc_height p)" "take 4 (drop 8 ?ints) = ?b (pc_depth p)"
    "take 4 (drop 12 ?ints) = ?b (pc_colors p)" "drop 16 ?ints = ?n"
    by simp_all
  have e: "s @ rest = ?front @ mime @ ?d @ desc @ ?ints @ pc_data p @ rest" by (simp add: s)
  have r2: "strict_read (length x) (x @ y) = Inr (x, y)" for x y by (rule strict_read_here [OF refl])
  show ?thesis
    unfolding picture_load_def e r bindR_simps prod.case cut ints lens nat_int r2 d u by simp
qed

lemma strict_comments_written:
  "list_all clean_pair ps \<Longrightarrow> mapR write_pair ps = Inr strs \<Longrightarrow>
     strict_comments lossy i (length ps) self (concat strs @ rest) = Inr (self\<lparr>vc_pairs := vc_pairs self @ ps\<rparr>, rest)"
proof (induction ps arbitrary: i strs self)
  case (Cons p ps)
  obtain key u where p: "p = (key, FText u)" "is_valid_key key" "list_all scalar u"
    using Cons.prems(1) by (cases p) (auto simp: clean_pair_def)
  let ?s = "key @ CHR ''='' # utf8_encode u"
  obtain ts where t: "length ?s < 2 ^ 32" "mapR write_pair ps = Inr ts"
    "strs = (struct_bytes False 4 (length ?s) @ ?s) # ts"
    using Cons.prems(2) by (auto simp: bindR_Inr_iff p(1) write_pair_def encode_value_def write_field_iff)
  have ps: "list_all clean_pair ps" using Cons.prems by simp
  have n: "uint_le (struct_bytes False 4 (length ?s)) = Inr (int (length ?s))"
    using t(1) by (simp add: uint_le_def unpack_u_def struct_value_bytes)
  have u: "replace_utf8 lossy ?s = map ord key @ 61 # u"
    using decode_written [OF p(2,3), of lossy Replace]
    by (auto simp: decode_utf8_def replace_utf8_def split: sum.splits)
  have e: "concat strs @ rest = struct_bytes False 4 (length ?s) @ ?s @ (concat ts @ rest)" by (simp add: t(3))
  have r: "strict_read 4 (struct_bytes False 4 (length ?s) @ x) = Inr (struct_bytes False 4 (length ?s), x)"
    "strict_read (length ?s) (?s @ x) = Inr (?s, x)" for x by (rule strict_read_here; simp)+
  have "strict_comments lossy i (length (p # ps)) self (concat strs @ rest)
      = strict_comments lossy (Suc i) (length ps) (self\<lparr>vc_pairs := vc_pairs self @ [p]\<rparr>) (concat ts @ rest)"
    unfolding e list.size strict_comments.simps add_Suc_right add_0_right r bindR_simps prod.case n nat_int u
      parse_written [OF p(2)] option.case p(1) by simp
  then show ?case using Cons.IH [OF ps t(2)] by simp
qed simp

lemma strict_comment_written:
  assumes "clean_comment c" "vc_write False c = Inr data"
  shows "strict_comment lossy (data @ rest) = Inr (c, rest)"
proof -
  obtain u where u: "vc_vendor c = FText u" "list_all scalar u" and ps: "list_all clean_pair (vc_pairs c)"
    using assms(1) by (auto simp: clean_comment_def)
  obtain strs where w: "mapR write_pair (vc_pairs c) = Inr strs" "length (vc_pairs c) < 2 ^ 32"
    "length (utf8_encode u) < 2 ^ 32"
    "data = struct_bytes False 4 (length (utf8_encode u)) @ utf8_encode u
      @ struct_bytes False 4 (length (vc_pairs c)) @ concat strs @ (if False then [CHR 0x01] else [])"
    by (rule write_clean [OF assms(2) u(1)])
  have e: "data @ rest = struct_bytes False 4 (length (utf8_encode u)) @ utf8_encode u
      @ struct_bytes False 4 (length (vc_pairs c)) @ concat strs @ rest" by (simp add: w(4))
  have n: "uint_le (struct_bytes False 4 n) = Inr (int n)" if "n < 2 ^ 32" for n
    using that by (simp add: uint_le_def unpack_u_def struct_value_bytes)
  have r: "strict_read 4 (struct_bytes False 4 n @ x) = Inr (struct_bytes False 4 n, x)"
    "strict_read (length y) (y @ x) = Inr (y, x)" for x y n by (rule strict_read_here; simp)+
  show ?thesis
    unfolding strict_comment_def e r bindR_simps prod.case n [OF w(2)] n [OF w(3)] nat_int
      replace_utf8_written [OF u(2)] strict_comments_written [OF ps w(1)]
    using u(1) by (cases c) (simp add: new_comment_def)
qed

section \<open>Blocks in a file\<close>

text \<open>The bits of a block's first byte.\<close>

lemma code_byte:
  fixes c :: nat
  assumes "c < 128"
  shows "c AND 127 = c" "c AND 128 = 0" "(c OR 128) AND 127 = c" "(c OR 128) AND 128 \<noteq> 0" "c OR 128 < 256"
proof -
  have m: "x AND 127 = take_bit 7 x" for x :: nat
    using take_bit_eq_mask [of 7 x] by (simp add: mask_eq_exp_minus_1)
  have t: "take_bit 7 c = c" "take_bit 8 c = c" using assms by (simp_all add: take_bit_eq_mod)
  show a: "c AND 127 = c" by (simp add: m t)
  have "c AND 128 = (c AND 127) AND 128" by (simp only: a)
  also have "\<dots> = 0" by (simp add: and.assoc)
  finally show "c AND 128 = 0" .
  show "(c OR 128) AND 127 = c" by (simp add: m t take_bit_or)
  have "bit ((c OR 128) AND 128) 7" by (simp add: bit_simps)
  then show "(c OR 128) AND 128 \<noteq> 0" by (metis bit_0_eq bot_fun_def bot_bool_def)
  have "take_bit 8 (c OR 128) = c OR 128" by (simp add: take_bit_or t)
  then show "c OR 128 < 256" using take_bit_nat_less_exp [of 8 "c OR 128"] by simp
qed

text \<open>A block as the file has it: the byte of its type, its length, and its data.\<close>

definition framed_block :: "nat \<Rightarrow> string \<Rightarrow> string" where
  "framed_block byte s = chr byte # struct_bytes True 3 (length s) @ s"

lemma coded_iff:
  "coded (code, s) = Inr t \<longleftrightarrow> code < 256 \<and> length s \<le> 2 ^ 24 \<and> t = framed_block code s"
proof -
  have "pack_last (3, int (length s)) = Inr (struct_bytes True 3 (length s))" if "length s \<le> 2 ^ 24"
    using that drop_struct_bytes [of 1 3 "length s"] by (simp add: pack_last_def pack_u_def)
  then show ?thesis by (auto simp: coded_def framed_block_def)
qed

definition repeated :: "flac_block list \<Rightarrow> flac_block \<Rightarrow> bool" where
  "repeated blocks b \<longleftrightarrow> block_code b \<in> {3, 4, 5} \<and> block_code b \<in> set (map block_code blocks)"

locale block_format =
  fixes con :: "'a \<Rightarrow> flac_block" and ok :: "'a \<Rightarrow> bool"
    and load :: "(vc_errors \<Rightarrow> string \<Rightarrow> unicode) \<Rightarrow> nat \<Rightarrow> string \<Rightarrow> merr + 'a \<times> string"
  assumes code: "ok x \<Longrightarrow> block_code (con x) < 128"
    and loads: "ok x \<Longrightarrow> load lossy n data = Inr (x, rest) \<Longrightarrow>
      block_load lossy (block_code (con x)) n data = Inr (con x, rest)"
    and written: "ok x \<Longrightarrow> block_write (con x) = Inr s \<Longrightarrow> load lossy (length s) (s @ rest) = Inr (x, rest)"
begin

lemma block_read:
  assumes "ok x" "block_write (con x) = Inr s"
  shows "block_load lossy (block_code (con x)) (length s) (s @ rest) = Inr (con x, rest)"
  by (rule loads [OF assms(1) written [OF assms]])

lemma framed_read:
  assumes "ok x" "block_write (con x) = Inr s" "length s < 2 ^ 24" "\<not> repeated blocks (con x)"
  shows "read_metadata_block lossy blocks (framed_block (block_code (con x)) s @ rest)
      = Inr (blocks @ [con x], True, rest)"
    "read_metadata_block lossy blocks (framed_block (block_code (con x) OR 128) s @ rest)
      = Inr (blocks @ [con x], False, rest)"
proof -
  note c = code_byte [OF code [OF assms(1)]]
  have n: "flac_int (struct_bytes True 3 (length s)) = int (length s)" using assms(3) by (simp add: flac_int_bytes)
  have r: "strict_read 3 (struct_bytes True 3 (length s) @ t) = Inr (struct_bytes True 3 (length s), t)" for t
    by (rule strict_read_here) simp
  have d: "\<not> (block_code (con x) \<in> {4, 5, 3} \<and> block_code (con x) \<in> set (map block_code blocks))"
    using assms(4) by (auto simp: repeated_def)
  have b: "ord (hd [chr y]) = y" if "y < 256" for y using that by simp
  have lt: "block_code (con x) < 256" using code [OF assms(1)] by simp
  have *: "read_metadata_block lossy blocks (framed_block y s @ rest) = Inr (blocks @ [con x], \<not> y AND 128 \<noteq> 0, rest)"
    if "y < 256" "y AND 127 = block_code (con x)" for y
    unfolding read_metadata_block_def framed_block_def append_Cons append_assoc strict_read_one r bindR_simps
      prod.case Let_def b [OF that(1)] that(2) n nat_int block_read [OF assms(1,2)] if_not_P [OF d] ..
  show "read_metadata_block lossy blocks (framed_block (block_code (con x)) s @ rest)
      = Inr (blocks @ [con x], True, rest)"
    using * [OF lt c(1)] c(2) by simp
  show "read_metadata_block lossy blocks (framed_block (block_code (con x) OR 128) s @ rest)
      = Inr (blocks @ [con x], False, rest)"
    using * [OF c(5,3)] c(4) by simp
qed

end

text \<open>The types of blocks that are read whole.\<close>

definition sized :: "(string \<Rightarrow> merr + 'a) \<Rightarrow> nat \<Rightarrow> string \<Rightarrow> merr + 'a \<times> string" where
  "sized load n data = bindR (strict_read n data) (\<lambda>(s, rest). bindR (load s) (\<lambda>x. Inr (x, rest)))"

lemma sized_iff: "sized load n data = Inr (x, rest) \<longleftrightarrow> (\<exists>s. strict_read n data = Inr (s, rest) \<and> load s = Inr x)"
  by (auto simp: sized_def bindR_Inr_iff)

lemma sized_written: "load s = Inr x \<Longrightarrow> sized load (length s) (s @ rest) = Inr (x, rest)"
  by (simp add: sized_def strict_read_here)

interpretation stream_info_block: block_format StreamInfo stream_info_ok "\<lambda>_. sized stream_info_load"
  by unfold_locales (auto simp: block_load_def sized_iff intro!: sized_written [unfolded sized_iff] stream_info_written)

interpretation padding_block: block_format Padding "\<lambda>n. 0 \<le> n" "\<lambda>_. sized (\<lambda>s. Inr (int (length s)))"
  by unfold_locales (auto simp: block_load_def sized_iff sized_written)

interpretation seek_table_block: block_format SeekTable "\<lambda>_. True" "\<lambda>_. sized (\<lambda>s. Inr (seek_table_load s))"
  by unfold_locales
    (auto simp: block_load_def sized_iff seek_table_write_def bindR_Inr_iff seek_table_written sized_written)

interpretation cue_sheet_block: block_format CueSheet cue_sheet_ok "\<lambda>_. sized cue_sheet_load"
  by unfold_locales (auto simp: block_load_def sized_iff sized_written cue_sheet_written)

interpretation other_block: block_format "MetadataBlock code"
  "\<lambda>_. code < 128 \<and> code \<notin> {0, 1, 3, 4, 5, 6}" "\<lambda>_. sized Inr" for code
  by unfold_locales (auto simp: block_load_def sized_iff sized_written)

interpretation picture_block: block_format Picture picture_ok "\<lambda>lossy _. picture_load lossy"
  by unfold_locales (auto simp: block_load_def picture_written)

interpretation comment_block: block_format VCFLACDict clean_comment "\<lambda>lossy _. strict_comment lossy"
  by unfold_locales (auto simp: block_load_def strict_comment_written)

definition block_ok :: "flac_block \<Rightarrow> bool" where
  "block_ok b \<longleftrightarrow> (case b of
       StreamInfo i \<Rightarrow> stream_info_ok i
     | Padding n \<Rightarrow> 0 \<le> n
     | SeekTable _ \<Rightarrow> True
     | VCFLACDict c \<Rightarrow> clean_comment c
     | CueSheet c \<Rightarrow> cue_sheet_ok c
     | Picture p \<Rightarrow> picture_ok p
     | MetadataBlock code _ \<Rightarrow> code < 128 \<and> code \<notin> {0, 1, 3, 4, 5, 6})"

lemmas framed_blocks = stream_info_block.framed_read padding_block.framed_read seek_table_block.framed_read
  comment_block.framed_read cue_sheet_block.framed_read picture_block.framed_read other_block.framed_read

lemma written_block_read:
  assumes "block_ok b" "block_write b = Inr s" "length s < 2 ^ 24" "\<not> repeated blocks b"
  shows "read_metadata_block lossy blocks (framed_block (block_code b) s @ rest) = Inr (blocks @ [b], True, rest)"
    "read_metadata_block lossy blocks (framed_block (block_code b OR 128) s @ rest) = Inr (blocks @ [b], False, rest)"
  using assms by (cases b; simp only: block_ok_def flac_block.case framed_blocks TrueI)+

lemma block_ok_code: "block_ok b \<Longrightarrow> block_code b < 128"
  by (cases b) (auto simp: block_ok_def)

text \<open>A run of blocks, with types that may occur once occurring once.\<close>

fun unrepeated :: "flac_block list \<Rightarrow> flac_block list \<Rightarrow> bool" where
  "unrepeated before [] = True"
| "unrepeated before (b # bs) \<longleftrightarrow> \<not> repeated before b \<and> unrepeated (before @ [b]) bs"

definition short_block :: "flac_block \<Rightarrow> bool" where
  "short_block b \<longleftrightarrow> (\<forall>s. block_write b = Inr s \<longrightarrow> length s < 2 ^ 24)"

lemma writeblocks_single: "writeblocks [b] = bindR (block_write b) (\<lambda>s. coded (block_code b OR 128, s))"
  by (simp add: writeblocks_def bindR_def split: sum.split)

lemma writeblocks_Cons:
  "bs \<noteq> [] \<Longrightarrow> writeblocks (b # bs) = Inr d \<longleftrightarrow>
     (\<exists>s h t. block_write b = Inr s \<and> coded (block_code b, s) = Inr h \<and> writeblocks bs = Inr t \<and> d = h @ t)"
  by (auto simp: writeblocks_def bindR_Inr_iff Let_def)

lemma read_blocks_written:
  "blocks \<noteq> [] \<Longrightarrow> list_all block_ok blocks \<Longrightarrow> list_all short_block blocks \<Longrightarrow> unrepeated before blocks \<Longrightarrow>
     writeblocks blocks = Inr d \<Longrightarrow> read_blocks lossy before (d @ rest) = Inr (before @ blocks)"
proof (induction blocks arbitrary: before d)
  case (Cons b bs)
  have b: "block_ok b" "short_block b" "\<not> repeated before b" using Cons.prems by simp_all
  show ?case
  proof (cases "bs = []")
    case True
    then obtain s where s: "block_write b = Inr s" "d = framed_block (block_code b OR 128) s"
      using Cons.prems(5) by (auto simp: writeblocks_single bindR_Inr_iff coded_iff)
    have "length s < 2 ^ 24" using b(2) s(1) by (simp add: short_block_def)
    from written_block_read(2) [OF b(1) s(1) this b(3)] show ?thesis
      by (subst read_blocks.simps) (simp add: s(2) True)
  next
    case False
    then obtain s t where s: "block_write b = Inr s" "writeblocks bs = Inr t" "d = framed_block (block_code b) s @ t"
      using Cons.prems(5) by (auto simp: writeblocks_Cons coded_iff)
    have "length s < 2 ^ 24" using b(2) s(1) by (simp add: short_block_def)
    from written_block_read(1) [OF b(1) s(1) this b(3)] Cons.IH [OF False _ _ _ s(2), of "before @ [b]"] Cons.prems
    show ?thesis by (subst read_blocks.simps) (simp add: s(3))
  qed
qed simp

end
