(* ===== verification/Flac_Props.thy ===== *)
theory Flac_Props
  imports Flac_Laws
begin

text \<open>
  Properties of FLAC files: what saving changes and keeps, a saved file loaded again, the errors
  loading can raise, and the limit of a block's size.
\<close>

section \<open>What is left behind the blocks is the end of the file\<close>

definition rest_of :: "string \<Rightarrow> string \<Rightarrow> bool" where
  "rest_of rest data \<longleftrightarrow> (\<exists>k. rest = drop k data)"

lemma rest_of_refl [intro]: "rest_of data data"
  unfolding rest_of_def by (rule exI [of _ 0]) simp

lemma rest_of_here: "rest_of (drop n data) data"
  by (auto simp: rest_of_def)

lemma rest_of_drop [intro]: "rest_of rest (drop n data) \<Longrightarrow> rest_of rest data"
  by (auto simp: rest_of_def)

lemma rest_of_trans: "rest_of a b \<Longrightarrow> rest_of b c \<Longrightarrow> rest_of a c"
  by (auto simp: rest_of_def)

lemma rest_of_Cons: "rest_of rest data \<Longrightarrow> rest_of rest (c # data)"
  unfolding rest_of_def using drop_Suc_Cons by metis

lemma strict_read_rest: "strict_read n data = Inr (s, rest) \<Longrightarrow> rest_of rest data"
  by (auto simp: strict_read_def rest_of_def split: if_splits)

lemma read_uint_rest: "read_uint data = Inr (n, rest) \<Longrightarrow> rest_of rest data"
  by (auto simp: read_uint_def bindR_Inr_iff rest_of_def)

lemma picture_rest: "picture_load lossy data = Inr (p, rest) \<Longrightarrow> rest_of rest data"
  by (auto simp: picture_load_def strict_int_def bindR_Inr_iff dest!: strict_read_rest) (meson rest_of_trans)

lemma load_comments_rest:
  "load_comments lossy errors i count self data = (c, Inr rest) \<Longrightarrow> rest_of rest data"
proof (induction lossy errors i count self data rule: load_comments.induct)
  case (1 lossy errors i count self data)
  note step = load_comments.simps [of lossy errors i count self data]
  show ?case
  proof (cases "count \<le> i")
    case True
    then show ?thesis using "1.prems" step by auto
  next
    case False
    then obtain n d where r: "read_uint data = Inr (n, d)" using "1.prems" step by (auto split: sum.splits)
    then obtain s where s: "decode_utf8 lossy errors (take n d) = Inr s"
      using "1.prems" step False by (auto split: sum.splits)
    then obtain p where p: "parse_comment errors i s = Inr p"
      using "1.prems" step False r by (auto split: sum.splits)
    have "rest_of rest (drop n d)"
    proof (cases p)
      case None
      then show ?thesis using "1.IH"(1) [OF False r refl s p] "1.prems" step False r s p by simp
    next
      case (Some q)
      then show ?thesis using "1.IH"(2) [OF False r refl s p] "1.prems" step False r s p by simp
    qed
    then show ?thesis using read_uint_rest [OF r] by (blast intro: rest_of_trans)
  qed
qed

lemma vc_load_rest: "vc_load lossy errors False self data = (c, Inr rest) \<Longrightarrow> rest_of rest data"
  by (auto simp: vc_load_def load_body_def bindR_Inr_iff Let_def split: sum.splits prod.splits
      dest!: read_uint_rest load_comments_rest) (meson rest_of_trans rest_of_drop)

lemma find_audio_rest: "find_audio lossy data = Inr audio \<Longrightarrow> rest_of audio data"
proof (induction lossy data rule: find_audio.induct)
  case (2 lossy c data)
  define r where "r = (if ord c AND 0x7F = 4 then (case vc_load lossy Replace False new_comment (drop 3 data) of (_, r) \<Rightarrow> r)
               else if ord c AND 0x7F = 6 then bindR (picture_load lossy (drop 3 data)) (\<lambda>(_, rest). Inr rest)
               else Inr (drop (nat (flac_int (take 3 data))) (drop 3 data)))"
  have step: "find_audio lossy (c # data)
      = (case r of Inl e \<Rightarrow> Inl e | Inr rest \<Rightarrow> if ord c AND 0x80 \<noteq> 0 then Inr rest else find_audio lossy rest)"
    by (subst find_audio.simps) (simp only: Let_def r_def)
  then obtain rest where r: "r = Inr rest" using "2.prems" by (auto split: sum.splits)
  have "rest_of rest (drop 3 data)"
    using r unfolding r_def
    by (auto simp: bindR_Inr_iff rest_of_here simp del: drop_drop split: if_splits prod.splits
        dest: vc_load_rest picture_rest)
  moreover have "rest_of audio rest"
    using "2.prems" step r "2.IH" [OF refl refl refl r [unfolded r_def]] by (auto split: if_splits)
  ultimately show ?case by (blast intro: rest_of_trans rest_of_Cons)
qed (simp add: find_audio.simps)

lemma rest_split:
  assumes "rest_of rest data"
  shows "length rest \<le> length data" "drop (length data - length rest) data = rest"
proof -
  obtain k where k: "rest = drop k data" using assms by (auto simp: rest_of_def)
  show "length rest \<le> length data" by (simp add: k)
  show "drop (length data - length rest) data = rest" by (cases "k \<le> length data") (simp_all add: k)
qed

section \<open>Saving\<close>

lemma check_header_lenient:
  "check_header False filedata = Inr header \<Longrightarrow> 4 \<le> header \<and> take 4 (drop (header - 4) filedata) = flac_mark"
  by (auto simp: check_header_def Let_def split: if_splits)

lemma mark_inside:
  assumes "take 4 (drop k filedata) = flac_mark" shows "k + 4 \<le> length filedata"
proof -
  have "length (take 4 (drop k filedata)) = 4" by (simp add: assms flac_mark_def)
  then show ?thesis by simp
qed

text \<open>The bytes in front of the mark decide the header's place.\<close>

lemma check_header_again:
  assumes "check_header False filedata = Inr header"
  shows "check_header True (take (header - 4) filedata @ flac_mark @ rest) = Inr header"
proof (cases "take 4 filedata = flac_mark")
  case True
  then have "header = 4" using assms by (simp add: check_header_def)
  then show ?thesis by (simp add: check_header_def strict_read_def flac_mark_def)
next
  case False
  define sz where "sz = 14 + bit_padded_int 7 True (drop 2 (take 6 (drop 4 filedata)))"
  have h: "take 3 (take 4 filedata) = ''ID3''" "header = sz"
    using assms False by (auto simp: check_header_def sz_def Let_def split: if_splits)
  have n: "4 \<le> header" "header \<le> length filedata"
    using check_header_lenient [OF assms] mark_inside [of "header - 4" filedata] by auto
  have "10 \<le> sz - 4" by (simp add: sz_def)
  define pre where "pre = take (sz - 4) filedata"
  have pre: "length pre = sz - 4" "take 4 pre = take 4 filedata" "take 6 (drop 4 pre) = take 6 (drop 4 filedata)"
    using n \<open>10 \<le> sz - 4\<close> by (simp_all add: pre_def h(2) take_drop min_def)
  let ?new = "pre @ flac_mark @ rest"
  have t: "take 4 ?new = take 4 filedata" "take 6 (drop 4 ?new) = take 6 (drop 4 filedata)"
    using pre \<open>10 \<le> sz - 4\<close> by simp_all
  have m: "drop (sz - 4) ?new = flac_mark @ rest" by (simp add: pre(1))
  have l: "10 \<le> length ?new" using pre(1) \<open>10 \<le> sz - 4\<close> by simp
  have r: "strict_read 4 ?new = Inr (take 4 filedata, drop 4 ?new)"
    "strict_read 6 (drop 4 ?new) = Inr (take 6 (drop 4 filedata), drop 6 (drop 4 ?new))"
    "strict_read 4 (drop (sz - 4) ?new) = Inr (flac_mark, rest)"
    subgoal using l t(1) unfolding strict_read_def by auto
    subgoal using l t(2) unfolding strict_read_def by auto
    subgoal unfolding m by (rule strict_read_here) (simp add: flac_mark_def)
    done
  show ?thesis
    unfolding h(2) pre_def [symmetric] check_header_def Let_def if_True r bindR_simps prod.case
      sz_def [symmetric] if_not_P [OF False] h(1) by simp
qed

lemma group_padding_last: "\<exists>n. group_padding blocks = filter (\<lambda>b. padding_length b = None) blocks @ [Padding n]"
  by (simp add: group_padding_def Let_def)

lemma fit_padding_written:
  assumes "writeblocks blocks = Inr data" "fit_padding available blocks data = (blocks', Inr d)"
  shows "writeblocks blocks' = Inr d \<and> (blocks' = blocks \<or> butlast blocks' = butlast blocks \<and> (\<exists>n. last blocks' = Padding n))
    \<and> (int (length d) = available \<or> available < int (length d) \<and> blocks' = blocks)"
  using assms by (auto simp: fit_padding_def Let_def bindR_Inr_iff split: if_splits)

lemma fit_padding_ne: "fit_padding available blocks data = (blocks', r) \<Longrightarrow> blocks \<noteq> [] \<Longrightarrow> blocks' \<noteq> []"
  by (auto simp: fit_padding_def Let_def split: if_splits)

lemma write_over:
  assumes "s \<noteq> []" "p \<le> length (fbytes f)"
  shows "fbytes (f_write s (f\<lparr>fpos := p\<rparr>)) = take p (fbytes f) @ s @ drop (p + length s) (fbytes f)"
  using assms by (simp add: f_write_def)

text \<open>Making room at a place and writing over it from four bytes in front of it.\<close>

lemma write_fitted:
  assumes n: "4 \<le> h" "h + av \<le> length filedata" "av \<le> length d"
    and f: "(if length d \<noteq> av then insert_bytes mmap_works (open_file filedata) (int (length d) - int av) (int h)
       else Inr (open_file filedata)) = Inr f"
  shows "fbytes (f_write (flac_mark @ d) (f\<lparr>fpos := h - 4\<rparr>))
    = take (h - 4) filedata @ flac_mark @ d @ drop (h + av) filedata"
proof -
  have m: "length flac_mark = 4" "flac_mark @ d \<noteq> []" by (simp_all add: flac_mark_def)
  show ?thesis
  proof (cases "length d = av")
    case True
    then have e: "fbytes f = filedata" using f by (auto simp: open_file_def)
    show ?thesis using write_over [OF m(2), of "h - 4" f] n m(1) by (simp add: e True)
  next
    case False
    define sz where "sz = length d - av"
    have sz: "0 < sz" "int (length d) - int av = int sz" using False n(3) by (simp_all add: sz_def)
    have "h \<le> length (fbytes (open_file filedata))" using n(2) by (simp add: open_file_def)
    from insert_bytes_opened [OF sz(1) this, of mmap_works] f False sz(2)
    have e: "fbytes f = opened sz h filedata" by (auto simp: open_file_def)
    have k: "h \<le> length filedata" "h - 4 \<le> length (opened sz h filedata)" using n(2) by (simp_all add: length_opened)
    have t: "take (h - 4) (opened sz h filedata) = take (h - 4) filedata"
      using n(1) k(1) by (simp add: opened_def min_def)
    have "drop (h + sz + av) (opened sz h filedata) = drop (h + av) filedata"
    proof -
      define front where "front = take h filedata @ take sz (drop h filedata @ replicate sz (CHR 0x00))"
      have "length front = h + sz" using k(1) by (simp add: front_def)
      moreover have "opened sz h filedata = front @ drop h filedata" by (simp add: opened_def front_def)
      ultimately show ?thesis by (simp add: add.commute)
    qed
    moreover have "h - 4 + length (flac_mark @ d) = h + sz + av" using n m(1) by (simp add: sz_def)
    ultimately show ?thesis using write_over [OF m(2), of "h - 4" f] k(2) by (simp only: e t append_assoc)
  qed
qed

definition header_kept :: "bool \<Rightarrow> nat \<Rightarrow> nat" where
  "header_kept deleteid3 header = (if deleteid3 \<and> 4 < header then 4 else header)"

definition rest_kept :: "bool \<Rightarrow> string \<Rightarrow> string" where
  "rest_kept deleteid3 data = (if deleteid3 then fbytes (drop_id3v1 (open_file data)) else data)"

lemma drop_id3v1_bytes: "fbytes (drop_id3v1 f) = fbytes (drop_id3v1 (open_file (fbytes f)))"
  by (simp add: drop_id3v1_def seek_end_def seek_set_def open_file_def f_read_def f_truncate_def Let_def split: sum.split)

lemma saved_file:
  assumes h: "check_header False filedata = Inr header"
    and a: "find_audio lossy (drop header filedata) = Inr audio"
    and s: "flac_save lossy mmap_works deleteid3 blocks filedata = (blocks', data', None)"
  obtains d n where "writeblocks blocks' = Inr d"
    "blocks' = filter (\<lambda>b. padding_length b = None) blocks @ [Padding n]"
    "data' = rest_kept deleteid3 (take (header_kept deleteid3 header - 4) filedata @ flac_mark @ d @ audio)"
    "header_kept deleteid3 header + length d + length audio = length filedata
      \<or> length filedata < header_kept deleteid3 header + length d + length audio
        \<and> blocks' = group_padding (blocks @ [Padding 1020])"
proof -
  define B where "B = group_padding (blocks @ [Padding 1020])"
  define k where "k = header_kept deleteid3 header"
  define av where "av = length filedata - length audio - k"
  have le: "4 \<le> header" "header \<le> length filedata"
    using check_header_lenient [OF h] mark_inside [of "header - 4" filedata] by auto
  note r = rest_split [OF find_audio_rest [OF a]]
  have k: "4 \<le> k" "k \<le> header" using le(1) by (simp_all add: k_def header_kept_def)
  have len: "header + length audio \<le> length filedata" using r(1) le(2) by simp
  have au: "drop (k + av) filedata = audio"
  proof -
    have "k + av = header + (length (drop header filedata) - length audio)" using len k by (simp add: av_def)
    then show ?thesis using r(2) by (simp add: add.commute)
  qed
  have av: "(if deleteid3 \<and> 4 < header then (4, length filedata - length audio - header + (header - 4))
      else (header, length filedata - length audio - header)) = (k, av)"
    using len le by (simp add: k_def av_def header_kept_def)
  obtain d0 where d0: "writeblocks B = Inr d0"
    using s h a by (cases "writeblocks B") (auto simp: flac_save_def Let_def B_def [symmetric])
  have put: "(case fit_padding (int av) B d0 of
        (bs, Inl e) \<Rightarrow> (bs, filedata, Some e)
      | (bs, Inr d) \<Rightarrow>
          (case (if length d \<noteq> av then insert_bytes mmap_works (open_file filedata) (int (length d) - int av) (int k)
                 else Inr (open_file filedata)) of
             Inl e \<Rightarrow> (bs, filedata, Some e)
           | Inr f \<Rightarrow> (bs, fbytes (if deleteid3 then drop_id3v1 (f_write (flac_mark @ d) (f\<lparr>fpos := k - 4\<rparr>))
               else f_write (flac_mark @ d) (f\<lparr>fpos := k - 4\<rparr>)), None)))
      = (blocks', data', None)"
    using s unfolding flac_save_def Let_def B_def [symmetric] h a d0 bindR_simps sum.case prod.case av .
  obtain bs d where fit: "fit_padding (int av) B d0 = (bs, Inr d)"
    using put by (auto split: prod.splits sum.splits)
  obtain f where f: "(if length d \<noteq> av then insert_bytes mmap_works (open_file filedata) (int (length d) - int av) (int k)
       else Inr (open_file filedata)) = Inr f"
    using put unfolding fit prod.case sum.case by (auto split: sum.splits)
  have out: "blocks' = bs" "data' = fbytes (if deleteid3 then drop_id3v1 (f_write (flac_mark @ d) (f\<lparr>fpos := k - 4\<rparr>))
      else f_write (flac_mark @ d) (f\<lparr>fpos := k - 4\<rparr>))"
    using put unfolding fit prod.case sum.case f by simp_all
  note w = fit_padding_written [OF d0 fit]
  have ge: "av \<le> length d" using w by auto
  have "k + av \<le> length filedata" using len k by (simp add: av_def)
  from write_fitted [OF k(1) this ge f] au
  have x: "fbytes (f_write (flac_mark @ d) (f\<lparr>fpos := k - 4\<rparr>)) = take (k - 4) filedata @ flac_mark @ d @ audio" by simp
  have "data' = rest_kept deleteid3 (take (k - 4) filedata @ flac_mark @ d @ audio)"
    using drop_id3v1_bytes [of "f_write (flac_mark @ d) (f\<lparr>fpos := k - 4\<rparr>)"]
    by (simp add: out(2) rest_kept_def x)
  note saved = this [unfolded k_def]
  obtain m where B: "B = filter (\<lambda>b. padding_length b = None) blocks @ [Padding m]"
    using group_padding_last [of "blocks @ [Padding 1020]"] by (auto simp: B_def)
  obtain n where n: "bs = filter (\<lambda>b. padding_length b = None) blocks @ [Padding n]"
  proof (cases "bs = B")
    case False
    then obtain n where "butlast bs = butlast B" "last bs = Padding n" using w by auto
    moreover have "bs \<noteq> []" using fit_padding_ne [OF fit] B by simp
    ultimately show ?thesis using that [of n] B by (metis append_butlast_last_id butlast_snoc)
  qed (use B that in blast)
  have room: "k + length d + length audio = length filedata
      \<or> length filedata < k + length d + length audio \<and> bs = B"
    using w len k by (auto simp: av_def)
  show thesis
    by (rule that [of d n]) (use w n saved room in \<open>simp_all add: out(1) k_def B_def\<close>)
qed

text \<open>
  C23. Saving a FLAC file keeps every other byte. When it succeeds, the new file is the old one up to
  the mark - without its ID3 tag if that is to go - then the mark, the written blocks, and all that
  followed the old blocks, without an ID3v1 tag if that is to go. The blocks are the given ones
  without padding, in their order, with one block of padding at the end; and the audio either stays
  at its place or moves back.
\<close>

theorem flac_save_keeps_audio:
  assumes "check_header False filedata = Inr header"
    and "find_audio lossy (drop header filedata) = Inr audio"
    and "flac_save lossy mmap_works deleteid3 blocks filedata = (blocks', data', None)"
  shows "\<exists>d n. writeblocks blocks' = Inr d
    \<and> blocks' = filter (\<lambda>b. padding_length b = None) blocks @ [Padding n]
    \<and> data' = rest_kept deleteid3 (take (header_kept deleteid3 header - 4) filedata @ flac_mark @ d @ audio)
    \<and> length filedata \<le> header_kept deleteid3 header + length d + length audio"
  by (rule saved_file [OF assms]) auto

text \<open>
  C22. A saved FLAC file is loaded again with exactly the blocks the save left in memory: stream
  information, seek tables, comments, cue sheets, pictures and blocks of unknown types, in their
  order, and the padding. The fields of the blocks have to fit their places, blocks have to be shorter
  than $2^{24}$ bytes, and types that may occur once occur once.
\<close>

theorem flac_save_load:
  assumes "check_header False filedata = Inr header"
    and "find_audio lossy (drop header filedata) = Inr audio"
    and "flac_save lossy mmap_works False blocks filedata = (blocks', data', None)"
    and "list_all block_ok blocks'" "list_all short_block blocks'" "unrepeated [] blocks'"
    and "\<exists>i. hd blocks' = StreamInfo i"
  shows "flac_load lossy data' = Inr blocks'"
proof -
  obtain d n where d: "writeblocks blocks' = Inr d"
    "blocks' = filter (\<lambda>b. padding_length b = None) blocks @ [Padding n]"
    "data' = rest_kept False (take (header_kept False header - 4) filedata @ flac_mark @ d @ audio)"
    by (rule saved_file [OF assms(1-3)])
  have ne: "blocks' \<noteq> []" by (simp add: d(2))
  have new: "data' = take (header - 4) filedata @ flac_mark @ d @ audio"
    by (simp add: d(3) rest_kept_def header_kept_def)
  have head: "check_header True data' = Inr header" unfolding new by (rule check_header_again [OF assms(1)])
  have "header \<le> length filedata" "4 \<le> header"
    using check_header_lenient [OF assms(1)] mark_inside [of "header - 4" filedata] by auto
  then have "drop header data' = d @ audio" by (simp add: new flac_mark_def)
  then have "read_blocks lossy [] (drop header data') = Inr blocks'"
    using read_blocks_written [OF ne assms(4,5,6) d(1), of lossy audio] by simp
  moreover obtain i bs where "blocks' = StreamInfo i # bs" using assms(7) ne by (cases blocks') auto
  ultimately show ?thesis by (simp add: flac_load_def head)
qed

section \<open>What loading can raise\<close>

definition flac_errors :: "merr set" where
  "flac_errors = {FlacError, FLACNoHeaderError, FLACVorbisError}"

lemma strict_read_error: "strict_read n data = Inl e \<Longrightarrow> e = FlacError"
  by (simp add: strict_read_def split: if_splits)

lemma strict_list_error:
  "(\<And>data e. load data = Inl e \<Longrightarrow> e = FlacError) \<Longrightarrow> strict_list load n data = Inl e \<Longrightarrow> e = FlacError"
  by (induction n arbitrary: data) (auto simp: bindR_Inl_iff)

lemma stream_info_error: "stream_info_load data = Inl e \<Longrightarrow> e = FlacError"
  by (auto simp: stream_info_load_def bindR_Inl_iff Let_def split: if_splits dest: strict_read_error)

lemma cue_index_error: "cue_index_load data = Inl e \<Longrightarrow> e = FlacError"
  by (auto simp: cue_index_load_def bindR_Inl_iff dest: strict_read_error)

lemma cue_indexes_error: "strict_list cue_index_load n data = Inl e \<Longrightarrow> e = FlacError"
  by (rule strict_list_error) (rule cue_index_error)

lemma cue_track_error: "cue_track_load data = Inl e \<Longrightarrow> e = FlacError"
  by (auto simp: cue_track_load_def bindR_Inl_iff Let_def
      dest: strict_read_error cue_indexes_error)

lemma cue_tracks_error: "strict_list cue_track_load n data = Inl e \<Longrightarrow> e = FlacError"
  by (rule strict_list_error) (rule cue_track_error)

lemma cue_sheet_error: "cue_sheet_load data = Inl e \<Longrightarrow> e = FlacError"
  by (auto simp: cue_sheet_load_def bindR_Inl_iff Let_def
      dest: strict_read_error cue_tracks_error)

lemma picture_error: "picture_load lossy data = Inl e \<Longrightarrow> e = FlacError"
  by (auto simp: picture_load_def strict_int_def bindR_Inl_iff dest: strict_read_error)

lemma strict_uint:
  assumes "strict_read 4 data = Inr (s, rest)" shows "uint_le s \<noteq> Inl e"
  using strict_read_shorter [OF assms] by (simp add: uint_le_def unpack_u_def)

lemma strict_comments_error: "strict_comments lossy i n self data = Inl e \<Longrightarrow> e = FlacError"
proof (induction lossy i n self data rule: strict_comments.induct)
  case (2 lossy i n self data)
  have "parse_comment Replace i u \<noteq> Inl e" for u
    using parse_comment_error [of Replace i u e] by (auto simp: load_errors_def)
  then show ?case
    using "2.prems" by (auto simp: bindR_Inl_iff strict_uint dest: strict_read_error "2.IH")
qed simp

lemma strict_comment_error: "strict_comment lossy data = Inl e \<Longrightarrow> e = FlacError"
  by (auto simp: strict_comment_def bindR_Inl_iff strict_uint dest: strict_read_error strict_comments_error)

lemma block_load_error: "block_load lossy code n data = Inl e \<Longrightarrow> e = FlacError"
  by (auto simp: block_load_def bindR_Inl_iff split: if_splits
      dest: strict_comment_error picture_error strict_read_error stream_info_error cue_sheet_error)

lemma read_block_error: "read_metadata_block lossy blocks data = Inl e \<Longrightarrow> e \<in> {FlacError, FLACVorbisError}"
  by (auto simp: read_metadata_block_def bindR_Inl_iff Let_def split: if_splits
      dest: strict_read_error block_load_error)

lemma read_blocks_error: "read_blocks lossy blocks data = Inl e \<Longrightarrow> e \<in> {FlacError, FLACVorbisError}"
proof (induction lossy blocks data rule: read_blocks.induct)
  case (1 lossy blocks data)
  then show ?case
    by (subst (asm) (2) read_blocks.simps) (auto split: sum.splits if_splits dest: read_block_error)
qed

lemma check_header_error: "check_header True filedata = Inl e \<Longrightarrow> e \<in> {FlacError, FLACNoHeaderError}"
  by (auto simp: check_header_def bindR_Inl_iff Let_def split: if_splits dest: strict_read_error)

lemma first_block_error:
  "(case blocks of StreamInfo _ # _ \<Rightarrow> Inr blocks | Padding _ # _ \<Rightarrow> Inr blocks | _ \<Rightarrow> Inl FLACNoHeaderError) = Inl e
     \<Longrightarrow> e = FLACNoHeaderError"
  by (simp split: list.splits flac_block.splits)

lemma first_block_ok:
  assumes "(case blocks of StreamInfo _ # _ \<Rightarrow> Inr blocks | Padding _ # _ \<Rightarrow> Inr blocks
      | _ \<Rightarrow> Inl FLACNoHeaderError) = Inr blocks'"
  shows "\<exists>b bs. blocks' = b # bs \<and> block_code b \<in> {0, 1}"
  using assms by (cases blocks) (auto split: flac_block.splits)

text \<open>
  C37. Loading any bytes as FLAC either succeeds, with a first block that has a length, or raises
  one of the module's own three exceptions: no malformed field, count or text escapes as another.
\<close>

theorem flac_load_errors:
  "case flac_load lossy filedata of
     Inl e \<Rightarrow> e \<in> flac_errors
   | Inr blocks \<Rightarrow> \<exists>b bs. blocks = b # bs \<and> block_code b \<in> {0, 1}"
proof (cases "flac_load lossy filedata")
  case (Inl e)
  then consider "check_header True filedata = Inl e"
    | data where "read_blocks lossy [] data = Inl e" | "e = FLACNoHeaderError"
    by (auto simp: flac_load_def bindR_Inl_iff dest: first_block_error)
  then have "e \<in> flac_errors"
    by cases (auto simp: flac_errors_def dest: check_header_error read_blocks_error)
  with Inl show ?thesis by simp
next
  case (Inr blocks)
  then have "\<exists>b bs. blocks = b # bs \<and> block_code b \<in> {0, 1}"
    by (auto simp: flac_load_def bindR_Inr_iff dest!: first_block_ok)
  with Inr show ?thesis by simp
qed

section \<open>The limit of a block's size\<close>

text \<open>
  C38. A block of exactly $2^{24}$ bytes passes the test for its length, but its length does not fit
  three bytes: it is written with the length zero, and reading the file back gives a block without
  its data.
\<close>

theorem flac_block_limit:
  assumes "code < 128" "code \<notin> {0, 1, 3, 4, 5, 6}" "length s = 2 ^ 24"
  shows "\<exists>d. writeblocks [MetadataBlock code s] = Inr d
    \<and> read_metadata_block lossy [] d = Inr ([MetadataBlock code []], False, s)"
proof (intro exI conjI)
  note c = code_byte [OF assms(1)]
  have n: "nat (flac_int (struct_bytes True 3 (length s))) = 0" unfolding assms(3) by (simp add: flac_int_bytes)
  have r: "strict_read 3 (struct_bytes True 3 (length s) @ t) = Inr (struct_bytes True 3 (length s), t)" for t
    by (rule strict_read_here) simp
  have b: "block_load lossy code 0 s = Inr (MetadataBlock code [], s)"
    using assms(2) by (simp add: block_load_def strict_read_def)
  have ord: "ord (hd [chr (code OR 128)]) = code OR 128" using c(5) by simp
  show "writeblocks [MetadataBlock code s] = Inr (framed_block (code OR 128) s)"
    using c(5) assms(3) by (simp add: writeblocks_single coded_iff)
  show "read_metadata_block lossy [] (framed_block (code OR 128) s) = Inr ([MetadataBlock code []], False, s)"
    unfolding read_metadata_block_def framed_block_def strict_read_one r bindR_simps prod.case Let_def ord c(3) n b
    using c(4) by simp
qed

theorem flac_block_limit_witness:
  "\<exists>d. writeblocks [MetadataBlock 2 (replicate (2 ^ 24) (CHR ''x''))] = Inr d
    \<and> read_metadata_block (\<lambda>_ _. []) [] d = Inr ([MetadataBlock 2 []], False, replicate (2 ^ 24) (CHR ''x''))"
  by (rule flac_block_limit) (simp_all only: length_replicate, simp_all)

section \<open>An example\<close>

text \<open>A file with stream information, five bytes of padding, and audio.\<close>

definition example_info :: stream_info where
  "example_info = \<lparr>si_min_blocksize = 0, si_max_blocksize = 0, si_min_framesize = 0, si_max_framesize = 0,
     si_sample_rate = 1, si_channels = 1, si_bits_per_sample = 1, si_total_samples = 0, si_length = 0,
     si_md5_signature = 0\<rparr>"

lemma find_audio_block:
  assumes "code < 128" "code \<notin> {4, 6}" "length s < 2 ^ 24"
  shows "find_audio lossy (framed_block (code OR 128) s @ rest) = Inr rest"
    "find_audio lossy (framed_block code s @ rest) = find_audio lossy rest"
proof -
  note c = code_byte [OF assms(1)]
  have n: "flac_int (struct_bytes True 3 (length s)) = int (length s)" using assms(3) by (simp add: flac_int_bytes)
  have t: "take 3 (struct_bytes True 3 (length s) @ x) = struct_bytes True 3 (length s)"
    "drop 3 (struct_bytes True 3 (length s) @ x) = x" "drop (length s) (s @ rest) = rest" for x by simp_all
  have no: "(code = 4) = False" "(code = 6) = False" using assms(2) by auto
  have step: "find_audio lossy (framed_block y s @ rest)
      = (if y AND 128 \<noteq> 0 then Inr rest else find_audio lossy rest)" if "y < 256" "y AND 127 = code" for y
  proof -
    have "ord (chr y) = y" using that(1) by simp
    then show ?thesis
      unfolding framed_block_def append_Cons append_assoc
      by (simp only: find_audio.simps Let_def t n nat_int that(2) no if_False sum.case)
  qed
  show "find_audio lossy (framed_block (code OR 128) s @ rest) = Inr rest"
    using step [OF c(5) c(3)] c(4) by simp
  show "find_audio lossy (framed_block code s @ rest) = find_audio lossy rest"
    using step [OF _ c(1)] c(2) assms(1) by simp
qed

lemma example_written:
  obtains s where "stream_info_write example_info = Inr s" "length s = 34"
  by (simp add: stream_info_write_def example_info_def pack_last_def pack_u_def)

lemma writeblocks_padded:
  assumes "block_write b = Inr s" "block_code b < 128" "length s < 2 ^ 24" "0 \<le> n" "n < 2 ^ 24"
  shows "writeblocks [b, Padding n] = Inr (framed_block (block_code b) s
    @ framed_block (1 OR 128) (replicate (nat n) (CHR 0x00)))"
  using assms by (simp add: writeblocks_Cons writeblocks_single coded_iff)

lemma example_saved:
  obtains d where "writeblocks [StreamInfo example_info, Padding 5] = Inr d"
    "check_header False (flac_mark @ d @ ''audio'') = Inr 4"
    "find_audio lossy (drop 4 (flac_mark @ d @ ''audio'')) = Inr ''audio''"
    "flac_save lossy mmap_works False [StreamInfo example_info, Padding 5] (flac_mark @ d @ ''audio'')
      = ([StreamInfo example_info, Padding 5], flac_mark @ d @ ''audio'', None)"
proof -
  obtain s where s: "stream_info_write example_info = Inr s" "length s = 34" by (rule example_written)
  define D where "D n = framed_block 0 s @ framed_block (1 OR 128) (replicate (nat n) (CHR 0x00))" for n
  have w: "writeblocks [StreamInfo example_info, Padding n] = Inr (D n)" if "0 \<le> n" "n < 2 ^ 24" for n
    using writeblocks_padded [of "StreamInfo example_info" s n] s that by (simp add: D_def)
  have w1: "writeblocks [StreamInfo example_info, Padding 1029] = Inr (D 1029)"
    and w5: "writeblocks [StreamInfo example_info, Padding 5] = Inr (D 5)" by (rule w; simp)+
  have len: "length (D n) = 42 + nat n" for n by (simp add: D_def framed_block_def s(2))
  let ?file = "flac_mark @ D 5 @ ''audio''"
  have h: "check_header False ?file = Inr 4" by (simp add: check_header_def flac_mark_def)
  have a: "find_audio lossy (drop 4 ?file) = Inr ''audio''"
    using find_audio_block [of 0 s lossy] find_audio_block [of 1 "replicate 5 (CHR 0x00)" lossy] s(2)
    by (simp add: flac_mark_def D_def)
  have g: "group_padding ([StreamInfo example_info, Padding 5] @ [Padding 1020])
      = [StreamInfo example_info, Padding 1029]" by (simp add: group_padding_def List.map_filter_def)
  have av: "length ?file - length ''audio'' - 4 = 47" "(length (D 5) \<noteq> 47) = False"
    using len [of 5] by (simp_all add: flac_mark_def)
  have fit: "fit_padding (int 47) [StreamInfo example_info, Padding 1029] (D 1029)
      = ([StreamInfo example_info, Padding 5], Inr (D 5))"
    using len [of 1029] len [of 5] by (simp add: fit_padding_def w5)
  have "fbytes (f_write (flac_mark @ D 5) ((open_file ?file)\<lparr>fpos := 4 - 4\<rparr>)) = ?file"
    using write_over [of "flac_mark @ D 5" 0 "open_file ?file"] by (simp add: open_file_def flac_mark_def)
  then have "flac_save lossy mmap_works False [StreamInfo example_info, Padding 5] ?file
      = ([StreamInfo example_info, Padding 5], ?file, None)"
    unfolding flac_save_def Let_def g h a w1 bindR_simps sum.case prod.case av simp_thms if_False fit by simp
  from that [OF w5 h a this] show thesis .
qed

theorem flac_save_keeps_audio_witness:
  "\<exists>d n data'. writeblocks [StreamInfo example_info, Padding 5] = Inr d
    \<and> flac_save (\<lambda>_ _. []) True False [StreamInfo example_info, Padding 5] (flac_mark @ d @ ''audio'')
        = ([StreamInfo example_info, Padding n], data', None)
    \<and> (\<exists>d'. data' = flac_mark @ d' @ ''audio'')"
proof -
  obtain d where d: "writeblocks [StreamInfo example_info, Padding 5] = Inr d"
    "check_header False (flac_mark @ d @ ''audio'') = Inr 4"
    "find_audio (\<lambda>_ _. []) (drop 4 (flac_mark @ d @ ''audio'')) = Inr ''audio''"
    "flac_save (\<lambda>_ _. []) True False [StreamInfo example_info, Padding 5] (flac_mark @ d @ ''audio'')
      = ([StreamInfo example_info, Padding 5], flac_mark @ d @ ''audio'', None)"
    by (rule example_saved)
  from flac_save_keeps_audio [OF d(2,3,4)] d(1,4) show ?thesis
    by (auto simp: rest_kept_def header_kept_def)
qed

theorem flac_save_load_witness:
  "\<exists>d. writeblocks [StreamInfo example_info, Padding 5] = Inr d
    \<and> flac_load (\<lambda>_ _. []) (flac_mark @ d @ ''audio'') = Inr [StreamInfo example_info, Padding 5]"
proof -
  obtain d where d: "writeblocks [StreamInfo example_info, Padding 5] = Inr d"
    "check_header False (flac_mark @ d @ ''audio'') = Inr 4"
    "find_audio (\<lambda>_ _. []) (drop 4 (flac_mark @ d @ ''audio'')) = Inr ''audio''"
    "flac_save (\<lambda>_ _. []) True False [StreamInfo example_info, Padding 5] (flac_mark @ d @ ''audio'')
      = ([StreamInfo example_info, Padding 5], flac_mark @ d @ ''audio'', None)"
    by (rule example_saved)
  obtain s where s: "stream_info_write example_info = Inr s" "length s = 34" by (rule example_written)
  have "list_all block_ok [StreamInfo example_info, Padding 5]"
    by (simp add: block_ok_def stream_info_ok_def example_info_def)
  moreover have "list_all short_block [StreamInfo example_info, Padding 5]" using s by (simp add: short_block_def)
  moreover have "unrepeated [] [StreamInfo example_info, Padding 5]" by (simp add: repeated_def)
  ultimately show ?thesis using flac_save_load [OF d(2,3,4)] d(1) by simp
qed

end
