(* ===== verification/Crawler.thy ===== *)
theory Crawler
  imports Mut_FileType
begin

text \<open>
  \<open>crawling.py\<close>: the walk over a directory that writes one row per .mp3 file into the table \<open>music\<close>
  of a SQLite database.

  The world the program runs in is a record of parameters: what \<open>os.walk\<close> yields, what the files
  hold, the decompressor, what the formats of the tag library other than MP3, True Audio and plain
  ID3 make of a file, and what \<open>eyed3.load\<close> returns. The printed lines are output only.
\<close>

section \<open>The database\<close>

text \<open>
  A connection of Python 2's \<open>sqlite3\<close>: the statements that define tables commit and take effect at
  once, insertions belong to a transaction until \<open>commit\<close>, and a connection that is dropped rolls
  its transaction back. A missing table is \<open>None\<close>.
\<close>

record music_row =
  row_id :: nat
  row_song :: string
  row_path :: string
  row_lengthOfSong :: rat
  row_artist :: unicode
  row_album :: unicode
  row_art :: fval
  row_artType :: fval
  row_artCoverID :: fval

record database =
  db_table :: "music_row list option"
  db_pending :: "music_row list"

definition db_commit :: "database \<Rightarrow> database" where
  "db_commit db = \<lparr>db_table = map_option (\<lambda>rows. rows @ db_pending db) (db_table db), db_pending = []\<rparr>"

definition drop_music :: "database \<Rightarrow> database" where
  "drop_music db = (db_commit db)\<lparr>db_table := None\<rparr>"

definition create_music :: "database \<Rightarrow> database" where
  "create_music db =
     (let db = db_commit db
      in db\<lparr>db_table := Some (case db_table db of None \<Rightarrow> [] | Some rows \<Rightarrow> rows)\<rparr>)"

definition insert_music :: "music_row \<Rightarrow> database \<Rightarrow> database" where
  "insert_music row db = db\<lparr>db_pending := db_pending db @ [row]\<rparr>"

definition db_rollback :: "database \<Rightarrow> database" where
  "db_rollback db = db\<lparr>db_pending := []\<rparr>"

section \<open>The world\<close>

datatype crawl_exn = Raised merr | NameError | Eyed3Error string

text \<open>What a tag library holds under a key: an object with attributes, or a list.\<close>

datatype tag_value = TObject attrs | TList "fval list"

type_synonym tag_lookup = "unicode \<Rightarrow> tag_value option"

record world =
  w_walk :: "(string \<times> string list \<times> string list) list"
  w_contents :: "string \<Rightarrow> string option"
  w_inflate :: "string \<Rightarrow> string option"
  w_other :: "file_kind \<Rightarrow> string \<Rightarrow> merr + tag_lookup option"
  w_eyed3 :: "string \<Rightarrow> crawl_exn + (unicode option \<times> unicode option) option option"

text \<open>\<open>os.path.join\<close> of two parts.\<close>

definition path_join :: "string \<Rightarrow> string \<Rightarrow> string" where
  "path_join a b =
     (if startswith b ''/'' then b
      else if a = [] \<or> endswith a ''/'' then a @ b
      else a @ ''/'' @ b)"

section \<open>One file\<close>

text \<open>The \<open>tags\<close> of what \<open>mutagen.File\<close> returns; the outer \<open>None\<close> is a file without a class.\<close>

definition id3_lookup :: "'i id3_file \<Rightarrow> tag_lookup option" where
  "id3_lookup f = map_option (\<lambda>t key. map_option (TObject \<circ> fr_attrs) (tag_get t key)) (ft_tags f)"

definition open_tags :: "world \<Rightarrow> string \<Rightarrow> crawl_exn + tag_lookup option option" where
  "open_tags w path =
     (case w_contents w path of
        None \<Rightarrow> Inl (Raised IOError)
      | Some filedata \<Rightarrow>
          (case choose_kind all_kinds path filedata of
             None \<Rightarrow> Inr None
           | Some kind \<Rightarrow>
               map_sum Raised Some
                 (if kind = K_MP3 then map_sum id id3_lookup (mp3_load (w_inflate w) filedata)
                  else if kind = K_TrueAudio then
                    map_sum id id3_lookup (id3_file_load (w_inflate w) trueaudio_info_of filedata)
                  else if kind = K_ID3FileType then
                    map_sum id id3_lookup (id3_file_load (w_inflate w) unknown_info filedata)
                  else w_other w kind filedata)))"

text \<open>
  Art, type and cover id under the key APIC:. Indexing \<open>None\<close> is a TypeError, the attribute of \<open>None\<close>
  an AttributeError; for a list the branch calls \<open>length\<close>, which does not exist.
\<close>

definition album_art :: "tag_lookup option option \<Rightarrow> crawl_exn + fval \<times> fval \<times> fval" where
  "album_art data =
     (case data of
        None \<Rightarrow> Inl (Raised AttributeError)
      | Some None \<Rightarrow> Inl (Raised TypeError)
      | Some (Some tags) \<Rightarrow>
          (case tags (uni ''APIC:'') of
             None \<Rightarrow> Inr (FNone, FText (uni ''Unknown''), FText (uni ''Unknown''))
           | Some (TList xs) \<Rightarrow> Inl NameError
           | Some (TObject a) \<Rightarrow>
               map_sum Raised id
                 (bindR (getattr a ''data'') (\<lambda>artwork.
                  bindR (getattr a ''mime'') (\<lambda>artType.
                  bindR (getattr a ''type'') (\<lambda>artCoverID.
                    Inr (artwork, artType, artCoverID)))))))"

text \<open>Artist and album from \<open>eyed3\<close>, replaced when they are missing.\<close>

definition artist_album :: "world \<Rightarrow> string \<Rightarrow> crawl_exn + unicode option \<times> unicode option" where
  "artist_album w path =
     bindR (w_eyed3 w path) (\<lambda>audioFile.
       case audioFile of
         Some (Some p) \<Rightarrow> Inr p
       | _ \<Rightarrow> Inl (Raised AttributeError))"

definition or_unknown :: "unicode option \<Rightarrow> unicode" where
  "or_unknown v = (case v of None \<Rightarrow> uni ''Unknown'' | Some u \<Rightarrow> u)"

definition audio_length :: "world \<Rightarrow> string \<Rightarrow> crawl_exn + rat" where
  "audio_length w path =
     (case w_contents w path of
        None \<Rightarrow> Inl (Raised IOError)
      | Some filedata \<Rightarrow>
          map_sum Raised (\<lambda>f. mi_length (ft_info f)) (mp3_load (w_inflate w) filedata))"

definition crawl_file :: "world \<Rightarrow> nat \<Rightarrow> string \<Rightarrow> string \<Rightarrow> crawl_exn + music_row" where
  "crawl_file w songCount y path =
     bindR (open_tags w path) (\<lambda>data.
     bindR (album_art data) (\<lambda>(artwork, artType, artCoverID).
     bindR (artist_album w path) (\<lambda>(artist, album).
     bindR (audio_length w path) (\<lambda>audioLength.
       Inr \<lparr>row_id = songCount, row_song = y, row_path = path, row_lengthOfSong = audioLength,
            row_artist = or_unknown artist, row_album = or_unknown album, row_art = artwork,
            row_artType = artType, row_artCoverID = artCoverID\<rparr>))))"

section \<open>The walk\<close>

fun crawl_files ::
  "world \<Rightarrow> string \<Rightarrow> string list \<Rightarrow> nat \<Rightarrow> database \<Rightarrow> nat \<times> database \<times> crawl_exn option" where
  "crawl_files w folder [] songCount db = (songCount, db, None)"
| "crawl_files w folder (y # ys) songCount db =
     (let path = path_join folder y
      in if \<not> endswith path ''.mp3'' then crawl_files w folder ys songCount db
         else case crawl_file w songCount y path of
                Inl e \<Rightarrow> (songCount, db, Some e)
              | Inr row \<Rightarrow> crawl_files w folder ys (songCount + 1) (insert_music row db))"

fun crawl_roots ::
  "world \<Rightarrow> (string \<times> string list \<times> string list) list \<Rightarrow> nat \<Rightarrow> database
     \<Rightarrow> nat \<times> database \<times> crawl_exn option" where
  "crawl_roots w [] songCount db = (songCount, db, None)"
| "crawl_roots w ((folder, dirnames, filenames) # rest) songCount db =
     (case crawl_files w folder filenames songCount db of
        (songCount, db, None) \<Rightarrow> crawl_roots w rest songCount db
      | (songCount, db, Some e) \<Rightarrow> (songCount, db, Some e))"

text \<open>\<open>crawl\<close>: the database it leaves and the exception it ends with.\<close>

definition crawl :: "world \<Rightarrow> database \<Rightarrow> database \<times> crawl_exn option" where
  "crawl w db =
     (case crawl_roots w (w_walk w) 0 (create_music (drop_music db)) of
        (songCount, db, None) \<Rightarrow> (db_commit db, None)
      | (songCount, db, Some e) \<Rightarrow> (db_rollback db, Some e))"

end
