(* ===== verification/Crawler_Props.thy ===== *)
theory Crawler_Props
  imports Crawler Mut_FileType_Props
begin

text \<open>
  Properties of the crawler: what a crawl leaves in the database, what one row says about its file,
  and which pictures it finds.
\<close>

section \<open>The songs of a walk\<close>

text \<open>The .mp3 files in the order of the walk, each with its name and its path.\<close>

definition folder_songs :: "string \<Rightarrow> string list \<Rightarrow> (string \<times> string) list" where
  "folder_songs folder names =
     filter (\<lambda>(y, path). endswith path ''.mp3'') (map (\<lambda>y. (y, path_join folder y)) names)"

definition walk_songs :: "(string \<times> string list \<times> string list) list \<Rightarrow> (string \<times> string) list" where
  "walk_songs walk = concat (map (\<lambda>(folder, dirs, names). folder_songs folder names) walk)"

text \<open>The rows of a list of songs, numbered from \<open>n\<close>, or the first exception.\<close>

fun song_rows :: "world \<Rightarrow> nat \<Rightarrow> (string \<times> string) list \<Rightarrow> music_row list \<times> crawl_exn option" where
  "song_rows w n [] = ([], None)"
| "song_rows w n ((y, path) # songs) =
     (case crawl_file w n y path of
        Inl e \<Rightarrow> ([], Some e)
      | Inr row \<Rightarrow> (let (rows, e) = song_rows w (Suc n) songs in (row # rows, e)))"

lemma song_rows_append:
  "song_rows w n (xs @ ys) =
     (case song_rows w n xs of
        (rows, Some e) \<Rightarrow> (rows, Some e)
      | (rows, None) \<Rightarrow> (let (more, e) = song_rows w (n + length xs) ys in (rows @ more, e)))"
  by (induction xs arbitrary: n) (auto split: sum.split prod.split option.split)

lemma song_rows_length: "song_rows w n songs = (rows, None) \<Longrightarrow> length rows = length songs"
  by (induction songs arbitrary: n rows) (auto split: sum.splits prod.splits)

lemma song_rows_nth:
  "song_rows w n songs = (rows, None) \<Longrightarrow> i < length songs \<Longrightarrow>
     crawl_file w (n + i) (fst (songs ! i)) (snd (songs ! i)) = Inr (rows ! i)"
proof (induction songs arbitrary: n rows i)
  case (Cons s songs)
  obtain row more where "crawl_file w n (fst s) (snd s) = Inr row" "rows = row # more"
    "song_rows w (Suc n) songs = (more, None)"
    using Cons.prems(1) by (cases s) (auto split: sum.splits prod.splits)
  then show ?case using Cons.IH [of "Suc n" more "i - 1"] Cons.prems(2) by (cases i) auto
qed simp

lemma song_rows_error:
  "song_rows w n songs = (rows, Some e) \<Longrightarrow>
     \<exists>i < length songs. crawl_file w (n + i) (fst (songs ! i)) (snd (songs ! i)) = Inl e"
proof (induction songs arbitrary: n rows)
  case (Cons s songs)
  show ?case
  proof (cases "crawl_file w n (fst s) (snd s)")
    case (Inl e')
    then have "e' = e" using Cons.prems by (cases s) simp
    then show ?thesis using Inl by (intro exI [of _ 0]) simp
  next
    case (Inr row)
    then obtain more where "song_rows w (Suc n) songs = (more, Some e)"
      using Cons.prems by (cases s) (auto split: prod.splits)
    from Cons.IH [OF this] obtain i where "i < length songs"
      "crawl_file w (Suc n + i) (fst (songs ! i)) (snd (songs ! i)) = Inl e" by blast
    then show ?thesis by (intro exI [of _ "Suc i"]) simp
  qed
qed simp

lemma song_rows_fails:
  "i < length songs \<Longrightarrow> (\<And>n. \<exists>e. crawl_file w n (fst (songs ! i)) (snd (songs ! i)) = Inl e) \<Longrightarrow>
     \<exists>e. snd (song_rows w n songs) = Some e"
proof (induction songs arbitrary: n i)
  case (Cons s songs)
  show ?case
  proof (cases i)
    case 0
    then obtain e where "crawl_file w n (fst s) (snd s) = Inl e" using Cons.prems(2) [of n] by auto
    then show ?thesis by (cases s) simp
  next
    case (Suc j)
    have "\<exists>e. snd (song_rows w (Suc n) songs) = Some e"
      using Cons.prems Suc by (intro Cons.IH [of j]) auto
    then show ?thesis by (cases s) (auto split: sum.split prod.splits)
  qed
qed simp

section \<open>The loops\<close>

lemma crawl_files_rows:
  "crawl_files w folder names n db =
     (let (rows, e) = song_rows w n (folder_songs folder names)
      in (n + length rows, db\<lparr>db_pending := db_pending db @ rows\<rparr>, e))"
  by (induction names arbitrary: n db)
    (auto simp: folder_songs_def Let_def insert_music_def split: sum.split prod.split)

lemma crawl_roots_rows:
  "crawl_roots w walk n db =
     (let (rows, e) = song_rows w n (walk_songs walk)
      in (n + length rows, db\<lparr>db_pending := db_pending db @ rows\<rparr>, e))"
proof (induction walk arbitrary: n db)
  case (Cons r walk)
  obtain folder dirs names where r: "r = (folder, dirs, names)" by (cases r)
  obtain rows e where s: "song_rows w n (folder_songs folder names) = (rows, e)" by (meson surj_pair)
  have "walk_songs (r # walk) = folder_songs folder names @ walk_songs walk"
    by (simp add: walk_songs_def r)
  then show ?case using s song_rows_length [of w n "folder_songs folder names" rows]
    by (auto simp: r crawl_files_rows Cons.IH song_rows_append split: option.split prod.split)
qed (simp add: walk_songs_def)

lemma crawl_rows:
  "crawl w db = (case song_rows w 0 (walk_songs (w_walk w)) of
      (rows, None) \<Rightarrow> (\<lparr>db_table = Some rows, db_pending = []\<rparr>, None)
    | (rows, Some e) \<Rightarrow> (\<lparr>db_table = Some [], db_pending = []\<rparr>, Some e))"
  by (auto simp: crawl_def crawl_roots_rows create_music_def drop_music_def db_commit_def
      db_rollback_def Let_def split: prod.split option.split)

text \<open>
  C4. A crawl replaces the library or loses it. When no file raises, the table holds afterwards
  exactly one row for every .mp3 file of the walk, in the order of the walk and numbered from zero;
  when a file raises, the crawl ends with that exception and the table is empty: the old one was
  dropped and committed before the first file was read, and the new rows are rolled back. What
  the database held before plays no part in either case.
\<close>

theorem crawl_replaces_or_empties:
  "let songs = walk_songs (w_walk w); (db', r) = crawl w db
   in db_pending db' = []
    \<and> (case r of
         None \<Rightarrow> \<exists>rows. db_table db' = Some rows \<and> length rows = length songs
           \<and> (\<forall>i < length songs. crawl_file w i (fst (songs ! i)) (snd (songs ! i)) = Inr (rows ! i))
       | Some e \<Rightarrow> db_table db' = Some []
           \<and> (\<exists>i < length songs. crawl_file w i (fst (songs ! i)) (snd (songs ! i)) = Inl e))"
proof -
  obtain rows e where s: "song_rows w 0 (walk_songs (w_walk w)) = (rows, e)" by (meson surj_pair)
  show ?thesis
  proof (cases e)
    case None
    then show ?thesis using s song_rows_length [of w 0 "walk_songs (w_walk w)" rows]
        song_rows_nth [of w 0 "walk_songs (w_walk w)" rows] by (simp add: crawl_rows)
  next
    case (Some x)
    then show ?thesis using s song_rows_error [of w 0 "walk_songs (w_walk w)" rows x]
      by (simp add: crawl_rows)
  qed
qed

section \<open>One row\<close>

lemma crawl_file_row:
  assumes "crawl_file w n y path = Inr row"
  obtains data art kind cover artist album len where
    "open_tags w path = Inr data" "album_art data = Inr (art, kind, cover)"
    "artist_album w path = Inr (artist, album)" "audio_length w path = Inr len"
    "row = \<lparr>row_id = n, row_song = y, row_path = path, row_lengthOfSong = len,
       row_artist = or_unknown artist, row_album = or_unknown album, row_art = art,
       row_artType = kind, row_artCoverID = cover\<rparr>"
  using assms by (auto simp: crawl_file_def bindR_Inr_iff)

lemma map_sum_Inr: "map_sum Raised id r = Inr x \<longleftrightarrow> r = Inr x"
  by (cases r) auto

lemma open_tags_mp3:
  "w_contents w path = Some d \<Longrightarrow> choose_kind all_kinds path d = Some K_MP3 \<Longrightarrow>
     mp3_load (w_inflate w) d = Inr f \<Longrightarrow> open_tags w path = Inr (Some (id3_lookup f))"
  by (simp add: open_tags_def)

lemma untagged_song:
  assumes "w_contents w path = Some d" "choose_kind all_kinds path d = Some K_MP3"
    "mp3_load (w_inflate w) d = Inr f" "ft_tags f = None"
  shows "crawl_file w n y path = Inl (Raised TypeError)"
  using open_tags_mp3 [OF assms(1-3)] assms(4)
  by (simp add: crawl_file_def id3_lookup_def album_art_def)

text \<open>
  C13. One MP3 file without a tag costs the whole library: looking for the picture in tags that are
  None raises TypeError, which nothing catches, and the crawl leaves an empty table, however many
  other songs there are and whatever the table held before.
\<close>

theorem untagged_song_empties_library:
  assumes "(y, path) \<in> set (walk_songs (w_walk w))" and "w_contents w path = Some d"
    and "choose_kind all_kinds path d = Some K_MP3" and "mp3_load (w_inflate w) d = Inr f"
    and "ft_tags f = None"
  shows "crawl_file w n y path = Inl (Raised TypeError)
       \<and> (\<exists>e. crawl w db = (\<lparr>db_table = Some [], db_pending = []\<rparr>, Some e))"
proof
  note fails = untagged_song [OF assms(2-5)]
  show "crawl_file w n y path = Inl (Raised TypeError)" by (rule fails)
  obtain i where "i < length (walk_songs (w_walk w))" "walk_songs (w_walk w) ! i = (y, path)"
    using assms(1) by (auto simp: in_set_conv_nth)
  then obtain e where "snd (song_rows w 0 (walk_songs (w_walk w))) = Some e"
    using song_rows_fails [of i "walk_songs (w_walk w)" w 0] fails by auto
  then show "\<exists>e. crawl w db = (\<lparr>db_table = Some [], db_pending = []\<rparr>, Some e)"
    by (auto simp: crawl_rows split: prod.split)
qed

section \<open>Pictures\<close>

lemma str_join_prefix: "\<exists>s. str_join sep (x # xs) = x @ s"
  by (cases xs) auto

lemma key_join_prefix: "key_join f ps = Inr key \<Longrightarrow> \<exists>s. key = uni (fd_name (fr_def f)) @ s"
  by (auto simp: key_join_def bindR_Inr_iff uni_def str_join_prefix)

lemma hash_key_prefix: "hash_key_of f = Inr key \<Longrightarrow> \<exists>s. key = uni (fd_name (fr_def f)) @ s"
  by (auto simp: hash_key_of_def split: hash_key.splits sum.splits dest: key_join_prefix)

lemma APIC_class:
  "case find_frame frames_v24 ''APIC'' of Some d \<Rightarrow> fd_key d = KeyDesc | None \<Rightarrow> False"
  by (simp add: find_frame_def frames_v24_def text_frames_1_def text_frames_2_def url_frames_def
      people_frames_def lyric_frames_def picture_frames_def plain_def own_def)

lemma art_frame:
  assumes "tag_ok t" "table_frames t" "tag_get t (uni ''APIC:'') = Some p"
  shows "fd_name (fr_def p) = ''APIC'' \<and> attr_unicode p ''desc'' = Inr []"
proof -
  have h: "hash_key_of p = Inr (uni ''APIC:'')" using assms(1,3) by (rule tag_ok_get)
  have "(uni ''APIC:'', p) \<in> set (tg_frames t)" using assms(3) by (simp add: tag_get_def map_of_SomeD)
  then have c: "find_frame frames_v24 (fd_name (fr_def p)) = Some (fr_def p)"
    using assms(2) by (auto simp: table_frames_def)
  then have len: "length (fd_name (fr_def p)) = 4"
    using frames_v24_names by (auto simp: list_all_iff dest!: find_frame_Some)
  obtain s where s: "uni ''APIC:'' = uni (fd_name (fr_def p)) @ s" using hash_key_prefix [OF h] by blast
  have "uni (fd_name (fr_def p)) = take 4 (uni ''APIC:'')" using len by (subst s) (simp add: uni_def)
  also have "\<dots> = uni ''APIC''" by (simp add: uni_def)
  finally have n: "fd_name (fr_def p) = ''APIC''" by (simp only: inj_uni)
  then have "fd_key (fr_def p) = KeyDesc" using APIC_class c by simp
  then obtain u where u: "attr_unicode p ''desc'' = Inr u" "uni ''APIC:'' = uni ''APIC'' @ colon @ u"
    using h n by (auto simp: hash_key_of_def key_join_def bindR_Inr_iff uni_def)
  then have "u = []" by (simp add: uni_def colon_def)
  then show ?thesis using n u by simp
qed

text \<open>
  C12. A row for a tagged MP3 file holds its number, name and path, a length that is not negative, and
  the picture, MIME type and picture type of the frame under APIC: in the tag. That is a picture
  with an empty description only: when every picture of the tag has a description, the row says
  there is none.
\<close>

theorem song_row:
  assumes "crawl_file w n y path = Inr row" and "w_contents w path = Some d"
    and "startswith d ''ID3''" and "endswith path ''.mp3''"
  shows "\<exists>f t. mp3_load (w_inflate w) d = Inr f \<and> ft_tags f = Some t
     \<and> row_id row = n \<and> row_song row = y \<and> row_path row = path
     \<and> row_lengthOfSong row = mi_length (ft_info f) \<and> 0 \<le> row_lengthOfSong row
     \<and> (case tag_get t (uni ''APIC:'') of
          None \<Rightarrow> row_art row = FNone \<and> row_artType row = FText (uni ''Unknown'')
        | Some p \<Rightarrow> getattr (fr_attrs p) ''data'' = Inr (row_art row)
            \<and> getattr (fr_attrs p) ''mime'' = Inr (row_artType row)
            \<and> getattr (fr_attrs p) ''type'' = Inr (row_artCoverID row))
     \<and> (table_frames t \<and> (\<forall>(k, p) \<in> set (tg_frames t). fd_name (fr_def p) = ''APIC'' \<longrightarrow>
            attr_unicode p ''desc'' \<noteq> Inr []) \<longrightarrow> row_art row = FNone)"
proof -
  obtain data art kind cover artist album len where r:
    "open_tags w path = Inr data" "album_art data = Inr (art, kind, cover)"
    "audio_length w path = Inr len"
    "row = \<lparr>row_id = n, row_song = y, row_path = path, row_lengthOfSong = len,
       row_artist = or_unknown artist, row_album = or_unknown album, row_art = art,
       row_artType = kind, row_artCoverID = cover\<rparr>"
    using assms(1) by (rule crawl_file_row)
  have k: "choose_kind all_kinds path d = Some K_MP3"
    using tagged_mp3 assms(3) lower_mp3 [OF assms(4)] by blast
  obtain f where f: "mp3_load (w_inflate w) d = Inr f" "len = mi_length (ft_info f)"
    using r(3) assms(2) by (cases "mp3_load (w_inflate w) d") (auto simp: audio_length_def)
  have data: "data = Some (id3_lookup f)" using r(1) open_tags_mp3 [OF assms(2) k f(1)] by simp
  then obtain t where t: "ft_tags f = Some t"
    using r(2) by (cases "ft_tags f") (simp_all add: id3_lookup_def album_art_def)
  note sound = mp3_load_tag [OF f(1) t]
  have len: "0 \<le> len" using info_not_negative sound f(2) by blast
  have pic: "case tag_get t (uni ''APIC:'') of
          None \<Rightarrow> art = FNone \<and> kind = FText (uni ''Unknown'')
        | Some p \<Rightarrow> getattr (fr_attrs p) ''data'' = Inr art \<and> getattr (fr_attrs p) ''mime'' = Inr kind
            \<and> getattr (fr_attrs p) ''type'' = Inr cover"
    using r(2) t
    by (cases "tag_get t (uni ''APIC:'')")
      (auto simp: data id3_lookup_def album_art_def bindR_Inr_iff map_sum_Inr)
  moreover have "art = FNone" if "table_frames t"
    "\<forall>(k, p) \<in> set (tg_frames t). fd_name (fr_def p) = ''APIC'' \<longrightarrow> attr_unicode p ''desc'' \<noteq> Inr []"
  proof (cases "tag_get t (uni ''APIC:'')")
    case None
    then show ?thesis using pic by simp
  next
    case (Some p)
    then have "(uni ''APIC:'', p) \<in> set (tg_frames t)" by (simp add: tag_get_def map_of_SomeD)
    then show ?thesis using art_frame [OF _ that(1) Some] sound that(2) by fastforce
  qed
  ultimately show ?thesis using f t len r(4) by (intro exI [of _ f] exI [of _ t]) (simp split: option.splits)
qed

section \<open>A small library\<close>

text \<open>
  A folder with one tagged MP3 file, one without a tag, and a text file. The old table holds a row.
\<close>

definition demo_world :: "string list \<Rightarrow> world" where
  "demo_world names =
     \<lparr>w_walk = [(''m'', [], names)],
      w_contents = (\<lambda>path. if path = ''m/a.mp3'' then Some (empty_tag @ tiny_stream)
                     else if path = ''m/b.mp3'' then Some tiny_stream else None),
      w_inflate = (\<lambda>s. None), w_other = (\<lambda>k d. Inl NotImplementedError),
      w_eyed3 = (\<lambda>path. Inr (Some (Some (Some (uni ''Artist''), None))))\<rparr>"

lemma demo_songs:
  "walk_songs (w_walk (demo_world [''a.mp3'', ''c.txt''])) = [(''a.mp3'', ''m/a.mp3'')]"
  "walk_songs (w_walk (demo_world [''a.mp3'', ''b.mp3'']))
     = [(''a.mp3'', ''m/a.mp3''), (''b.mp3'', ''m/b.mp3'')]"
  by (simp_all add: demo_world_def walk_songs_def folder_songs_def path_join_def startswith_def endswith_def)

lemma demo_tagged:
  "\<exists>row. crawl_file (demo_world names) n y ''m/a.mp3'' = Inr row \<and> row_id row = n \<and> row_art row = FNone
     \<and> row_artist row = uni ''Artist'' \<and> row_album row = uni ''Unknown''"
proof -
  let ?w = "demo_world names"
  have c: "w_contents ?w ''m/a.mp3'' = Some (empty_tag @ tiny_stream)" "w_inflate ?w = (\<lambda>s. None)"
    by (simp_all add: demo_world_def)
  have "endswith ''m/a.mp3'' ''.mp3''" by code_simp
  moreover have "startswith (empty_tag @ tiny_stream) ''ID3''" by (simp add: empty_tag_def startswith_def)
  ultimately have k: "choose_kind all_kinds ''m/a.mp3'' (empty_tag @ tiny_stream) = Some K_MP3"
    using tagged_mp3 lower_mp3 by blast
  obtain f t where f: "mp3_load (\<lambda>s. None) (empty_tag @ tiny_stream) = Inr f" "ft_tags f = Some t"
    "tg_frames t = []" using tagged_file [of "\<lambda>s. None"] by blast
  have "open_tags ?w ''m/a.mp3'' = Inr (Some (id3_lookup f))"
    using open_tags_mp3 [OF c(1) k] f(1) c(2) by simp
  moreover have "album_art (Some (id3_lookup f)) = Inr (FNone, FText (uni ''Unknown''), FText (uni ''Unknown''))"
    using f(2,3) by (simp add: album_art_def id3_lookup_def tag_get_def)
  moreover have "audio_length ?w ''m/a.mp3'' = Inr (mi_length (ft_info f))"
    using c f(1) by (simp add: audio_length_def)
  moreover have "artist_album ?w ''m/a.mp3'' = Inr (Some (uni ''Artist''), None)"
    by (simp add: artist_album_def demo_world_def)
  ultimately show ?thesis by (simp add: crawl_file_def or_unknown_def)
qed

theorem crawl_replaces_or_empties_witness:
  "\<exists>row. crawl (demo_world [''a.mp3'', ''c.txt'']) \<lparr>db_table = None, db_pending = []\<rparr>
           = (\<lparr>db_table = Some [row], db_pending = []\<rparr>, None)
       \<and> row_id row = 0 \<and> row_artist row = uni ''Artist''"
proof -
  let ?w = "demo_world [''a.mp3'', ''c.txt'']" and ?db = "\<lparr>db_table = None, db_pending = []\<rparr>"
  obtain db' r where c: "crawl ?w ?db = (db', r)" by (meson surj_pair)
  obtain row where row: "crawl_file ?w 0 ''a.mp3'' ''m/a.mp3'' = Inr row" "row_id row = 0"
    "row_artist row = uni ''Artist''" using demo_tagged by blast
  have P: "db_pending db' = []"
    "case r of None \<Rightarrow> \<exists>rows. db_table db' = Some rows \<and> length rows = 1
        \<and> (\<forall>i < 1. crawl_file ?w i (fst ([(''a.mp3'', ''m/a.mp3'')] ! i)) (snd ([(''a.mp3'', ''m/a.mp3'')] ! i)) = Inr (rows ! i))
     | Some e \<Rightarrow> \<exists>i < 1. crawl_file ?w i (fst ([(''a.mp3'', ''m/a.mp3'')] ! i)) (snd ([(''a.mp3'', ''m/a.mp3'')] ! i)) = Inl e"
    using crawl_replaces_or_empties [of ?w ?db] c by (auto simp: demo_songs split: option.splits)
  have "r = None" using P(2) row(1) by (cases r) auto
  then obtain rows where "db_table db' = Some rows" "length rows = 1" "rows ! 0 = row"
    using P(2) row(1) by auto
  then have "db' = \<lparr>db_table = Some [row], db_pending = []\<rparr>"
    using P(1) by (cases rows) auto
  then show ?thesis using c \<open>r = None\<close> row by blast
qed

lemma demo_kind: "choose_kind all_kinds ''m/b.mp3'' tiny_stream = Some K_MP3"
  by code_simp

lemma demo_untagged: "\<exists>f. mp3_load (\<lambda>s. None) tiny_stream = Inr f \<and> ft_tags f = None"
proof -
  have len: "length tiny_stream = 4" by (simp add: tiny_stream_def)
  have "load_header new_id3 (length tiny_stream) (open_file tiny_stream) = (new_id3, Inl EOFError)"
    by (simp add: load_header_def fullread_def len)
  then have "load_body (\<lambda>s. None) None new_id3 tiny_stream = (new_id3\<lparr>tg_size := 0\<rparr>, Some ID3NoHeaderError)"
    by (simp add: load_body_def)
  moreover have "update_to_v24 (\<lambda>s. None) (new_id3\<lparr>tg_size := 0\<rparr>) = Inr (new_id3\<lparr>tg_size := 0\<rparr>)"
    by (rule update_empty) (simp_all add: new_id3_def)
  ultimately have t: "tag_load (\<lambda>s. None) None True 4 new_id3 tiny_stream
      = (new_id3\<lparr>tg_size := 0\<rparr>, Some ID3NoHeaderError)" by (simp add: tag_load_def)
  obtain i where "try_header tiny_stream 0 4 False = Inr i" using tiny_unchecked by blast
  moreover have "skip_id3 tiny_stream = 0" by (simp add: skip_id3_def len)
  ultimately have "mpeg_info tiny_stream None = Inr (i\<lparr>mi_sketchy := True\<rparr>)"
    by (simp add: mpeg_info_def tiny_checked len)
  then show ?thesis using t by (simp add: mp3_load_def id3_file_load_def)
qed

theorem untagged_song_empties_library_witness:
  "\<exists>e. crawl (demo_world [''a.mp3'', ''b.mp3'']) \<lparr>db_table = None, db_pending = []\<rparr>
       = (\<lparr>db_table = Some [], db_pending = []\<rparr>, Some e)"
proof -
  obtain f where f: "mp3_load (\<lambda>s. None) tiny_stream = Inr f" "ft_tags f = None"
    using demo_untagged by blast
  have "(''b.mp3'', ''m/b.mp3'') \<in> set (walk_songs (w_walk (demo_world [''a.mp3'', ''b.mp3''])))"
    by (simp add: demo_songs)
  from untagged_song_empties_library [OF this _ demo_kind _ f(2)] f(1)
  show ?thesis by (simp add: demo_world_def)
qed

theorem song_row_witness:
  "\<exists>row. crawl_file (demo_world []) 7 ''a.mp3'' ''m/a.mp3'' = Inr row \<and> 0 \<le> row_lengthOfSong row"
proof -
  obtain row where "crawl_file (demo_world []) 7 ''a.mp3'' ''m/a.mp3'' = Inr row"
    using demo_tagged by blast
  moreover have "w_contents (demo_world []) ''m/a.mp3'' = Some (empty_tag @ tiny_stream)"
    by (simp add: demo_world_def)
  moreover have "endswith ''m/a.mp3'' ''.mp3''" by code_simp
  moreover have "startswith (empty_tag @ tiny_stream) ''ID3''" by (simp add: empty_tag_def startswith_def)
  ultimately show ?thesis using song_row by blast
qed

end
