(* ===== verification/Spec2Isabelle.thy ===== *)
theory Spec2Isabelle
  imports Raspi_Props Raspi_Liveness Mut_Data_Props Mut_Frame_Props Mut_Tag_Props Mut_Save_Props
    Mut_Roundtrip Mut_Behaviour Mut_FileType_Props Mut_Easy_Props Ogg_Props Vorbis_Props
    Ogg_Format_Props Ape_Props Flac_Props Crawler_Props
begin

text \<open>
  Verification of the Python programs of MusicCloud: the speaker that runs on a Raspberry Pi
  (RaspberryPi/RaspberryPi-Src/raspi.py), the crawler that fills the song database
  (Crawler/Crawler-Src/crawling.py), and the tag library the crawler reads its files with, mutagen
  1.22 under Crawler/Install Files: ID3 tags and MP3 (\<open>_id3util\<close>, \<open>_util\<close>, \<open>_id3specs\<close>,
  \<open>_id3frames\<close>, \<open>_constants\<close>, \<open>id3\<close>, \<open>mp3\<close>, \<open>easyid3\<close>), \<open>File\<close> and \<open>FileType\<close> of \<open>__init__\<close>, Ogg
  and Vorbis comments (\<open>ogg\<close>, \<open>_vorbis\<close>, \<open>oggvorbis\<close>, \<open>oggspeex\<close>, \<open>oggtheora\<close>, \<open>oggopus\<close>), APEv2 tags
  (\<open>apev2\<close>, \<open>monkeysaudio\<close>, \<open>optimfrog\<close>, \<open>wavpack\<close>), and \<open>flac\<close>.

  The programs meet in the song files. The crawler walks a directory, opens every .mp3 file with
  \<open>mutagen.File\<close> and \<open>mutagen.mp3.MP3\<close>, and writes a row per file into a SQLite table; the server,
  which is not part of this development, reads that table; the speaker asks the server for commands
  and song data, keeps songs as files, plays them and reports what it does.

  Shared theories. \<open>MC_Prelude\<close>: fallible computations as sums (\<open>bindR\<close>, \<open>mapR\<close>), decimal
  numerals, the locale of transition systems with an invariant, the collection \<open>wf_intro\<close>.
  \<open>Py_Strings\<close>: the string methods of Python the programs use, and \<open>fnmatch\<close>. Both model the standard
  library, so they have no entry in the map.

  Speaker. \<open>Raspi_State\<close>: the module's globals as the record \<open>pi_state\<close>; message dictionaries live
  in a heap, because the playback thread queues one dictionary object several times. \<open>Raspi_Net\<close>:
  URLs and requests; the network is a function from requests to answers. \<open>Raspi_Playback\<close>: the
  handlers for play, stop and upcoming songs and the body of the playback loop; \<open>Raspi_Comm\<close>: the
  communication and the update thread, cut where they block; \<open>Raspi_System\<close>: the interleaving of
  the three threads as the step relation \<open>sys_step\<close>, with executable schedules. \<open>Raspi_Safety\<close>:
  invariants under assumptions about the server; \<open>Raspi_Speaker\<close>: the abstract speaker, an outbox and
  three song slots, that the handlers refine; \<open>Raspi_Props\<close>: the properties; \<open>Raspi_Liveness\<close>: what
  happens after \<open>keep_running\<close> became false.

  Tag library. \<open>Mut_Bits\<close>: exceptions, unsynchronisation and padded integers; \<open>Mut_Util\<close>: the
  dictionary mixin, whose contract is the locale \<open>item_methods\<close>, and the struct conversions;
  \<open>Mut_File\<close>: file objects and the insertion and deletion of bytes; \<open>Mut_Codec\<close>: Latin-1, UTF-16 and
  UTF-8; \<open>Mut_Specs\<close> and \<open>Mut_Spec_Ops\<close>: the field specifications with their read, write and validate
  methods; \<open>Mut_Frame_Table\<close>: all frame classes of ID3v2.2, 2.3 and 2.4; \<open>Mut_Frames\<close>: construction,
  reading and writing of frames, and their keys; \<open>Mut_Genres\<close>: the genre list and its parser;
  \<open>Mut_Tag\<close>, \<open>Mut_Load\<close>, \<open>Mut_Save\<close>: the class ID3 - adding and updating frames, loading, saving and
  deleting, and ID3v1; \<open>Mut_MP3\<close>: the MPEG stream; \<open>Mut_FileType\<close>: the file classes and the choice
  \<open>File\<close> makes among sixteen formats; \<open>Mut_EasyID3\<close>: the dictionary with readable names over a tag.

  Ogg. \<open>Ogg_Page\<close>: a page, its bytes and its checksum; \<open>Ogg_Stream\<close>: packets to pages and back,
  renumbering, replacing pages in a file, finding the last page; \<open>Vorbis\<close>: comments and their
  dictionary; \<open>Ogg_Files\<close>: \<open>OggFileType\<close> and the stream information and comments of Vorbis, Speex,
  Theora and Opus. APEv2. \<open>Ape\<close>: finding, loading, saving and deleting a tag, the dictionary that
  ignores case, and the information of the three formats over it. \<open>Flac\<close>: the metadata blocks of FLAC
  and the file class, with the padding it keeps behind the blocks.

  Lemmas of the tag library. \<open>Mut_Spec_Laws\<close> and \<open>Mut_Frame_Laws\<close>: what is written is read back,
  one field and one frame at a time (a field that finds its own end, in the locale
  \<open>delimited_spec\<close>). \<open>Mut_Tag_Laws\<close>: the tag invariant; the locale \<open>tag_predicate\<close> carries any stronger
  predicate through all updates and is interpreted for the invariant and for the tag's size.
  \<open>Mut_Data_Props\<close>, \<open>Mut_Frame_Props\<close>, \<open>Mut_Tag_Props\<close>, \<open>Mut_Save_Props\<close>, \<open>Mut_Roundtrip\<close>,
  \<open>Mut_Behaviour\<close>, \<open>Mut_FileType_Props\<close> and \<open>Mut_Easy_Props\<close> hold the properties: round trips from bytes up to whole
  files, type soundness of reading, the invariant of tags, what updates and saving change and
  leave alone, termination and bounds of the parsers, the errors that escape, the dictionary a
  file is.

  Lemmas of Ogg, APEv2 and FLAC. \<open>Ogg_Crc\<close>: the checksum of zlib on swapped bits is the one of RFC 3533;
  \<open>Ogg_Page_Laws\<close> and \<open>Ogg_Read\<close>: a written page is read back, alone and in a row of pages;
  \<open>Ogg_Packets\<close>: packets through pages; \<open>Ogg_Replace\<close>: what replacing changes in a file; \<open>Ogg_Comment\<close>
  and \<open>Ogg_Inject\<close>: the pages of a comment, found, read and replaced; \<open>Ogg_Formats\<close>: the locale
  \<open>comment_format\<close>, what a format has to promise for its comments to survive saving, interpreted in
  \<open>Ogg_Format_Props\<close> for the four formats. Properties: \<open>Ogg_Props\<close>, \<open>Vorbis_Props\<close>,
  \<open>Ogg_Format_Props\<close> and \<open>Ape_Props\<close>. \<open>Flac_Laws\<close>: every type of FLAC block is read back as written,
  in the locale \<open>block_format\<close> with an interpretation per type; \<open>Flac_Props\<close>: saving and loading files.

  Crawler. \<open>Crawler\<close>: the walk, one file's row, and the transaction of the database, over a record
  of what the program finds (\<open>world\<close>); \<open>Crawler_Props\<close>: what a crawl leaves in the database.

  Conventions. A raise is the left side of a sum, an early return a branch; bytes are characters,
  a unicode string is a list of code points, byte strings compare with unicode ones as ASCII.
  Loops are recursive functions with a measure. Two loops of the tag library may not end: the
  integer loop of \<open>BitPaddedInt\<close> is the partial function \<open>bpi_int_run\<close>, whose domain is
  characterised (where a caller reaches it with a negative number, the result is the exception
  value \<open>NonTermination\<close>), and the loop that fills pages with a packet is the partial function
  \<open>pack_loop\<close>, whose value \<open>None\<close> is not returning; it returns for every size its callers use. No definition uses fuel; \<open>comm_run\<close> and schedules count steps of the threads
  and bound nothing.

  Limits of the model. Doubles are exact rationals, except that the offsets of the search for a
  frame are rounded as doubles are. \<open>unicode.isdigit\<close> and \<open>upper\<close> are their ASCII versions. The
  threads of the speaker interleave where they block, not between two bytecodes. Parameters are what
  cannot be read here: what the lossy error handlers make of malformed UTF-8 (\<open>lossy\<close>), the network's
  answers, the decoder and clock of PyGame, zlib's \<open>decompress\<close>,
  whether a memory map works, \<open>os.walk\<close>, and \<open>eyed3.load\<close>; for a file that \<open>File\<close> opens as another
  format than MP3, True Audio or plain ID3, also that format's tags.

  Not modelled. Log and print output; the wxPython window of the crawler (GUI3.0.py), which is layout
  and one call of \<open>crawl\<close>; the comparison, printing and numeric operators of the frame classes; file
  locks; mutagen's Ogg FLAC, MP4, ASF and Musepack, which the crawler never opens and of which
  only the score functions are modelled; eyeD3, from which the crawler reads two strings; the vendored
  PyGame, installers and build copies, which are other projects; the iOS client and the Java server,
  which are not Python.

\<close>

end
